(* ===== verification/Scheduler_Prelude.thy ===== *)
theory Scheduler_Prelude
  imports Main "HOL-Library.AList"
begin

text \<open>
  Shared vocabulary of the development: C++ exceptions as values, the sequencing of
  fallible steps, the string helpers of \<^verbatim>\<open>zschimmer/base.h\<close> that several components use, and
  the generic facts about lists, association lists and results that the component proofs
  rewrite with.

  A function that may throw returns \<^verbatim>\<open>'a result\<close>. \<^verbatim>\<open>Xc code\<close> is \<^verbatim>\<open>z::throw_xc( code, ... )\<close>
  (the insertions only fill the message text and are left out); \<^verbatim>\<open>Assertion where\<close> is a failed
  \<^verbatim>\<open>assert()\<close>. An assertion is compiled out in a release build (\<^verbatim>\<open>-DNDEBUG\<close>), so every component
  that keeps assertions as values also proves that they are unreachable from its invariant.
\<close>

datatype xc = Xc string | Assertion string

type_synonym 'a result = "xc + 'a"

definition bind_r :: "'a result \<Rightarrow> ('a \<Rightarrow> 'b result) \<Rightarrow> 'b result" where
  "bind_r m f = (case m of Inl e \<Rightarrow> Inl e | Inr a \<Rightarrow> f a)"

lemma bind_r_simps [simp]:
  "bind_r (Inl e) f = Inl e"
  "bind_r (Inr a) f = f a"
  by (simp_all add: bind_r_def)

lemma bind_r_Inr_iff: "bind_r m f = Inr b \<longleftrightarrow> (\<exists>a. m = Inr a \<and> f a = Inr b)"
  by (cases m) auto

lemma bind_r_InrE:
  assumes "bind_r m f = Inr b"
  obtains a where "m = Inr a" "f a = Inr b"
  using assms by (auto simp: bind_r_Inr_iff)

lemma bind_r_cong [fundef_cong]:
  "m = m' \<Longrightarrow> (\<And>a. m' = Inr a \<Longrightarrow> f a = g a) \<Longrightarrow> bind_r m f = bind_r m' g"
  by (cases m') auto

section \<open>Operations on a state\<close>

text \<open>
  An operation that may throw is a function from the state to a result and the state it leaves in either
  case. \<open>bind_s\<close> runs one operation after another and stops at the first exception.
\<close>

type_synonym ('s, 'a) operation = "'s \<Rightarrow> 'a result \<times> 's"

definition ret :: "'a \<Rightarrow> ('s, 'a) operation" where
  "ret a w = (Inr a, w)"

definition throw :: "xc \<Rightarrow> ('s, 'a) operation" where
  "throw e w = (Inl e, w)"

definition bind_s :: "('s, 'a) operation \<Rightarrow> ('a \<Rightarrow> ('s, 'b) operation) \<Rightarrow> ('s, 'b) operation" where
  "bind_s m f w = (case m w of (Inl e, w') \<Rightarrow> (Inl e, w') | (Inr a, w') \<Rightarrow> f a w')"

text \<open>
  Operations that only read or only change the state, or only throw; operations under a condition, and a list
  of them one after another.
\<close>

definition read_s :: "('s \<Rightarrow> 'a) \<Rightarrow> ('s, 'a) operation" where
  "read_s f w = (Inr (f w), w)"

definition try_s :: "('s \<Rightarrow> 'a result) \<Rightarrow> ('s, 'a) operation" where
  "try_s f w = (f w, w)"

definition if_s :: "('s \<Rightarrow> bool) \<Rightarrow> ('s, 'a) operation \<Rightarrow> ('s, 'a) operation \<Rightarrow> ('s, 'a) operation" where
  "if_s c m n w = (if c w then m w else n w)"

definition apply_s :: "('s \<Rightarrow> 's) \<Rightarrow> ('s, unit) operation" where
  "apply_s f w = (Inr (), f w)"

definition when_s :: "('s \<Rightarrow> bool) \<Rightarrow> ('s, unit) operation \<Rightarrow> ('s, unit) operation" where
  "when_s c m w = (if c w then m w else (Inr (), w))"

definition assert_s :: "string \<Rightarrow> ('s \<Rightarrow> bool) \<Rightarrow> ('s, unit) operation" where
  "assert_s here c w = (if c w then Inr () else Inl (Assertion here), w)"

fun steps :: "('s, unit) operation list \<Rightarrow> ('s, unit) operation" where
  "steps [] w = (Inr (), w)"
| "steps (m # ms) w = (case m w of (Inl e, w') \<Rightarrow> (Inl e, w') | (Inr _, w') \<Rightarrow> steps ms w')"

text \<open>
  Partial correctness of an operation: started in a state with \<open>P\<close>, it ends in one with \<open>Q\<close>, or throws and
  leaves one with \<open>R\<close>.
\<close>

definition hoare :: "('s \<Rightarrow> bool) \<Rightarrow> ('s, 'a) operation \<Rightarrow> ('a \<Rightarrow> 's \<Rightarrow> bool) \<Rightarrow> ('s \<Rightarrow> bool) \<Rightarrow> bool" where
  "hoare P m Q R =
     ((\<forall>w a w'. P w \<longrightarrow> m w = (Inr a, w') \<longrightarrow> Q a w') \<and> (\<forall>w e w'. P w \<longrightarrow> m w = (Inl e, w') \<longrightarrow> R w'))"

lemma hoareI:
  "(\<And>w a w'. P w \<Longrightarrow> m w = (Inr a, w') \<Longrightarrow> Q a w') \<Longrightarrow> (\<And>w e w'. P w \<Longrightarrow> m w = (Inl e, w') \<Longrightarrow> R w')
   \<Longrightarrow> hoare P m Q R"
  by (simp add: hoare_def)

lemma hoareD: "hoare P m Q R \<Longrightarrow> P w \<Longrightarrow> m w = (Inr a, w') \<Longrightarrow> Q a w'"
  "hoare P m Q R \<Longrightarrow> P w \<Longrightarrow> m w = (Inl e, w') \<Longrightarrow> R w'"
  by (simp_all add: hoare_def)

lemma hoare_snd: "hoare P m (\<lambda>_. Q) Q \<Longrightarrow> P w \<Longrightarrow> Q (snd (m w))"
  by (cases "m w"; cases "fst (m w)") (auto dest: hoareD)

lemma hoare_weaken: "hoare P m Q R \<Longrightarrow> (\<And>w. P' w \<Longrightarrow> P w) \<Longrightarrow> hoare P' m Q R"
  unfolding hoare_def by blast

lemma hoare_strengthen:
  "hoare P m Q R \<Longrightarrow> (\<And>a w. Q a w \<Longrightarrow> Q' a w) \<Longrightarrow> (\<And>w. R w \<Longrightarrow> R' w) \<Longrightarrow> hoare P m Q' R'"
  unfolding hoare_def by blast

lemma hoare_steps_Nil: "(\<And>w. P w \<Longrightarrow> Q () w) \<Longrightarrow> hoare P (steps []) Q R"
  by (simp add: hoare_def)

lemma hoare_steps_Cons:
  assumes "hoare P m (\<lambda>_. P') R" "hoare P' (steps ms) Q R"
  shows "hoare P (steps (m # ms)) Q R"
  using assms by (intro hoareI) (auto dest: hoareD split: prod.splits sum.splits)

lemma hoare_bind_s:
  assumes "hoare P m P' R" "\<And>a. hoare (P' a) (f a) Q R"
  shows "hoare P (bind_s m f) Q R"
  using assms by (intro hoareI) (auto simp: bind_s_def dest: hoareD split: prod.splits sum.splits)

lemma hoare_total: "(\<And>w. P w \<Longrightarrow> \<exists>w'. m w = (Inr (), w') \<and> Q w') \<Longrightarrow> hoare P m (\<lambda>_. Q) E"
  by (rule hoareI) force+

lemma hoare_disj: "hoare P m Q R \<Longrightarrow> hoare P' m Q R \<Longrightarrow> hoare (\<lambda>w. P w \<or> P' w) m Q R"
  unfolding hoare_def by blast

lemma hoare_read_value: "(\<And>a. hoare P (g a) Q R) \<Longrightarrow> hoare P (bind_s (read_s f) g) Q R"
  by (auto simp: hoare_def bind_s_def read_s_def)

lemma hoare_when_s:
  "hoare (\<lambda>w. P w \<and> c w) m Q R \<Longrightarrow> (\<And>w. P w \<Longrightarrow> \<not> c w \<Longrightarrow> Q () w) \<Longrightarrow> hoare P (when_s c m) Q R"
  by (auto simp: hoare_def when_s_def)

lemma hoare_if_s:
  "hoare (\<lambda>w. P w \<and> c w) m Q R \<Longrightarrow> hoare (\<lambda>w. P w \<and> \<not> c w) n Q R \<Longrightarrow> hoare P (if_s c m n) Q R"
  by (auto simp: hoare_def if_s_def)

lemma hoare_apply_s: "(\<And>w. P w \<Longrightarrow> Q () (f w)) \<Longrightarrow> hoare P (apply_s f) Q R"
  by (simp add: hoare_def apply_s_def)

lemma hoare_ret: "(\<And>w. P w \<Longrightarrow> Q a w) \<Longrightarrow> hoare P (ret a) Q R"
  by (simp add: hoare_def ret_def)

lemma hoare_throw: "(\<And>w. P w \<Longrightarrow> R w) \<Longrightarrow> hoare P (throw e) Q R"
  by (simp add: hoare_def throw_def)

lemma hoare_assert_s: "(\<And>w. P w \<Longrightarrow> c w \<Longrightarrow> Q () w) \<Longrightarrow> (\<And>w. P w \<Longrightarrow> R w) \<Longrightarrow> hoare P (assert_s h c) Q R"
  by (auto simp: hoare_def assert_s_def)

text \<open>An operation that keeps a property, whether it ends or throws.\<close>

definition keeps :: "('s \<Rightarrow> bool) \<Rightarrow> ('s, 'a) operation \<Rightarrow> bool" where
  "keeps I m = hoare I m (\<lambda>_. I) I"

named_theorems keep_rules \<open>rules for operations that keep a property\<close>

lemma keepsD: "keeps I m \<Longrightarrow> I w \<Longrightarrow> I (snd (m w))"
  unfolding keeps_def by (rule hoare_snd)

lemma keeps_hoare: "keeps I m \<Longrightarrow> hoare I m (\<lambda>_. I) I"
  by (simp add: keeps_def)

lemma keepsI: "(\<And>w. I w \<Longrightarrow> I (snd (m w))) \<Longrightarrow> keeps I m"
  unfolding keeps_def by (rule hoareI) force+

lemma keeps_prod: "(\<And>a b. keeps I (f a b)) \<Longrightarrow> keeps I (case r of (a, b) \<Rightarrow> f a b)"
  by (cases r) simp

lemma keeps_steps_Nil [keep_rules]: "keeps I (steps [])"
  unfolding keeps_def by (rule hoare_steps_Nil)

lemma keeps_steps_Cons [keep_rules]: "keeps I m \<Longrightarrow> keeps I (steps ms) \<Longrightarrow> keeps I (steps (m # ms))"
  unfolding keeps_def by (rule hoare_steps_Cons)

lemma keeps_steps_map [keep_rules]: "(\<And>x. keeps I (f x)) \<Longrightarrow> keeps I (steps (map f xs))"
  by (induction xs) (auto intro: keep_rules)

lemma keeps_when_s [keep_rules]: "keeps I m \<Longrightarrow> keeps I (when_s c m)"
  unfolding keeps_def by (rule hoare_when_s, erule hoare_weaken) simp_all

lemma keeps_bind_s [keep_rules]: "keeps I m \<Longrightarrow> (\<And>a. keeps I (f a)) \<Longrightarrow> keeps I (bind_s m f)"
  unfolding keeps_def by (rule hoare_bind_s)

lemma keeps_apply_s: "(\<And>w. I w \<Longrightarrow> I (f w)) \<Longrightarrow> keeps I (apply_s f)"
  unfolding keeps_def by (rule hoare_apply_s)

lemma keeps_ret [keep_rules]: "keeps I (ret a)" "keeps I (throw e)" "keeps I (assert_s h c)"
  unfolding keeps_def by (rule hoare_ret hoare_throw hoare_assert_s; simp)+

lemma keeps_read_s [keep_rules]: "keeps I (read_s f)" "keeps I (try_s g)"
  by (simp_all add: keepsI read_s_def try_s_def)

lemma keeps_if_s [keep_rules]: "keeps I m \<Longrightarrow> keeps I n \<Longrightarrow> keeps I (if_s c m n)"
  by (rule keepsI) (simp add: if_s_def keepsD)

lemma keeps_option [keep_rules]:
  "keeps I m \<Longrightarrow> (\<And>a. keeps I (f a)) \<Longrightarrow> keeps I (case r of None \<Rightarrow> m | Some a \<Rightarrow> f a)"
  by (cases r) simp_all

lemma keeps_if [keep_rules]: "keeps I m \<Longrightarrow> keeps I n \<Longrightarrow> keeps I (if b then m else n)"
  by simp

lemma bind_s_Inl: "m w = (Inl e, w1) \<Longrightarrow> bind_s m f w = (Inl e, w1)"
  by (simp add: bind_s_def)

lemma bind_s_Inr: "m w = (Inr a, w1) \<Longrightarrow> bind_s m f w = f a w1"
  by (simp add: bind_s_def)

lemma bind_s_case:
  "bind_s m f w = (res, w') \<Longrightarrow>
   (\<exists>e. m w = (Inl e, w') \<and> res = Inl e) \<or> (\<exists>a w1. m w = (Inr a, w1) \<and> f a w1 = (res, w'))"
  by (auto simp: bind_s_def split: prod.splits sum.splits)

text \<open>What is known of an operation that has ended without an exception.\<close>

named_theorems run_simps \<open>the parts of an operation that has ended\<close>

lemma bind_s_Inr_iff [run_simps]: "bind_s m f w = (Inr b, w') \<longleftrightarrow> (\<exists>a w1. m w = (Inr a, w1) \<and> f a w1 = (Inr b, w'))"
  by (auto simp: bind_s_def split: prod.splits sum.splits)

lemma steps_Inr_iff [run_simps]:
  "steps [] w = (Inr x, w') \<longleftrightarrow> w' = w"
  "steps (m # ms) w = (Inr x, w') \<longleftrightarrow> (\<exists>w1. m w = (Inr (), w1) \<and> steps ms w1 = (Inr x, w'))"
  by (auto split: prod.splits sum.splits)

lemma simple_Inr_iff [run_simps]:
  "read_s f w = (Inr b, w') \<longleftrightarrow> b = f w \<and> w' = w" "try_s g w = (Inr b, w') \<longleftrightarrow> g w = Inr b \<and> w' = w"
  "ret c w = (Inr b, w') \<longleftrightarrow> b = c \<and> w' = w" "throw e w \<noteq> (Inr b, w')"
  "apply_s k w = (Inr x, w') \<longleftrightarrow> w' = k w"
  "assert_s here d w = (Inr x, w') \<longleftrightarrow> d w \<and> w' = w"
  by (auto simp: read_s_def try_s_def ret_def throw_def apply_s_def assert_s_def)

lemma when_s_Inr_iff [run_simps]:
  "when_s d m w = (Inr x, w') \<longleftrightarrow> (d w \<and> m w = (Inr x, w') \<or> \<not> d w \<and> w' = w)"
  by (auto simp: when_s_def)

lemma if_s_Inr_iff [run_simps]:
  "if_s d m n w = (Inr b, w') \<longleftrightarrow> (d w \<and> m w = (Inr b, w') \<or> \<not> d w \<and> n w = (Inr b, w'))"
  by (auto simp: if_s_def)

section \<open>Limits of types\<close>

text \<open>\<^verbatim>\<open>INT_MAX\<close>.\<close>

definition int_max :: int where
  "int_max = 2147483647"

section \<open>String helpers\<close>

text \<open>
  \<^verbatim>\<open>vector_split\<close> with a one-character separator and no limit: the pieces between the separators, empty
  pieces included, except for those at the end. The empty string has no piece at all (early return in the source).
\<close>

fun split_on :: "'a \<Rightarrow> 'a list \<Rightarrow> 'a list list" where
  "split_on sep [] = [[]]"
| "split_on sep (c # cs) =
     (if c = sep then [] # split_on sep cs
      else (case split_on sep cs of [] \<Rightarrow> [[c]] | p # ps \<Rightarrow> (c # p) # ps))"

definition vector_split :: "char \<Rightarrow> string \<Rightarrow> string list" where
  "vector_split sep str = (if str = [] then [] else rev (dropWhile (\<lambda>p. p = []) (rev (split_on sep str))))"

fun join :: "string \<Rightarrow> string list \<Rightarrow> string" where
  "join glue [] = []"
| "join glue [x] = x"
| "join glue (x # y # xs) = x @ glue @ join glue (y # xs)"

definition string_ends_with :: "string \<Rightarrow> string \<Rightarrow> bool" where
  "string_ends_with str suffix =
     (length suffix \<le> length str \<and> drop (length str - length suffix) str = suffix)"

definition string_begins_with :: "string \<Rightarrow> string \<Rightarrow> bool" where
  "string_begins_with str prefix = (take (length prefix) str = prefix)"

lemma split_on_nonempty [simp]: "split_on sep cs \<noteq> []"
  by (induction cs) (auto split: list.splits)

lemma split_on_no_sep: "sep \<notin> set cs \<Longrightarrow> split_on sep cs = [cs]"
  by (induction cs) auto

lemma split_on_pieces: "p \<in> set (split_on sep cs) \<Longrightarrow> sep \<notin> set p"
  by (induction cs arbitrary: p) (auto split: if_splits list.splits)

lemma split_on_append:
  "sep \<notin> set p \<Longrightarrow> split_on sep (p @ sep # cs) = p # split_on sep cs"
  by (induction p) auto

lemma split_on_append_sep:
  "split_on sep (cs @ [sep]) = split_on sep cs @ [[]]"
proof (induction cs)
  case (Cons c cs)
  then show ?case by (cases "split_on sep cs") auto
qed simp

lemma split_on_concat: "split_on sep (as @ sep # bs) = split_on sep as @ split_on sep bs"
proof (induction as)
  case (Cons a as)
  then show ?case by (cases "split_on sep as") auto
qed simp

lemma split_on_join:
  "\<forall>p \<in> set ps. sep \<notin> set p \<Longrightarrow> ps \<noteq> [] \<Longrightarrow> split_on sep (join [sep] ps) = ps"
proof (induction ps)
  case (Cons x xs)
  then show ?case by (cases xs) (auto simp: split_on_append split_on_no_sep)
qed simp

lemma join_split_on: "join [sep] (split_on sep cs) = cs"
proof (induction cs)
  case (Cons c cs)
  then show ?case
    by (cases "split_on sep cs"; cases "tl (split_on sep cs)") auto
qed simp

lemma join_eq_Nil: "\<forall>p \<in> set ps. p \<noteq> [] \<Longrightarrow> join glue ps = [] \<longleftrightarrow> ps = []"
  by (induction glue ps rule: join.induct) auto

lemma string_ends_with_single: "string_ends_with str [c] \<longleftrightarrow> str \<noteq> [] \<and> last str = c"
proof (cases str rule: rev_cases)
  case (snoc ys y)
  then show ?thesis by (simp add: string_ends_with_def)
qed (simp add: string_ends_with_def)

text \<open>Scanning a string backwards for the last separator.\<close>

lemma scan_back:
  assumes "sep \<notin> set l"
  shows "rev (takeWhile (\<lambda>c. c \<noteq> sep) (rev (q @ sep # l))) = l"
    and "rev (dropWhile (\<lambda>c. c \<noteq> sep) (rev (q @ sep # l))) = q @ [sep]"
proof -
  have *: "\<forall>c \<in> set (rev l). c \<noteq> sep" using assms by auto
  then show "rev (takeWhile (\<lambda>c. c \<noteq> sep) (rev (q @ sep # l))) = l"
    by (simp add: takeWhile_append)
  from * show "rev (dropWhile (\<lambda>c. c \<noteq> sep) (rev (q @ sep # l))) = q @ [sep]"
    by (simp add: dropWhile_append)
qed

lemma scan_back_none:
  assumes "sep \<notin> set l"
  shows "rev (takeWhile (\<lambda>c. c \<noteq> sep) (rev l)) = l" "dropWhile (\<lambda>c. c \<noteq> sep) (rev l) = []"
proof -
  have "\<forall>c \<in> set (rev l). c \<noteq> sep" using assms by auto
  then show "rev (takeWhile (\<lambda>c. c \<noteq> sep) (rev l)) = l" "dropWhile (\<lambda>c. c \<noteq> sep) (rev l) = []"
    by (simp_all only: takeWhile_eq_all_conv [THEN iffD2] rev_rev_ident dropWhile_eq_Nil_conv)
qed

section \<open>Association lists and lists\<close>

text \<open>
  The containers of the source that are keyed (\<^verbatim>\<open>hash_map\<close>, \<^verbatim>\<open>map\<close>) are association lists with
  distinct keys; \<^verbatim>\<open>AList.update\<close> and \<^verbatim>\<open>AList.delete\<close> are \<^verbatim>\<open>m[k] = v\<close> and \<^verbatim>\<open>m.erase(k)\<close>.
\<close>

definition keys :: "('k \<times> 'v) list \<Rightarrow> 'k list" where
  "keys m = map fst m"

named_theorems assoc_simps \<open>rewriting of association lists with distinct keys\<close>

lemma keys_Nil [simp]: "keys [] = []"
  by (simp add: keys_def)

lemma keys_Cons [simp]: "keys (p # m) = fst p # keys m"
  by (simp add: keys_def)

lemma length_keys [simp]: "length (keys m) = length m"
  by (simp add: keys_def)

lemma keys_eq_Nil [simp]: "keys m = [] \<longleftrightarrow> m = []"
  by (simp add: keys_def)

lemma set_keys: "set (keys m) = dom (map_of m)"
  by (simp add: keys_def dom_map_of_conv_image_fst)

lemma map_of_None_keys: "map_of m k = None \<longleftrightarrow> k \<notin> set (keys m)"
  by (simp add: keys_def map_of_eq_None_iff)

lemma map_of_Some_keys: "map_of m k = Some v \<Longrightarrow> k \<in> set (keys m)"
  by (metis map_of_None_keys option.distinct(1))

lemma map_of_update [assoc_simps]: "map_of (AList.update k v m) = (map_of m)(k \<mapsto> v)"
  by (simp add: update_conv')

lemma map_of_delete [assoc_simps]: "map_of (AList.delete k m) = (map_of m)(k := None)"
  by (simp add: delete_conv')

lemma distinct_keys_update [assoc_simps]:
  "distinct (keys m) \<Longrightarrow> distinct (keys (AList.update k v m))"
  by (simp add: keys_def distinct_update)

lemma distinct_keys_delete [assoc_simps]:
  "distinct (keys m) \<Longrightarrow> distinct (keys (AList.delete k m))"
  by (simp add: keys_def distinct_delete)

lemma set_keys_update [assoc_simps]: "set (keys (AList.update k v m)) = insert k (set (keys m))"
  by (auto simp: set_keys map_of_update)

lemma set_keys_delete [assoc_simps]: "set (keys (AList.delete k m)) = set (keys m) - {k}"
  by (auto simp: set_keys map_of_delete)

lemma length_update_old [assoc_simps]:
  "k \<in> set (keys m) \<Longrightarrow> length (AList.update k v m) = length m"
  by (induction m) auto

lemma length_update_new [assoc_simps]:
  "k \<notin> set (keys m) \<Longrightarrow> length (AList.update k v m) = Suc (length m)"
  by (induction m) auto

lemma length_delete_le: "length (AList.delete k m) \<le> length m"
  by (simp add: AList.delete_eq)

lemma update_not_Nil [simp]: "AList.update k v m \<noteq> []"
  by (induction m) auto

lemma delete_absent: "k \<notin> set (keys m) \<Longrightarrow> AList.delete k m = m"
  by (simp add: keys_def AList.delete_idem)

lemma singleton_keys:
  "length m = 1 \<Longrightarrow> map_of m k = Some v \<Longrightarrow> m = [(k, v)]"
  by (cases m) (auto split: if_splits)

lemma remove1_absent: "x \<notin> set xs \<Longrightarrow> remove1 x xs = xs"
  by (rule remove1_idem)

lemma set_remove1_distinct: "distinct xs \<Longrightarrow> set (remove1 x xs) = set xs - {x}"
  by (rule set_remove1_eq)

end
