(* ===== verification/Scheduler_Path.thy ===== *)
theory Scheduler_Path
  imports Scheduler_Prelude
begin

text \<open>
  \<^verbatim>\<open>scheduler/path.cxx\<close> and \<^verbatim>\<open>path.h\<close>: the paths that name every configuration object (jobs, locks,
  job chains, ...). \<^verbatim>\<open>Path\<close> is a string that is simplified whenever it is assigned, so it is modelled
  as a string with the assigning operations returning the simplified string or the exception
  \<^verbatim>\<open>SCHEDULER-461\<close>. \<^verbatim>\<open>Absolute_path\<close> is the subclass whose strings begin with a slash.

  The specification of the simplification is \<^verbatim>\<open>walk\<close>: what a sequence of path components does to a
  current directory. The lemmas show that the in-place list surgery of
  \<^verbatim>\<open>simplified_dot_dot_path\<close> keeps this meaning, yields a canonical form and throws exactly when the
  path leaves the root.
\<close>

section \<open>Operations\<close>

abbreviation folder_separator :: char where "folder_separator \<equiv> CHR ''/''"

abbreviation dot :: string where "dot \<equiv> ''.''"
abbreviation dotdot :: string where "dotdot \<equiv> ''..''"

definition is_absolute_path :: "string \<Rightarrow> bool" where
  "is_absolute_path path = (case path of [] \<Rightarrow> False | c # _ \<Rightarrow> c = folder_separator)"

text \<open>
  The loop over \<^verbatim>\<open>part_list\<close>. The iterator \<^verbatim>\<open>p\<close> splits the list: \<open>before\<close> holds the parts left of
  \<^verbatim>\<open>p\<close>, nearest first, and the second list is \<^verbatim>\<open>*p\<close> and what follows.
\<close>

fun resolve_dots :: "bool \<Rightarrow> string list \<Rightarrow> string list \<Rightarrow> string list result" where
  "resolve_dots is_absolute before [] = Inr (rev before)"
| "resolve_dots is_absolute before (p # after) =
     (if p = dot then resolve_dots is_absolute before after
      else if p = dotdot then
        (case before of
           [] \<Rightarrow> (if is_absolute then Inl (Xc ''SCHEDULER-461'')
                 else resolve_dots is_absolute [p] after)
         | q # before' \<Rightarrow>
             if q = dotdot then
               (if is_absolute then Inl (Assertion ''simplified_dot_dot_path'')
                else resolve_dots is_absolute (p # before) after)
             else resolve_dots is_absolute before' after)
      else resolve_dots is_absolute (p # before) after)"

definition parts_of :: "string \<Rightarrow> string list" where
  "parts_of path = filter (\<lambda>p. p \<noteq> []) (vector_split folder_separator path)"

definition build_path :: "string \<Rightarrow> string list \<Rightarrow> string" where
  "build_path path part_list =
     (let result = (if is_absolute_path path then ''/'' else []) @ join ''/'' part_list
      in if result = [] then dot
         else if part_list \<noteq> [] \<and> string_ends_with path ''/'' then result @ ''/''
         else result)"

definition simplified_path :: "string \<Rightarrow> string result" where
  "simplified_path path =
     (if CHR ''.'' \<notin> set path \<and> CHR ''/'' \<notin> set path then Inr path
      else bind_r (resolve_dots (is_absolute_path path) [] (parts_of path))
             (\<lambda>part_list. Inr (build_path path part_list)))"

text \<open>\<^verbatim>\<open>Path::Path( folder_path, tail_path )\<close>: glue the two with exactly one separator, then simplify.\<close>

definition glue_paths :: "string \<Rightarrow> string \<Rightarrow> string" where
  "glue_paths folder tail =
     (if folder \<noteq> [] \<and> last folder \<noteq> folder_separator then folder @ ''/'' else folder)
     @ (if tail \<noteq> [] \<and> folder \<noteq> [] \<and> hd tail = folder_separator then tl tail else tail)"

definition new_path :: "string \<Rightarrow> string \<Rightarrow> string result" where
  "new_path folder tail =
     (if length folder + length tail = 0 then Inr [] else simplified_path (glue_paths folder tail))"

definition is_root :: "string \<Rightarrow> bool" where
  "is_root path = (path = ''/'')"

text \<open>\<^verbatim>\<open>Path::name\<close> and \<^verbatim>\<open>Path::folder_path\<close> scan from the end of the string for the separator.\<close>

definition path_name :: "string \<Rightarrow> string" where
  "path_name path = rev (takeWhile (\<lambda>c. c \<noteq> folder_separator) (rev path))"

definition folder_part :: "string \<Rightarrow> string" where
  "folder_part path =
     (let q = rev (dropWhile (\<lambda>c. c \<noteq> folder_separator) (rev path))
      in if length q > 1 then butlast q else q)"

definition folder_path :: "string \<Rightarrow> string result" where
  "folder_path path = simplified_path (folder_part path)"

definition root_folder_name :: "string \<Rightarrow> string" where
  "root_folder_name path =
     (if folder_separator \<in> set path then takeWhile (\<lambda>c. c \<noteq> folder_separator) path else [])"

definition set_name :: "string \<Rightarrow> string \<Rightarrow> string result" where
  "set_name path name =
     (if CHR ''/'' \<in> set name then Inl (Xc ''SCHEDULER-417'')
      else bind_r (folder_path path) (\<lambda>f.
        simplified_path ((if f \<noteq> [] then f @ ''/'' else f) @ name)))"

definition set_folder_path :: "string \<Rightarrow> string \<Rightarrow> string result" where
  "set_folder_path path folder = bind_r (new_path folder (path_name path)) simplified_path"

text \<open>\<^verbatim>\<open>Path::set_absolute\<close>, the constructor \<^verbatim>\<open>Absolute_path( absolute_directory, path )\<close>.\<close>

definition set_absolute :: "string \<Rightarrow> string \<Rightarrow> string result" where
  "set_absolute absolute_base relative =
     (if absolute_base = [] \<and> relative = [] then Inr []
      else if absolute_base = [] then Inl (Assertion ''Path::set_absolute'')
      else if relative = [] then Inr []
      else if is_absolute_path relative then simplified_path relative
      else bind_r (new_path absolute_base relative) simplified_path)"

definition absolute_path :: "string \<Rightarrow> string \<Rightarrow> string result" where
  "absolute_path absolute_directory path =
     bind_r (simplified_path path) (set_absolute absolute_directory)"

definition absolute_of_path :: "string \<Rightarrow> string result" where
  "absolute_of_path path =
     (if path \<noteq> [] \<and> \<not> is_absolute_path path then Inl (Xc ''Absolute_path'')
      else simplified_path path)"

definition without_slash :: "string \<Rightarrow> string" where
  "without_slash path = (if path = [] then [] else drop 1 path)"

text \<open>
  \<^verbatim>\<open>Path::to_filename\<close>. \<^verbatim>\<open>strchr( set, c )\<close> also finds the terminating NUL of the set, so the
  character 0 is replaced as well.
\<close>

definition not_in_filename :: "char \<Rightarrow> bool" where
  "not_in_filename c =
     (of_char c < (32 :: nat) \<or> c \<in> {CHR ''<'', CHR ''>'', CHR '':'', CHR 0x22, CHR ''/'', CHR 0x5C, CHR ''|''})"

definition filename_char :: "char \<Rightarrow> char" where
  "filename_char c =
     (let c1 = (if c = CHR ''/'' then CHR '','' else c)
      in if not_in_filename c1 then CHR ''_'' else c1)"

definition to_filename :: "string \<Rightarrow> string" where
  "to_filename path =
     map filename_char (if string_begins_with path ''/'' then drop 1 path else path)"

text \<open>
  \<^verbatim>\<open>File_based_subsystem::normalized_path\<close> with the default \<^verbatim>\<open>normalized_name\<close> (the identity): the
  folders are normalised from the innermost outwards. \<^verbatim>\<open>None\<close> would be an endless recursion.
\<close>

partial_function (option) normalized_path :: "string \<Rightarrow> string result option" where
  "normalized_path path =
     (case folder_path path of
        Inl e \<Rightarrow> Some (Inl e)
      | Inr folder \<Rightarrow>
          if is_root folder \<or> folder = [] then Some (new_path folder (path_name path))
          else Option.bind (normalized_path folder)
                 (\<lambda>r. Some (bind_r r (\<lambda>f. new_path f (path_name path)))))"

section \<open>Specification of the simplification\<close>

text \<open>
  \<^verbatim>\<open>walk\<close> follows path components from a current directory, given as the stack of folder names,
  innermost first. Leaving the root is \<^verbatim>\<open>None\<close>.
\<close>

fun walk :: "string list \<Rightarrow> string list \<Rightarrow> string list option" where
  "walk st [] = Some st"
| "walk st (p # ps) =
     (if p = dot then walk st ps
      else if p = dotdot then (case st of [] \<Rightarrow> None | _ # st' \<Rightarrow> walk st' ps)
      else walk (p # st) ps)"

text \<open>
  The canonical component lists, read from the last component: no empty component and no
  \<^verbatim>\<open>.\<close>, and \<^verbatim>\<open>..\<close> only at the beginning of a relative path.
\<close>

fun canon_rev :: "bool \<Rightarrow> string list \<Rightarrow> bool" where
  "canon_rev ab [] = True"
| "canon_rev ab (p # before) =
     (p \<noteq> [] \<and> p \<noteq> dot \<and> (p = dotdot \<longrightarrow> \<not> ab \<and> list_all (\<lambda>q. q = dotdot) before)
      \<and> canon_rev ab before)"

definition canonical :: "bool \<Rightarrow> string list \<Rightarrow> bool" where
  "canonical ab ps = canon_rev ab (rev ps)"

lemma walk_append: "walk st (xs @ ys) = Option.bind (walk st xs) (\<lambda>st'. walk st' ys)"
  by (induction st xs rule: walk.induct) (auto split: list.splits)

lemma canonical_Nil [simp]: "canonical ab []"
  by (simp add: canonical_def)

lemma canonical_snocD: "canonical ab (ps @ [p]) \<Longrightarrow> canonical ab ps"
  by (simp add: canonical_def)

lemma canon_rev_nonempty: "canon_rev ab ps \<Longrightarrow> p \<in> set ps \<Longrightarrow> p \<noteq> [] \<and> p \<noteq> dot"
  by (induction ps) auto

lemma canonical_nonempty: "canonical ab ps \<Longrightarrow> p \<in> set ps \<Longrightarrow> p \<noteq> []"
  using canon_rev_nonempty by (fastforce simp: canonical_def)

lemma canon_rev_absolute: "canon_rev True ps \<Longrightarrow> dotdot \<notin> set ps"
  by (induction ps) auto

lemma canon_rev_append: "canon_rev ab (xs @ ys) \<Longrightarrow> canon_rev ab ys"
  by (induction xs) auto

lemma resolve_dots_canonical:
  "canon_rev ab before \<Longrightarrow> \<forall>p \<in> set ps. p \<noteq> [] \<Longrightarrow> resolve_dots ab before ps = Inr qs \<Longrightarrow>
   canonical ab qs"
  by (induction ab before ps rule: resolve_dots.induct)
    (auto simp: canonical_def split: if_splits list.splits)

lemma resolve_dots_fixpoint:
  "canon_rev ab (rev ps @ before) \<Longrightarrow> resolve_dots ab before ps = Inr (rev before @ ps)"
proof (induction ps arbitrary: before)
  case (Cons p ps)
  then have "canon_rev ab (p # before)"
    using canon_rev_append [of ab "rev ps" "p # before"] by simp
  with Cons show ?case
    by (auto split: list.splits)
qed simp

lemma resolve_dots_walk:
  "canon_rev ab before \<Longrightarrow> \<forall>p \<in> set ps. p \<noteq> [] \<Longrightarrow> resolve_dots ab before ps = Inr qs \<Longrightarrow>
   walk st qs = walk st (rev before @ ps)"
proof (induction ab before ps rule: resolve_dots.induct)
  case (2 ab before p after)
  then show ?case
    by (auto simp: walk_append Option.bind_assoc fun_eq_iff split: if_splits list.splits
        intro!: arg_cong2 [where f = Option.bind])
qed simp

lemma resolve_dots_absolute:
  "canon_rev True before \<Longrightarrow> \<forall>p \<in> set ps. p \<noteq> [] \<Longrightarrow>
   resolve_dots True before ps =
     (case walk before ps of None \<Rightarrow> Inl (Xc ''SCHEDULER-461'') | Some st \<Rightarrow> Inr (rev st))"
  by (induction before ps rule: walk.induct) (auto split: list.splits)

lemma resolve_dots_relative: "\<exists>qs. resolve_dots False before ps = Inr qs"
  by (induction False before ps rule: resolve_dots.induct) (auto split: list.splits)

section \<open>The string form of a path\<close>

definition render :: "bool \<Rightarrow> string list \<Rightarrow> bool \<Rightarrow> string" where
  "render ab ps trailing =
     (if ab then ''/'' else []) @ join ''/'' ps @ (if trailing then ''/'' else [])"

text \<open>The empty pieces at the end, which \<^verbatim>\<open>vector_split\<close> drops, would be dropped anyway.\<close>

lemma filter_dropWhile: "filter P (dropWhile (\<lambda>x. \<not> P x) xs) = filter P xs"
  by (induction xs) simp_all

lemma parts_of_unfold: "parts_of path = filter (\<lambda>p. p \<noteq> []) (if path = [] then [] else split_on folder_separator path)"
  using filter_dropWhile [of "\<lambda>p. p \<noteq> []" "rev (split_on folder_separator path)"]
  by (simp add: parts_of_def vector_split_def rev_filter [symmetric])

lemma parts_of_pieces: "p \<in> set (parts_of path) \<Longrightarrow> p \<noteq> [] \<and> folder_separator \<notin> set p"
  by (auto simp: parts_of_unfold split: if_splits dest: split_on_pieces)

lemma resolve_dots_set:
  "resolve_dots ab before ps = Inr qs \<Longrightarrow> set qs \<subseteq> set before \<union> set ps"
  by (induction ab before ps rule: resolve_dots.induct) (auto split: if_splits list.splits)

lemma join_snoc: "join g (ps @ [p]) = (if ps = [] then p else join g ps @ g @ p)"
  by (induction g ps rule: join.induct) auto

lemma set_join: "set (join g ps) \<subseteq> set g \<union> \<Union> (set ` set ps)"
  by (induction g ps rule: join.induct) auto

lemma last_join:
  assumes "ps \<noteq> []" "\<forall>p \<in> set ps. p \<noteq> []"
  shows "last (join g ps) = last (last ps)"
  using assms by (induction g ps rule: join.induct) (auto simp: join_eq_Nil)

lemma hd_join:
  assumes "ps \<noteq> []" "\<forall>p \<in> set ps. p \<noteq> []"
  shows "hd (join g ps) = hd (hd ps)"
  using assms by (induction g ps rule: join.induct) auto

text \<open>Slash-free, non-empty component lists: what \<^verbatim>\<open>vector_split\<close> delivers and \<^verbatim>\<open>join\<close> restores.\<close>

definition pieces :: "string list \<Rightarrow> bool" where
  "pieces ps = list_all (\<lambda>p. p \<noteq> [] \<and> folder_separator \<notin> set p) ps"

lemma pieces_simps [simp]:
  "pieces []"
  "pieces (p # ps) \<longleftrightarrow> p \<noteq> [] \<and> folder_separator \<notin> set p \<and> pieces ps"
  "pieces (ps @ qs) \<longleftrightarrow> pieces ps \<and> pieces qs"
  by (auto simp: pieces_def)

lemma pieces_parts_of [simp]: "pieces (parts_of path)"
  by (auto simp: pieces_def list_all_iff dest: parts_of_pieces)

lemma pieces_mono: "set qs \<subseteq> set ps \<Longrightarrow> pieces ps \<Longrightarrow> pieces qs"
  by (auto simp: pieces_def list_all_iff)

lemma pieces_split:
  "pieces ps \<Longrightarrow> ps \<noteq> [] \<Longrightarrow> split_on folder_separator (join ''/'' ps) = ps"
  by (rule split_on_join) (auto simp: pieces_def list_all_iff)

lemma pieces_filter: "pieces ps \<Longrightarrow> filter (\<lambda>p. p \<noteq> []) ps = ps"
  by (induction ps) auto

lemma join_pieces_ends:
  assumes "pieces ps" "ps \<noteq> []"
  shows "join ''/'' ps \<noteq> []" "hd (join ''/'' ps) \<noteq> folder_separator"
    "last (join ''/'' ps) \<noteq> folder_separator"
proof -
  have ne: "\<forall>p \<in> set ps. p \<noteq> [] \<and> folder_separator \<notin> set p"
    using assms(1) by (auto simp: pieces_def list_all_iff)
  then show "join ''/'' ps \<noteq> []"
    using assms(2) by (simp add: join_eq_Nil)
  show "hd (join ''/'' ps) \<noteq> folder_separator"
    using ne assms(2) hd_join [of ps] by (metis hd_in_set)
  show "last (join ''/'' ps) \<noteq> folder_separator"
    using ne assms(2) last_join [of ps] by (metis last_in_set)
qed

lemma is_absolute_hd: "is_absolute_path p \<longleftrightarrow> p \<noteq> [] \<and> hd p = folder_separator"
  by (cases p) (auto simp: is_absolute_path_def)

lemma render_absolute [simp]:
  "pieces ps \<Longrightarrow> ps \<noteq> [] \<Longrightarrow> is_absolute_path (render ab ps tr) = ab"
  using join_pieces_ends [of ps] by (auto simp: render_def is_absolute_hd)

lemma render_ends [simp]:
  "pieces ps \<Longrightarrow> ps \<noteq> [] \<Longrightarrow> string_ends_with (render ab ps tr) ''/'' = tr"
  using join_pieces_ends [of ps] by (auto simp: render_def string_ends_with_single)

lemma render_parts [simp]:
  assumes "pieces ps" "ps \<noteq> []"
  shows "parts_of (render ab ps tr) = ps"
proof -
  have "split_on folder_separator (join ''/'' ps @ (if tr then ''/'' else [])) =
      ps @ (if tr then [[]] else [])"
    using assms by (simp add: split_on_append_sep pieces_split)
  then show ?thesis
    using assms join_pieces_ends [of ps]
    by (auto simp: parts_of_unfold render_def pieces_filter)
qed

lemma build_path_pieces:
  "pieces ps \<Longrightarrow> ps \<noteq> [] \<Longrightarrow>
   build_path path ps = render (is_absolute_path path) ps (string_ends_with path ''/'')"
  using join_pieces_ends(1) [of ps] by (auto simp: build_path_def render_def Let_def)

lemma build_path_Nil: "build_path path [] = (if is_absolute_path path then ''/'' else dot)"
  by (simp add: build_path_def)

lemma simplified_parts:
  assumes "resolve_dots (is_absolute_path path) [] (parts_of path) = Inr ps"
  shows "pieces ps" "canonical (is_absolute_path path) ps"
proof -
  show "pieces ps"
    using resolve_dots_set [OF assms] pieces_mono [of ps "parts_of path"] by simp
  show "canonical (is_absolute_path path) ps"
    using resolve_dots_canonical [OF _ _ assms] by (auto dest: parts_of_pieces)
qed

text \<open>
  The strings a \<^verbatim>\<open>Path\<close> can hold: a plain name, the two degenerate forms, or a rendered canonical
  component list.
\<close>

inductive simple_form :: "string \<Rightarrow> bool" where
  sf_empty: "simple_form []"
| sf_dot: "simple_form dot"
| sf_root: "simple_form ''/''"
| sf_render: "pieces ps \<Longrightarrow> ps \<noteq> [] \<Longrightarrow> canonical ab ps \<Longrightarrow> simple_form (render ab ps tr)"

lemma render_plain: "render False [p] False = p"
  by (simp add: render_def)

lemma simple_form_plain:
  assumes "CHR ''.'' \<notin> set p" "CHR ''/'' \<notin> set p"
  shows "simple_form p"
proof (cases "p = []")
  case False
  have "canonical False [p]"
    using assms False by (auto simp: canonical_def)
  then have "simple_form (render False [p] False)"
    using assms False by (intro sf_render) auto
  then show ?thesis by (simp add: render_plain)
qed (simp add: sf_empty)

lemma simplified_simple_form:
  assumes "simplified_path p = Inr r"
  shows "simple_form r"
proof (cases "CHR ''.'' \<notin> set p \<and> CHR ''/'' \<notin> set p")
  case True
  with assms show ?thesis by (auto simp: simplified_path_def simple_form_plain)
next
  case False
  with assms obtain ps where ps: "resolve_dots (is_absolute_path p) [] (parts_of p) = Inr ps"
    and r: "r = build_path p ps"
    by (auto simp: simplified_path_def bind_r_Inr_iff)
  show ?thesis
  proof (cases "ps = []")
    case True
    then show ?thesis by (auto simp: r build_path_Nil intro: simple_form.intros)
  next
    case ne: False
    then show ?thesis
      using simplified_parts [OF ps] by (simp add: r build_path_pieces sf_render)
  qed
qed

lemma simple_form_fixpoint: "simple_form r \<Longrightarrow> simplified_path r = Inr r"
proof (induction rule: simple_form.induct)
  case (sf_render ps ab tr)
  then have "resolve_dots ab [] ps = Inr ps"
    using resolve_dots_fixpoint [of ab ps "[]"] by (simp add: canonical_def)
  with sf_render show ?case
    by (simp add: simplified_path_def build_path_pieces)
qed (simp_all add: simplified_path_def is_absolute_path_def parts_of_unfold build_path_def)

lemma simplified_iff_simple_form: "simplified_path r = Inr r \<longleftrightarrow> simple_form r"
  using simplified_simple_form simple_form_fixpoint by blast

section \<open>Taking paths apart\<close>

lemma path_name_plain:
  assumes "folder_separator \<notin> set l"
  shows "path_name l = l" "folder_part l = []"
  by (simp_all only: path_name_def folder_part_def scan_back_none [OF assms] Let_def) auto

lemma path_name_split:
  assumes "folder_separator \<notin> set l"
  shows "path_name (q @ folder_separator # l) = l"
    and "folder_part (q @ folder_separator # l) = (if q = [] then ''/'' else q)"
  by (simp_all only: path_name_def folder_part_def scan_back [OF assms] Let_def) auto

lemma render_snoc:
  "render ab (ps @ [l]) False =
     (if ps = [] then (if ab then [] @ folder_separator # l else l)
      else render ab ps False @ folder_separator # l)"
  by (simp add: render_def join_snoc)

lemma render_trailing: "render ab ps True = render ab ps False @ folder_separator # []"
  by (simp add: render_def)

lemma render_last:
  "pieces ps \<Longrightarrow> ps \<noteq> [] \<Longrightarrow> render ab ps False \<noteq> [] \<and> last (render ab ps False) \<noteq> folder_separator"
  using join_pieces_ends [of ps] by (auto simp: render_def)

definition good_split :: "string \<Rightarrow> string \<Rightarrow> bool" where
  "good_split p folder \<longleftrightarrow>
     folder_path p = Inr folder \<and> simple_form folder \<and> new_path folder (path_name p) = Inr p
     \<and> (p \<noteq> [] \<and> p \<noteq> ''/'' \<longrightarrow> length folder < length p)"

lemma good_split_join:
  assumes "folder_separator \<notin> set l" "simple_form q" "q \<noteq> []" "last q \<noteq> folder_separator"
    and "simple_form (q @ folder_separator # l)"
  shows "good_split (q @ folder_separator # l) q"
proof -
  have "hd l \<noteq> folder_separator" if "l \<noteq> []" using assms(1) that by (cases l) auto
  then have "glue_paths q l = q @ folder_separator # l"
    using assms(3,4) by (auto simp: glue_paths_def)
  then show ?thesis
    using assms by (simp add: good_split_def folder_path_def path_name_split new_path_def
        simple_form_fixpoint)
qed

lemma good_split_root:
  assumes "folder_separator \<notin> set l" "simple_form (folder_separator # l)"
  shows "good_split (folder_separator # l) ''/''"
proof -
  have "hd l \<noteq> folder_separator" if "l \<noteq> []" using assms(1) that by (cases l) auto
  then have "glue_paths ''/'' l = folder_separator # l" by (auto simp: glue_paths_def)
  then show ?thesis
    using assms path_name_split [of l "[]"]
    by (auto simp: good_split_def folder_path_def new_path_def simple_form_fixpoint sf_root)
qed

lemma good_split_plain:
  assumes "folder_separator \<notin> set l" "simple_form l"
  shows "good_split l []"
  using assms path_name_plain [of l]
  by (auto simp: good_split_def folder_path_def new_path_def glue_paths_def simple_form_fixpoint sf_empty)

lemma simple_form_split: "simple_form p \<Longrightarrow> \<exists>folder. good_split p folder"
proof (induction rule: simple_form.induct)
  case sf_empty
  show ?case using good_split_plain [of "[]"] by (auto intro: simple_form.sf_empty)
next
  case sf_dot
  show ?case using good_split_plain [of dot] by (auto intro: simple_form.sf_dot)
next
  case sf_root
  show ?case using good_split_root [of "[]"] by (auto intro: simple_form.sf_root)
next
  case (sf_render ps ab tr)
  note whole = simple_form.sf_render [OF sf_render]
  show ?case
  proof (cases tr)
    case True
    have "good_split (render ab ps False @ folder_separator # []) (render ab ps False)"
      using sf_render whole [of True] whole [of False] render_last [of ps ab]
      by (intro good_split_join) (auto simp: render_trailing)
    then show ?thesis using True by (auto simp: render_trailing)
  next
    case False
    obtain qs l where ps: "ps = qs @ [l]" using sf_render(2) by (cases ps rule: rev_cases) auto
    then have l: "folder_separator \<notin> set l" and qs: "pieces qs" "canonical ab qs"
      using sf_render canonical_snocD by auto
    show ?thesis
    proof (cases "qs = []")
      case True
      then show ?thesis
        using l whole [of False] False ps good_split_root [of l] good_split_plain [of l]
          render_snoc [of ab "[]" l]
        by (cases ab) auto
    next
      case ne: False
      then have "good_split (render ab qs False @ folder_separator # l) (render ab qs False)"
        using l qs whole [of False] ps render_last [of qs ab] simple_form.sf_render [of qs ab False]
        by (intro good_split_join) (auto simp: render_snoc)
      then show ?thesis using ne False ps by (auto simp: render_snoc)
    qed
  qed
qed

lemma normalized_path_fixpoint: "simple_form p \<Longrightarrow> normalized_path p = Some (Inr p)"
proof (induction "length p" arbitrary: p rule: less_induct)
  case less
  from simple_form_split [OF less.prems] obtain folder where g: "good_split p folder" ..
  show ?case
  proof (cases "is_root folder \<or> folder = []")
    case True
    with g show ?thesis
      by (subst normalized_path.simps) (auto simp: good_split_def)
  next
    case False
    have "p \<noteq> []" "p \<noteq> ''/''"
      using False g by (auto simp: good_split_def folder_path_def folder_part_def
          simplified_path_def is_root_def is_absolute_path_def parts_of_unfold build_path_def)
    then have "normalized_path folder = Some (Inr folder)"
      using g less.hyps by (auto simp: good_split_def)
    with False g show ?thesis
      by (subst normalized_path.simps) (auto simp: good_split_def)
  qed
qed

section \<open>Properties\<close>

lemma simplified_path_cases:
  assumes "simplified_path p = Inr r" "CHR ''.'' \<in> set p \<or> CHR ''/'' \<in> set p"
  obtains ps where "resolve_dots (is_absolute_path p) [] (parts_of p) = Inr ps" "r = build_path p ps"
    "pieces ps" "canonical (is_absolute_path p) ps"
  using assms simplified_parts by (auto simp: simplified_path_def bind_r_Inr_iff)

lemma build_path_parts:
  "pieces ps \<Longrightarrow> is_absolute_path (build_path p ps) = is_absolute_path p \<and>
     walk st (parts_of (build_path p ps)) = walk st ps"
proof (cases "ps = []")
  case True
  then show ?thesis
    by (simp add: build_path_Nil is_absolute_path_def parts_of_unfold)
qed (simp add: build_path_pieces)

lemma plain_parts:
  assumes "CHR ''.'' \<notin> set p" "CHR ''/'' \<notin> set p"
  shows "parts_of p = (if p = [] then [] else [p])" "\<not> is_absolute_path p"
  using assms hd_in_set [of p]
  by (auto simp: parts_of_unfold split_on_no_sep is_absolute_hd simp del: hd_in_set)

lemma simplified_meaning:
  assumes "simplified_path p = Inr r"
  shows "is_absolute_path r = is_absolute_path p \<and> walk st (parts_of r) = walk st (parts_of p)"
proof (cases "CHR ''.'' \<in> set p \<or> CHR ''/'' \<in> set p")
  case True
  from simplified_path_cases [OF assms True] obtain ps
    where ps: "resolve_dots (is_absolute_path p) [] (parts_of p) = Inr ps"
      "r = build_path p ps" "pieces ps" .
  have "walk st ps = walk st (parts_of p)"
    using resolve_dots_walk [OF _ _ ps(1)] by (auto dest: parts_of_pieces)
  with ps build_path_parts [of ps p st] show ?thesis by simp
next
  case False
  with assms show ?thesis by (auto simp: simplified_path_def)
qed

lemma simplified_error:
  "simplified_path p = Inl e \<longleftrightarrow>
     e = Xc ''SCHEDULER-461'' \<and> is_absolute_path p \<and> walk [] (parts_of p) = None"
proof (cases "CHR ''.'' \<in> set p \<or> CHR ''/'' \<in> set p")
  case True
  have "resolve_dots True [] (parts_of p) =
      (case walk [] (parts_of p) of None \<Rightarrow> Inl (Xc ''SCHEDULER-461'') | Some st \<Rightarrow> Inr (rev st))"
    by (rule resolve_dots_absolute) (auto dest: parts_of_pieces)
  moreover obtain qs where "resolve_dots False [] (parts_of p) = Inr qs"
    using resolve_dots_relative by blast
  ultimately show ?thesis
    using True by (cases "is_absolute_path p") (auto simp: simplified_path_def split: option.splits)
next
  case False
  then show ?thesis by (auto simp: simplified_path_def plain_parts)
qed

lemma simplified_fixpoint: "simplified_path p = Inr r \<Longrightarrow> simplified_path r = Inr r"
  by (simp add: simplified_simple_form simple_form_fixpoint)

lemma simplified_nonempty: "simplified_path p = Inr r \<Longrightarrow> p \<noteq> [] \<Longrightarrow> r \<noteq> []"
  by (auto simp: simplified_path_def bind_r_Inr_iff build_path_def Let_def split: if_splits)

lemma simplified_absolute_walk:
  assumes "is_absolute_path p" "walk [] (parts_of p) = Some st"
  shows "\<exists>r. simplified_path p = Inr r \<and> is_absolute_path r \<and> parts_of r = rev st"
proof -
  have "CHR ''/'' \<in> set p" using assms(1) by (cases p) (auto simp: is_absolute_hd)
  have res: "resolve_dots True [] (parts_of p) = Inr (rev st)"
    using assms(2) resolve_dots_absolute [of "[]" "parts_of p"] by (auto dest: parts_of_pieces)
  then have "simplified_path p = Inr (build_path p (rev st))"
    using assms(1) \<open>CHR ''/'' \<in> set p\<close> by (simp add: simplified_path_def)
  moreover have "pieces (rev st)"
    using simplified_parts(1) [of p "rev st"] res assms(1) by simp
  moreover have "parts_of (build_path p (rev st)) = rev st"
    using assms(1) \<open>pieces (rev st)\<close>
    by (cases "st = []") (simp_all add: build_path_pieces build_path_Nil parts_of_def [of "''/''"]
        vector_split_def)
  ultimately show ?thesis
    using assms(1) build_path_parts [of "rev st" p] by blast
qed

lemma parts_of_split: "parts_of p = filter (\<lambda>p. p \<noteq> []) (split_on folder_separator p)"
  by (auto simp: parts_of_unfold)

lemma parts_of_concat: "parts_of (p @ folder_separator # q) = parts_of p @ parts_of q"
  by (simp add: parts_of_split split_on_concat)

lemma parts_of_glue:
  assumes "dir \<noteq> []" "\<not> is_absolute_path rel"
  shows "parts_of (glue_paths dir rel) = parts_of dir @ parts_of rel"
proof -
  have glue: "glue_paths dir rel = (if last dir = folder_separator then dir else dir @ ''/'') @ rel"
    using assms by (auto simp: glue_paths_def is_absolute_hd)
  show ?thesis
  proof (cases "last dir = folder_separator")
    case True
    then obtain d where d: "dir = d @ [folder_separator]"
      using assms(1) append_butlast_last_id by metis
    have "parts_of (d @ folder_separator # rel) = parts_of d @ parts_of rel"
      "parts_of (d @ folder_separator # []) = parts_of d @ parts_of []"
      by (rule parts_of_concat)+
    then show ?thesis using True glue d by (simp add: parts_of_split [of "[]"])
  next
    case False
    then show ?thesis using glue by (simp add: parts_of_concat)
  qed
qed

lemma simple_absolute_walk:
  assumes "simple_form dir" "is_absolute_path dir"
  shows "walk [] (parts_of dir) = Some (rev (parts_of dir))"
proof -
  have "canonical True (parts_of dir)"
    using assms
  proof (cases rule: simple_form.cases)
    case (sf_render ps ab tr)
    then show ?thesis using assms(2) by simp
  qed (simp_all add: is_absolute_path_def parts_of_split)
  then have "resolve_dots True [] (parts_of dir) = Inr (parts_of dir)"
    using resolve_dots_fixpoint [of True "parts_of dir" "[]"] by (simp add: canonical_def)
  moreover have "\<forall>p \<in> set (parts_of dir). p \<noteq> []" by (auto dest: parts_of_pieces)
  ultimately show ?thesis
    using resolve_dots_absolute [of "[]" "parts_of dir"]
    by (cases "walk [] (parts_of dir)") (auto simp: rev_swap)
qed

text \<open>simplifying a path is idempotent: what a \<^verbatim>\<open>Path\<close> holds is not changed by assigning it again.
\<close>
theorem simplified_path_idempotent:
  "simplified_path p = Inr r \<Longrightarrow> simplified_path r = Inr r"
  by (rule simplified_fixpoint)

theorem simplified_path_idempotent_witness:
  "simplified_path ''a//..//b/'' = Inr ''b/'' \<and> simplified_path ''b/'' = Inr ''b/''"
proof -
  have "simplified_path ''a//..//b/'' = Inr ''b/''" by code_simp
  with simplified_path_idempotent [of "''a//..//b/''" "''b/''"] show ?thesis by simp
qed

text \<open> C25: simplification keeps the meaning of a path: from every current directory the simplified path
  leads to the same place (or leaves the root exactly when the original does), and it is absolute
  exactly when the original is.
\<close>
theorem simplified_path_meaning:
  "simplified_path p = Inr r \<Longrightarrow>
   is_absolute_path r = is_absolute_path p \<and> walk st (parts_of r) = walk st (parts_of p)"
  by (rule simplified_meaning)

theorem simplified_path_meaning_witness:
  "simplified_path ''x/../../a'' = Inr ''../a'' \<and>
   walk [''n'', ''m''] (parts_of ''../a'') = walk [''n'', ''m''] (parts_of ''x/../../a'')"
proof -
  have "simplified_path ''x/../../a'' = Inr ''../a''" by code_simp
  with simplified_path_meaning [of "''x/../../a''" "''../a''" "[''n'', ''m'']"] show ?thesis by simp
qed

text \<open> C36: a path is rejected, always with \<^verbatim>\<open>SCHEDULER-461\<close>, exactly when it is absolute and leaves the
  root; the assertion inside the loop cannot fail and relative paths are never rejected.
\<close>
theorem simplified_path_error:
  "simplified_path p = Inl e \<longleftrightarrow>
     e = Xc ''SCHEDULER-461'' \<and> is_absolute_path p \<and> walk [] (parts_of p) = None"
  by (rule simplified_error)

text \<open>resolving a relative path in an absolute folder, as the constructor
  \<^verbatim>\<open>Absolute_path( folder, path )\<close> does, is walking the path from that folder: the result is the
  absolute path of the place reached, and the exception \<^verbatim>\<open>SCHEDULER-461\<close> exactly when the walk leaves
  the root.
\<close>
theorem absolute_path_walks:
  assumes "simplified_path dir = Inr dir" "is_absolute_path dir"
    and "rel \<noteq> []" "\<not> is_absolute_path rel"
  shows "case walk (rev (parts_of dir)) (parts_of rel) of
      None \<Rightarrow> absolute_path dir rel = Inl (Xc ''SCHEDULER-461'')
    | Some st \<Rightarrow> \<exists>r. absolute_path dir rel = Inr r \<and> is_absolute_path r \<and> parts_of r = rev st"
proof -
  let ?w = "walk (rev (parts_of dir)) (parts_of rel)"
  obtain rel' where rel': "simplified_path rel = Inr rel'"
    using assms(4) simplified_path_error [of rel] by (cases "simplified_path rel") auto
  then have not_abs: "\<not> is_absolute_path rel'"
    and walk': "walk st (parts_of rel') = walk st (parts_of rel)" for st
    using assms(4) by (simp_all add: simplified_meaning)
  have "rel' \<noteq> []" using rel' assms(3) by (rule simplified_nonempty)
  have "dir \<noteq> []" using assms(2) by (auto simp: is_absolute_hd)
  let ?g = "glue_paths dir rel'"
  have abs: "absolute_path dir rel = bind_r (simplified_path ?g) simplified_path"
    using rel' \<open>rel' \<noteq> []\<close> \<open>dir \<noteq> []\<close> not_abs
    by (simp add: absolute_path_def set_absolute_def new_path_def)
  have g_abs: "is_absolute_path ?g"
    using assms(2) \<open>dir \<noteq> []\<close> by (simp add: glue_paths_def is_absolute_hd)
  have g: "walk [] (parts_of ?g) = ?w"
    using simple_absolute_walk [of dir] assms(1,2) \<open>dir \<noteq> []\<close> not_abs walk'
    by (simp add: parts_of_glue walk_append simplified_iff_simple_form)
  show ?thesis
  proof (cases ?w)
    case None
    then have "simplified_path ?g = Inl (Xc ''SCHEDULER-461'')"
      using g g_abs by (simp add: simplified_error)
    with None abs show ?thesis by simp
  next
    case (Some st)
    with g obtain r where "simplified_path ?g = Inr r" "is_absolute_path r" "parts_of r = rev st"
      using simplified_absolute_walk [OF g_abs, of st] by auto
    with Some abs show ?thesis by (auto simp: simplified_fixpoint)
  qed
qed

theorem absolute_path_walks_witness:
  "absolute_path ''/jobs/a'' ''../b/c'' = Inr ''/jobs/b/c''
   \<and> absolute_path ''/jobs/a'' ''../../../x'' = Inl (Xc ''SCHEDULER-461'')"
proof -
  have dir: "simplified_path ''/jobs/a'' = Inr ''/jobs/a''" "is_absolute_path ''/jobs/a''"
    by code_simp+
  have "absolute_path ''/jobs/a'' ''../../../x'' = Inl (Xc ''SCHEDULER-461'')"
    using absolute_path_walks [OF dir, of "''../../../x''"]
    by (simp add: parts_of_split is_absolute_path_def)
  moreover have "absolute_path ''/jobs/a'' ''../b/c'' = Inr ''/jobs/b/c''" by code_simp
  ultimately show ?thesis by simp
qed

text \<open>every string a \<^verbatim>\<open>Path\<close> can hold is put together again from its folder and its name, and
  \<^verbatim>\<open>normalized_path\<close>, which does so for every enclosing folder, returns (its recursion ends) and
  yields the path itself.
\<close>
theorem normalized_path_identity:
  assumes "simplified_path p = Inr p"
  shows "normalized_path p = Some (Inr p)
    \<and> (\<exists>folder. folder_path p = Inr folder \<and> simplified_path folder = Inr folder
         \<and> new_path folder (path_name p) = Inr p)"
proof -
  have "simple_form p" using assms by (simp add: simplified_iff_simple_form)
  with simple_form_split [of p] normalized_path_fixpoint [of p] show ?thesis
    by (auto simp: good_split_def simple_form_fixpoint)
qed

theorem normalized_path_identity_witness:
  "normalized_path ''/jobs/a.lock'' = Some (Inr ''/jobs/a.lock'')"
proof -
  have "simplified_path ''/jobs/a.lock'' = Inr ''/jobs/a.lock''" by code_simp
  with normalized_path_identity [of "''/jobs/a.lock''"] show ?thesis by simp
qed

text \<open>the file name made of a path (for log files) holds no character that is forbidden in file
  names, no separator in particular, whatever the path holds.
\<close>
theorem to_filename_safe:
  "\<not> (\<exists>c \<in> set (to_filename path). not_in_filename c \<or> c = folder_separator)"
proof -
  have "\<not> not_in_filename (filename_char c) \<and> filename_char c \<noteq> folder_separator" for c
    by (auto simp: filename_char_def not_in_filename_def Let_def)
  then show ?thesis by (auto simp: to_filename_def)
qed

end
