(* ===== verification/File_Based_State.thy ===== *)
theory File_Based_State
  imports Scheduler_Prelude
begin

text \<open>
  The two life-cycle enumerations of \<^verbatim>\<open>scheduler/folder.h\<close> and \<^verbatim>\<open>scheduler/subsystem.h\<close>. The code
  compares their values with \<^verbatim>\<open><\<close> and \<^verbatim>\<open>>=\<close>, so both are instances of \<^verbatim>\<open>linorder\<close> by their position
  in the C++ enumeration.
\<close>

section \<open>File_based::State\<close>

datatype file_based_state =
    S_undefined
  | S_not_initialized
  | S_initialized
  | S_loaded
  | S_incomplete
  | S_active
  | S_closed

fun file_based_rank :: "file_based_state \<Rightarrow> nat" where
  "file_based_rank S_undefined = 0"
| "file_based_rank S_not_initialized = 1"
| "file_based_rank S_initialized = 2"
| "file_based_rank S_loaded = 3"
| "file_based_rank S_incomplete = 4"
| "file_based_rank S_active = 5"
| "file_based_rank S_closed = 6"

lemma file_based_rank_inject: "file_based_rank s = file_based_rank t \<longleftrightarrow> s = t"
  by (cases s; cases t) simp_all

instantiation file_based_state :: linorder
begin

definition less_eq_file_based_state :: "file_based_state \<Rightarrow> file_based_state \<Rightarrow> bool" where
  "s \<le> t \<longleftrightarrow> file_based_rank s \<le> file_based_rank t"

definition less_file_based_state :: "file_based_state \<Rightarrow> file_based_state \<Rightarrow> bool" where
  "s < t \<longleftrightarrow> file_based_rank s < file_based_rank t"

instance
  by standard
    (auto simp: less_eq_file_based_state_def less_file_based_state_def file_based_rank_inject)

end

lemmas file_based_state_order = less_eq_file_based_state_def less_file_based_state_def

fun file_based_state_name :: "file_based_state \<Rightarrow> string" where
  "file_based_state_name S_undefined = ''undefined''"
| "file_based_state_name S_not_initialized = ''not_initialized''"
| "file_based_state_name S_initialized = ''initialized''"
| "file_based_state_name S_loaded = ''loaded''"
| "file_based_state_name S_incomplete = ''incomplete''"
| "file_based_state_name S_active = ''active''"
| "file_based_state_name S_closed = ''closed''"

section \<open>Subsystem_state\<close>

datatype subsystem_state =
    Subsys_not_initialized
  | Subsys_initialized
  | Subsys_loaded
  | Subsys_active
  | Subsys_stopped

fun subsystem_rank :: "subsystem_state \<Rightarrow> nat" where
  "subsystem_rank Subsys_not_initialized = 0"
| "subsystem_rank Subsys_initialized = 1"
| "subsystem_rank Subsys_loaded = 2"
| "subsystem_rank Subsys_active = 3"
| "subsystem_rank Subsys_stopped = 4"

lemma subsystem_rank_inject: "subsystem_rank s = subsystem_rank t \<longleftrightarrow> s = t"
  by (cases s; cases t) simp_all

instantiation subsystem_state :: linorder
begin

definition less_eq_subsystem_state :: "subsystem_state \<Rightarrow> subsystem_state \<Rightarrow> bool" where
  "s \<le> t \<longleftrightarrow> subsystem_rank s \<le> subsystem_rank t"

definition less_subsystem_state :: "subsystem_state \<Rightarrow> subsystem_state \<Rightarrow> bool" where
  "s < t \<longleftrightarrow> subsystem_rank s < subsystem_rank t"

instance
  by standard (auto simp: less_eq_subsystem_state_def less_subsystem_state_def subsystem_rank_inject)

end

lemmas subsystem_state_order = less_eq_subsystem_state_def less_subsystem_state_def

fun string_from_subsystem_state :: "subsystem_state \<Rightarrow> string" where
  "string_from_subsystem_state Subsys_not_initialized = ''not_initialized''"
| "string_from_subsystem_state Subsys_initialized = ''initialized''"
| "string_from_subsystem_state Subsys_loaded = ''loaded''"
| "string_from_subsystem_state Subsys_active = ''active''"
| "string_from_subsystem_state Subsys_stopped = ''stopped''"

text \<open>The order on concrete states is computed from the ranks.\<close>

lemmas state_order = less_eq_file_based_state_def less_file_based_state_def
  less_eq_subsystem_state_def less_subsystem_state_def

lemma rank_le_iff: "file_based_rank a \<le> file_based_rank b \<longleftrightarrow> a \<le> b"
  by (simp add: less_eq_file_based_state_def)

end
