(* ===== verification/Exclusion_Interface.thy ===== *)
theory Exclusion_Interface
  imports Scheduler_Prelude
begin

text \<open>
  The contract between something that can be held (one lock, or all locks of the scheduler) and its
  clients (\<^verbatim>\<open>Holder\<close>, the tasks): acquiring makes exactly one more use held, releasing one less, and
  uses that conflict are never held by two holders. Everything a client needs about sequences of such
  operations is proved here once, from the contract.
\<close>

datatype ('h, 'u) lock_event = Acquire 'h 'u | Release 'h 'u

text \<open>A run of operations: an acquisition that throws leaves the state as it was.\<close>

fun exec_events ::
  "('s \<Rightarrow> 'h \<Rightarrow> 'u \<Rightarrow> 's result) \<Rightarrow> ('s \<Rightarrow> 'h \<Rightarrow> 'u \<Rightarrow> 's) \<Rightarrow> 's \<Rightarrow> ('h, 'u) lock_event list \<Rightarrow> 's"
  where
  "exec_events acq rel s [] = s"
| "exec_events acq rel s (Acquire h u # es) =
     exec_events acq rel (case acq s h u of Inl _ \<Rightarrow> s | Inr s' \<Rightarrow> s') es"
| "exec_events acq rel s (Release h u # es) = exec_events acq rel (rel s h u) es"

text \<open>Acquiring a list of uses stops at the first exception, with what was acquired so far.\<close>

fun acquire_list ::
  "('s \<Rightarrow> 'h \<Rightarrow> 'u \<Rightarrow> 's result) \<Rightarrow> 's \<Rightarrow> 'h \<Rightarrow> 'u list \<Rightarrow> unit result \<times> 's" where
  "acquire_list acq s h [] = (Inr (), s)"
| "acquire_list acq s h (u # us) =
     (case acq s h u of Inl e \<Rightarrow> (Inl e, s) | Inr s' \<Rightarrow> acquire_list acq s' h us)"

fun release_list :: "('s \<Rightarrow> 'h \<Rightarrow> 'u \<Rightarrow> 's) \<Rightarrow> 's \<Rightarrow> 'h \<Rightarrow> 'u list \<Rightarrow> 's" where
  "release_list rel s h [] = s"
| "release_list rel s h (u # us) = release_list rel (rel s h u) h us"

locale exclusion =
  fixes inv :: "'s \<Rightarrow> bool"
    and held :: "'s \<Rightarrow> 'h \<Rightarrow> 'u \<Rightarrow> bool"
    and conflict :: "'u \<Rightarrow> 'u \<Rightarrow> bool"
    and acquire :: "'s \<Rightarrow> 'h \<Rightarrow> 'u \<Rightarrow> 's result"
    and release :: "'s \<Rightarrow> 'h \<Rightarrow> 'u \<Rightarrow> 's"
  assumes acquire_inv: "inv s \<Longrightarrow> acquire s h u = Inr s' \<Longrightarrow> inv s'"
    and release_inv: "inv s \<Longrightarrow> inv (release s h u)"
    and acquire_held: "inv s \<Longrightarrow> acquire s h u = Inr s' \<Longrightarrow>
      held s' g v \<longleftrightarrow> (g = h \<and> v = u) \<or> held s g v"
    and release_held: "inv s \<Longrightarrow> held (release s h u) g v \<longleftrightarrow> held s g v \<and> \<not> (g = h \<and> v = u)"
    and exclusive: "inv s \<Longrightarrow> held s h u \<Longrightarrow> held s g v \<Longrightarrow> conflict u v \<Longrightarrow> g = h"
begin

lemma exec_inv: "inv s \<Longrightarrow> inv (exec_events acquire release s es)"
  proof (induction es arbitrary: s)
  case (Cons e es)
  then show ?case
    by (cases e) (auto intro: acquire_inv release_inv split: sum.splits)
qed simp

lemma mutual_exclusion:
  "inv s \<Longrightarrow> t = exec_events acquire release s es \<Longrightarrow>
   held t h u \<Longrightarrow> held t g v \<Longrightarrow> conflict u v \<Longrightarrow> g = h"
  using exec_inv exclusive by blast

lemma exec_held_kept:
  "inv s \<Longrightarrow> held s h u \<Longrightarrow> Release h u \<notin> set es \<Longrightarrow> held (exec_events acquire release s es) h u"
  proof (induction es arbitrary: s)
  case (Cons e es)
  then show ?case
    by (cases e) (auto simp: acquire_held release_held acquire_inv release_inv split: sum.splits)
qed simp

lemma exec_held_origin:
  "inv s \<Longrightarrow> held (exec_events acquire release s es) h u \<Longrightarrow> held s h u \<or> Acquire h u \<in> set es"
proof (induction es arbitrary: s)
  case (Cons e es)
  show ?case
  proof (cases e)
    case (Acquire g v)
    show ?thesis
    proof (cases "acquire s g v")
      case (Inr s1)
      then have "inv s1" using acquire_inv Cons.prems by blast
      then show ?thesis using Cons Acquire Inr acquire_held [OF _ Inr] by auto
    qed (use Cons Acquire in auto)
  next
    case (Release g v)
    then have "held (release s g v) h u \<or> Acquire h u \<in> set es"
      using Cons.IH [of "release s g v"] Cons.prems release_inv by simp
    then show ?thesis using Cons.prems(1) Release by (auto simp: release_held)
  qed
qed simp

lemma release_list_inv: "inv s \<Longrightarrow> inv (release_list release s h us)"
  by (induction us arbitrary: s) (auto intro: release_inv)

lemma release_list_held:
  "inv s \<Longrightarrow> held (release_list release s h us) g v \<longleftrightarrow> held s g v \<and> \<not> (g = h \<and> v \<in> set us)"
  by (induction us arbitrary: s) (auto simp: release_held release_inv)

lemma acquire_list_inv: "inv s \<Longrightarrow> acquire_list acquire s h us = (r, s') \<Longrightarrow> inv s'"
  by (induction us arbitrary: s)
    (auto intro: acquire_inv split: sum.splits)

lemma acquire_list_held:
  "inv s \<Longrightarrow> acquire_list acquire s h us = (Inr (), s') \<Longrightarrow>
   held s' g v \<longleftrightarrow> (g = h \<and> v \<in> set us) \<or> held s g v"
proof (induction us arbitrary: s)
  case (Cons u us)
  then obtain s1 where s1: "acquire s h u = Inr s1" "acquire_list acquire s1 h us = (Inr (), s')"
    by (auto split: sum.splits)
  then have "inv s1" using acquire_inv Cons.prems by blast
  then show ?case using Cons.IH [OF _ s1(2)] acquire_held [OF Cons.prems(1) s1(1)] by auto
qed simp

lemma acquire_release_list:
  assumes "inv s" "acquire_list acquire s h us = (Inr (), s')" "\<forall>u \<in> set us. \<not> held s h u"
  shows "held (release_list release s' h us) g v \<longleftrightarrow> held s g v"
proof -
  have "inv s'" using acquire_list_inv assms by blast
  with assms show ?thesis by (auto simp: release_list_held acquire_list_held)
qed

end

end
