(* ===== verification/Lock_Object.thy ===== *)
theory Lock_Object
  imports File_Based_State Exclusion_Interface
begin

text \<open>
  \<^verbatim>\<open>struct Lock\<close> of \<^verbatim>\<open>scheduler/lock.h\<close> and \<^verbatim>\<open>lock.cxx\<close>: one named lock, the holders that hold it and
  the two queues of waiting uses. A \<^verbatim>\<open>Use\<close> joins a requestor with a lock in one mode; its path, mode
  and requestor do not change once it is in a lock's containers, so a \<^verbatim>\<open>Use*\<close> is the record of these
  fields with the object's identity \<^verbatim>\<open>use_id\<close>. Holders and requestors are identities too.

  The part that calls other objects (the notification of a waiting requestor, holders and
  requestors) is in the theory Lock_System.
\<close>

section \<open>State\<close>

datatype lock_mode = Lk_exclusive | Lk_non_exclusive

type_synonym requestor_id = nat
type_synonym holder_id = nat

record lock_use =
  use_id :: nat
  use_lock_path :: string
  use_lock_mode :: lock_mode
  use_requestor :: requestor_id

text \<open>
  \<^verbatim>\<open>waiting_queues\<close> is the vector indexed by the mode. \<^verbatim>\<open>holder_map\<close> maps a holder to its set of
  uses, here a list without repetition. \<^verbatim>\<open>lock_mode\<close> means something only while there is a holder.
  \<^verbatim>\<open>replacement_state\<close> is the life-cycle state of the lock object that is to replace this one, if any.
\<close>

record lock =
  file_based_state :: file_based_state
  is_in_folder :: bool
  is_to_be_removed :: bool
  replacement_state :: "file_based_state option"
  max_non_exclusive :: int
  lock_mode :: lock_mode
  holder_map :: "(holder_id \<times> lock_use list) list"
  waiting_queues :: "lock_mode \<Rightarrow> lock_use list"
  use_set :: "lock_use list"

text \<open>The constructor: \<^verbatim>\<open>Fill_zero\<close> makes the mode \<^verbatim>\<open>lk_exclusive\<close>.\<close>

definition new_lock :: lock where
  "new_lock = \<lparr>file_based_state = S_not_initialized, is_in_folder = False,
     is_to_be_removed = False, replacement_state = None, max_non_exclusive = int_max, lock_mode = Lk_exclusive, holder_map = [],
     waiting_queues = (\<lambda>_. []), use_set = []\<rparr>"

section \<open>Queries\<close>

definition is_free :: "lock \<Rightarrow> bool" where
  "is_free l = (file_based_state l = S_active \<and> holder_map l = [])"

definition count_non_exclusive_holders :: "lock \<Rightarrow> int" where
  "count_non_exclusive_holders l =
     (if lock_mode l = Lk_non_exclusive then int (length (holder_map l)) else 0)"

text \<open>\<^verbatim>\<open>requesting_holder\<close> may be the null pointer.\<close>

definition is_free_for :: "lock \<Rightarrow> lock_use \<Rightarrow> holder_id option \<Rightarrow> bool" where
  "is_free_for l u requesting_holder =
     (let free =
        (if use_lock_mode u = Lk_exclusive then is_free l
         else (lock_mode l \<noteq> Lk_exclusive \<or> is_free l)
              \<and> count_non_exclusive_holders l < max_non_exclusive l)
      in if \<not> free \<and> (\<exists>h. requesting_holder = Some h \<and> map_of (holder_map l) h \<noteq> None)
         then use_lock_mode u = Lk_non_exclusive \<or> length (holder_map l) = 1
         else free)"

definition its_my_turn :: "lock \<Rightarrow> lock_use \<Rightarrow> holder_id option \<Rightarrow> bool" where
  "its_my_turn l u holder =
     (is_free_for l u holder \<and>
      (case waiting_queues l (use_lock_mode u) of [] \<Rightarrow> True | first # _ \<Rightarrow> first = u))"

definition is_held_by :: "lock \<Rightarrow> holder_id \<Rightarrow> lock_use \<Rightarrow> bool" where
  "is_held_by l h u = (case map_of (holder_map l) h of None \<Rightarrow> False | Some us \<Rightarrow> u \<in> set us)"

definition lock_can_be_removed_now :: "lock \<Rightarrow> bool" where
  "lock_can_be_removed_now l = (is_to_be_removed l \<and> holder_map l = [])"

definition lock_can_be_replaced_now :: "lock \<Rightarrow> bool" where
  "lock_can_be_replaced_now l = (replacement_state l = Some S_initialized \<and> holder_map l = [])"

section \<open>Operations\<close>

text \<open>
  \<^verbatim>\<open>Lock::require_lock_for\<close>. \<open>known\<close> tells whether the holder knows the use's requestor. The
  result is whether the lock is held freshly or in a stricter mode than before.
\<close>

definition require_lock_for :: "lock \<Rightarrow> bool \<Rightarrow> holder_id \<Rightarrow> lock_use \<Rightarrow> (bool \<times> lock) result" where
  "require_lock_for l known h u =
     (if file_based_state l \<noteq> S_active then Inl (Xc ''SCHEDULER-153'')
      else if \<not> known then Inl (Xc ''require_lock_for'')
      else if \<not> is_free_for l u (Some h) then Inl (Xc ''require_lock_for'')
      else case map_of (holder_map l) h of
        Some us \<Rightarrow>
          if lock_mode l = Lk_non_exclusive \<and> use_lock_mode u = Lk_exclusive then
            if length (holder_map l) \<noteq> 1 then Inl (Assertion ''require_lock_for'')
            else Inr (True, l\<lparr>lock_mode := Lk_exclusive,
                   holder_map := AList.update h (List.insert u us) (holder_map l)\<rparr>)
          else Inr (False, l\<lparr>holder_map := AList.update h (List.insert u us) (holder_map l)\<rparr>)
      | None \<Rightarrow>
          Inr (True, l\<lparr>holder_map := AList.update h [u] (holder_map l),
                 lock_mode := use_lock_mode u\<rparr>))"

text \<open>
  \<^verbatim>\<open>Lock::release_lock_for\<close> up to the notification: whether the lock was released or downgraded. The
  caller notifies the next waiting requestor in that case.
\<close>

definition release_lock_for :: "lock \<Rightarrow> holder_id \<Rightarrow> lock_use \<Rightarrow> (bool \<times> lock) result" where
  "release_lock_for l h u =
     (case map_of (holder_map l) h of
        None \<Rightarrow> Inr (False, l)
      | Some us \<Rightarrow>
          if u \<notin> set us then Inr (False, l)
          else let us' = remove1 u us in
            if us' = [] then Inr (True, l\<lparr>holder_map := AList.delete h (holder_map l)\<rparr>)
            else let l' = l\<lparr>holder_map := AList.update h us' (holder_map l)\<rparr> in
              if use_lock_mode u = Lk_exclusive then
                if lock_mode l \<noteq> Lk_exclusive then Inl (Assertion ''release_lock_for'')
                else if list_ex (\<lambda>uu. use_lock_mode uu = Lk_exclusive) us' then Inr (False, l')
                else Inr (True, l'\<lparr>lock_mode := Lk_non_exclusive\<rparr>)
              else Inr (False, l'))"

text \<open>The waiting queues: \<^verbatim>\<open>enqueue_lock_use\<close> returns the place in the queue.\<close>

definition enqueue_lock_use :: "lock \<Rightarrow> lock_use \<Rightarrow> nat \<times> lock" where
  "enqueue_lock_use l u =
     (let q = (waiting_queues l)(use_lock_mode u := waiting_queues l (use_lock_mode u) @ [u])
      in (length (q Lk_exclusive)
            + (if use_lock_mode u = Lk_non_exclusive then length (q Lk_non_exclusive) else 0),
          l\<lparr>waiting_queues := q\<rparr>))"

definition dequeue_lock_use :: "lock \<Rightarrow> lock_use \<Rightarrow> lock" where
  "dequeue_lock_use l u =
     l\<lparr>waiting_queues :=
        (waiting_queues l)(use_lock_mode u := remove1 u (waiting_queues l (use_lock_mode u)))\<rparr>"

definition register_lock_use :: "lock \<Rightarrow> lock_use \<Rightarrow> lock" where
  "register_lock_use l u = l\<lparr>use_set := List.insert u (use_set l)\<rparr>"

definition unregister_lock_use :: "lock \<Rightarrow> lock_use \<Rightarrow> lock" where
  "unregister_lock_use l u = l\<lparr>use_set := remove1 u (use_set l)\<rparr>"

text \<open>
  \<^verbatim>\<open>File_based::check_for_replacing_or_removing( act_later )\<close> of a lock, whose \<^verbatim>\<open>on_initialize\<close> always
  succeeds: a replacement that is not yet initialised is initialised if the subsystem allows it. The
  flag tells whether the lock becomes a candidate for being replaced or removed.
\<close>

definition check_for_replacing_or_removing :: "subsystem_state \<Rightarrow> lock \<Rightarrow> bool \<times> lock" where
  "check_for_replacing_or_removing sub l =
     (if \<not> is_in_folder l then (False, l)
      else case replacement_state l of
        Some st \<Rightarrow>
          let st' = (if st = S_not_initialized \<and> Subsys_initialized \<le> sub then S_initialized else st);
              l' = l\<lparr>replacement_state := Some st'\<rparr>
          in (S_initialized \<le> st' \<and> lock_can_be_replaced_now l', l')
      | None \<Rightarrow> (lock_can_be_removed_now l, l))"

text \<open>The requestor \<^verbatim>\<open>notify_waiting_requestor\<close> picks: exclusive requests go before non-exclusive ones.\<close>

definition next_requestor :: "lock \<Rightarrow> requestor_id option" where
  "next_requestor l =
     (case waiting_queues l Lk_exclusive of
        u # _ \<Rightarrow> Some (use_requestor u)
      | [] \<Rightarrow> (case waiting_queues l Lk_non_exclusive of
                 u # _ \<Rightarrow> Some (use_requestor u)
               | [] \<Rightarrow> None))"

text \<open>
  \<^verbatim>\<open>Lock::close\<close>. The loop over \<^verbatim>\<open>_holder_map\<close> logs an error for \<^verbatim>\<open>h\<close> and never advances \<^verbatim>\<open>h\<close>:
  \<open>close_loop\<close> has the rest of the map, from the iterator on, as its argument and is called again
  with the same rest. \<^verbatim>\<open>None\<close> is a loop that does not end.
\<close>

partial_function (option) close_loop :: "(holder_id \<times> lock_use list) list \<Rightarrow> unit option" where
  "close_loop h = (case h of [] \<Rightarrow> Some () | _ # _ \<Rightarrow> close_loop h)"

definition lock_close :: "lock \<Rightarrow> lock option" where
  "lock_close l =
     Option.bind (close_loop (holder_map l))
       (\<lambda>_. Some (l\<lparr>waiting_queues := (\<lambda>_. []), use_set := []\<rparr>))"

text \<open>\<^verbatim>\<open>Lock::string_from_holders\<close>; \<open>name\<close> gives a holder's object name.\<close>

definition holder_text :: "(holder_id \<Rightarrow> string) \<Rightarrow> (nat \<Rightarrow> string) \<Rightarrow> holder_id \<times> lock_use list \<Rightarrow> string"
  where
  "holder_text name show_nat e =
     name (fst e) @ (if length (snd e) > 1 then ''('' @ show_nat (length (snd e)) @ ''x)'' else [])"

definition string_from_holders :: "(holder_id \<Rightarrow> string) \<Rightarrow> (nat \<Rightarrow> string) \<Rightarrow> lock \<Rightarrow> string" where
  "string_from_holders name show_nat l =
     (if holder_map l = [] then ''free''
      else (if lock_mode l = Lk_exclusive then ''exclusive holder '' else ''non-exclusive holder '')
           @ join '', '' (map (holder_text name show_nat) (holder_map l)))"

section \<open>The invariant of a lock\<close>

text \<open>
  \<^verbatim>\<open>mode_ok\<close> is the agreement of the recorded mode with the uses held: an exclusively held lock has
  one holder with an exclusive use, a non-exclusively held lock has no exclusive use at all.
\<close>

fun mode_ok :: "lock_mode \<Rightarrow> (holder_id \<times> lock_use list) list \<Rightarrow> bool" where
  "mode_ok Lk_exclusive m =
     (m = [] \<or> (length m = 1 \<and> list_ex (\<lambda>u. use_lock_mode u = Lk_exclusive) (snd (hd m))))"
| "mode_ok Lk_non_exclusive m =
     list_all (\<lambda>(h, us). list_all (\<lambda>u. use_lock_mode u = Lk_non_exclusive) us) m"

definition holders_ok :: "(holder_id \<times> lock_use list) list \<Rightarrow> bool" where
  "holders_ok m =
     (distinct (keys m) \<and> list_all (\<lambda>(h, us). us \<noteq> [] \<and> distinct us) m)"

definition lock_wf :: "lock \<Rightarrow> bool" where
  "lock_wf l = (holders_ok (holder_map l) \<and> mode_ok (lock_mode l) (holder_map l))"

lemma lock_mode_neq [simp]:
  "m \<noteq> Lk_exclusive \<longleftrightarrow> m = Lk_non_exclusive"
  "m \<noteq> Lk_non_exclusive \<longleftrightarrow> m = Lk_exclusive"
  by (cases m; simp)+

lemma lock_wf_new: "lock_wf new_lock"
  by (simp add: lock_wf_def holders_ok_def new_lock_def)

lemma list_all_update:
  "list_all P m \<Longrightarrow> P (k, v) \<Longrightarrow> list_all P (AList.update k v m)"
  by (induction m) auto

lemma list_all_delete: "list_all P m \<Longrightarrow> list_all P (AList.delete k m)"
  by (induction m) (auto simp: AList.delete_eq)

lemma holders_ok_lookup:
  "holders_ok m \<Longrightarrow> map_of m h = Some us \<Longrightarrow> us \<noteq> [] \<and> distinct us"
  by (auto simp: holders_ok_def list_all_iff dest: map_of_SomeD)

lemma holders_ok_update:
  "holders_ok m \<Longrightarrow> us \<noteq> [] \<Longrightarrow> distinct us \<Longrightarrow> holders_ok (AList.update h us m)"
  by (simp add: holders_ok_def distinct_keys_update list_all_update)

lemma holders_ok_delete: "holders_ok m \<Longrightarrow> holders_ok (AList.delete h m)"
  by (simp add: holders_ok_def distinct_keys_delete list_all_delete)

lemma mode_ok_lookup:
  "mode_ok Lk_non_exclusive m \<Longrightarrow> map_of m h = Some us \<Longrightarrow> u \<in> set us \<Longrightarrow>
   use_lock_mode u = Lk_non_exclusive"
  by (fastforce simp: list_all_iff dest: map_of_SomeD)

lemma exclusive_single:
  assumes "mode_ok Lk_exclusive m" "map_of m h = Some us"
  shows "m = [(h, us)] \<and> list_ex (\<lambda>u. use_lock_mode u = Lk_exclusive) us"
proof -
  from assms have "length m = 1" by auto
  then have "m = [(h, us)]" using singleton_keys [OF _ assms(2)] by simp
  with assms(1) show ?thesis by auto
qed

lemma distinct_list_insert: "distinct us \<Longrightarrow> distinct (List.insert u us)"
  by (simp add: List.insert_def)

lemma list_insert_not_Nil [simp]: "List.insert u us \<noteq> []"
  by (auto simp: List.insert_def)

lemma require_wf:
  assumes wf: "lock_wf l" and req: "require_lock_for l known h u = Inr (fresh, l')"
  shows "lock_wf l'"
proof -
  let ?m = "holder_map l"
  from req have free: "is_free_for l u (Some h)"
    by (auto simp: require_lock_for_def split: if_splits)
  have ok: "holders_ok ?m" and mode: "mode_ok (lock_mode l) ?m"
    using wf by (simp_all add: lock_wf_def)
  show ?thesis
  proof (cases "map_of ?m h")
    case None
    then have l': "l' = l\<lparr>holder_map := AList.update h [u] ?m, lock_mode := use_lock_mode u\<rparr>"
      using req by (auto simp: require_lock_for_def split: if_splits)
    have fit: "if use_lock_mode u = Lk_exclusive then ?m = [] else lock_mode l = Lk_non_exclusive \<or> ?m = []"
      using free None by (auto simp: is_free_for_def is_free_def Let_def split: if_splits)
    have "mode_ok (use_lock_mode u) (AList.update h [u] ?m)"
      using fit mode
      by (cases "use_lock_mode u"; cases "lock_mode l") (auto intro: list_all_update)
    then show ?thesis
      using ok by (simp add: l' lock_wf_def holders_ok_update)
  next
    case (Some us)
    have us: "us \<noteq> []" "distinct us" using holders_ok_lookup [OF ok Some] by simp_all
    have ok': "holders_ok (AList.update h (List.insert u us) ?m)"
      using ok us by (simp add: holders_ok_update distinct_list_insert)
    show ?thesis
    proof (cases "lock_mode l = Lk_non_exclusive \<and> use_lock_mode u = Lk_exclusive")
      case True
      then have l': "l' = l\<lparr>lock_mode := Lk_exclusive,
          holder_map := AList.update h (List.insert u us) ?m\<rparr>" and one: "length ?m = 1"
        using req Some by (auto simp: require_lock_for_def split: if_splits)
      have "?m = [(h, us)]" using singleton_keys [OF one Some] .
      then show ?thesis
        using True ok' by (auto simp: l' lock_wf_def list_ex_iff)
    next
      case False
      then have l': "l' = l\<lparr>holder_map := AList.update h (List.insert u us) ?m\<rparr>"
        using req Some by (auto simp: require_lock_for_def split: if_splits)
      have "mode_ok (lock_mode l) (AList.update h (List.insert u us) ?m)"
      proof (cases "lock_mode l")
        case Lk_exclusive
        with mode exclusive_single [OF _ Some] have "?m = [(h, us)]"
          "list_ex (\<lambda>u. use_lock_mode u = Lk_exclusive) us" by auto
        with Lk_exclusive show ?thesis by (auto simp: list_ex_iff)
      next
        case Lk_non_exclusive
        with False have "use_lock_mode u = Lk_non_exclusive" by (cases "use_lock_mode u") auto
        moreover have "list_all (\<lambda>u. use_lock_mode u = Lk_non_exclusive) us"
          using mode_ok_lookup [OF _ Some] mode Lk_non_exclusive by (auto simp: list_all_iff)
        ultimately have "list_all (\<lambda>u. use_lock_mode u = Lk_non_exclusive) (List.insert u us)"
          by (auto simp: list_all_iff)
        then show ?thesis
          using Lk_non_exclusive mode by (simp add: list_all_update)
      qed
      then show ?thesis using ok' by (simp add: l' lock_wf_def)
    qed
  qed
qed

lemma release_wf:
  assumes wf: "lock_wf l" and rel: "release_lock_for l h u = Inr (released, l')"
  shows "lock_wf l'"
proof (cases "map_of (holder_map l) h")
  case None
  with wf rel show ?thesis by (simp add: release_lock_for_def)
next
  case (Some us)
  let ?m = "holder_map l" and ?us = "remove1 u us"
  have ok: "holders_ok ?m" and mode: "mode_ok (lock_mode l) ?m"
    using wf by (simp_all add: lock_wf_def)
  have us: "us \<noteq> []" "distinct us" using holders_ok_lookup [OF ok Some] by simp_all
  show ?thesis
  proof (cases "u \<in> set us \<and> ?us \<noteq> []")
    case False
    then show ?thesis
    proof (cases "u \<in> set us")
      case True
      with False rel Some have l': "l' = l\<lparr>holder_map := AList.delete h ?m\<rparr>"
        by (simp add: release_lock_for_def)
      have "mode_ok (lock_mode l) (AList.delete h ?m)"
      proof (cases "lock_mode l")
        case Lk_exclusive
        with exclusive_single [OF _ Some] mode have "?m = [(h, us)]" by simp
        then show ?thesis by (cases "lock_mode l") auto
      next
        case Lk_non_exclusive
        with mode show ?thesis by (simp add: list_all_delete)
      qed
      then show ?thesis using ok by (simp add: l' lock_wf_def holders_ok_delete)
    qed (use wf rel Some in \<open>simp add: release_lock_for_def\<close>)
  next
    case True
    then have ok': "holders_ok (AList.update h ?us ?m)"
      using ok us by (simp add: holders_ok_update)
    show ?thesis
    proof (cases "lock_mode l")
      case Lk_exclusive
      then have m: "?m = [(h, us)]" "list_ex (\<lambda>u. use_lock_mode u = Lk_exclusive) us"
        using exclusive_single [OF _ Some] mode by auto
      show ?thesis
      proof (cases "list_ex (\<lambda>u. use_lock_mode u = Lk_exclusive) ?us")
        case True
        then have "l' = l\<lparr>holder_map := AList.update h ?us ?m\<rparr>"
          using \<open>u \<in> set us \<and> ?us \<noteq> []\<close> rel Some Lk_exclusive
          by (auto simp: release_lock_for_def Let_def split: if_splits)
        then show ?thesis using True ok' m Lk_exclusive by (simp add: lock_wf_def)
      next
        case False
        have "use_lock_mode u = Lk_exclusive"
          using False m(2) by (auto simp: list_ex_iff) (metis in_set_remove1 lock_mode_neq(2))
        then have l': "l' = l\<lparr>holder_map := AList.update h ?us ?m, lock_mode := Lk_non_exclusive\<rparr>"
          using False \<open>u \<in> set us \<and> ?us \<noteq> []\<close> rel Some Lk_exclusive
          by (auto simp: release_lock_for_def Let_def split: if_splits)
        have "list_all (\<lambda>u. use_lock_mode u = Lk_non_exclusive) ?us"
          using False by (auto simp: list_ex_iff list_all_iff)
        then show ?thesis using ok' m by (simp add: l' lock_wf_def)
      qed
    next
      case Lk_non_exclusive
      then have "use_lock_mode u = Lk_non_exclusive"
        using mode_ok_lookup [OF _ Some] mode True by simp
      then have l': "l' = l\<lparr>holder_map := AList.update h ?us ?m\<rparr>"
        using True rel Some by (simp add: release_lock_for_def Let_def)
      have "list_all (\<lambda>u. use_lock_mode u = Lk_non_exclusive) ?us"
        using mode_ok_lookup [OF _ Some] mode Lk_non_exclusive
        by (auto simp: list_all_iff dest: notin_set_remove1)
      then show ?thesis
        using Lk_non_exclusive mode ok' by (simp add: l' lock_wf_def list_all_update)
    qed
  qed
qed

text \<open>What holds after an operation, in terms of \<^verbatim>\<open>is_held_by\<close>.\<close>

lemma require_held:
  "require_lock_for l known h u = Inr (fresh, l') \<Longrightarrow>
   is_held_by l' g v \<longleftrightarrow> (g = h \<and> v = u) \<or> is_held_by l g v"
  by (auto simp: require_lock_for_def is_held_by_def assoc_simps split: if_splits option.splits)

lemma release_holder_map:
  "release_lock_for l h u = Inr (released, l') \<Longrightarrow>
   holder_map l' =
     (case map_of (holder_map l) h of
        None \<Rightarrow> holder_map l
      | Some us \<Rightarrow> if u \<notin> set us then holder_map l
                   else if remove1 u us = [] then AList.delete h (holder_map l)
                   else AList.update h (remove1 u us) (holder_map l))"
  by (auto simp: release_lock_for_def Let_def split: if_splits option.splits)

lemma release_held:
  assumes "lock_wf l" "release_lock_for l h u = Inr (released, l')"
  shows "is_held_by l' g v \<longleftrightarrow> is_held_by l g v \<and> \<not> (g = h \<and> v = u)"
proof (cases "map_of (holder_map l) h")
  case None
  then show ?thesis
    using release_holder_map [OF assms(2)] by (auto simp: is_held_by_def)
next
  case (Some us)
  then have "distinct us" using assms(1) holders_ok_lookup by (auto simp: lock_wf_def)
  then have rm: "set (remove1 u us) = set us - {u}" by (rule set_remove1_eq)
  show ?thesis
  proof (cases "u \<in> set us")
    case False
    then show ?thesis
      using release_holder_map [OF assms(2)] Some by (auto simp: is_held_by_def)
  next
    case True
    then show ?thesis
      using release_holder_map [OF assms(2)] Some rm
      by (cases "remove1 u us = []") (auto simp: is_held_by_def assoc_simps)
  qed
qed

lemma exclusive_use_excludes:
  assumes "lock_wf l" "is_held_by l h u" "use_lock_mode u = Lk_exclusive" "is_held_by l g v"
  shows "g = h"
proof (cases "lock_mode l")
  case Lk_exclusive
  with assms have "length (holder_map l) = 1"
    by (cases "holder_map l") (auto simp: lock_wf_def is_held_by_def)
  with assms(2,4) show ?thesis
    by (cases "holder_map l") (auto simp: is_held_by_def split: option.splits if_splits)
next
  case Lk_non_exclusive
  with assms show ?thesis
    using mode_ok_lookup [of "holder_map l" h _ u]
    by (auto simp: lock_wf_def is_held_by_def split: option.splits)
qed

section \<open>Errors\<close>

lemma known_holder_length: "map_of m h = Some us \<Longrightarrow> m \<noteq> []"
  by auto

lemma require_upgrade_alone:
  "is_free_for l u (Some h) \<Longrightarrow> map_of (holder_map l) h = Some us \<Longrightarrow>
   use_lock_mode u = Lk_exclusive \<Longrightarrow> length (holder_map l) = 1"
  by (auto simp: is_free_for_def is_free_def Let_def split: if_splits)

lemma require_result:
  "if file_based_state l \<noteq> S_active then require_lock_for l known h u = Inl (Xc ''SCHEDULER-153'')
   else if \<not> known \<or> \<not> is_free_for l u (Some h)
   then require_lock_for l known h u = Inl (Xc ''require_lock_for'')
   else \<exists>r. require_lock_for l known h u = Inr r"
  using require_upgrade_alone [of l u h]
  by (auto simp: require_lock_for_def split: option.splits)

lemma release_total:
  assumes "lock_wf l"
  shows "\<exists>r. release_lock_for l h u = Inr r"
proof (cases "map_of (holder_map l) h")
  case (Some us)
  have "lock_mode l = Lk_exclusive" if "u \<in> set us" "use_lock_mode u = Lk_exclusive"
    using that assms mode_ok_lookup [OF _ Some that(1)]
    by (cases "lock_mode l") (auto simp: lock_wf_def)
  with Some show ?thesis by (auto simp: release_lock_for_def Let_def)
next
  case None
  then have "release_lock_for l h u = Inr (False, l)" by (simp add: release_lock_for_def)
  then show ?thesis ..
qed

section \<open>Specification: a readers/writer lock with upgrade\<close>

text \<open>
  What the lock promises, without uses: it is free, shared by a set of holders or owned by one. A
  holder may take a lock again that it has, and a holder that is alone may upgrade to exclusive.
\<close>

datatype rw_lock = Free | Shared "holder_id set" | Owned holder_id

fun rw_grant :: "int \<Rightarrow> rw_lock \<Rightarrow> holder_id \<Rightarrow> lock_mode \<Rightarrow> rw_lock option" where
  "rw_grant n Free h Lk_exclusive = Some (Owned h)"
| "rw_grant n Free h Lk_non_exclusive = (if 0 < n then Some (Shared {h}) else None)"
| "rw_grant n (Shared H) h Lk_exclusive = (if H = {h} then Some (Owned h) else None)"
| "rw_grant n (Shared H) h Lk_non_exclusive =
     (if h \<in> H \<or> int (card H) < n then Some (Shared (insert h H)) else None)"
| "rw_grant n (Owned g) h m = (if g = h then Some (Owned g) else None)"

definition abs_lock :: "lock \<Rightarrow> rw_lock" where
  "abs_lock l =
     (if holder_map l = [] then Free
      else if lock_mode l = Lk_exclusive then Owned (fst (hd (holder_map l)))
      else Shared (set (keys (holder_map l))))"

lemma card_keys: "holders_ok m \<Longrightarrow> card (set (keys m)) = length m"
  by (simp add: holders_ok_def distinct_card)

lemma keys_singleton:
  assumes "holders_ok m" "map_of m h \<noteq> None"
  shows "length m = 1 \<longleftrightarrow> set (keys m) = {h}"
proof
  assume "length m = 1"
  with assms(2) show "set (keys m) = {h}"
    by (cases m) (auto split: if_splits)
next
  assume "set (keys m) = {h}"
  with card_keys [OF assms(1)] show "length m = 1" by simp
qed

lemma free_for_refines:
  assumes "lock_wf l" "file_based_state l = S_active"
  shows "is_free_for l u (Some h) \<longleftrightarrow>
     rw_grant (max_non_exclusive l) (abs_lock l) h (use_lock_mode u) \<noteq> None"
proof (cases "holder_map l = []")
  case True
  with assms(2) show ?thesis
    by (cases "use_lock_mode u")
      (auto simp: is_free_for_def is_free_def abs_lock_def count_non_exclusive_holders_def Let_def)
next
  case False
  have ok: "holders_ok (holder_map l)" using assms(1) by (simp add: lock_wf_def)
  show ?thesis
  proof (cases "lock_mode l")
    case Lk_exclusive
    then obtain g us where "holder_map l = [(g, us)]"
      using assms(1) False by (cases "holder_map l") (auto simp: lock_wf_def)
    with Lk_exclusive show ?thesis
      by (cases "use_lock_mode u")
        (auto simp: is_free_for_def is_free_def abs_lock_def count_non_exclusive_holders_def)
  next
    case Lk_non_exclusive
    have "set (keys (holder_map l)) \<noteq> {h}" if "map_of (holder_map l) h = None"
      using that map_of_None_keys [of "holder_map l" h] by auto
    then show ?thesis
      using False Lk_non_exclusive keys_singleton [OF ok, of h] card_keys [OF ok]
        map_of_None_keys [of "holder_map l" h]
      by (cases "use_lock_mode u"; cases "map_of (holder_map l) h")
        (auto simp: is_free_for_def is_free_def abs_lock_def count_non_exclusive_holders_def)
  qed
qed

lemma require_refines:
  assumes wf: "lock_wf l" and req: "require_lock_for l known h u = Inr (fresh, l')"
  shows "rw_grant (max_non_exclusive l) (abs_lock l) h (use_lock_mode u) = Some (abs_lock l')"
proof -
  have act: "file_based_state l = S_active" and free: "is_free_for l u (Some h)"
    using req by (auto simp: require_lock_for_def split: if_splits)
  have grant: "rw_grant (max_non_exclusive l) (abs_lock l) h (use_lock_mode u) \<noteq> None"
    using free_for_refines [OF wf act] free by simp
  have ok: "holders_ok (holder_map l)" using wf by (simp add: lock_wf_def)
  show ?thesis
  proof (cases "map_of (holder_map l) h")
    case None
    then have l': "l' = l\<lparr>holder_map := AList.update h [u] (holder_map l), lock_mode := use_lock_mode u\<rparr>"
      using req by (auto simp: require_lock_for_def split: if_splits)
    have "set (keys (holder_map l)) \<noteq> {h}"
      using None map_of_None_keys [of "holder_map l" h] by auto
    then show ?thesis
      using None grant l' map_of_None_keys [of "holder_map l" h]
      by (cases "use_lock_mode u"; cases "holder_map l")
        (auto simp: abs_lock_def set_keys_update split: if_splits)
  next
    case (Some us)
    then have in_keys: "h \<in> set (keys (holder_map l))" by (rule map_of_Some_keys)
    have ne: "holder_map l \<noteq> []" using Some by auto
    show ?thesis
    proof (cases "lock_mode l")
      case Lk_exclusive
      then have m: "holder_map l = [(h, us)]"
        using exclusive_single [OF _ Some] wf by (simp add: lock_wf_def)
      then show ?thesis
        using req Lk_exclusive
        by (cases "use_lock_mode u") (auto simp: require_lock_for_def abs_lock_def split: if_splits)
    next
      case non: Lk_non_exclusive
      show ?thesis
      proof (cases "use_lock_mode u")
        case Lk_exclusive
        then have one: "length (holder_map l) = 1" using require_upgrade_alone [OF free Some] by simp
        then have "holder_map l = [(h, us)]" using singleton_keys [OF one Some] by simp
        then show ?thesis
          using req non Lk_exclusive
          by (auto simp: require_lock_for_def abs_lock_def split: if_splits)
      next
        case Lk_non_exclusive
        then show ?thesis
          using req non Some ne in_keys
          by (auto simp: require_lock_for_def abs_lock_def set_keys_update insert_absorb split: if_splits)
      qed
    qed
  qed
qed

lemma grant_compatible:
  "rw_grant n a h m1 = Some b \<Longrightarrow> rw_grant n a h m2 \<noteq> None \<Longrightarrow> rw_grant n b h m2 \<noteq> None"
  by (cases a; cases m1; cases m2) (auto split: if_splits)

lemma require_frame:
  "require_lock_for l known h u = Inr (fresh, l') \<Longrightarrow>
   file_based_state l' = file_based_state l \<and> max_non_exclusive l' = max_non_exclusive l
   \<and> waiting_queues l' = waiting_queues l"
  by (auto simp: require_lock_for_def split: if_splits option.splits)

lemma release_frame:
  "release_lock_for l h u = Inr (released, l') \<Longrightarrow>
   file_based_state l' = file_based_state l \<and> max_non_exclusive l' = max_non_exclusive l
   \<and> waiting_queues l' = waiting_queues l"
  by (auto simp: release_lock_for_def Let_def split: if_splits option.splits)

text \<open>A second use that was available to the holder is still available after the first is held.\<close>

lemma free_for_stable:
  assumes "lock_wf l" "require_lock_for l known h u = Inr (fresh, l')" "is_free_for l v (Some h)"
  shows "is_free_for l' v (Some h)"
proof -
  have act: "file_based_state l = S_active"
    using assms(2) by (auto simp: require_lock_for_def split: if_splits)
  then show ?thesis
    using free_for_refines [OF assms(1) act] assms(3) require_frame [OF assms(2)]
      free_for_refines [OF require_wf [OF assms(1,2)]] grant_compatible [OF require_refines [OF assms(1,2)]]
    by simp
qed

text \<open>
  The number of non-exclusive holders never exceeds the configured maximum, except that one holder
  may remain after a downgrade from exclusive.
\<close>

definition within_max :: "lock \<Rightarrow> bool" where
  "within_max l = (count_non_exclusive_holders l \<le> max 1 (max_non_exclusive l))"

lemma require_within_max:
  assumes "lock_wf l" "within_max l" "require_lock_for l known h u = Inr (fresh, l')"
  shows "within_max l'"
proof (cases "map_of (holder_map l) h")
  case None
  then have l': "l' = l\<lparr>holder_map := AList.update h [u] (holder_map l), lock_mode := use_lock_mode u\<rparr>"
    and free: "is_free_for l u (Some h)"
    using assms(3) by (auto simp: require_lock_for_def split: if_splits)
  have "length (AList.update h [u] (holder_map l)) = Suc (length (holder_map l))"
    using None by (simp add: length_update_new map_of_None_keys)
  then show ?thesis
    using free None l'
    by (auto simp: within_max_def count_non_exclusive_holders_def is_free_for_def is_free_def Let_def
        split: if_splits)
next
  case (Some us)
  then have "length (AList.update h vs (holder_map l)) = length (holder_map l)" for vs
    using map_of_Some_keys [OF Some] by (simp add: length_update_old)
  then show ?thesis
    using assms(2,3) Some
    by (auto simp: require_lock_for_def within_max_def count_non_exclusive_holders_def split: if_splits)
qed

lemma release_within_max:
  assumes "lock_wf l" "within_max l" "release_lock_for l h u = Inr (released, l')"
  shows "within_max l'"
proof (cases "map_of (holder_map l) h")
  case (Some us)
  have "length (AList.update h vs (holder_map l)) = length (holder_map l)" for vs
    using map_of_Some_keys [OF Some] by (simp add: length_update_old)
  moreover have "length (holder_map l) = 1" if "lock_mode l = Lk_exclusive"
    using that assms(1) Some by (auto simp: lock_wf_def)
  ultimately show ?thesis
    using assms(2,3) Some length_delete_le [of h "holder_map l"]
    by (auto simp: release_lock_for_def within_max_def count_non_exclusive_holders_def Let_def
        split: if_splits)
qed (use assms in \<open>simp add: release_lock_for_def\<close>)

section \<open>The contract of one lock\<close>

definition lock_acquire :: "lock \<Rightarrow> holder_id \<Rightarrow> lock_use \<Rightarrow> lock result" where
  "lock_acquire l h u = bind_r (require_lock_for l True h u) (\<lambda>r. Inr (snd r))"

definition lock_release :: "lock \<Rightarrow> holder_id \<Rightarrow> lock_use \<Rightarrow> lock" where
  "lock_release l h u = (case release_lock_for l h u of Inl _ \<Rightarrow> l | Inr r \<Rightarrow> snd r)"

definition use_conflict :: "lock_use \<Rightarrow> lock_use \<Rightarrow> bool" where
  "use_conflict u v = (use_lock_mode u = Lk_exclusive \<or> use_lock_mode v = Lk_exclusive)"

interpretation one_lock: exclusion lock_wf is_held_by use_conflict lock_acquire lock_release
proof unfold_locales
  fix l l' h u g v
  assume wf: "lock_wf l"
  obtain rel l1 where rel: "release_lock_for l h u = Inr (rel, l1)"
    using release_total [OF wf] by fastforce
  then have l1: "lock_release l h u = l1" by (simp add: lock_release_def)
  show "lock_wf (lock_release l h u)"
    using release_wf [OF wf rel] l1 by simp
  show "is_held_by (lock_release l h u) g v \<longleftrightarrow> is_held_by l g v \<and> \<not> (g = h \<and> v = u)"
    using release_held [OF wf rel] l1 by simp
  show "g = h" if "is_held_by l h u" "is_held_by l g v" "use_conflict u v"
    using that exclusive_use_excludes [OF wf] by (auto simp: use_conflict_def)
  assume "lock_acquire l h u = Inr l'"
  then obtain fresh where "require_lock_for l True h u = Inr (fresh, l')"
    by (auto simp: lock_acquire_def bind_r_Inr_iff)
  then show "lock_wf l'" "is_held_by l' g v \<longleftrightarrow> (g = h \<and> v = u) \<or> is_held_by l g v"
    using require_wf [OF wf] require_held by blast+
qed

text \<open>The same contract with the bound on the number of holders in the invariant.\<close>

interpretation bounded_lock:
  exclusion "\<lambda>l. lock_wf l \<and> within_max l" is_held_by use_conflict lock_acquire lock_release
proof unfold_locales
  fix l l' h u g v
  assume "lock_wf l \<and> within_max l"
  then have wf: "lock_wf l" and max: "within_max l" by simp_all
  obtain rel l1 where rel: "release_lock_for l h u = Inr (rel, l1)"
    using release_total [OF wf] by fastforce
  then show "lock_wf (lock_release l h u) \<and> within_max (lock_release l h u)"
    using release_wf [OF wf rel] release_within_max [OF wf max rel] by (simp add: lock_release_def)
  show "is_held_by (lock_release l h u) g v \<longleftrightarrow> is_held_by l g v \<and> \<not> (g = h \<and> v = u)"
    using wf by (rule one_lock.release_held)
  show "g = h" if "is_held_by l h u" "is_held_by l g v" "use_conflict u v"
    using wf that by (rule one_lock.exclusive)
  assume acq: "lock_acquire l h u = Inr l'"
  then obtain fresh where req: "require_lock_for l True h u = Inr (fresh, l')"
    by (auto simp: lock_acquire_def bind_r_Inr_iff)
  then show "lock_wf l' \<and> within_max l'"
    using require_wf [OF wf] require_within_max [OF wf max] by blast
  show "is_held_by l' g v \<longleftrightarrow> (g = h \<and> v = u) \<or> is_held_by l g v"
    using wf acq by (rule one_lock.acquire_held)
qed

section \<open>Waiting queues, closing\<close>

lemma enqueue_queue:
  assumes "enqueue_lock_use l u = (place, l')"
  shows "waiting_queues l' m =
      (if m = use_lock_mode u then waiting_queues l m @ [u] else waiting_queues l m)"
    and "place = (if use_lock_mode u = Lk_exclusive then length (waiting_queues l' Lk_exclusive)
                  else length (waiting_queues l' Lk_exclusive) + length (waiting_queues l' Lk_non_exclusive))"
    and "holder_map l' = holder_map l" "lock_mode l' = lock_mode l"
  using assms by (auto simp: enqueue_lock_use_def Let_def)

lemma dequeue_enqueue:
  "u \<notin> set (waiting_queues l (use_lock_mode u)) \<Longrightarrow>
   dequeue_lock_use (snd (enqueue_lock_use l u)) u = l"
  by (cases "use_lock_mode u") (simp_all add: enqueue_lock_use_def dequeue_lock_use_def remove1_append Let_def)

lemma close_loop_ends: "close_loop h = Some y \<Longrightarrow> h = []"
  by (rule close_loop.raw_induct [where P = "\<lambda>h y. h = []"]) (auto split: list.splits)

lemma close_ends: "lock_close l \<noteq> None \<longleftrightarrow> holder_map l = []"
proof (cases "close_loop (holder_map l)")
  case None
  then have "holder_map l \<noteq> []" by (auto simp: close_loop.simps)
  with None show ?thesis by (simp add: lock_close_def)
next
  case (Some y)
  then show ?thesis using close_loop_ends by (simp add: lock_close_def)
qed

end
