(* ===== verification/Lock_System.thy ===== *)
theory Lock_System
  imports Lock_Object
begin

text \<open>
  \<^verbatim>\<open>struct Requestor\<close>, \<^verbatim>\<open>struct Use\<close> and \<^verbatim>\<open>struct Holder\<close> of \<^verbatim>\<open>scheduler/lock.cxx\<close> over all locks of the
  scheduler. The state is an explicit store: the locks by path (the subsystem's map; a path is its
  own normalised path, see Scheduler_Path), the requestors and the holders by identity.

  \<^verbatim>\<open>Requestor::on_locks_are_available\<close> is a callback into jobs and tasks; it is recorded in \<open>notified\<close>
  in the order of the calls. \<^verbatim>\<open>candidates\<close> collects the locks handed to the folder to be replaced or
  removed. Log output is left out.
\<close>

section \<open>State\<close>

text \<open>
  \<open>task_holder\<close> is the holder a \<^verbatim>\<open>Task_lock_requestor\<close> asks for (the task's \<^verbatim>\<open>_lock_holder\<close>); a
  \<^verbatim>\<open>Job_lock_requestor\<close> asks for the null holder.
\<close>

record requestor =
  is_enqueued :: bool
  use_list :: "lock_use list"
  task_holder :: "holder_id option"

record lock_world =
  locks :: "string \<Rightarrow> lock option"
  requestors :: "requestor_id \<Rightarrow> requestor"
  requestor_set :: "holder_id \<Rightarrow> requestor_id list"
  lock_subsystem_state :: subsystem_state
  notified :: "requestor_id list"
  candidates :: "string list"

definition lock_or_null :: "lock_world \<Rightarrow> lock_use \<Rightarrow> lock option" where
  "lock_or_null w u = locks w (use_lock_path u)"

definition the_lock :: "lock_world \<Rightarrow> lock_use \<Rightarrow> lock result" where
  "the_lock w u = (case lock_or_null w u of None \<Rightarrow> Inl (Xc ''SCHEDULER-161'') | Some l \<Rightarrow> Inr l)"

definition set_lock :: "lock_world \<Rightarrow> string \<Rightarrow> lock \<Rightarrow> lock_world" where
  "set_lock w path l = w\<lparr>locks := (locks w)(path \<mapsto> l)\<rparr>"

definition set_requestor :: "lock_world \<Rightarrow> requestor_id \<Rightarrow> requestor \<Rightarrow> lock_world" where
  "set_requestor w r q = w\<lparr>requestors := (requestors w)(r := q)\<rparr>"

section \<open>Requestor\<close>

text \<open>The loop of \<^verbatim>\<open>locks_are_available_for_holder\<close> with its two flags; it breaks at the first lock
  that is missing or not free.\<close>

fun available_loop :: "lock_world \<Rightarrow> holder_id option \<Rightarrow> bool \<Rightarrow> lock_use list \<Rightarrow> bool \<times> bool" where
  "available_loop w holder its_turn [] = (True, its_turn)"
| "available_loop w holder its_turn (u # us) =
     (case lock_or_null w u of
        None \<Rightarrow> (False, its_turn)
      | Some l \<Rightarrow>
          if \<not> is_free_for l u holder then (False, its_turn)
          else available_loop w holder (if its_turn then True else its_my_turn l u holder) us)"

definition locks_are_available_for_holder :: "lock_world \<Rightarrow> requestor_id \<Rightarrow> holder_id option \<Rightarrow> bool"
  where
  "locks_are_available_for_holder w r holder =
     (let (all_locks_are_free, its_turn) = available_loop w holder False (use_list (requestors w r))
      in all_locks_are_free \<and> its_turn)"

definition locks_are_available :: "lock_world \<Rightarrow> requestor_id \<Rightarrow> bool" where
  "locks_are_available w r = locks_are_available_for_holder w r (task_holder (requestors w r))"

definition locks_are_known :: "lock_world \<Rightarrow> requestor_id \<Rightarrow> bool" where
  "locks_are_known w r = list_all (\<lambda>u. lock_or_null w u \<noteq> None) (use_list (requestors w r))"

fun enqueue_loop :: "lock_world \<Rightarrow> holder_id option \<Rightarrow> lock_use list \<Rightarrow> lock_world result" where
  "enqueue_loop w holder [] = Inr w"
| "enqueue_loop w holder (u # us) =
     bind_r (the_lock w u) (\<lambda>l.
       let held = (case holder of None \<Rightarrow> False | Some h \<Rightarrow> is_held_by l h u);
           w' = (if held then w else set_lock w (use_lock_path u) (snd (enqueue_lock_use l u)))
       in enqueue_loop w' holder us)"

definition enqueue_lock_requests ::
  "lock_world \<Rightarrow> requestor_id \<Rightarrow> holder_id option \<Rightarrow> (bool \<times> lock_world) result" where
  "enqueue_lock_requests w r holder =
     (if is_enqueued (requestors w r) then Inl (Xc ''enqueue_lock_requests'')
      else if \<not> locks_are_known w r then Inr (False, w)
      else bind_r (enqueue_loop (set_requestor w r ((requestors w r)\<lparr>is_enqueued := True\<rparr>)) holder
                     (use_list (requestors w r)))
             (\<lambda>w'. Inr (True, w')))"

fun dequeue_loop :: "lock_world \<Rightarrow> lock_use list \<Rightarrow> lock_world" where
  "dequeue_loop w [] = w"
| "dequeue_loop w (u # us) =
     dequeue_loop
       (case lock_or_null w u of
          None \<Rightarrow> w
        | Some l \<Rightarrow> set_lock w (use_lock_path u) (dequeue_lock_use l u)) us"

definition dequeue_lock_requests :: "lock_world \<Rightarrow> requestor_id \<Rightarrow> lock_world" where
  "dequeue_lock_requests w r =
     (if is_enqueued (requestors w r)
      then (let w' = dequeue_loop w (use_list (requestors w r))
            in set_requestor w' r ((requestors w' r)\<lparr>is_enqueued := False\<rparr>))
      else w)"

text \<open>\<^verbatim>\<open>Requestor::close\<close>: the uses leave the waiting queues, then the list is emptied and each \<^verbatim>\<open>Use\<close>
  is closed by its destructor, which also unregisters it.\<close>

fun unregister_loop :: "lock_world \<Rightarrow> lock_use list \<Rightarrow> lock_world" where
  "unregister_loop w [] = w"
| "unregister_loop w (u # us) =
     unregister_loop
       (case lock_or_null w u of
          None \<Rightarrow> w
        | Some l \<Rightarrow> set_lock w (use_lock_path u) (unregister_lock_use (dequeue_lock_use l u) u)) us"

definition requestor_close :: "lock_world \<Rightarrow> requestor_id \<Rightarrow> lock_world" where
  "requestor_close w r =
     (let us = use_list (requestors w r);
          w' = dequeue_loop w us;
          w'' = set_requestor w' r ((requestors w' r)\<lparr>use_list := []\<rparr>)
      in unregister_loop w'' us)"

text \<open>
  \<^verbatim>\<open>lock_use_or_null\<close> keeps the last match of the loop; \<^verbatim>\<open>add_lock_use\<close> creates a use only when there
  is none. \<open>new_id\<close> is the identity of the object \<^verbatim>\<open>Z_NEW( Use )\<close> allocates.
\<close>

definition lock_use_or_null :: "lock_world \<Rightarrow> requestor_id \<Rightarrow> string \<Rightarrow> lock_mode \<Rightarrow> lock_use option"
  where
  "lock_use_or_null w r path m =
     fold (\<lambda>u found. if use_lock_path u = path \<and> use_lock_mode u = m then Some u else found)
       (use_list (requestors w r)) None"

definition add_lock_use ::
  "lock_world \<Rightarrow> requestor_id \<Rightarrow> string \<Rightarrow> lock_mode \<Rightarrow> nat \<Rightarrow> lock_use \<times> lock_world" where
  "add_lock_use w r path m new_id =
     (case lock_use_or_null w r path m of
        Some u \<Rightarrow> (u, w)
      | None \<Rightarrow>
          let u = \<lparr>use_id = new_id, use_lock_path = path, use_lock_mode = m, use_requestor = r\<rparr>
          in (u, set_requestor w r ((requestors w r)\<lparr>use_list := use_list (requestors w r) @ [u]\<rparr>)))"

definition use_load :: "lock_world \<Rightarrow> lock_use \<Rightarrow> lock_world" where
  "use_load w u =
     (case lock_or_null w u of
        None \<Rightarrow> w
      | Some l \<Rightarrow> set_lock w (use_lock_path u) (register_lock_use l u))"

definition requestor_load :: "lock_world \<Rightarrow> requestor_id \<Rightarrow> lock_world" where
  "requestor_load w r = fold (\<lambda>u w. use_load w u) (use_list (requestors w r)) w"

section \<open>Lock operations that reach other objects\<close>

definition notify_waiting_requestor :: "lock_world \<Rightarrow> string \<Rightarrow> lock_world" where
  "notify_waiting_requestor w path =
     (case locks w path of
        None \<Rightarrow> w
      | Some l \<Rightarrow>
          (case next_requestor l of
             Some r \<Rightarrow> if locks_are_available w r then w\<lparr>notified := notified w @ [r]\<rparr> else w
           | None \<Rightarrow> w))"

definition check_lock_candidate :: "lock_world \<Rightarrow> string \<Rightarrow> lock_world" where
  "check_lock_candidate w path =
     (case locks w path of
        None \<Rightarrow> w
      | Some l \<Rightarrow>
          let (candidate, l') = check_for_replacing_or_removing (lock_subsystem_state w) l;
              w' = set_lock w path l'
          in if candidate then w'\<lparr>candidates := candidates w' @ [path]\<rparr> else w')"

definition set_max_non_exclusive :: "lock_world \<Rightarrow> string \<Rightarrow> int \<Rightarrow> lock_world" where
  "set_max_non_exclusive w path n =
     (case locks w path of
        None \<Rightarrow> w
      | Some l \<Rightarrow>
          if max_non_exclusive l = n then w
          else notify_waiting_requestor (set_lock w path (l\<lparr>max_non_exclusive := n\<rparr>)) path)"

text \<open>\<^verbatim>\<open>Lock::release_lock_for\<close> in full: with the notification and the check for a pending removal.\<close>

definition release_use :: "lock_world \<Rightarrow> holder_id \<Rightarrow> lock_use \<Rightarrow> (bool \<times> lock_world) result" where
  "release_use w h u =
     bind_r (the_lock w u) (\<lambda>l.
       bind_r (release_lock_for l h u) (\<lambda>(is_released, l').
         let w' = set_lock w (use_lock_path u) l'
         in Inr (is_released,
                 if is_released
                 then check_lock_candidate (notify_waiting_requestor w' (use_lock_path u)) (use_lock_path u)
                 else w')))"

text \<open>
  \<^verbatim>\<open>Lock::on_prepare_to_remove\<close> takes the requestors of all waiting uses off the queues, if the lock
  is not yet marked. It is called by \<^verbatim>\<open>File_based::prepare_to_remove\<close> after \<^verbatim>\<open>set_to_be_removed( true )\<close>,
  which also drops the replacement.
\<close>

definition on_prepare_to_remove :: "lock_world \<Rightarrow> string \<Rightarrow> lock_world" where
  "on_prepare_to_remove w path =
     (case locks w path of
        None \<Rightarrow> w
      | Some l \<Rightarrow>
          if \<not> is_to_be_removed l
          then fold (\<lambda>r w. dequeue_lock_requests w r)
                 (remdups (map use_requestor (waiting_queues l Lk_exclusive @ waiting_queues l Lk_non_exclusive)))
                 w
          else w)"

definition prepare_to_remove :: "lock_world \<Rightarrow> string \<Rightarrow> lock_world result" where
  "prepare_to_remove w path =
     (case locks w path of
        None \<Rightarrow> Inl (Xc ''SCHEDULER-161'')
      | Some l \<Rightarrow>
          if \<not> is_in_folder l then Inl (Xc ''SCHEDULER-433'')
          else Inr (on_prepare_to_remove
                 (set_lock w path (l\<lparr>is_to_be_removed := True, replacement_state := None\<rparr>)) path))"

section \<open>Holder\<close>

definition is_known_requestor :: "lock_world \<Rightarrow> holder_id \<Rightarrow> requestor_id \<Rightarrow> bool" where
  "is_known_requestor w h r = (r \<in> set (requestor_set w h))"

definition use_is_held :: "lock_world \<Rightarrow> holder_id \<Rightarrow> lock_use \<Rightarrow> bool" where
  "use_is_held w h u = (case lock_or_null w u of None \<Rightarrow> False | Some l \<Rightarrow> is_held_by l h u)"

definition is_holding_all_of :: "lock_world \<Rightarrow> holder_id \<Rightarrow> requestor_id \<Rightarrow> bool result" where
  "is_holding_all_of w h r =
     (if \<not> is_known_requestor w h r then Inl (Assertion ''is_holding_all_of'')
      else Inr (use_list (requestors w r) \<noteq> [] \<and> list_all (use_is_held w h) (use_list (requestors w r))))"

definition is_holding_none_of :: "lock_world \<Rightarrow> holder_id \<Rightarrow> requestor_id \<Rightarrow> bool result" where
  "is_holding_none_of w h r =
     (if \<not> is_known_requestor w h r then Inl (Assertion ''is_holding_none_of'')
      else Inr (\<not> list_ex (use_is_held w h) (use_list (requestors w r))))"

definition add_requestor :: "lock_world \<Rightarrow> holder_id \<Rightarrow> requestor_id \<Rightarrow> lock_world result" where
  "add_requestor w h r =
     (if is_known_requestor w h r then Inl (Assertion ''add_requestor'')
      else Inr (w\<lparr>requestor_set := (requestor_set w)(h := requestor_set w h @ [r])\<rparr>))"

definition hold_lock :: "lock_world \<Rightarrow> holder_id \<Rightarrow> lock_use \<Rightarrow> lock_world result" where
  "hold_lock w h u =
     bind_r (the_lock w u) (\<lambda>l.
       bind_r (require_lock_for l (is_known_requestor w h (use_requestor u)) h u) (\<lambda>(_, l').
         Inr (set_lock w (use_lock_path u) l')))"

definition try_hold :: "lock_world \<Rightarrow> holder_id \<Rightarrow> lock_use \<Rightarrow> (bool \<times> lock_world) result" where
  "try_hold w h u =
     bind_r (the_lock w u) (\<lambda>l.
       if is_free_for l u (Some h) then bind_r (hold_lock w h u) (\<lambda>w'. Inr (True, w'))
       else Inr (False, w))"

definition hold_locks :: "lock_world \<Rightarrow> holder_id \<Rightarrow> requestor_id \<Rightarrow> unit result \<times> lock_world" where
  "hold_locks w h r =
     (if \<not> locks_are_available_for_holder w r (Some h) then (Inl (Assertion ''hold_locks''), w)
      else if \<not> is_known_requestor w h r then (Inl (Assertion ''hold_locks''), w)
      else case acquire_list hold_lock w h (use_list (requestors w r)) of
        (Inl e, w') \<Rightarrow> (Inl e, w')
      | (Inr _, w') \<Rightarrow>
          (case is_holding_all_of w' h r of
             Inr True \<Rightarrow> (Inr (), w')
           | _ \<Rightarrow> (Inl (Assertion ''hold_locks''), w')))"

text \<open>An exception while releasing one use is caught and logged; the loop goes on.\<close>

definition release_use_caught :: "lock_world \<Rightarrow> holder_id \<Rightarrow> lock_use \<Rightarrow> lock_world" where
  "release_use_caught w h u = (case release_use w h u of Inl _ \<Rightarrow> w | Inr (_, w') \<Rightarrow> w')"

definition release_locks_of :: "lock_world \<Rightarrow> holder_id \<Rightarrow> requestor_id \<Rightarrow> unit result \<times> lock_world"
  where
  "release_locks_of w h r =
     (if \<not> is_known_requestor w h r then (Inl (Assertion ''release_locks''), w)
      else let w' = release_list release_use_caught w h (use_list (requestors w r))
        in case is_holding_none_of w' h r of
          Inr True \<Rightarrow> (Inr (), w')
        | _ \<Rightarrow> (Inl (Assertion ''release_locks''), w'))"

fun release_locks_loop :: "lock_world \<Rightarrow> holder_id \<Rightarrow> requestor_id list \<Rightarrow> unit result \<times> lock_world"
  where
  "release_locks_loop w h [] = (Inr (), w)"
| "release_locks_loop w h (r # rs) =
     (case release_locks_of w h r of
        (Inl e, w') \<Rightarrow> (Inl e, w')
      | (Inr _, w') \<Rightarrow> release_locks_loop w' h rs)"

definition release_locks :: "lock_world \<Rightarrow> holder_id \<Rightarrow> unit result \<times> lock_world" where
  "release_locks w h = release_locks_loop w h (requestor_set w h)"

definition remove_requestor :: "lock_world \<Rightarrow> holder_id \<Rightarrow> requestor_id \<Rightarrow> unit result \<times> lock_world"
  where
  "remove_requestor w h r =
     (case is_holding_none_of w h r of
        Inr True \<Rightarrow>
          (case release_locks_of w h r of
             (Inl e, w') \<Rightarrow> (Inl e, w')
           | (Inr _, w') \<Rightarrow>
               (Inr (), w'\<lparr>requestor_set := (requestor_set w')(h := remove1 r (requestor_set w' h))\<rparr>))
      | _ \<Rightarrow> (Inl (Assertion ''remove_requestor''), w))"

section \<open>The contract of all locks\<close>

definition world_wf :: "lock_world \<Rightarrow> bool" where
  "world_wf w = (\<forall>path l. locks w path = Some l \<longrightarrow> lock_wf l)"

definition world_conflict :: "lock_use \<Rightarrow> lock_use \<Rightarrow> bool" where
  "world_conflict u v = (use_lock_path u = use_lock_path v \<and> use_conflict u v)"

text \<open>
  Notification and the check for a pending removal touch neither holders nor queues: two worlds
  \<open>agree\<close> when their locks differ at most in the replacement's life-cycle state.
\<close>

definition forget :: "lock \<Rightarrow> lock" where
  "forget l = l\<lparr>replacement_state := None\<rparr>"

definition agree :: "lock_world \<Rightarrow> lock_world \<Rightarrow> bool" where
  "agree w w' \<longleftrightarrow> (\<forall>path. map_option forget (locks w path) = map_option forget (locks w' path))
     \<and> requestors w = requestors w' \<and> requestor_set w = requestor_set w'"

lemma agree_refl [simp]: "agree w w"
  by (simp add: agree_def)

lemma agree_trans: "agree w w' \<Longrightarrow> agree w' w'' \<Longrightarrow> agree w w''"
  by (simp add: agree_def)

lemma forget_fields [simp]:
  "lock_wf (forget l) = lock_wf l" "is_held_by (forget l) h u = is_held_by l h u"
  "waiting_queues (forget l) = waiting_queues l" "file_based_state (forget l) = file_based_state l"
  by (simp_all add: forget_def lock_wf_def is_held_by_def)

lemma agree_lock: "agree w w' \<Longrightarrow> locks w path = Some l \<Longrightarrow>
   \<exists>l'. locks w' path = Some l' \<and> forget l' = forget l"
  unfolding agree_def by (metis (no_types, lifting) map_option_eq_Some)

lemma agree_sym: "agree w w' \<Longrightarrow> agree w' w"
  by (simp add: agree_def)

lemma agree_wf: "agree w w' \<Longrightarrow> world_wf w \<Longrightarrow> world_wf w'"
  unfolding world_wf_def by (metis agree_lock agree_sym forget_fields(1))

lemma agree_held: "agree w w' \<Longrightarrow> use_is_held w h u = use_is_held w' h u"
proof -
  assume a: "agree w w'"
  show ?thesis
  proof (cases "locks w (use_lock_path u)")
    case None
    with a have "locks w' (use_lock_path u) = None"
      using agree_lock [OF agree_sym [OF a]] by (cases "locks w' (use_lock_path u)") fastforce+
    with None show ?thesis by (simp add: use_is_held_def lock_or_null_def)
  next
    case (Some l)
    then obtain l' where "locks w' (use_lock_path u) = Some l'" "forget l' = forget l"
      using agree_lock [OF a] by blast
    with Some show ?thesis
      by (simp add: use_is_held_def lock_or_null_def) (metis forget_fields(2))
  qed
qed

lemma notify_agree: "agree w (notify_waiting_requestor w path)"
  by (auto simp: notify_waiting_requestor_def agree_def split: option.splits)

lemma check_candidate_agree: "agree w (check_lock_candidate w path)"
  by (auto simp: check_lock_candidate_def check_for_replacing_or_removing_def agree_def set_lock_def
      forget_def Let_def split: option.splits)

lemma world_wf_set: "world_wf w \<Longrightarrow> lock_wf l \<Longrightarrow> world_wf (set_lock w path l)"
  by (simp add: world_wf_def set_lock_def)

lemma world_wf_lock: "world_wf w \<Longrightarrow> lock_or_null w u = Some l \<Longrightarrow> lock_wf l"
  by (auto simp: world_wf_def lock_or_null_def)

lemma set_lock_held:
  "use_is_held (set_lock w path l) g v =
     (if use_lock_path v = path then is_held_by l g v else use_is_held w g v)"
  by (simp add: use_is_held_def set_lock_def lock_or_null_def)

lemma set_lock_frame [simp]:
  "requestors (set_lock w path l) = requestors w"
  "requestor_set (set_lock w path l) = requestor_set w"
  by (simp_all add: set_lock_def)

lemma release_use_cases:
  assumes "world_wf w"
  obtains (missing) "lock_or_null w u = None" "release_use w h u = Inl (Xc ''SCHEDULER-161'')"
  | (found) l released l' w' where "lock_or_null w u = Some l"
      "release_lock_for l h u = Inr (released, l')" "release_use w h u = Inr (released, w')"
      "agree (set_lock w (use_lock_path u) l') w'"
proof (cases "lock_or_null w u")
  case None
  then show ?thesis using missing by (simp add: release_use_def the_lock_def)
next
  case (Some l)
  obtain released l' where rel: "release_lock_for l h u = Inr (released, l')"
    using release_total [OF world_wf_lock [OF assms Some]] by fastforce
  show ?thesis
    using found [OF Some rel] agree_trans [OF notify_agree check_candidate_agree] Some rel
    by (auto simp: release_use_def the_lock_def Let_def)
qed

lemma hold_lock_cases:
  assumes "hold_lock w h u = Inr w'"
  obtains l fresh l' where "lock_or_null w u = Some l"
    "require_lock_for l (is_known_requestor w h (use_requestor u)) h u = Inr (fresh, l')"
    "w' = set_lock w (use_lock_path u) l'"
  using assms by (auto simp: hold_lock_def the_lock_def bind_r_Inr_iff split: option.splits)

lemma lock_held_lookup: "lock_or_null w u = Some l \<Longrightarrow> use_is_held w h u = is_held_by l h u"
  by (simp add: use_is_held_def)

lemma lock_or_null_path: "use_lock_path v = use_lock_path u \<Longrightarrow> lock_or_null w v = lock_or_null w u"
  by (simp add: lock_or_null_def)

lemma held_at_path:
  "lock_or_null w u = Some l \<Longrightarrow> use_lock_path v = use_lock_path u \<Longrightarrow> use_is_held w g v = is_held_by l g v"
  by (simp add: use_is_held_def lock_or_null_def)

interpretation all_locks: exclusion world_wf use_is_held world_conflict hold_lock release_use_caught
proof unfold_locales
  fix w w' h u g v
  assume wf: "world_wf w"
  show "world_wf (release_use_caught w h u)"
  proof (rule release_use_cases [OF wf, of u h], goal_cases missing found)
    case (found l released l' w')
    have "lock_wf l'" using release_wf [OF world_wf_lock [OF wf found(1)] found(2)] .
    from agree_wf [OF found(4) world_wf_set [OF wf this]] found(3)
    show ?case by (simp add: release_use_caught_def)
  qed (simp add: release_use_caught_def wf)
  show "use_is_held (release_use_caught w h u) g v \<longleftrightarrow> use_is_held w g v \<and> \<not> (g = h \<and> v = u)"
  proof (rule release_use_cases [OF wf, of u h], goal_cases missing found)
    case missing
    then show ?case by (auto simp: release_use_caught_def use_is_held_def)
  next
    case (found l released l' w')
    have "use_is_held w' g v = use_is_held (set_lock w (use_lock_path u) l') g v"
      using agree_held [OF found(4)] by simp
    then show ?case
      using release_held [OF world_wf_lock [OF wf found(1)] found(2)] found(3)
        held_at_path [OF found(1)]
      by (cases "use_lock_path v = use_lock_path u") (auto simp: release_use_caught_def set_lock_held)
  qed
  show "g = h" if "use_is_held w h u" "use_is_held w g v" "world_conflict u v"
  proof -
    from that(1) obtain l where l: "lock_or_null w u = Some l"
      by (auto simp: use_is_held_def split: option.splits)
    have "is_held_by l h u" "is_held_by l g v" "use_conflict u v"
      using that held_at_path [OF l] by (auto simp: world_conflict_def)
    then show ?thesis using one_lock.exclusive [OF world_wf_lock [OF wf l]] by blast
  qed
  assume "hold_lock w h u = Inr w'"
  then obtain l fresh l' where l: "lock_or_null w u = Some l"
      "require_lock_for l (is_known_requestor w h (use_requestor u)) h u = Inr (fresh, l')"
    and w': "w' = set_lock w (use_lock_path u) l'"
    by (rule hold_lock_cases)
  show "world_wf w'"
    using world_wf_set [OF wf require_wf [OF world_wf_lock [OF wf l(1)] l(2)]] w' by simp
  show "use_is_held w' g v \<longleftrightarrow> (g = h \<and> v = u) \<or> use_is_held w g v"
    using require_held [OF l(2)] held_at_path [OF l(1)] w'
    by (cases "use_lock_path v = use_lock_path u") (auto simp: set_lock_held)
qed

end
