(* ===== verification/Lock_Correctness.thy ===== *)
theory Lock_Correctness
  imports Lock_System
begin

text \<open>
  What holders and requestors rely on: holding all locks of a requestor succeeds when they are
  available, releasing never fails and leaves nothing held, waiting and giving up waiting are inverse,
  and the properties of the manifest about locks.
\<close>

section \<open>Frames\<close>

lemma release_caught_frame:
  assumes "world_wf w"
  shows "requestors (release_use_caught w h u) = requestors w"
    "requestor_set (release_use_caught w h u) = requestor_set w"
  by (rule release_use_cases [OF assms, of u h]; simp add: release_use_caught_def agree_def)+

lemma release_list_frame:
  assumes "world_wf w"
  shows "requestors (release_list release_use_caught w h us) = requestors w
    \<and> requestor_set (release_list release_use_caught w h us) = requestor_set w"
  using assms
  by (induction us arbitrary: w) (simp_all add: release_caught_frame all_locks.release_inv)

lemma hold_lock_frame:
  "hold_lock w h u = Inr w' \<Longrightarrow> requestors w' = requestors w \<and> requestor_set w' = requestor_set w"
  by (auto elim: hold_lock_cases)

lemma acquire_list_frame:
  "acquire_list hold_lock w h us = (res, w') \<Longrightarrow>
   requestors w' = requestors w \<and> requestor_set w' = requestor_set w"
  by (induction us arbitrary: w) (use hold_lock_frame in \<open>fastforce split: sum.splits\<close>)+

section \<open>Holding\<close>

text \<open>A use the holder can take now: its lock exists, is active and is free for the holder.\<close>

definition can_take :: "lock_world \<Rightarrow> holder_id \<Rightarrow> lock_use \<Rightarrow> bool" where
  "can_take w h u =
     (case lock_or_null w u of
        None \<Rightarrow> False
      | Some l \<Rightarrow> file_based_state l = S_active \<and> is_free_for l u (Some h)
                  \<and> is_known_requestor w h (use_requestor u))"

lemma can_take_iff:
  "can_take w h u \<longleftrightarrow> (\<exists>l. lock_or_null w u = Some l \<and> file_based_state l = S_active
     \<and> is_free_for l u (Some h) \<and> is_known_requestor w h (use_requestor u))"
  by (simp add: can_take_def split: option.splits)

lemma hold_lock_iff: "(\<exists>w'. hold_lock w h u = Inr w') \<longleftrightarrow> can_take w h u"
proof (cases "lock_or_null w u")
  case (Some l)
  show ?thesis
    using Some require_result [of l "is_known_requestor w h (use_requestor u)" h u]
    by (auto simp: hold_lock_def the_lock_def can_take_def split: if_splits)
qed (simp add: hold_lock_def the_lock_def can_take_def)

lemma can_take_stable:
  assumes "world_wf w" "hold_lock w h u = Inr w'" "can_take w h v"
  shows "can_take w' h v"
proof -
  obtain l fresh l' where l: "lock_or_null w u = Some l"
      "require_lock_for l (is_known_requestor w h (use_requestor u)) h u = Inr (fresh, l')"
    and w': "w' = set_lock w (use_lock_path u) l'"
    using assms(2) by (rule hold_lock_cases)
  show ?thesis
  proof (cases "use_lock_path v = use_lock_path u")
    case True
    then have "lock_or_null w v = Some l" "lock_or_null w' v = Some l'"
      using l w' by (simp_all add: lock_or_null_def set_lock_def)
    then show ?thesis
      using assms(3) w' free_for_stable [OF world_wf_lock [OF assms(1) l(1)] l(2)] require_frame [OF l(2)]
      by (simp add: can_take_iff is_known_requestor_def)
  next
    case False
    then have "lock_or_null w' v = lock_or_null w v"
      using w' by (simp add: lock_or_null_def set_lock_def)
    then show ?thesis using assms(3) w' by (simp add: can_take_iff is_known_requestor_def)
  qed
qed

lemma acquire_list_succeeds:
  assumes "world_wf w" "\<forall>u \<in> set us. can_take w h u"
  shows "\<exists>w'. acquire_list hold_lock w h us = (Inr (), w') \<and> requestors w' = requestors w
    \<and> requestor_set w' = requestor_set w"
  using assms
proof (induction us arbitrary: w)
  case (Cons u us)
  then obtain w1 where w1: "hold_lock w h u = Inr w1" using hold_lock_iff [of w h u] by auto
  have "world_wf w1" using all_locks.acquire_inv [OF Cons.prems(1) w1] .
  moreover have "\<forall>v \<in> set us. can_take w1 h v"
    using can_take_stable [OF Cons.prems(1) w1] Cons.prems(2) by simp
  ultimately show ?case using Cons.IH [of w1] w1 hold_lock_frame [OF w1] by auto
qed simp

lemma available_loop_all:
  "fst (available_loop w holder t us) \<longleftrightarrow>
     (\<forall>u \<in> set us. \<exists>l. lock_or_null w u = Some l \<and> is_free_for l u holder)"
  by (induction us arbitrary: t) (auto split: option.splits)

text \<open>Once all locks are free, it is the requestor's turn as soon as it is first in one queue.\<close>

lemma available_loop_turn:
  "\<forall>u \<in> set us. \<exists>l. lock_or_null w u = Some l \<and> is_free_for l u holder \<Longrightarrow>
   snd (available_loop w holder t us) \<longleftrightarrow>
     t \<or> (\<exists>u \<in> set us. \<exists>l. lock_or_null w u = Some l \<and> its_my_turn l u holder)"
  by (induction us arbitrary: t) auto

lemma available_iff:
  "locks_are_available_for_holder w r holder \<longleftrightarrow>
     (\<forall>u \<in> set (use_list (requestors w r)). \<exists>l. lock_or_null w u = Some l \<and> is_free_for l u holder)
     \<and> (\<exists>u \<in> set (use_list (requestors w r)). \<exists>l. lock_or_null w u = Some l \<and> its_my_turn l u holder)"
  using available_loop_all [of w holder False "use_list (requestors w r)"]
    available_loop_turn [of "use_list (requestors w r)" w holder False]
  unfolding locks_are_available_for_holder_def Let_def case_prod_unfold by blast

definition own_uses :: "lock_world \<Rightarrow> requestor_id \<Rightarrow> bool" where
  "own_uses w r = list_all (\<lambda>u. use_requestor u = r) (use_list (requestors w r))"

definition active_locks :: "lock_world \<Rightarrow> requestor_id \<Rightarrow> bool" where
  "active_locks w r =
     list_all (\<lambda>u. case lock_or_null w u of None \<Rightarrow> True | Some l \<Rightarrow> file_based_state l = S_active)
       (use_list (requestors w r))"

lemma hold_locks_ok:
  assumes wf: "world_wf w" and avail: "locks_are_available_for_holder w r (Some h)"
    and known: "is_known_requestor w h r" and own: "own_uses w r" and act: "active_locks w r"
  shows "\<exists>w'. hold_locks w h r = (Inr (), w') \<and> world_wf w' \<and>
    (\<forall>g v. use_is_held w' g v \<longleftrightarrow> (g = h \<and> v \<in> set (use_list (requestors w r))) \<or> use_is_held w g v)"
proof -
  let ?us = "use_list (requestors w r)"
  have "\<forall>u \<in> set ?us. can_take w h u"
    using avail known own act
    by (fastforce simp: available_iff can_take_iff own_uses_def active_locks_def list_all_iff)
  from acquire_list_succeeds [OF wf this] obtain w' where
    w': "acquire_list hold_lock w h ?us = (Inr (), w')" "requestors w' = requestors w"
      "requestor_set w' = requestor_set w" by blast
  note held = all_locks.acquire_list_held [OF wf w'(1)]
  have "?us \<noteq> []" using avail by (auto simp: available_iff)
  then have "is_holding_all_of w' h r = Inr True"
    using w' known held by (auto simp: is_holding_all_of_def is_known_requestor_def list_all_iff)
  then have "hold_locks w h r = (Inr (), w')"
    using avail known w'(1) by (simp add: hold_locks_def)
  then show ?thesis using held all_locks.acquire_list_inv [OF wf w'(1)] by blast
qed

section \<open>Releasing\<close>

lemma release_locks_of_ok:
  assumes wf: "world_wf w" and known: "is_known_requestor w h r"
  shows "\<exists>w'. release_locks_of w h r = (Inr (), w') \<and> world_wf w' \<and> requestors w' = requestors w
    \<and> requestor_set w' = requestor_set w \<and>
    (\<forall>g v. use_is_held w' g v \<longleftrightarrow> use_is_held w g v \<and> \<not> (g = h \<and> v \<in> set (use_list (requestors w r))))"
proof -
  let ?us = "use_list (requestors w r)"
  let ?w' = "release_list release_use_caught w h ?us"
  note held = all_locks.release_list_held [OF wf, of h ?us]
  have "is_holding_none_of ?w' h r = Inr True"
    using known held release_list_frame [OF wf, of h ?us]
    by (auto simp: is_holding_none_of_def is_known_requestor_def list_ex_iff)
  then have "release_locks_of w h r = (Inr (), ?w')" using known by (simp add: release_locks_of_def)
  then show ?thesis
    using held all_locks.release_list_inv [OF wf] release_list_frame [OF wf] by blast
qed

lemma release_locks_loop_ok:
  assumes "world_wf w" "\<forall>r \<in> set rs. is_known_requestor w h r"
  shows "\<exists>w'. release_locks_loop w h rs = (Inr (), w') \<and> world_wf w' \<and> requestors w' = requestors w
    \<and> requestor_set w' = requestor_set w \<and>
    (\<forall>g v. use_is_held w' g v \<longleftrightarrow> use_is_held w g v
       \<and> \<not> (g = h \<and> (\<exists>r \<in> set rs. v \<in> set (use_list (requestors w r)))))"
  using assms
proof (induction rs arbitrary: w)
  case (Cons r rs)
  then obtain w1 where w1: "release_locks_of w h r = (Inr (), w1)" "world_wf w1"
      "requestors w1 = requestors w" "requestor_set w1 = requestor_set w"
      "\<forall>g v. use_is_held w1 g v \<longleftrightarrow> use_is_held w g v \<and> \<not> (g = h \<and> v \<in> set (use_list (requestors w r)))"
    using release_locks_of_ok [of w h r] by auto
  then have "\<forall>r \<in> set rs. is_known_requestor w1 h r"
    using Cons.prems(2) by (simp add: is_known_requestor_def)
  from Cons.IH [OF w1(2) this] show ?case using w1 by fastforce
qed simp

lemma release_locks_ok:
  assumes "world_wf w"
  shows "\<exists>w'. release_locks w h = (Inr (), w') \<and> world_wf w' \<and>
    (\<forall>g v. use_is_held w' g v \<longleftrightarrow> use_is_held w g v
       \<and> \<not> (g = h \<and> (\<exists>r \<in> set (requestor_set w h). v \<in> set (use_list (requestors w r)))))"
  using release_locks_loop_ok [OF assms, of "requestor_set w h" h]
  by (auto simp: release_locks_def is_known_requestor_def)

text \<open>Holding all locks of a requestor and releasing them gives back the same holdings.\<close>

lemma hold_release_ok:
  assumes "world_wf w" "locks_are_available_for_holder w r (Some h)" "is_known_requestor w h r"
    and "own_uses w r" "active_locks w r"
    and "\<forall>u \<in> set (use_list (requestors w r)). \<not> use_is_held w h u"
    and "hold_locks w h r = (Inr (), w1)"
  shows "\<exists>w2. release_locks_of w1 h r = (Inr (), w2) \<and> use_is_held w2 = use_is_held w"
proof -
  have w1: "world_wf w1"
    "\<And>g v. use_is_held w1 g v \<longleftrightarrow> (g = h \<and> v \<in> set (use_list (requestors w r))) \<or> use_is_held w g v"
    using hold_locks_ok [OF assms(1-5)] assms(7) by auto
  have acq: "acquire_list hold_lock w h (use_list (requestors w r)) = (Inr (), w1)"
    using assms(7) by (auto simp: hold_locks_def split: if_splits prod.splits sum.splits bool.splits)
  have "requestors w1 = requestors w \<and> requestor_set w1 = requestor_set w"
    using acquire_list_frame [OF acq] by simp
  then have "is_known_requestor w1 h r" using assms(3) by (simp add: is_known_requestor_def)
  from release_locks_of_ok [OF w1(1) this] obtain w2 where
    "release_locks_of w1 h r = (Inr (), w2)"
    "\<forall>g v. use_is_held w2 g v \<longleftrightarrow>
       use_is_held w1 g v \<and> \<not> (g = h \<and> v \<in> set (use_list (requestors w1 r)))" by blast
  then show ?thesis
    using w1(2) assms(6) \<open>requestors w1 = _ \<and> _\<close> by (auto simp: fun_eq_iff)
qed

section \<open>Waiting\<close>

text \<open>The uses of a request that are appended to the queue of one lock and mode, in their order.\<close>

definition waits_at ::
  "lock_world \<Rightarrow> holder_id option \<Rightarrow> lock_use list \<Rightarrow> string \<Rightarrow> lock_mode \<Rightarrow> lock_use list" where
  "waits_at w holder us path m =
     filter (\<lambda>u. use_lock_path u = path \<and> use_lock_mode u = m
                 \<and> \<not> (case holder of None \<Rightarrow> False | Some h \<Rightarrow> use_is_held w h u)) us"

lemma waits_at_cong: "use_is_held w' = use_is_held w \<Longrightarrow> waits_at w' = waits_at w"
  by (intro ext) (simp add: waits_at_def split: option.split)

definition append_waiting :: "(lock_mode \<Rightarrow> lock_use list) \<Rightarrow> lock \<Rightarrow> lock" where
  "append_waiting q l = l\<lparr>waiting_queues := (\<lambda>m. waiting_queues l m @ q m)\<rparr>"

lemma append_waiting_nil [simp]: "append_waiting (\<lambda>m. []) l = l"
  by (simp add: append_waiting_def)

lemma append_waiting_append:
  "append_waiting q (append_waiting q' l) = append_waiting (\<lambda>m. q' m @ q m) l"
  by (simp add: append_waiting_def)

lemma append_waiting_held [simp]: "is_held_by (append_waiting q l) h u = is_held_by l h u"
  by (simp add: append_waiting_def is_held_by_def)

lemma enqueue_append:
  "snd (enqueue_lock_use l u) = append_waiting (\<lambda>m. if m = use_lock_mode u then [u] else []) l"
  by (simp add: enqueue_lock_use_def append_waiting_def Let_def fun_upd_def fun_eq_iff)

lemma enqueue_loop_effect:
  assumes "\<forall>u \<in> set us. lock_or_null w u \<noteq> None"
  shows "\<exists>w'. enqueue_loop w holder us = Inr w' \<and>
     w' = w\<lparr>locks := (\<lambda>path. map_option (append_waiting (waits_at w holder us path)) (locks w path))\<rparr>"
  using assms
proof (induction us arbitrary: w)
  case Nil
  show ?case by (simp add: waits_at_def option.map_ident)
next
  case (Cons u us)
  then obtain l where l: "lock_or_null w u = Some l" by auto
  let ?held = "case holder of None \<Rightarrow> False | Some h \<Rightarrow> use_is_held w h u"
  let ?w1 = "if ?held then w else set_lock w (use_lock_path u) (snd (enqueue_lock_use l u))"
  have held: "use_is_held ?w1 h v = use_is_held w h v" for h v
    using held_at_path [OF l] by (auto simp: set_lock_held enqueue_append)
  have step: "enqueue_loop w holder (u # us) = enqueue_loop ?w1 holder us"
    using l by (simp add: the_lock_def Let_def lock_held_lookup [OF l] split: option.split)
  have known: "\<forall>v \<in> set us. lock_or_null ?w1 v \<noteq> None"
    using Cons.prems by (auto simp: lock_or_null_def set_lock_def)
  have waits: "waits_at ?w1 = waits_at w"
    by (intro waits_at_cong ext) (rule held)
  have "map_option (append_waiting (waits_at w holder us path)) (locks ?w1 path)
    = map_option (append_waiting (waits_at w holder (u # us) path)) (locks w path)" for path
    using l by (cases "path = use_lock_path u"; cases "locks w path")
      (auto simp: waits_at_def enqueue_append append_waiting_def set_lock_def lock_or_null_def fun_eq_iff
        split: option.split)
  then have "?w1\<lparr>locks := (\<lambda>path. map_option (append_waiting (waits_at w holder us path)) (locks ?w1 path))\<rparr>
    = w\<lparr>locks := (\<lambda>path. map_option (append_waiting (waits_at w holder (u # us) path)) (locks w path))\<rparr>"
    by (auto simp: set_lock_def intro!: lock_world.equality)
  with Cons.IH [OF known] step waits show ?case by simp
qed

text \<open>Giving up waiting takes the uses out of the queues again.\<close>

definition remove_waiting :: "(lock_mode \<Rightarrow> lock_use list) \<Rightarrow> lock \<Rightarrow> lock" where
  "remove_waiting q l = l\<lparr>waiting_queues := (\<lambda>m. fold remove1 (q m) (waiting_queues l m))\<rparr>"

lemma dequeue_remove:
  "dequeue_lock_use l u = remove_waiting (\<lambda>m. if m = use_lock_mode u then [u] else []) l"
  by (simp add: dequeue_lock_use_def remove_waiting_def fun_upd_def fun_eq_iff)

definition uses_at :: "lock_use list \<Rightarrow> string \<Rightarrow> lock_mode \<Rightarrow> lock_use list" where
  "uses_at us path m = filter (\<lambda>u. use_lock_path u = path \<and> use_lock_mode u = m) us"

lemma dequeue_loop_effect:
  "dequeue_loop w us =
     w\<lparr>locks := (\<lambda>path. map_option (remove_waiting (uses_at us path)) (locks w path))\<rparr>"
proof (induction us arbitrary: w)
  case Nil
  show ?case by (simp add: uses_at_def remove_waiting_def option.map_ident)
next
  case (Cons u us)
  have "map_option (remove_waiting (uses_at us path))
      (locks (case lock_or_null w u of None \<Rightarrow> w
              | Some l \<Rightarrow> set_lock w (use_lock_path u) (dequeue_lock_use l u)) path)
    = map_option (remove_waiting (uses_at (u # us) path)) (locks w path)" for path
    by (cases "path = use_lock_path u"; cases "locks w path")
      (auto simp: uses_at_def dequeue_remove remove_waiting_def set_lock_def lock_or_null_def fun_eq_iff
        split: option.split)
  then show ?case
    by (auto simp: Cons.IH set_lock_def intro!: lock_world.equality split: option.split)
qed

lemma fold_remove1_append:
  "distinct ys \<Longrightarrow> set ys \<inter> set xs = {} \<Longrightarrow> fold remove1 ys (xs @ filter P ys) = xs"
proof (induction ys arbitrary: xs)
  case (Cons y ys)
  have "remove1 y (xs @ filter P (y # ys)) = xs @ filter P ys"
    using Cons.prems by (auto simp: remove1_append remove1_idem)
  with Cons show ?case by (simp add: remove1_append remove1_idem)
qed simp

lemma remove_append_waiting:
  assumes "distinct us" "\<forall>m. set us \<inter> set (waiting_queues l m) = {}"
  shows "remove_waiting (uses_at us path) (append_waiting (waits_at w holder us path) l) = l"
proof -
  have "fold remove1 (uses_at us path m) (waiting_queues l m @ waits_at w holder us path m)
      = waiting_queues l m" for m
  proof -
    have "waits_at w holder us path m =
        filter (\<lambda>u. \<not> (case holder of None \<Rightarrow> False | Some h \<Rightarrow> use_is_held w h u)) (uses_at us path m)"
      by (auto simp: waits_at_def uses_at_def intro: filter_cong)
    moreover have "set (uses_at us path m) \<inter> set (waiting_queues l m) = {}" "distinct (uses_at us path m)"
      using assms by (auto simp: uses_at_def)
    ultimately show ?thesis by (simp only: fold_remove1_append)
  qed
  then show ?thesis by (simp add: remove_waiting_def append_waiting_def)
qed

definition waits_nowhere :: "lock_world \<Rightarrow> requestor_id \<Rightarrow> bool" where
  "waits_nowhere w r =
     (\<forall>path l m u. locks w path = Some l \<longrightarrow> u \<in> set (waiting_queues l m) \<longrightarrow> u \<notin> set (use_list (requestors w r)))"

lemma enqueue_effect:
  assumes "\<not> is_enqueued (requestors w r)"
  shows "enqueue_lock_requests w r holder =
    (if locks_are_known w r
     then Inr (True, w\<lparr>requestors := (requestors w)(r := (requestors w r)\<lparr>is_enqueued := True\<rparr>),
            locks := (\<lambda>path. map_option
              (append_waiting (waits_at w holder (use_list (requestors w r)) path)) (locks w path))\<rparr>)
     else Inr (False, w))"
proof (cases "locks_are_known w r")
  case True
  let ?w0 = "set_requestor w r ((requestors w r)\<lparr>is_enqueued := True\<rparr>)"
  have [simp]: "locks ?w0 = locks w" "lock_or_null ?w0 u = lock_or_null w u"
      "use_is_held ?w0 h u = use_is_held w h u" for h u
    by (simp_all add: set_requestor_def lock_or_null_def use_is_held_def)
  have waits: "waits_at ?w0 = waits_at w"
    by (intro waits_at_cong) (simp add: fun_eq_iff)
  have "\<forall>u \<in> set (use_list (requestors w r)). lock_or_null ?w0 u \<noteq> None"
    using True by (auto simp: locks_are_known_def list_all_iff)
  from enqueue_loop_effect [OF this, of holder] show ?thesis
    using assms True waits by (auto simp: enqueue_lock_requests_def set_requestor_def)
qed (use assms in \<open>simp add: enqueue_lock_requests_def\<close>)

lemma dequeue_effect:
  "is_enqueued (requestors w r) \<Longrightarrow> dequeue_lock_requests w r =
     w\<lparr>requestors := (requestors w)(r := (requestors w r)\<lparr>is_enqueued := False\<rparr>),
       locks := (\<lambda>path. map_option (remove_waiting (uses_at (use_list (requestors w r)) path)) (locks w path))\<rparr>"
  by (simp add: dequeue_lock_requests_def dequeue_loop_effect set_requestor_def Let_def)

lemma dequeue_enqueue_requests:
  assumes "\<not> is_enqueued (requestors w r)" "locks_are_known w r" "distinct (use_list (requestors w r))"
    and "waits_nowhere w r" "enqueue_lock_requests w r holder = Inr (True, w')"
  shows "dequeue_lock_requests w' r = w"
proof -
  let ?us = "use_list (requestors w r)"
  have w': "w' = w\<lparr>requestors := (requestors w)(r := (requestors w r)\<lparr>is_enqueued := True\<rparr>),
      locks := (\<lambda>path. map_option (append_waiting (waits_at w holder ?us path)) (locks w path))\<rparr>"
    using assms enqueue_effect [of w r holder] by simp
  have "map_option (remove_waiting (uses_at ?us path))
      (map_option (append_waiting (waits_at w holder ?us path)) (locks w path)) = locks w path" for path
  proof (cases "locks w path")
    case (Some l)
    have "\<forall>m. set ?us \<inter> set (waiting_queues l m) = {}"
      using assms(4) Some by (fastforce simp: waits_nowhere_def)
    with Some show ?thesis using remove_append_waiting [OF assms(3)] by simp
  qed simp
  then show ?thesis
    using assms(1) by (simp add: w' dequeue_effect fun_eq_iff)
qed

section \<open>Notification and removal\<close>

lemma forget_other_fields:
  "holder_map (forget l) = holder_map l" "lock_mode (forget l) = lock_mode l"
  "max_non_exclusive (forget l) = max_non_exclusive l"
  by (simp_all add: forget_def)

lemma forget_queries:
  "is_free_for (forget l) u h = is_free_for l u h" "next_requestor (forget l) = next_requestor l"
  unfolding is_free_for_def is_free_def count_non_exclusive_holders_def next_requestor_def
  by (simp_all only: forget_fields forget_other_fields)

lemma is_free_for_forget: "forget l = forget l' \<Longrightarrow> is_free_for l u h = is_free_for l' u h"
  by (metis forget_queries(1))

lemma its_my_turn_forget: "forget l = forget l' \<Longrightarrow> its_my_turn l u h = its_my_turn l' u h"
  unfolding its_my_turn_def by (metis forget_queries(1) forget_fields(3))

lemma next_requestor_forget: "forget l = forget l' \<Longrightarrow> next_requestor l = next_requestor l'"
  by (metis forget_queries(2))

lemma available_agree: "agree w w' \<Longrightarrow> locks_are_available w r = locks_are_available w' r"
proof -
  have "available_loop w h t us = available_loop w' h t us" if ag: "agree w w'" for h t us
  proof (induction us arbitrary: t)
    case (Cons u us)
    show ?case
    proof (cases "lock_or_null w u")
      case None
      then have "lock_or_null w' u = None" using ag by (simp add: agree_def lock_or_null_def) (metis map_option_is_None)
      with None show ?thesis by simp
    next
      case (Some l)
      then obtain l' where l': "lock_or_null w' u = Some l'" "forget l = forget l'"
        using agree_lock [OF ag] by (fastforce simp: lock_or_null_def)
      show ?thesis
        using Some l'(1) Cons.IH is_free_for_forget [OF l'(2)] its_my_turn_forget [OF l'(2)] by simp
    qed
  qed simp
  then show "agree w w' \<Longrightarrow> ?thesis"
    by (simp add: locks_are_available_def locks_are_available_for_holder_def agree_def)
qed

lemma check_candidate_notified [simp]: "notified (check_lock_candidate w path) = notified w"
  by (auto simp: check_lock_candidate_def set_lock_def Let_def split: option.splits prod.splits)

text \<open>A release that frees the lock notifies the next waiting requestor iff it can go on now.\<close>

lemma release_notifies:
  assumes rel: "release_use w h u = Inr (True, w')" and l: "lock_or_null w' u = Some l"
  shows "notified w' = notified w @
    (case next_requestor l of
       None \<Rightarrow> [] | Some r \<Rightarrow> if locks_are_available w' r then [r] else [])"
proof -
  obtain l0 l1 where l0: "lock_or_null w u = Some l0" "release_lock_for l0 h u = Inr (True, l1)"
    using rel by (auto simp: release_use_def the_lock_def bind_r_Inr_iff Let_def split: option.splits)
  let ?w1 = "set_lock w (use_lock_path u) l1"
  have w': "w' = check_lock_candidate (notify_waiting_requestor ?w1 (use_lock_path u)) (use_lock_path u)"
    using rel l0 by (simp add: release_use_def the_lock_def Let_def)
  then have ag: "agree ?w1 w'" using agree_trans [OF notify_agree check_candidate_agree] by simp
  have l1: "locks ?w1 (use_lock_path u) = Some l1" by (simp add: set_lock_def)
  with agree_lock [OF ag] l have "forget l = forget l1" by (fastforce simp: lock_or_null_def)
  then have nreq: "next_requestor l = next_requestor l1" by (rule next_requestor_forget)
  have "notified w' = notified (notify_waiting_requestor ?w1 (use_lock_path u))"
    by (simp add: w')
  also have "\<dots> = notified w @ (case next_requestor l1 of
       None \<Rightarrow> [] | Some r \<Rightarrow> if locks_are_available ?w1 r then [r] else [])"
    unfolding notify_waiting_requestor_def l1 by (simp add: set_lock_def split: option.split)
  finally show ?thesis unfolding nreq available_agree [OF ag] .
qed

lemma prepare_to_remove_effect:
  assumes "prepare_to_remove w path = Inr w'"
  shows "\<exists>l. locks w path = Some l \<and> is_in_folder l \<and>
    w' = set_lock w path (l\<lparr>is_to_be_removed := True, replacement_state := None\<rparr>)"
  using assms
  by (auto simp: prepare_to_remove_def on_prepare_to_remove_def set_lock_def split: option.splits if_splits)

text \<open>The last release of a lock that is to be removed hands it to the folder for removal.\<close>

lemma last_release_removes:
  assumes "lock_or_null w u = Some l" "is_in_folder l" "is_to_be_removed l" "replacement_state l = None"
    and "holder_map l = [(h, [u])]"
  shows "\<exists>w'. release_use w h u = Inr (True, w') \<and> use_lock_path u \<in> set (candidates w')"
proof -
  let ?l' = "l\<lparr>holder_map := []\<rparr>"
  have rel: "release_lock_for l h u = Inr (True, ?l')"
    using assms by (simp add: release_lock_for_def)
  have n: "locks (notify_waiting_requestor w path) = locks w" for w path
    by (simp add: notify_waiting_requestor_def split: option.split)
  show ?thesis
    using assms rel
    by (simp add: release_use_def the_lock_def Let_def check_lock_candidate_def n set_lock_def
        check_for_replacing_or_removing_def lock_can_be_removed_now_def)
qed

section \<open>A concrete scheduler with two locks\<close>

definition ex_use :: "nat \<Rightarrow> string \<Rightarrow> lock_mode \<Rightarrow> requestor_id \<Rightarrow> lock_use" where
  "ex_use i p m r = \<lparr>use_id = i, use_lock_path = p, use_lock_mode = m, use_requestor = r\<rparr>"

definition ex_lock :: lock where
  "ex_lock = new_lock\<lparr>file_based_state := S_active, is_in_folder := True, max_non_exclusive := 2\<rparr>"

text \<open>Requestor 1 wants lock a alone, requestor 2 shares a and b; holder 10 asks for 1, holder 20 for 2.\<close>

definition ex_world :: lock_world where
  "ex_world = \<lparr>locks = [''a'' \<mapsto> ex_lock, ''b'' \<mapsto> ex_lock],
     requestors = (\<lambda>_. \<lparr>is_enqueued = False, use_list = [], task_holder = None\<rparr>)
       (1 := \<lparr>is_enqueued = False, use_list = [ex_use 1 ''a'' Lk_exclusive 1], task_holder = Some 10\<rparr>,
        2 := \<lparr>is_enqueued = False,
               use_list = [ex_use 2 ''a'' Lk_non_exclusive 2, ex_use 3 ''b'' Lk_non_exclusive 2],
               task_holder = Some 20\<rparr>),
     requestor_set = (\<lambda>_. [])(10 := [1], 20 := [2]), lock_subsystem_state = Subsys_active,
     notified = [], candidates = []\<rparr>"

lemma ex_lock_wf [simp]: "lock_wf ex_lock"
  by (simp add: ex_lock_def new_lock_def lock_wf_def holders_ok_def)

lemma ex_world_wf: "world_wf ex_world"
  by (simp add: world_wf_def ex_world_def)

lemmas ex_defs = ex_world_def ex_lock_def new_lock_def ex_use_def
lemma ex_available:
  "locks_are_available_for_holder ex_world 2 (Some 20)" "is_known_requestor ex_world 20 2"
  "own_uses ex_world 2" "active_locks ex_world 2"
  by (simp_all add: available_iff its_my_turn_def own_uses_def active_locks_def lock_or_null_def
      is_known_requestor_def is_free_for_def is_free_def count_non_exclusive_holders_def ex_defs)

lemma ex_hold:
  "\<exists>w1. hold_locks ex_world 20 2 = (Inr (), w1) \<and> world_wf w1
     \<and> use_is_held w1 20 (ex_use 3 ''b'' Lk_non_exclusive 2)
     \<and> requestors w1 = requestors ex_world \<and> requestor_set w1 = requestor_set ex_world"
proof -
  obtain w1 where w1: "hold_locks ex_world 20 2 = (Inr (), w1)" "world_wf w1"
      "use_is_held w1 20 (ex_use 3 ''b'' Lk_non_exclusive 2)"
    using hold_locks_ok [OF ex_world_wf ex_available] by (fastforce simp: ex_world_def)
  then have "acquire_list hold_lock ex_world 20 (use_list (requestors ex_world 2)) = (Inr (), w1)"
    by (auto simp: hold_locks_def split: if_splits prod.splits sum.splits bool.splits)
  with w1 show ?thesis using acquire_list_frame by blast
qed

lemmas holder_defs = hold_lock_def the_lock_def lock_or_null_def require_lock_for_def is_free_for_def
  is_free_def count_non_exclusive_holders_def is_known_requestor_def set_lock_def use_is_held_def
  is_held_by_def

section \<open>Properties\<close>

text \<open> C1: Over every run of acquisitions and releases by any holders on any locks, from any
  well-formed state and with failed acquisitions in between, a lock that is held exclusively by a
  holder is not held by another holder, whatever the mode.\<close>

theorem locks_mutual_exclusion:
  assumes "world_wf w" "t = exec_events hold_lock release_use_caught w es"
    and "use_is_held t h u" "use_lock_mode u = Lk_exclusive"
    and "use_is_held t g v" "use_lock_path v = use_lock_path u"
  shows "g = h"
  using all_locks.mutual_exclusion [OF assms(1,2,3,5)] assms(4,6)
  by (simp add: world_conflict_def use_conflict_def)

theorem locks_mutual_exclusion_witness:
  "let t = exec_events hold_lock release_use_caught ex_world
         [Acquire 10 (ex_use 1 ''a'' Lk_exclusive 1), Acquire 20 (ex_use 2 ''a'' Lk_non_exclusive 2)]
   in use_is_held t 10 (ex_use 1 ''a'' Lk_exclusive 1)
      \<and> \<not> use_is_held t 20 (ex_use 2 ''a'' Lk_non_exclusive 2)"
proof -
  define t where "t = exec_events hold_lock release_use_caught ex_world
         [Acquire 10 (ex_use 1 ''a'' Lk_exclusive 1), Acquire 20 (ex_use 2 ''a'' Lk_non_exclusive 2)]"
  have held: "use_is_held t 10 (ex_use 1 ''a'' Lk_exclusive 1)"
    by (simp add: t_def holder_defs ex_defs)
  have "\<not> use_is_held t 20 (ex_use 2 ''a'' Lk_non_exclusive 2)"
  proof
    assume "use_is_held t 20 (ex_use 2 ''a'' Lk_non_exclusive 2)"
    from locks_mutual_exclusion [OF ex_world_wf t_def held _ this] show False by (simp add: ex_use_def)
  qed
  with held show ?thesis by (simp add: Let_def t_def)
qed

text \<open> C10: \<^verbatim>\<open>Holder::hold_locks\<close> succeeds whenever the requestor's locks are available to the holder, the
  holder knows the requestor and the locks are active: no exception, no failed assertion. Afterwards
  the holder holds exactly what it held before and all uses of the requestor; nobody else changes.\<close>

theorem hold_locks_succeeds:
  assumes "world_wf w" "locks_are_available_for_holder w r (Some h)" "is_known_requestor w h r"
    and "own_uses w r" "active_locks w r"
  shows "\<exists>w'. hold_locks w h r = (Inr (), w') \<and>
    (\<forall>g v. use_is_held w' g v \<longleftrightarrow> (g = h \<and> v \<in> set (use_list (requestors w r))) \<or> use_is_held w g v)"
  using hold_locks_ok [OF assms] by blast

theorem hold_locks_succeeds_witness:
  "fst (hold_locks ex_world 20 2) = Inr ()
   \<and> use_is_held (snd (hold_locks ex_world 20 2)) 20 (ex_use 3 ''b'' Lk_non_exclusive 2)"
  using hold_locks_succeeds [OF ex_world_wf ex_available] by (auto simp: ex_world_def)

text \<open> C23: \<^verbatim>\<open>Holder::release_locks\<close> never throws and no assertion of it fails; afterwards the holder
  holds none of the uses of its requestors, and no other holding has changed.\<close>

theorem release_locks_releases_all:
  assumes "world_wf w"
  shows "\<exists>w'. release_locks w h = (Inr (), w') \<and>
    (\<forall>g v. use_is_held w' g v \<longleftrightarrow> use_is_held w g v
       \<and> \<not> (g = h \<and> (\<exists>r \<in> set (requestor_set w h). v \<in> set (use_list (requestors w r)))))"
  using release_locks_ok [OF assms] by blast

theorem release_locks_releases_all_witness:
  "let w1 = snd (hold_locks ex_world 20 2) in
   use_is_held w1 20 (ex_use 3 ''b'' Lk_non_exclusive 2) \<and> fst (release_locks w1 20) = Inr ()
   \<and> \<not> use_is_held (snd (release_locks w1 20)) 20 (ex_use 3 ''b'' Lk_non_exclusive 2)"
proof -
  obtain w1 where w1: "hold_locks ex_world 20 2 = (Inr (), w1)" "world_wf w1"
      "use_is_held w1 20 (ex_use 3 ''b'' Lk_non_exclusive 2)" "requestors w1 = requestors ex_world"
      "requestor_set w1 = requestor_set ex_world"
    using ex_hold by blast
  obtain w2 where w2: "release_locks w1 20 = (Inr (), w2)"
      "\<not> use_is_held w2 20 (ex_use 3 ''b'' Lk_non_exclusive 2)"
    using release_locks_releases_all [OF w1(2), of 20] w1(4,5) by (auto simp: ex_world_def)
  then show ?thesis using w1 by (simp add: Let_def)
qed

text \<open> C24: Holding all locks of a requestor and releasing them again restores every holding of the
  scheduler, also for a requestor with exclusive and non-exclusive uses of the same lock.\<close>

theorem hold_release_roundtrip:
  assumes "world_wf w" "locks_are_available_for_holder w r (Some h)" "is_known_requestor w h r"
    and "own_uses w r" "active_locks w r"
    and "\<forall>u \<in> set (use_list (requestors w r)). \<not> use_is_held w h u"
    and "hold_locks w h r = (Inr (), w1)"
  shows "\<exists>w2. release_locks_of w1 h r = (Inr (), w2) \<and> use_is_held w2 = use_is_held w"
  using hold_release_ok [OF assms] .

theorem hold_release_roundtrip_witness:
  "fst (release_locks_of (snd (hold_locks ex_world 20 2)) 20 2) = Inr ()
   \<and> \<not> use_is_held (snd (release_locks_of (snd (hold_locks ex_world 20 2)) 20 2)) 20
        (ex_use 3 ''b'' Lk_non_exclusive 2)"
proof -
  obtain w1 where w1: "hold_locks ex_world 20 2 = (Inr (), w1)" using ex_hold by blast
  have none: "\<not> use_is_held ex_world g v" for g v
    by (simp add: holder_defs ex_defs split: option.split)
  then show ?thesis
    using hold_release_roundtrip [OF ex_world_wf ex_available _ w1] by (auto simp: w1)
qed

text \<open> C5: One lock implements a readers/writer lock with a bound on the readers and an upgrade for a
  reader that is alone: for an active lock and a known requestor \<^verbatim>\<open>require_lock_for\<close> succeeds exactly when
  the specification grants the request, and then moves to the state the specification moves to.\<close>

theorem lock_refines_rw:
  assumes "lock_wf l" "file_based_state l = S_active"
  shows "(case require_lock_for l True h u of Inl _ \<Rightarrow> None | Inr (fresh, l') \<Rightarrow> Some (abs_lock l')) =
    rw_grant (max_non_exclusive l) (abs_lock l) h (use_lock_mode u)"
proof (cases "require_lock_for l True h u")
  case (Inl e)
  then have "\<not> is_free_for l u (Some h)"
    using require_result [of l True h u] assms(2) by (auto split: if_splits)
  with Inl show ?thesis using free_for_refines [OF assms] by auto
next
  case (Inr r)
  then show ?thesis using require_refines [OF assms(1)] by (cases r) simp
qed

theorem lock_refines_rw_witness:
  "let u = ex_use 1 ''a'' Lk_exclusive 1; v = ex_use 2 ''a'' Lk_non_exclusive 2 in
   (case require_lock_for ex_lock True 10 v of
      Inl _ \<Rightarrow> None | Inr (fresh, l') \<Rightarrow> Some (abs_lock l')) = Some (Shared {10})
   \<and> (case require_lock_for (ex_lock\<lparr>lock_mode := Lk_non_exclusive, holder_map := [(10, [v])]\<rparr>) True 10 u of
      Inl _ \<Rightarrow> None | Inr (fresh, l') \<Rightarrow> Some (abs_lock l')) = Some (Owned 10)"
proof -
  let ?u = "ex_use 1 ''a'' Lk_exclusive 1" and ?v = "ex_use 2 ''a'' Lk_non_exclusive 2"
  let ?l = "ex_lock\<lparr>lock_mode := Lk_non_exclusive, holder_map := [(10, [?v])]\<rparr>"
  have act: "file_based_state ex_lock = S_active" "file_based_state ?l = S_active" "lock_wf ?l"
    by (simp_all add: ex_defs lock_wf_def holders_ok_def)
  show ?thesis
    unfolding Let_def lock_refines_rw [OF ex_lock_wf act(1)] lock_refines_rw [OF act(3,2)]
    by (simp add: abs_lock_def ex_defs)
qed

text \<open>However holders take and release one lock, there are never more non-exclusive holders than
  \<^verbatim>\<open>max_non_exclusive\<close>, except the one that remains after a downgrade from exclusive.\<close>

theorem shared_holders_bounded:
  assumes "lock_wf l" "count_non_exclusive_holders l \<le> max 1 (max_non_exclusive l)"
  shows "count_non_exclusive_holders (exec_events lock_acquire lock_release l es)
    \<le> max 1 (max_non_exclusive (exec_events lock_acquire lock_release l es))"
  using bounded_lock.exec_inv [of l es] assms by (simp add: within_max_def)

theorem shared_holders_bounded_witness:
  "let l = exec_events lock_acquire lock_release ex_lock
     [Acquire 1 (ex_use 1 ''a'' Lk_non_exclusive 1), Acquire 2 (ex_use 2 ''a'' Lk_non_exclusive 2),
      Acquire 3 (ex_use 3 ''a'' Lk_non_exclusive 3)]
   in count_non_exclusive_holders l \<le> 2"
proof -
  let ?l = "exec_events lock_acquire lock_release ex_lock
     [Acquire 1 (ex_use 1 ''a'' Lk_non_exclusive 1), Acquire 2 (ex_use 2 ''a'' Lk_non_exclusive 2),
      Acquire 3 (ex_use 3 ''a'' Lk_non_exclusive 3)]"
  have start: "count_non_exclusive_holders ex_lock \<le> max 1 (max_non_exclusive ex_lock)"
    by (simp add: count_non_exclusive_holders_def ex_defs)
  have "max_non_exclusive ?l = 2"
    by (simp add: lock_acquire_def require_lock_for_def is_free_for_def is_free_def
        count_non_exclusive_holders_def ex_defs)
  with shared_holders_bounded [OF ex_lock_wf start] show ?thesis
    unfolding Let_def by (metis max.absorb2 one_le_numeral)
qed

text \<open>The outcome of \<^verbatim>\<open>require_lock_for\<close> on every branch: SCHEDULER-153 when the lock is not active,
  the internal error when the holder does not know the requestor or the lock is not free for the
  holder, success otherwise. The assertion on the number of holders in the upgrade cannot fail.\<close>

theorem require_lock_outcome:
  "require_lock_for l known h u =
     (if file_based_state l \<noteq> S_active then Inl (Xc ''SCHEDULER-153'')
      else if known \<and> is_free_for l u (Some h)
      then Inr (map_of (holder_map l) h = None
                \<or> (lock_mode l = Lk_non_exclusive \<and> use_lock_mode u = Lk_exclusive),
        l\<lparr>holder_map := AList.update h
             (case map_of (holder_map l) h of None \<Rightarrow> [u] | Some us \<Rightarrow> List.insert u us) (holder_map l),
          lock_mode := (if map_of (holder_map l) h = None \<or> use_lock_mode u = Lk_exclusive
                        then use_lock_mode u else lock_mode l)\<rparr>)
      else Inl (Xc ''require_lock_for''))"
  using require_upgrade_alone [of l u h]
  by (cases "lock_mode l"; cases "use_lock_mode u")
    (auto simp: require_lock_for_def intro!: lock.equality split: option.splits)

text \<open>On a well-formed lock \<^verbatim>\<open>release_lock_for\<close> never fails an assertion: it takes exactly this use
  from this holder, keeps the lock well formed and reports true exactly when the holder gives up the
  lock or its last exclusive use, in which case the lock becomes free or non-exclusive.\<close>

theorem release_lock_outcome:
  assumes "lock_wf l" "is_held_by l h u"
  shows "\<exists>released l'. release_lock_for l h u = Inr (released, l') \<and> lock_wf l'
    \<and> (\<forall>g v. is_held_by l' g v \<longleftrightarrow> is_held_by l g v \<and> \<not> (g = h \<and> v = u))
    \<and> (released \<longleftrightarrow> (\<forall>v. \<not> is_held_by l' h v) \<or> lock_mode l' \<noteq> lock_mode l)"
proof -
  obtain released l' where rel: "release_lock_for l h u = Inr (released, l')"
    using release_total [OF assms(1)] by fastforce
  moreover have "released \<longleftrightarrow> (\<forall>v. \<not> is_held_by l' h v) \<or> lock_mode l' \<noteq> lock_mode l"
  proof (cases "map_of (holder_map l) h")
    case (Some us)
    have "list_all (\<lambda>(h, us). us \<noteq> [] \<and> distinct us) (holder_map l)" "distinct (keys (holder_map l))"
      using assms(1) by (auto simp: lock_wf_def holders_ok_def)
    then show ?thesis
      using Some rel assms(2)
      by (auto simp: release_lock_for_def is_held_by_def Let_def assoc_simps
          neq_Nil_conv split: if_splits option.splits)
  qed (use assms(2) in \<open>simp add: is_held_by_def\<close>)
  ultimately show ?thesis
    using release_wf [OF assms(1) rel] release_held [OF assms(1) rel] by blast
qed

theorem release_lock_outcome_witness:
  "let u = ex_use 1 ''a'' Lk_exclusive 1; v = ex_use 2 ''a'' Lk_non_exclusive 1;
       l = ex_lock\<lparr>holder_map := [(10, [v, u])]\<rparr>
   in case release_lock_for l 10 u of
        Inr (released, l') \<Rightarrow> released \<and> is_held_by l' 10 v \<and> \<not> is_held_by l' 10 u
      | _ \<Rightarrow> False"
proof -
  let ?u = "ex_use 1 ''a'' Lk_exclusive 1" and ?v = "ex_use 2 ''a'' Lk_non_exclusive 1"
  let ?l = "ex_lock\<lparr>holder_map := [(10, [?v, ?u])]\<rparr>"
  have "lock_wf ?l" "is_held_by ?l 10 ?u" "is_held_by ?l 10 ?v"
    by (simp_all add: ex_defs lock_wf_def holders_ok_def is_held_by_def)
  with release_lock_outcome [of ?l 10 ?u] obtain released l' where
    rel: "release_lock_for ?l 10 ?u = Inr (released, l')" "is_held_by l' 10 ?v" "\<not> is_held_by l' 10 ?u"
    by (auto simp: ex_use_def)
  moreover have released using rel(1) by (simp add: release_lock_for_def ex_defs split: if_splits)
  ultimately show ?thesis by (simp add: Let_def)
qed

text \<open>A release that frees or downgrades a lock notifies at most one requestor: the first in the
  queue of exclusive requests, or else the first of the other queue, exactly when all of its locks are
  available to it in the state after the release.\<close>

theorem release_notifies_next:
  assumes "release_use w h u = Inr (True, w')" "lock_or_null w' u = Some l"
  shows "notified w' = notified w @
    (case next_requestor l of
       None \<Rightarrow> [] | Some r \<Rightarrow> if locks_are_available w' r then [r] else [])"
  using release_notifies [OF assms] .

definition ex_waiting :: lock_world where
  "ex_waiting = set_lock ex_world ''a''
     (ex_lock\<lparr>holder_map := [(10, [ex_use 1 ''a'' Lk_exclusive 1])],
        waiting_queues := (\<lambda>_. [])(Lk_non_exclusive := [ex_use 2 ''a'' Lk_non_exclusive 2])\<rparr>)"

lemma ex_release:
  "\<exists>w' l. release_use ex_waiting 10 (ex_use 1 ''a'' Lk_exclusive 1) = Inr (True, w')
     \<and> lock_or_null w' (ex_use 1 ''a'' Lk_exclusive 1) = Some l
     \<and> next_requestor l = Some 2 \<and> locks_are_available w' 2 \<and> notified w' = [2]"
  by (simp add: ex_waiting_def release_use_def release_lock_for_def check_lock_candidate_def
      notify_waiting_requestor_def next_requestor_def locks_are_available_def available_iff
      check_for_replacing_or_removing_def its_my_turn_def lock_can_be_removed_now_def Let_def
      holder_defs ex_defs)

theorem release_notifies_next_witness:
  "case release_use ex_waiting 10 (ex_use 1 ''a'' Lk_exclusive 1) of
     Inr (released, w') \<Rightarrow> notified w' = [2] | _ \<Rightarrow> False"
proof -
  obtain w' l where w': "release_use ex_waiting 10 (ex_use 1 ''a'' Lk_exclusive 1) = Inr (True, w')"
      "lock_or_null w' (ex_use 1 ''a'' Lk_exclusive 1) = Some l"
      "next_requestor l = Some 2" "locks_are_available w' 2"
    using ex_release by blast
  have "notified ex_waiting = []" by (simp add: ex_waiting_def set_lock_def ex_world_def)
  with release_notifies_next [OF w'(1,2)] w' show ?thesis by simp
qed

text \<open>A request that waits is appended to the queue of every lock and mode it does not hold, in the
  order of its uses and behind all earlier requests; nothing else changes. If a lock is missing, the
  request is refused and the state is unchanged; a request that waits already is an error.\<close>

theorem enqueue_requests_outcome:
  "enqueue_lock_requests w r holder =
     (if is_enqueued (requestors w r) then Inl (Xc ''enqueue_lock_requests'')
      else if \<not> locks_are_known w r then Inr (False, w)
      else Inr (True, w\<lparr>requestors := (requestors w)(r := (requestors w r)\<lparr>is_enqueued := True\<rparr>),
            locks := (\<lambda>path. map_option
              (append_waiting (waits_at w holder (use_list (requestors w r)) path)) (locks w path))\<rparr>))"
  by (cases "is_enqueued (requestors w r)") (simp_all add: enqueue_effect, simp add: enqueue_lock_requests_def)

text \<open>A requestor that starts to wait and gives up again leaves all queues, and the rest of the
  state, as they were.\<close>

theorem waiting_roundtrip:
  assumes "\<not> is_enqueued (requestors w r)" "locks_are_known w r" "distinct (use_list (requestors w r))"
    and "waits_nowhere w r" "enqueue_lock_requests w r holder = Inr (True, w')"
  shows "dequeue_lock_requests w' r = w"
  using dequeue_enqueue_requests [OF assms] .

theorem waiting_roundtrip_witness:
  "(case enqueue_lock_requests ex_waiting 1 None of
      Inr (True, w') \<Rightarrow> dequeue_lock_requests w' 1 = ex_waiting | _ \<Rightarrow> False)"
proof -
  have pre: "\<not> is_enqueued (requestors ex_waiting 1)" "locks_are_known ex_waiting 1"
    "distinct (use_list (requestors ex_waiting 1))" "waits_nowhere ex_waiting 1"
    by (auto simp: ex_waiting_def set_lock_def locks_are_known_def lock_or_null_def waits_nowhere_def
        ex_defs split: if_splits)
  obtain w' where "enqueue_lock_requests ex_waiting 1 None = Inr (True, w')"
    using enqueue_effect [OF pre(1)] pre(2) by simp
  with waiting_roundtrip [OF pre this] show ?thesis by simp
qed

text \<open>Marking a lock for removal takes no requestor off its waiting queues:
  \<^verbatim>\<open>Lock::on_prepare_to_remove\<close> means to dequeue the waiting requestors, but tests
  \<^verbatim>\<open>is_to_be_removed\<close> after its caller has already set the mark.\<close>

theorem prepare_to_remove_keeps_waiters:
  assumes "prepare_to_remove w path = Inr w'"
  shows "requestors w' = requestors w
    \<and> map_option waiting_queues (locks w' p) = map_option waiting_queues (locks w p)"
  using prepare_to_remove_effect [OF assms] by (auto simp: set_lock_def)

theorem prepare_to_remove_keeps_waiters_witness:
  "case prepare_to_remove ex_waiting ''a'' of
     Inr w' \<Rightarrow> map_option (\<lambda>l. waiting_queues l Lk_non_exclusive) (locks w' ''a'')
               = Some [ex_use 2 ''a'' Lk_non_exclusive 2]
   | _ \<Rightarrow> False"
proof -
  obtain w' where w': "prepare_to_remove ex_waiting ''a'' = Inr w'"
    by (simp add: prepare_to_remove_def ex_waiting_def set_lock_def ex_defs)
  have "map_option waiting_queues (locks w' ''a'') = map_option waiting_queues (locks ex_waiting ''a'')"
    using prepare_to_remove_keeps_waiters [OF w'] by blast
  then have "map_option waiting_queues (locks w' ''a'') =
      Some ((\<lambda>_. [])(Lk_non_exclusive := [ex_use 2 ''a'' Lk_non_exclusive 2]))"
    by (simp add: ex_waiting_def set_lock_def)
  then have "map_option (\<lambda>l. waiting_queues l Lk_non_exclusive) (locks w' ''a'')
      = Some [ex_use 2 ''a'' Lk_non_exclusive 2]"
    by (cases "locks w' ''a''") (auto simp: fun_eq_iff)
  with w' show ?thesis by simp
qed

text \<open>\<^verbatim>\<open>Lock::close\<close> returns exactly when the lock has no holder: the loop over the holders never
  advances its iterator.\<close>

theorem lock_close_ends: "lock_close l \<noteq> None \<longleftrightarrow> holder_map l = []"
  by (rule close_ends)

end
