(* ===== verification/Scheduler_Time.thy ===== *)
theory Scheduler_Time
  imports Scheduler_Prelude Complex_Main
begin

text \<open>
  \<^verbatim>\<open>Duration\<close> and \<^verbatim>\<open>Time\<close> of \<^verbatim>\<open>scheduler/spooler_time.h\<close> and \<^verbatim>\<open>spooler_time.cxx\<close>. Both hold a
  \<^verbatim>\<open>double\<close> number of seconds; here it is an exact rational number, so what is said does not cover the
  rounding of floating point operations. A \<^verbatim>\<open>Time\<close> is rounded to milliseconds whenever it is set.

  The conversion between time zones is done by Java (\<^verbatim>\<open>TimeZones\<close>) and is a parameter. Parsing and
  printing of dates are not modelled.
\<close>

section \<open>Data\<close>

datatype duration = Duration (seconds_of: rat)

datatype time = Time (time_of: rat)

instantiation duration :: linorder
begin

definition less_eq_duration :: "duration \<Rightarrow> duration \<Rightarrow> bool" where
  "less_eq_duration a b = (seconds_of a \<le> seconds_of b)"

definition less_duration :: "duration \<Rightarrow> duration \<Rightarrow> bool" where
  "less_duration a b = (seconds_of a < seconds_of b)"

instance
  by standard (auto simp: less_eq_duration_def less_duration_def duration.expand)

end

instantiation time :: linorder
begin

definition less_eq_time :: "time \<Rightarrow> time \<Rightarrow> bool" where
  "less_eq_time a b = (time_of a \<le> time_of b)"

definition less_time :: "time \<Rightarrow> time \<Rightarrow> bool" where
  "less_time a b = (time_of a < time_of b)"

instance
  by standard (auto simp: less_eq_time_def less_time_def time.expand)

end

lemmas time_order = less_eq_duration_def less_duration_def less_eq_time_def less_time_def

definition never_int :: int where
  "never_int = 2147483647"

definition never_seconds :: rat where
  "never_seconds = of_int never_int"

definition never :: time where
  "never = Time never_seconds"

definition eternal :: duration where
  "eternal = Duration never_seconds"

definition epsilon :: duration where
  "epsilon = Duration (1 / 1000)"

definition day_duration :: duration where
  "day_duration = Duration (24 * 60 * 60)"

text \<open>The conversion of a \<^verbatim>\<open>double\<close> to an integer cuts the fraction off.\<close>

definition trunc :: "rat \<Rightarrow> int" where
  "trunc x = (if 0 \<le> x then \<lfloor>x\<rfloor> else \<lceil>x\<rceil>)"

section \<open>Duration\<close>

definition duration_neg :: "duration \<Rightarrow> duration" where
  "duration_neg d = Duration (- seconds_of d)"

definition duration_add :: "duration \<Rightarrow> duration \<Rightarrow> duration" where
  "duration_add d e = Duration (seconds_of d + seconds_of e)"

definition duration_sub :: "duration \<Rightarrow> duration \<Rightarrow> duration" where
  "duration_sub d e = Duration (seconds_of d - seconds_of e)"

definition duration_millis :: "duration \<Rightarrow> int" where
  "duration_millis d = trunc (of_int \<lfloor>seconds_of d * 1000 + 1 / 2\<rfloor> + 1 / 2)"

definition duration_seconds :: "duration \<Rightarrow> int" where
  "duration_seconds d = trunc (seconds_of d + 5 / 10000)"

definition duration_rounded_to_next_second :: "duration \<Rightarrow> duration" where
  "duration_rounded_to_next_second d = Duration (of_int \<lfloor>seconds_of d + 9995 / 10000\<rfloor>)"

definition duration_is_zero :: "duration \<Rightarrow> bool" where
  "duration_is_zero d = (seconds_of d = 0)"

definition is_eternal :: "duration \<Rightarrow> bool" where
  "is_eternal d = (seconds_of d = never_seconds)"

section \<open>Time\<close>

definition time_round :: "rat \<Rightarrow> rat" where
  "time_round t = of_int \<lfloor>t * 1000 + 1 / 2\<rfloor> / 1000"

definition time_normalize :: "rat \<Rightarrow> rat" where
  "time_normalize t = (if t < 0 then 0 else if never_seconds < t then never_seconds else t)"

text \<open>
  \<^verbatim>\<open>Time::set\<close>, and with it the constructors. Beyond \<^verbatim>\<open>never\<close> there is an assertion, and then the value
  is set to \<^verbatim>\<open>never\<close>; this is the function without the assertion.
\<close>

definition set_time :: "rat \<Rightarrow> time" where
  "set_time t = (if never_seconds < time_round t then never else Time (time_round t))"

definition of_millis :: "int \<Rightarrow> time" where
  "of_millis m = set_time (of_int m / 1000)"

definition is_never :: "time \<Rightarrow> bool" where
  "is_never t = (time_of t = never_seconds)"

definition is_zero :: "time \<Rightarrow> bool" where
  "is_zero t = (time_of t = 0)"

definition is_valid_time :: "time \<Rightarrow> bool" where
  "is_valid_time t = (\<not> is_zero t \<and> \<not> is_never t)"

definition has_date :: "time \<Rightarrow> bool" where
  "has_date t = (366 * 24 * 60 * 60 < time_of t)"

text \<open>\<^verbatim>\<open>operator +=\<close> and \<^verbatim>\<open>operator -=\<close>; both make the time \<^verbatim>\<open>never\<close> when the duration is eternal.\<close>

definition time_add_assign :: "time \<Rightarrow> duration \<Rightarrow> time" where
  "time_add_assign t d =
     (if is_never t then t
      else set_time (if is_eternal d then never_seconds else time_of t + seconds_of d))"

definition time_sub_assign :: "time \<Rightarrow> duration \<Rightarrow> time" where
  "time_sub_assign t d =
     (if is_never t then t
      else set_time (if is_eternal d then never_seconds else time_of t - seconds_of d))"

definition time_plus :: "time \<Rightarrow> duration \<Rightarrow> time" where
  "time_plus t d =
     (if is_never t \<or> is_eternal d then never
      else set_time (min never_seconds (time_of t + seconds_of d)))"

definition time_minus :: "time \<Rightarrow> duration \<Rightarrow> time" where
  "time_minus t d = time_plus t (Duration (- seconds_of d))"

text \<open>\<^verbatim>\<open>operator -\<close> of two times asserts that the second one is not \<^verbatim>\<open>never\<close>.\<close>

definition time_diff :: "time \<Rightarrow> time \<Rightarrow> duration" where
  "time_diff t u = Duration (time_of t - time_of u)"

definition time_compare :: "time \<Rightarrow> time \<Rightarrow> int" where
  "time_compare t u = (if time_of t < time_of u then - 1 else if time_of t > time_of u then 1 else 0)"

definition time_millis :: "time \<Rightarrow> int" where
  "time_millis t = trunc (time_of t * 1000 + 1 / 2)"

definition as_time_t :: "time \<Rightarrow> int" where
  "as_time_t t = trunc (time_of t + 1 / 10000)"

definition time_rounded_to_next_second :: "time \<Rightarrow> time" where
  "time_rounded_to_next_second t = set_time (of_int \<lfloor>time_of t + 9995 / 10000\<rfloor>)"

text \<open>\<^verbatim>\<open>uint( as_double() ) / ( 24*60*60 )\<close>, for a time that is not negative.\<close>

definition day_nr :: "time \<Rightarrow> int" where
  "day_nr t = \<lfloor>time_of t\<rfloor> div (24 * 60 * 60)"

definition midnight :: "time \<Rightarrow> time" where
  "midnight t = set_time (of_int (day_nr t * 24 * 60 * 60))"

definition time_of_day :: "time \<Rightarrow> time" where
  "time_of_day t = set_time (seconds_of (time_diff t (midnight t)))"

text \<open>\<open>convert\<close> is the conversion by Java in milliseconds, in either direction.\<close>

definition zone_convert :: "(string \<Rightarrow> int \<Rightarrow> int) \<Rightarrow> string \<Rightarrow> rat \<Rightarrow> rat" where
  "zone_convert convert zone t =
     (if t = 0 \<or> t = never_seconds then t
      else of_int (convert zone (trunc (t * 1000 + 1 / 2))) / 1000)"

definition utc_from_time_zone :: "(string \<Rightarrow> int \<Rightarrow> int) \<Rightarrow> string \<Rightarrow> time \<Rightarrow> time" where
  "utc_from_time_zone local_to_utc zone t =
     (if is_zero t \<or> is_never t then t else set_time (zone_convert local_to_utc zone (time_of t)))"

definition local_time :: "(string \<Rightarrow> int \<Rightarrow> int) \<Rightarrow> string \<Rightarrow> time \<Rightarrow> time" where
  "local_time utc_to_local zone t =
     (if is_zero t \<or> is_never t then t else set_time (zone_convert utc_to_local zone (time_of t)))"

section \<open>Times are whole milliseconds\<close>

definition whole_ms :: "rat \<Rightarrow> bool" where
  "whole_ms t = (t * 1000 \<in> \<int>)"

definition time_ok :: "time \<Rightarrow> bool" where
  "time_ok t = (whole_ms (time_of t) \<and> time_of t \<le> never_seconds)"

lemma whole_ms_round: "whole_ms t \<longleftrightarrow> time_round t = t"
proof
  assume "whole_ms t"
  then obtain n where "t * 1000 = of_int n" by (auto simp: whole_ms_def Ints_def)
  moreover have "\<lfloor>of_int n + 1 / (2::rat)\<rfloor> = n" by linarith
  ultimately show "time_round t = t" by (simp add: time_round_def field_simps)
next
  assume "time_round t = t"
  then have "t * 1000 = of_int \<lfloor>t * 1000 + 1 / 2\<rfloor>" by (simp add: time_round_def field_simps)
  then show "whole_ms t" unfolding whole_ms_def by (metis Ints_of_int)
qed

lemma time_round_whole [simp]: "whole_ms (time_round t)"
  by (simp add: whole_ms_def time_round_def)

lemma whole_ms_intros [intro, simp]:
  "whole_ms (of_int n)" "whole_ms never_seconds" "whole_ms 0" "whole_ms (numeral k)" "whole_ms 1"
  by (simp_all add: whole_ms_def never_seconds_def)

lemma whole_ms_plus: "whole_ms s \<Longrightarrow> whole_ms t \<Longrightarrow> whole_ms (s + t)"
  by (simp add: whole_ms_def distrib_right)

lemma whole_ms_minus: "whole_ms s \<Longrightarrow> whole_ms t \<Longrightarrow> whole_ms (s - t)"
  by (simp add: whole_ms_def left_diff_distrib)

lemma whole_ms_uminus: "whole_ms s \<Longrightarrow> whole_ms (- s)"
  by (simp add: whole_ms_def)

lemma whole_ms_times: "whole_ms s \<Longrightarrow> whole_ms (of_int n * s)"
  by (simp add: whole_ms_def mult.assoc)

lemma whole_ms_day [simp]: "whole_ms (of_int n * 86400)"
  using whole_ms_times [of 86400 n] by simp

lemma never_positive [simp]:
  "0 < never_seconds" "never_seconds \<noteq> 0" "\<bar>never_seconds\<bar> = never_seconds"
  by (simp_all add: never_seconds_def never_int_def)

lemma time_ok_set [simp, intro]: "time_ok (set_time t)"
  by (auto simp: time_ok_def set_time_def never_def)

lemma time_ok_never [simp]: "time_ok never"
  by (simp add: time_ok_def never_def)

lemma set_time_exact: "whole_ms t \<Longrightarrow> t \<le> never_seconds \<Longrightarrow> set_time t = Time t"
  by (simp add: set_time_def whole_ms_round)

lemma time_round_mono: "s \<le> t \<Longrightarrow> time_round s \<le> time_round t"
  by (auto simp: time_round_def intro!: divide_right_mono floor_mono add_mono)

lemma time_round_never: "t \<le> never_seconds \<Longrightarrow> time_round t \<le> never_seconds"
  using time_round_mono [of t never_seconds] whole_ms_round [of never_seconds] by simp

section \<open>Days\<close>

lemma day_nr_bounds:
  "of_int (day_nr t) * 86400 \<le> time_of t" "time_of t < of_int (day_nr t) * 86400 + 86400"
proof -
  let ?f = "\<lfloor>time_of t\<rfloor>"
  have "day_nr t * 86400 \<le> ?f" "?f < day_nr t * 86400 + 86400"
    using pos_mod_bound [of 86400 ?f] pos_mod_sign [of 86400 ?f] div_mult_mod_eq [of ?f 86400]
    by (simp_all add: day_nr_def)
  then have "of_int (day_nr t * 86400) \<le> time_of t" "time_of t < of_int (day_nr t * 86400 + 86400)"
    by linarith+
  then show "of_int (day_nr t) * 86400 \<le> time_of t" "time_of t < of_int (day_nr t) * 86400 + 86400"
    by simp_all
qed

lemma day_nr_unique:
  assumes "of_int n * 86400 \<le> time_of t" "time_of t < of_int n * 86400 + 86400"
  shows "day_nr t = n"
proof -
  have "(of_int (day_nr t) :: rat) * 86400 < of_int n * 86400 + 86400"
    "(of_int n :: rat) * 86400 < of_int (day_nr t) * 86400 + 86400"
    using day_nr_bounds [of t] assms by linarith+
  then have "(of_int (day_nr t * 86400) :: rat) < of_int (n * 86400 + 86400)"
    "(of_int (n * 86400) :: rat) < of_int (day_nr t * 86400 + 86400)" by simp_all
  then have "day_nr t * 86400 < n * 86400 + 86400" "n * 86400 < day_nr t * 86400 + 86400"
    unfolding of_int_less_iff by simp_all
  then show ?thesis by linarith
qed

lemma midnight_exact: "time_of t \<le> never_seconds \<Longrightarrow> midnight t = Time (of_int (day_nr t) * 86400)"
proof -
  assume "time_of t \<le> never_seconds"
  then have le: "of_int (day_nr t * 86400) \<le> never_seconds" using day_nr_bounds(1) [of t] by simp
  have "midnight t = set_time (of_int (day_nr t * 86400))" by (simp add: midnight_def mult.assoc)
  then show ?thesis using set_time_exact [OF _ le] by simp
qed

lemma day_nr_midnight: "time_of t \<le> never_seconds \<Longrightarrow> day_nr (midnight t) = day_nr t"
  by (rule day_nr_unique) (simp_all add: midnight_exact)

lemma time_of_day_exact:
  assumes "time_ok t" "0 \<le> time_of t"
  shows "time_of_day t = Time (time_of t - of_int (day_nr t) * 86400)"
proof -
  have mid: "midnight t = Time (of_int (day_nr t) * 86400)"
    using assms by (simp add: midnight_exact time_ok_def)
  have "whole_ms (time_of t - of_int (day_nr t * 86400))"
    using assms by (auto intro!: whole_ms_minus simp: time_ok_def)
  moreover have "time_of t - of_int (day_nr t * 86400) \<le> never_seconds"
    using day_nr_bounds [of t] by (simp add: never_seconds_def never_int_def)
  ultimately show ?thesis
    using set_time_exact by (simp add: time_of_day_def time_diff_def mid)
qed

lemma never_big: "86400 < never_seconds"
  by (simp add: never_seconds_def never_int_def)

text \<open>
  Adding durations: when the result is a whole number of milliseconds before \<^verbatim>\<open>never\<close>, it is exact.
\<close>

lemma time_plus_exact:
  assumes "\<not> is_never t" "\<not> is_eternal d" "whole_ms (time_of t + seconds_of d)"
    "time_of t + seconds_of d \<le> never_seconds"
  shows "time_plus t d = Time (time_of t + seconds_of d)"
  using assms set_time_exact by (simp add: time_plus_def min_absorb2)

lemma time_plus_le_never: "time_plus t d \<le> never"
  by (simp add: time_plus_def never_def set_time_def time_order)

lemma time_plus_mono:
  assumes "t \<le> u" "u \<le> never"
  shows "time_plus t d \<le> time_plus u d"
proof -
  have set_mono: "set_time x \<le> set_time y" if "x \<le> y" for x y
    using time_round_mono [OF that] by (auto simp: set_time_def never_def time_order)
  show ?thesis
    using assms time_plus_le_never [of t d] set_mono [of "min never_seconds (time_of t + seconds_of d)"
        "min never_seconds (time_of u + seconds_of d)"]
    by (auto simp: time_plus_def never_def time_order is_never_def)
qed

lemma plus_minus_exact:
  assumes "time_ok t" "whole_ms (seconds_of d)" "\<bar>seconds_of d\<bar> \<noteq> never_seconds"
    "time_of t < never_seconds" "time_of t + seconds_of d < never_seconds"
  shows "time_minus (time_plus t d) d = t"
proof -
  have ne: "seconds_of d \<noteq> never_seconds" "- seconds_of d \<noteq> never_seconds"
    using assms(3) abs_minus_cancel [of "seconds_of d"] never_positive(3) by (metis, metis)
  have whole: "whole_ms (time_of t + seconds_of d)"
    using assms whole_ms_plus by (simp add: time_ok_def)
  have "time_plus t d = Time (time_of t + seconds_of d)"
    using assms whole by (intro time_plus_exact) (auto simp: is_never_def is_eternal_def)
  moreover have "time_plus (Time (time_of t + seconds_of d)) (Duration (- seconds_of d)) = Time (time_of t)"
    using assms ne whole time_plus_exact [of "Time (time_of t + seconds_of d)" "Duration (- seconds_of d)"]
    by (auto simp: is_never_def is_eternal_def time_ok_def)
  ultimately show ?thesis by (simp add: time_minus_def)
qed

lemma millis_value:
  "duration_millis d = (let n = \<lfloor>seconds_of d * 1000 + 1 / 2\<rfloor> in if 0 \<le> n then n else n + 1)"
proof -
  have "\<lfloor>of_int n + 1 / (2::rat)\<rfloor> = n" "\<lceil>of_int n + 1 / (2::rat)\<rceil> = n + 1" for n by linarith+
  moreover have "(0 \<le> of_int n + 1 / (2::rat)) = (0 \<le> n)" for n by linarith
  ultimately show ?thesis by (simp add: duration_millis_def trunc_def Let_def)
qed

section \<open>Properties\<close>

text \<open> A time that is not negative is the sum of its day's midnight and its time of day; the time of
  day is at least zero and less than 24 hours, and the midnight lies on the same day.\<close>

lemma time_splits_into_day:
  assumes "time_ok t" "0 \<le> time_of t"
  shows "time_of (midnight t) + time_of (time_of_day t) = time_of t \<and> day_nr (midnight t) = day_nr t
    \<and> Time 0 \<le> time_of_day t \<and> time_of_day t < Time (24 * 60 * 60)"
  using assms day_nr_bounds [of t] day_nr_midnight [of t]
  by (simp add: time_of_day_exact midnight_exact time_ok_def time_order)

text \<open>\<^verbatim>\<open>Duration::millis\<close> of a negative duration is one millisecond too large: 0.5 is added to the
  rounded value before the fraction is cut off towards zero.\<close>

theorem duration_millis_value:
  "duration_millis d =
     (let n = \<lfloor>seconds_of d * 1000 + 1 / 2\<rfloor> in if 0 \<le> n then n else n + 1)"
  by (rule millis_value)

end
