(* ===== verification/Call_Queue.thy ===== *)
theory Call_Queue
  imports Scheduler_Time
begin

text \<open>
  The queue of timed calls: what the kernel relies on as a locale, and the queue the kernel uses,
  \<^verbatim>\<open>StandardCallQueue\<close> (Scala), as its interpretation. \<^verbatim>\<open>Spooler::enqueue_call\<close> and \<^verbatim>\<open>cancel_call\<close> pass
  on to it.
\<close>

section \<open>Timed calls\<close>

text \<open>A \<^verbatim>\<open>Timed_call\<close> object: its identity, the number of its type and its time.\<close>

record timed_call =
  call_identity :: nat
  type_id :: int
  due :: time

definition at_millis :: "timed_call \<Rightarrow> int" where
  "at_millis c = time_millis (due c)"

section \<open>The contract\<close>

locale call_queue =
  fixes inv :: "'q \<Rightarrow> bool"
    and pending :: "'q \<Rightarrow> timed_call list"
    and add :: "'q \<Rightarrow> timed_call \<Rightarrow> 'q result"
    and cancel :: "'q \<Rightarrow> timed_call \<Rightarrow> 'q"
  assumes add_inv: "inv q \<Longrightarrow> add q c = Inr q' \<Longrightarrow> inv q'"
    and cancel_inv: "inv q \<Longrightarrow> inv (cancel q c)"
    and add_pending: "inv q \<Longrightarrow> add q c = Inr q' \<Longrightarrow> set (pending q') = insert c (set (pending q))"
    and cancel_pending: "inv q \<Longrightarrow> distinct (pending q) \<Longrightarrow>
      set (pending (cancel q c)) = set (pending q) - {c} \<and> distinct (pending (cancel q c))"
    and add_distinct: "inv q \<Longrightarrow> distinct (pending q) \<Longrightarrow> c \<notin> set (pending q) \<Longrightarrow> add q c = Inr q' \<Longrightarrow>
      distinct (pending q')"
begin

lemma cancel_add:
  assumes "inv q" "distinct (pending q)" "c \<notin> set (pending q)" "add q c = Inr q'"
  shows "set (pending (cancel q' c)) = set (pending q)"
  using cancel_pending [OF add_inv [OF assms(1,4)] add_distinct [OF assms]] add_pending [OF assms(1,4)]
    assms(3) by auto

text \<open>Replacing a pending call by another one leaves all other calls alone.\<close>

lemma replace_pending:
  assumes "inv q" "distinct (pending q)" "add (cancel q c) d = Inr q'"
  shows "set (pending q') = insert d (set (pending q) - {c})"
  using add_pending [OF cancel_inv [OF assms(1)] assms(3)] cancel_pending [OF assms(1,2)] by simp

end

section \<open>StandardCallQueue\<close>

record standard_queue =
  queue :: "timed_call list"
  closed :: bool

text \<open>\<^verbatim>\<open>positionAfter( at )\<close>: behind all calls that are not later, so calls of equal time keep their order.\<close>

definition position_after :: "timed_call list \<Rightarrow> int \<Rightarrow> nat" where
  "position_after q t = length (takeWhile (\<lambda>c. at_millis c \<le> t) q)"

definition queue_add :: "standard_queue \<Rightarrow> timed_call \<Rightarrow> standard_queue result" where
  "queue_add q c =
     (if closed q then Inl (Xc ''CallQueue.ClosedException'')
      else let i = position_after (queue q) (at_millis c)
        in Inr (q\<lparr>queue := take i (queue q) @ c # drop i (queue q)\<rparr>))"

definition queue_cancel :: "standard_queue \<Rightarrow> timed_call \<Rightarrow> standard_queue" where
  "queue_cancel q c = q\<lparr>queue := remove1 c (queue q)\<rparr>"

definition queue_next_time :: "standard_queue \<Rightarrow> int option" where
  "queue_next_time q = (case queue q of [] \<Rightarrow> None | c # _ \<Rightarrow> Some (at_millis c))"

definition pop_mature :: "standard_queue \<Rightarrow> int \<Rightarrow> (timed_call \<times> standard_queue) option" where
  "pop_mature q now =
     (case queue q of
        [] \<Rightarrow> None
      | c # cs \<Rightarrow> if at_millis c \<le> now then Some (c, q\<lparr>queue := cs\<rparr>) else None)"

definition queue_close :: "standard_queue \<Rightarrow> standard_queue" where
  "queue_close q = q\<lparr>queue := [], closed := True\<rparr>"

definition queue_ok :: "standard_queue \<Rightarrow> bool" where
  "queue_ok q = sorted (map at_millis (queue q))"

lemma sorted_insert_after:
  assumes "sorted (map f xs)"
  shows "sorted (map f (takeWhile (\<lambda>x. f x \<le> f c) xs @ c # dropWhile (\<lambda>x. f x \<le> f c) xs))"
  using assms
proof (induction xs)
  case (Cons x xs)
  then have "\<forall>y \<in> set xs. f x \<le> f y" by simp
  then have "\<forall>y \<in> set (takeWhile (\<lambda>x. f x \<le> f c) xs) \<union> set (dropWhile (\<lambda>x. f x \<le> f c) xs). f x \<le> f y"
    by (auto dest: set_takeWhileD set_dropWhileD)
  with Cons show ?case by (cases "f x \<le> f c") auto
qed simp

lemma queue_add_eq:
  "queue_add q c = (if closed q then Inl (Xc ''CallQueue.ClosedException'')
     else Inr (q\<lparr>queue := takeWhile (\<lambda>x. at_millis x \<le> at_millis c) (queue q)
       @ c # dropWhile (\<lambda>x. at_millis x \<le> at_millis c) (queue q)\<rparr>))"
  unfolding queue_add_def position_after_def Let_def takeWhile_eq_take [symmetric]
    dropWhile_eq_drop [symmetric] by (rule refl)

lemma queue_add_ok: "queue_ok q \<Longrightarrow> queue_add q c = Inr q' \<Longrightarrow> queue_ok q'"
  using sorted_insert_after [of at_millis "queue q" c]
  by (auto simp: queue_add_eq queue_ok_def split: if_splits)

lemma queue_add_set: "queue_add q c = Inr q' \<Longrightarrow> set (queue q') = insert c (set (queue q))"
  by (auto simp: queue_add_eq split: if_splits dest: set_takeWhileD set_dropWhileD)
    (metis Un_iff set_append takeWhile_dropWhile_id)

lemma queue_add_distinct:
  assumes "distinct (queue q)" "c \<notin> set (queue q)" "queue_add q c = Inr q'"
  shows "distinct (queue q')"
proof -
  have "distinct (takeWhile P (queue q) @ dropWhile P (queue q))" for P
    using assms(1) by simp
  then show ?thesis
    using assms(2,3)
    by (auto simp: queue_add_eq simp del: takeWhile_dropWhile_id split: if_splits
        dest: set_takeWhileD set_dropWhileD)
qed

interpretation standard: call_queue queue_ok queue queue_add queue_cancel
proof unfold_locales
  fix q c q'
  assume ok: "queue_ok q"
  show "queue_ok (queue_cancel q c)"
    using ok sorted_remove1 [of "map at_millis (queue q)"]
    by (auto simp: queue_ok_def queue_cancel_def sorted_map_remove1)
  show "set (queue (queue_cancel q c)) = set (queue q) - {c} \<and> distinct (queue (queue_cancel q c))"
    if "distinct (queue q)" using that by (simp add: queue_cancel_def set_remove1_eq)
  assume add: "queue_add q c = Inr q'"
  then show "queue_ok q'" using ok queue_add_ok by blast
  show "set (queue q') = insert c (set (queue q))" using add by (rule queue_add_set)
  show "distinct (queue q')" if "distinct (queue q)" "c \<notin> set (queue q)"
    using queue_add_distinct [OF that add] .
qed

text \<open>Only a call that is due is taken, and no pending call is earlier.\<close>

lemma pop_mature_first:
  assumes "queue_ok q" "pop_mature q now = Some (c, q')"
  shows "at_millis c \<le> now \<and> (\<forall>d \<in> set (queue q'). at_millis c \<le> at_millis d) \<and> queue_ok q'"
  using assms by (auto simp: pop_mature_def queue_ok_def split: list.splits if_splits)

end
