(* ===== verification/Typed_Calls.thy ===== *)
theory Typed_Calls
  imports Call_Queue
begin

text \<open>
  \<^verbatim>\<open>Type_int_map\<close> and \<^verbatim>\<open>Typed_call_register\<close> of \<^verbatim>\<open>scheduler/Timed_call.h\<close> and \<^verbatim>\<open>Timed_call.cxx\<close>: a job,
  a task or an order has at most one pending call of each type. A register belongs to one object; its
  calls are in the queue of all calls, which is part of the state here.

  The mutexes are left out: the operations are taken as atomic.
\<close>

section \<open>Type_int_map\<close>

definition type_to_int :: "(string \<times> int) list \<Rightarrow> string \<Rightarrow> int \<times> (string \<times> int) list" where
  "type_to_int m t =
     (case map_of m t of
        Some i \<Rightarrow> (i, m)
      | None \<Rightarrow> let i = int (length m) in (i, AList.update t i m))"

definition type_map_ok :: "(string \<times> int) list \<Rightarrow> bool" where
  "type_map_ok m = (distinct (keys m) \<and> map snd m = map int [0..<length m])"

lemma update_new_append: "map_of m k = None \<Longrightarrow> AList.update k v m = m @ [(k, v)]"
  by (induction m) (auto split: if_splits)

lemma type_to_int_ok: "type_map_ok m \<Longrightarrow> type_map_ok (snd (type_to_int m t))"
  by (auto simp: type_to_int_def type_map_ok_def update_new_append map_of_None_keys keys_def Let_def
      split: option.splits)

lemma type_to_int_lookup: "map_of (snd (type_to_int m t)) t = Some (fst (type_to_int m t))"
  by (simp add: type_to_int_def Let_def update_new_append map_add_def split: option.split)

lemma type_to_int_keeps:
  "map_of m s = Some i \<Longrightarrow> map_of (snd (type_to_int m t)) s = Some i"
  by (auto simp: type_to_int_def Let_def update_new_append split: option.splits)

lemma type_map_injective:
  assumes "type_map_ok m" "map_of m s = Some i" "map_of m t = Some i"
  shows "s = t"
proof -
  have "distinct (map snd m)" using assms(1) by (simp add: type_map_ok_def distinct_map inj_on_def)
  moreover have "(s, i) \<in> set m" "(t, i) \<in> set m" using assms(2,3) by (auto dest: map_of_SomeD)
  ultimately show ?thesis by (metis distinct_map inj_onD prod.inject snd_conv)
qed

section \<open>The register\<close>

text \<open>\<open>entries\<close> is \<^verbatim>\<open>_map\<close>; a null pointer is \<^verbatim>\<open>None\<close>.\<close>

record call_register =
  entries :: "(int \<times> timed_call option) list"
  calls :: standard_queue

definition get_call :: "call_register \<Rightarrow> int \<Rightarrow> timed_call option" where
  "get_call r i = (case map_of (entries r) i of None \<Rightarrow> None | Some e \<Rightarrow> e)"

definition call_due :: "call_register \<Rightarrow> int \<Rightarrow> time" where
  "call_due r i = (case get_call r i of None \<Rightarrow> never | Some c \<Rightarrow> due c)"

definition cancel_entry :: "call_register \<Rightarrow> int \<Rightarrow> timed_call \<Rightarrow> call_register" where
  "cancel_entry r i c =
     r\<lparr>calls := queue_cancel (calls r) c, entries := AList.update i None (entries r)\<rparr>"

definition cancel_id :: "call_register \<Rightarrow> int \<Rightarrow> call_register" where
  "cancel_id r i = (case get_call r i of None \<Rightarrow> r | Some c \<Rightarrow> cancel_entry r i c)"

text \<open>When the queue is closed, \<^verbatim>\<open>enqueue_call\<close> throws after the entry has been made.\<close>

definition enqueue_id :: "call_register \<Rightarrow> timed_call \<Rightarrow> unit result \<times> call_register" where
  "enqueue_id r c =
     (let r1 = cancel_id r (type_id c);
          r2 = r1\<lparr>entries := AList.update (type_id c) (Some c) (entries r1)\<rparr>
      in case queue_add (calls r2) c of
        Inl e \<Rightarrow> (Inl e, r2)
      | Inr q \<Rightarrow> (Inr (), r2\<lparr>calls := q\<rparr>))"

text \<open>\<^verbatim>\<open>call_at<CALL>( t )\<close>: \<open>new_id\<close> is the identity of the new call object.\<close>

definition call_at :: "call_register \<Rightarrow> int \<Rightarrow> time \<Rightarrow> nat \<Rightarrow> unit result \<times> call_register" where
  "call_at r i t new_id =
     (if t \<noteq> call_due r i then
        if is_never t then (Inr (), cancel_id r i)
        else enqueue_id r \<lparr>call_identity = new_id, type_id = i, due = t\<rparr>
      else (Inr (), r))"

definition call_now :: "call_register \<Rightarrow> int \<Rightarrow> nat \<Rightarrow> unit result \<times> call_register" where
  "call_now r i new_id = enqueue_id r \<lparr>call_identity = new_id, type_id = i, due = Time 0\<rparr>"

definition next_time :: "call_register \<Rightarrow> time" where
  "next_time r =
     fold (\<lambda>(i, e) result. case e of None \<Rightarrow> result | Some c \<Rightarrow> if result < due c then due c else result)
       (entries r) never"

definition cancel_all :: "call_register \<Rightarrow> call_register" where
  "cancel_all r =
     fold (\<lambda>i r. case get_call r i of None \<Rightarrow> r | Some c \<Rightarrow> cancel_entry r i c) (keys (entries r)) r"

text \<open>The queue hands a due call out; the register is not told.\<close>

definition run_next :: "call_register \<Rightarrow> int \<Rightarrow> (timed_call \<times> call_register) option" where
  "run_next r now =
     (case pop_mature (calls r) now of None \<Rightarrow> None | Some (c, q) \<Rightarrow> Some (c, r\<lparr>calls := q\<rparr>))"

section \<open>At most one pending call of each type\<close>

text \<open>\<open>fresh\<close> bounds the identities used so far. Every pending call is the entry of its type.\<close>

definition register_ok :: "nat \<Rightarrow> call_register \<Rightarrow> bool" where
  "register_ok fresh r =
     (queue_ok (calls r) \<and> distinct (queue (calls r)) \<and> distinct (keys (entries r))
      \<and> (\<forall>c \<in> set (queue (calls r)). call_identity c < fresh \<and> get_call r (type_id c) = Some c)
      \<and> (\<forall>i c. get_call r i = Some c \<longrightarrow> call_identity c < fresh \<and> type_id c = i \<and> time_ok (due c)))"

lemma register_okD:
  assumes "register_ok n r"
  shows "queue_ok (calls r)" "distinct (queue (calls r))" "distinct (keys (entries r))"
    and "c \<in> set (queue (calls r)) \<Longrightarrow> get_call r (type_id c) = Some c"
    and "c \<in> set (queue (calls r)) \<Longrightarrow> call_identity c < n"
    and "get_call r i = Some c \<Longrightarrow> type_id c = i"
    and "get_call r i = Some c \<Longrightarrow> call_identity c < n"
    and "get_call r i = Some c \<Longrightarrow> time_ok (due c)"
  using assms unfolding register_ok_def by blast+

lemma register_okI:
  assumes "queue_ok (calls r)" "distinct (queue (calls r))" "distinct (keys (entries r))"
    and "\<And>c. c \<in> set (queue (calls r)) \<Longrightarrow> get_call r (type_id c) = Some c \<and> call_identity c < n"
    and "\<And>i c. get_call r i = Some c \<Longrightarrow> type_id c = i \<and> call_identity c < n \<and> time_ok (due c)"
  shows "register_ok n r"
  using assms unfolding register_ok_def by blast

lemma get_call_update:
  "get_call (r\<lparr>entries := AList.update i e (entries r)\<rparr>) j = (if j = i then e else get_call r j)"
  by (simp add: get_call_def map_of_update)

lemma get_call_calls [simp]: "get_call (r\<lparr>calls := q\<rparr>) = get_call r"
  by (simp add: get_call_def fun_eq_iff)

lemma cancel_entry_get: "get_call (cancel_entry r i c) j = (if j = i then None else get_call r j)"
  by (simp add: cancel_entry_def get_call_def map_of_update)

lemma cancel_id_get: "get_call (cancel_id r i) j = (if j = i then None else get_call r j)"
  by (simp add: cancel_id_def cancel_entry_get split: option.split)

lemma cancel_id_pending:
  assumes "register_ok n r"
  shows "set (queue (calls (cancel_id r i))) = {c \<in> set (queue (calls r)). type_id c \<noteq> i}"
proof (cases "get_call r i")
  case None
  then have "type_id c \<noteq> i" if "c \<in> set (queue (calls r))" for c
    using register_okD(4) [OF assms that] by auto
  with None show ?thesis by (auto simp: cancel_id_def)
next
  case (Some c)
  have "type_id c = i" using register_okD(6) [OF assms Some] .
  moreover have "\<forall>d \<in> set (queue (calls r)). get_call r (type_id d) = Some d"
    using register_okD(4) [OF assms] by blast
  ultimately have "set (queue (calls r)) - {c} = {d \<in> set (queue (calls r)). type_id d \<noteq> i}"
    using Some by fastforce
  moreover have "set (queue (queue_cancel (calls r) c)) = set (queue (calls r)) - {c}"
    using standard.cancel_pending [OF register_okD(1,2) [OF assms]] by blast
  ultimately show ?thesis by (simp add: cancel_id_def cancel_entry_def Some)
qed

lemma cancel_id_ok:
  assumes ok: "register_ok n r"
  shows "register_ok n (cancel_id r i)"
proof (rule register_okI)
  show "queue_ok (calls (cancel_id r i))" "distinct (queue (calls (cancel_id r i)))"
    using standard.cancel_inv [OF register_okD(1) [OF ok]] standard.cancel_pending [OF register_okD(1,2) [OF ok]]
      register_okD(1,2) [OF ok]
    by (simp_all add: cancel_id_def cancel_entry_def split: option.split)
  show "distinct (keys (entries (cancel_id r i)))"
    using register_okD(3) [OF ok] by (simp add: cancel_id_def cancel_entry_def assoc_simps split: option.split)
  show "get_call (cancel_id r i) (type_id c) = Some c \<and> call_identity c < n"
    if "c \<in> set (queue (calls (cancel_id r i)))" for c
    using that register_okD(4,5) [OF ok, of c] unfolding cancel_id_pending [OF ok] cancel_id_get by simp
  show "type_id c = j \<and> call_identity c < n \<and> time_ok (due c)" if "get_call (cancel_id r i) j = Some c" for j c
    using that register_okD(6,7,8) [OF ok, of j c] unfolding cancel_id_get by (simp split: if_splits)
qed

lemma enqueue_id_ok:
  assumes ok: "register_ok n r" and fresh: "call_identity c = n" "time_ok (due c)"
    and enq: "enqueue_id r c = (res, r')"
  shows "register_ok (Suc n) r'"
    and "set (queue (calls r')) =
      {d \<in> set (queue (calls r)). type_id d \<noteq> type_id c} \<union> (if res = Inr () then {c} else {})"
proof -
  let ?r1 = "cancel_id r (type_id c)"
  let ?r2 = "?r1\<lparr>entries := AList.update (type_id c) (Some c) (entries ?r1)\<rparr>"
  have ok1: "register_ok n ?r1" using ok by (rule cancel_id_ok)
  have new: "c \<notin> set (queue (calls ?r1))"
    using register_okD(5) [OF ok1, of c] fresh by auto
  have get2: "get_call ?r2 j = (if j = type_id c then Some c else get_call r j)" for j
    by (simp add: get_call_update cancel_id_get)
  have keys2: "distinct (keys (entries ?r2))"
    using register_okD(3) [OF ok1] by (simp add: assoc_simps)
  note pend = cancel_id_pending [OF ok, of "type_id c"]
  have get_ok: "type_id d = j \<and> call_identity d < Suc n \<and> time_ok (due d)"
    if "get_call ?r2 j = Some d" for j d
    using that fresh register_okD(6,7,8) [OF ok, of j d] unfolding get2 by (auto split: if_splits)
  have old: "get_call ?r2 (type_id d) = Some d \<and> call_identity d < Suc n"
    if "d \<in> set (queue (calls ?r1))" for d
    using that register_okD(4,5) [OF ok, of d] unfolding pend get2 by simp
  have "register_ok (Suc n) r' \<and> set (queue (calls r')) =
      {d \<in> set (queue (calls r)). type_id d \<noteq> type_id c} \<union> (if res = Inr () then {c} else {})"
  proof (cases "queue_add (calls ?r2) c")
    case (Inl e)
    then have r': "r' = ?r2" "res = Inl e" using enq by (auto simp: enqueue_id_def Let_def)
    have "register_ok (Suc n) ?r2"
    proof (rule register_okI)
      show "queue_ok (calls ?r2)" "distinct (queue (calls ?r2))"
        using register_okD(1,2) [OF ok1] by simp_all
      show "get_call ?r2 (type_id d) = Some d \<and> call_identity d < Suc n" if "d \<in> set (queue (calls ?r2))" for d
        using that by (intro old) simp
    qed (fact keys2, rule get_ok)
    then show ?thesis unfolding r' using pend by simp
  next
    case (Inr q)
    then have r': "r' = ?r2\<lparr>calls := q\<rparr>" "res = Inr ()" using enq by (auto simp: enqueue_id_def Let_def)
    have add: "queue_add (calls ?r1) c = Inr q" using Inr by simp
    have q: "queue_ok q" "distinct (queue q)" "set (queue q) = insert c (set (queue (calls ?r1)))"
      using standard.add_inv [OF register_okD(1) [OF ok1] add] standard.add_pending [OF register_okD(1) [OF ok1] add]
        standard.add_distinct [OF register_okD(1,2) [OF ok1] new add] by blast+
    have "register_ok (Suc n) (?r2\<lparr>calls := q\<rparr>)"
    proof (rule register_okI)
      show "get_call (?r2\<lparr>calls := q\<rparr>) (type_id d) = Some d \<and> call_identity d < Suc n"
        if "d \<in> set (queue (calls (?r2\<lparr>calls := q\<rparr>)))" for d
        using that old [of d] fresh get2 [of "type_id c"] unfolding get_call_calls by (auto simp: q(3))
      show "type_id d = j \<and> call_identity d < Suc n \<and> time_ok (due d)"
        if "get_call (?r2\<lparr>calls := q\<rparr>) j = Some d" for j d
        using that get_ok unfolding get_call_calls by blast
    qed (use q keys2 in simp_all)
    then show ?thesis unfolding r' using pend q(3) by simp
  qed
  then show "register_ok (Suc n) r'"
    and "set (queue (calls r')) =
      {d \<in> set (queue (calls r)). type_id d \<noteq> type_id c} \<union> (if res = Inr () then {c} else {})"
    by blast+
qed

lemma run_next_ok:
  assumes ok: "register_ok n r" and run: "run_next r now = Some (c, r')"
  shows "register_ok n r'" "get_call r' = get_call r" "get_call r (type_id c) = Some c"
    and "set (queue (calls r')) = {d \<in> set (queue (calls r)). type_id d \<noteq> type_id c}"
proof -
  obtain q where q: "pop_mature (calls r) now = Some (c, q)" "r' = r\<lparr>calls := q\<rparr>"
    using run by (auto simp: run_next_def split: option.splits)
  then have cq: "queue (calls r) = c # queue q"
    by (auto simp: pop_mature_def split: list.splits if_splits)
  show get: "get_call r' = get_call r" using q(2) by simp
  show c: "get_call r (type_id c) = Some c" using register_okD(4) [OF ok, of c] cq by simp
  show "register_ok n r'"
  proof (rule register_okI)
    show "queue_ok (calls r')" using pop_mature_first [OF register_okD(1) [OF ok] q(1)] q(2) by simp
    show "distinct (queue (calls r'))" "distinct (keys (entries r'))"
      using register_okD(2,3) [OF ok] cq q(2) by simp_all
    show "get_call r' (type_id d) = Some d \<and> call_identity d < n" if "d \<in> set (queue (calls r'))" for d
      using that register_okD(4,5) [OF ok, of d] cq q(2) unfolding get by simp
    show "type_id d = i \<and> call_identity d < n \<and> time_ok (due d)" if "get_call r' i = Some d" for i d
      using that register_okD(6,7,8) [OF ok, of i d] unfolding get by simp
  qed
  have other: "type_id d \<noteq> type_id c" if "d \<in> set (queue q)" for d
  proof
    assume eq: "type_id d = type_id c"
    have "get_call r (type_id d) = Some d" using register_okD(4) [OF ok, of d] that cq by simp
    with c eq have "d = c" by (metis option.inject)
    then show False using that register_okD(2) [OF ok] cq by simp
  qed
  have "set (queue q) = {d \<in> insert c (set (queue q)). type_id d \<noteq> type_id c}"
    using other by blast
  then show "set (queue (calls r')) = {d \<in> set (queue (calls r)). type_id d \<noteq> type_id c}"
    using q(2) by (simp add: cq)
qed

section \<open>Runs\<close>

datatype register_event = Call_at int rat | Call_now int | Cancel int | Run int

text \<open>The identity of the next call object is counted up with every event.\<close>

fun exec_event :: "nat \<times> call_register \<Rightarrow> register_event \<Rightarrow> nat \<times> call_register" where
  "exec_event (n, r) (Call_at i x) = (Suc n, snd (call_at r i (set_time x) n))"
| "exec_event (n, r) (Call_now i) = (Suc n, snd (call_now r i n))"
| "exec_event (n, r) (Cancel i) = (Suc n, cancel_id r i)"
| "exec_event (n, r) (Run now) = (Suc n, case run_next r now of None \<Rightarrow> r | Some (_, r') \<Rightarrow> r')"

definition empty_register :: call_register where
  "empty_register = \<lparr>entries = [], calls = \<lparr>queue = [], closed = False\<rparr>\<rparr>"

definition run_register :: "register_event list \<Rightarrow> call_register" where
  "run_register es = snd (fold (\<lambda>e s. exec_event s e) es (0, empty_register))"

lemma register_ok_mono: "register_ok n r \<Longrightarrow> register_ok (Suc n) r"
  unfolding register_ok_def by (meson less_SucI)

lemma time_ok_zero [simp]: "time_ok (Time 0)"
  by (simp add: time_ok_def never_seconds_def never_int_def)

lemma exec_event_ok: "register_ok n r \<Longrightarrow> exec_event (n, r) e = (m, r') \<Longrightarrow> register_ok m r'"
proof (cases e)
  case (Call_at i x)
  assume "register_ok n r" "exec_event (n, r) e = (m, r')"
  then show ?thesis
    using Call_at enqueue_id_ok(1) [of n r "\<lparr>call_identity = n, type_id = i, due = set_time x\<rparr>"]
    by (cases "enqueue_id r \<lparr>call_identity = n, type_id = i, due = set_time x\<rparr>")
      (auto simp: call_at_def intro: register_ok_mono cancel_id_ok split: if_splits)
next
  case (Call_now i)
  assume "register_ok n r" "exec_event (n, r) e = (m, r')"
  then show ?thesis
    using Call_now enqueue_id_ok(1) [of n r "\<lparr>call_identity = n, type_id = i, due = Time 0\<rparr>"]
    by (cases "enqueue_id r \<lparr>call_identity = n, type_id = i, due = Time 0\<rparr>") (auto simp: call_now_def)
next
  case (Run now)
  assume "register_ok n r" "exec_event (n, r) e = (m, r')"
  then show ?thesis
    using Run run_next_ok(1) by (auto intro: register_ok_mono split: option.splits)
qed (auto intro: register_ok_mono cancel_id_ok)

lemma register_ok_empty: "register_ok 0 empty_register"
  by (simp add: register_ok_def empty_register_def queue_ok_def get_call_def keys_def)

lemma run_register_ok: "\<exists>n. register_ok n (run_register es)"
proof -
  have "register_ok n r \<Longrightarrow>
    \<exists>m. register_ok m (snd (fold (\<lambda>e s. exec_event s e) es (n, r)))" for n r
  proof (induction es arbitrary: n r)
    case (Cons e es)
    then show ?case using exec_event_ok [of n r e] by (cases "exec_event (n, r) e") auto
  qed auto
  then show ?thesis using register_ok_empty by (auto simp: run_register_def)
qed

section \<open>Times\<close>

lemma fold_stays_never:
  "\<forall>(i, e) \<in> set es. case e of None \<Rightarrow> True | Some c \<Rightarrow> \<not> never < due c \<Longrightarrow>
   fold (\<lambda>(i, e) result. case e of None \<Rightarrow> result | Some c \<Rightarrow> if result < due c then due c else result)
     es never = never"
  by (induction es) (auto split: option.splits)

lemma next_time_never:
  assumes "register_ok n r"
  shows "next_time r = never"
proof -
  have "\<not> never < due c" if "(i, Some c) \<in> set (entries r)" for i c
  proof -
    have "get_call r i = Some c"
      using that register_okD(3) [OF assms] by (simp add: get_call_def keys_def)
    then show ?thesis using register_okD(8) [OF assms, of i c] by (auto simp: time_ok_def never_def time_order)
  qed
  then have "\<forall>(i, e) \<in> set (entries r). case e of None \<Rightarrow> True | Some c \<Rightarrow> \<not> never < due c"
    by (auto split: option.split)
  then show ?thesis unfolding next_time_def by (rule fold_stays_never)
qed

section \<open>Properties\<close>

text \<open> C20: Whatever calls an object orders, cancels and gets, at most one call of each type is pending, and it is the one
  that the register holds for its type; and the calls are handed out in the order of their times.\<close>

theorem one_call_per_type:
  assumes "c \<in> set (queue (calls (run_register es)))" "d \<in> set (queue (calls (run_register es)))"
    and "type_id c = type_id d"
  shows "c = d \<and> get_call (run_register es) (type_id c) = Some c \<and> distinct (queue (calls (run_register es)))
    \<and> sorted (map at_millis (queue (calls (run_register es))))"
proof -
  obtain n where ok: "register_ok n (run_register es)" using run_register_ok by blast
  have held: "get_call (run_register es) (type_id c) = Some c" using register_okD(4) [OF ok assms(1)] .
  moreover have "c = d" using held register_okD(4) [OF ok assms(2)] assms(3) by (metis option.inject)
  moreover have "sorted (map at_millis (queue (calls (run_register es))))"
    using register_okD(1) [OF ok] unfolding queue_ok_def .
  ultimately show ?thesis using register_okD(2) [OF ok] by blast
qed

theorem one_call_per_type_witness:
  "sorted (map at_millis (queue (calls (run_register [Call_now 1, Call_at 2 60, Call_now 1]))))
   \<and> (\<lambda>r. \<lparr>call_identity = 2, type_id = 1, due = Time 0\<rparr> \<in> set (queue (calls r)))
        (run_register [Call_now 1, Call_at 2 60, Call_now 1])"
proof -
  have "\<lparr>call_identity = 2, type_id = 1, due = Time 0\<rparr>
      \<in> set (queue (calls (run_register [Call_now 1, Call_at 2 60, Call_now 1])))"
    by (simp add: run_register_def empty_register_def call_now_def call_at_def enqueue_id_def cancel_id_def
        cancel_entry_def get_call_def call_due_def queue_add_eq queue_cancel_def at_millis_def time_millis_def
        set_time_def time_round_def trunc_def never_def is_never_def never_seconds_def never_int_def Let_def)
  with one_call_per_type [OF this this] show ?thesis by simp
qed

text \<open>Ordering a call for another time than the one registered replaces the pending call of that type
  by one for the new time; the calls of all other types stay. Ordering it for \<^verbatim>\<open>never\<close> cancels it.\<close>

theorem call_at_reschedules:
  assumes "register_ok n r" "\<not> closed (calls r)" "time_ok t" "t \<noteq> call_due r i"
  shows "\<exists>r'. call_at r i t n = (Inr (), r') \<and> set (queue (calls r')) =
    {c \<in> set (queue (calls r)). type_id c \<noteq> i}
      \<union> (if is_never t then {} else {\<lparr>call_identity = n, type_id = i, due = t\<rparr>})"
proof (cases "is_never t")
  case True
  then show ?thesis using assms cancel_id_pending [OF assms(1)] by (simp add: call_at_def)
next
  case False
  let ?c = "\<lparr>call_identity = n, type_id = i, due = t\<rparr>"
  have "\<not> closed (calls (cancel_id r i))"
    using assms(2) by (simp add: cancel_id_def cancel_entry_def queue_cancel_def split: option.split)
  then have "fst (enqueue_id r ?c) = Inr ()"
    by (simp add: enqueue_id_def Let_def queue_add_eq)
  then obtain r' where "enqueue_id r ?c = (Inr (), r')" by (cases "enqueue_id r ?c") simp
  then show ?thesis
    using enqueue_id_ok(2) [OF assms(1), of ?c] assms(3,4) False by (simp add: call_at_def)
qed

theorem call_at_reschedules_witness:
  "\<exists>r'. call_at empty_register 7 (Time 60) 0 = (Inr (), r')
     \<and> set (queue (calls r')) = {\<lparr>call_identity = 0, type_id = 7, due = Time 60\<rparr>}"
proof -
  have "time_ok (Time 60)" "Time 60 \<noteq> call_due empty_register 7" "\<not> is_never (Time 60)"
    "\<not> closed (calls empty_register)"
    by (simp_all add: time_ok_def call_due_def get_call_def empty_register_def never_def is_never_def
        never_seconds_def never_int_def)
  from call_at_reschedules [OF register_ok_empty this(4,1,2)] this(3) show ?thesis
    by (auto simp: empty_register_def)
qed

text \<open> C40: After a call has been executed, ordering a call of the same type for the same time does
  nothing: the register is not told of the execution, takes the old time for the current one and no call
  is pending.\<close>

theorem call_at_after_run_is_lost:
  assumes "register_ok n r" "run_next r now = Some (c, r')"
  shows "call_at r' (type_id c) (due c) m = (Inr (), r')
    \<and> (\<forall>d \<in> set (queue (calls r')). type_id d \<noteq> type_id c)"
  using run_next_ok(2,3,4) [OF assms] by (simp add: call_at_def call_due_def)

theorem call_at_after_run_is_lost_witness:
  "case run_next (snd (call_now empty_register 7 0)) 1000 of
     None \<Rightarrow> False
   | Some (c, r') \<Rightarrow> call_at r' 7 (Time 0) 1 = (Inr (), r') \<and> queue (calls r') = []"
proof -
  let ?r = "snd (call_now empty_register 7 0)"
  have call: "call_now empty_register 7 0 = (Inr (), ?r)"
    by (simp add: call_now_def enqueue_id_def cancel_id_def get_call_def empty_register_def queue_add_eq Let_def)
  then have ok: "register_ok 1 ?r"
    using enqueue_id_ok(1) [OF register_ok_empty, of "\<lparr>call_identity = 0, type_id = 7, due = Time 0\<rparr>"]
    by (simp add: call_now_def)
  have "queue (calls ?r) = [\<lparr>call_identity = 0, type_id = 7, due = Time 0\<rparr>]"
    by (simp add: call_now_def enqueue_id_def cancel_id_def get_call_def empty_register_def queue_add_eq Let_def)
  then obtain r' where run: "run_next ?r 1000 = Some (\<lparr>call_identity = 0, type_id = 7, due = Time 0\<rparr>, r')"
      and q: "queue (calls r') = []"
    by (auto simp: run_next_def pop_mature_def at_millis_def time_millis_def trunc_def)
  from call_at_after_run_is_lost [OF ok run, of 1] q run show ?thesis by simp
qed

text \<open>\<^verbatim>\<open>Typed_call_register::next_time\<close> is \<^verbatim>\<open>never\<close> in every reachable state, however many calls are
  pending: the comparison in its loop is the wrong way round.\<close>

theorem next_time_is_never: "next_time (run_register es) = never"
  using run_register_ok [of es] next_time_never by blast

text \<open>The numbers of the call types are given without gaps, and a type keeps its number: two types
  never share one.\<close>

lemma type_numbers_unique:
  assumes "type_map_ok m"
  shows "type_map_ok (snd (type_to_int m t)) \<and> fst (type_to_int (snd (type_to_int m t)) t) = fst (type_to_int m t)
    \<and> (map_of (snd (type_to_int m t)) s = Some (fst (type_to_int m t)) \<longrightarrow> s = t)"
  using type_to_int_ok [OF assms, of t] type_to_int_lookup [of m t]
    type_map_injective [OF type_to_int_ok [OF assms, of t] _ type_to_int_lookup [of m t], of s]
  by (auto simp: type_to_int_def [of "snd (type_to_int m t)"])

end
