(* ===== verification/Requisites.thy ===== *)
theory Requisites
  imports Scheduler_Prelude
begin

text \<open>
  \<^verbatim>\<open>struct Dependant\<close> and \<^verbatim>\<open>struct Dependencies\<close> (\<^verbatim>\<open>scheduler/folder.h\<close>, \<^verbatim>\<open>folder_Dependant.cxx\<close>,
  \<^verbatim>\<open>folder_Dependencies.cxx\<close>): which objects need which other objects, and who is told when one of them
  is loaded, about to be removed or removed.

  Dependants and subsystems are identities. A path is its own normalised path. The two-level map
  \<^verbatim>\<open>_requisite_sets\<close> (subsystem, set of paths) is a list of pairs without repetition, and the map
  \<^verbatim>\<open>_path_requestors_map\<close> of a subsystem is a function that is empty where the map has no entry. Hash
  sets are lists in the order of insertion. The calls \<^verbatim>\<open>on_requisite_loaded\<close> and so on of the dependants
  are an output.
\<close>

section \<open>State\<close>

type_synonym requisite_path = "nat \<times> string"

record dependant =
  requisite_sets :: "requisite_path list"
  accompanying_dependants :: "nat list"

text \<open>
  \<open>file_based_at\<close> is \<^verbatim>\<open>subsystem->file_based_or_null( path )\<close>, with the flag
  \<^verbatim>\<open>is_active_and_not_to_be_removed\<close>. \<open>own_path\<close> is the subsystem and path of a dependant that is itself a
  \<^verbatim>\<open>File_based\<close>.
\<close>

record requisite_world =
  dependants :: "nat \<Rightarrow> dependant"
  path_requestors :: "requisite_path \<Rightarrow> nat list"
  file_based_at :: "requisite_path \<Rightarrow> (nat \<times> bool) option"
  own_path :: "nat \<Rightarrow> requisite_path option"

section \<open>Dependencies\<close>


definition dependencies_remove :: "requisite_world \<Rightarrow> nat \<Rightarrow> requisite_path \<Rightarrow> requisite_world" where
  "dependencies_remove w d r =
     w\<lparr>path_requestors := (path_requestors w)(r := removeAll d (path_requestors w r))\<rparr>"





section \<open>Dependant\<close>




text \<open>\<^verbatim>\<open>remove_requisites\<close>, called by the destructor, leaves the dependant's own sets alone.\<close>

definition remove_requisites :: "requisite_world \<Rightarrow> nat \<Rightarrow> requisite_world" where
  "remove_requisites w d = fold (\<lambda>r w. dependencies_remove w d r) (requisite_sets (dependants w d)) w"




fun concat_all :: "'a list option list \<Rightarrow> 'a list option" where
  "concat_all [] = Some []"
| "concat_all (None # _) = None"
| "concat_all (Some xs # rest) = map_option (\<lambda>ys. xs @ ys) (concat_all rest)"

text \<open>
  \<^verbatim>\<open>missing_requisites\<close> calls itself for every requisite and every accompanying dependant; the first
  argument bounds the depth of the calls, and \<^verbatim>\<open>None\<close> means that the bound was reached.
\<close>

fun missing_requisites :: "nat \<Rightarrow> requisite_world \<Rightarrow> nat \<Rightarrow> requisite_path list option" where
  "missing_requisites 0 w d = None"
| "missing_requisites (Suc n) w d =
     concat_all
       (map (\<lambda>r. case file_based_at w r of
               None \<Rightarrow> Some [r]
             | Some (f, active) \<Rightarrow>
                 map_option (\<lambda>ms. ms @ (if active then [] else [r])) (missing_requisites n w f))
          (requisite_sets (dependants w d))
        @ map (missing_requisites n w) (accompanying_dependants (dependants w d)))"

text \<open>
  \<^verbatim>\<open>append_requisite_dom_elements\<close> counts the elements it appends; here they are the result: the
  path and whether it is marked as missing. It stops at depth 10. \<open>visible\<close> is \<^verbatim>\<open>is_visible_requisite\<close>.
\<close>

function requisite_elements ::
  "(nat \<Rightarrow> bool) \<Rightarrow> requisite_world \<Rightarrow> nat \<Rightarrow> nat \<Rightarrow> (requisite_path \<times> bool) list" where
  "requisite_elements visible w nesting d =
     (if nesting < 10 then
        concat (map (\<lambda>r. case file_based_at w r of
               None \<Rightarrow> [(r, True)]
             | Some (f, active) \<Rightarrow>
                 if visible f then (r, False) # requisite_elements visible w (nesting + 1) f
                 else if \<not> active then [(r, True)]
                 else [])
             (requisite_sets (dependants w d)))
        @ concat (map (requisite_elements visible w (nesting + 1)) (accompanying_dependants (dependants w d)))
      else [])"
  by pat_completeness auto

termination by (relation "measure (\<lambda>(visible, w, nesting, d). 10 - nesting)") auto

declare requisite_elements.simps [simp del]

section \<open>The two registers\<close>


section \<open>Missing requisites\<close>

lemma concat_all_Some:
  "(\<exists>ys. concat_all xs = Some ys) \<longleftrightarrow> (\<forall>x \<in> set xs. x \<noteq> None)"
proof (induction xs)
  case (Cons x xs)
  then show ?case by (cases x) auto
qed simp

lemma concat_all_Nil: "concat_all xs = Some [] \<longleftrightarrow> (\<forall>x \<in> set xs. x = Some [])"
proof (induction xs)
  case (Cons x xs)
  then show ?case by (cases x) auto
qed simp

text \<open>The objects a dependant calls \<^verbatim>\<open>missing_requisites\<close> of.\<close>

definition asks :: "requisite_world \<Rightarrow> nat \<Rightarrow> nat set" where
  "asks w d = {f. \<exists>r active. r \<in> set (requisite_sets (dependants w d)) \<and> file_based_at w r = Some (f, active)}
     \<union> set (accompanying_dependants (dependants w d))"

text \<open>What one requisite contributes.\<close>

definition missing_at :: "nat \<Rightarrow> requisite_world \<Rightarrow> requisite_path \<Rightarrow> requisite_path list option" where
  "missing_at n w r =
     (case file_based_at w r of
        None \<Rightarrow> Some [r]
      | Some (f, active) \<Rightarrow>
          map_option (\<lambda>ms. ms @ (if active then [] else [r])) (missing_requisites n w f))"

lemma missing_Suc:
  "missing_requisites (Suc n) w d =
     concat_all (map (missing_at n w) (requisite_sets (dependants w d))
       @ map (missing_requisites n w) (accompanying_dependants (dependants w d)))"
  unfolding missing_requisites.simps missing_at_def [abs_def] by (rule refl)

lemma missing_at_returns:
  "missing_at n w r \<noteq> None \<longleftrightarrow>
     (\<forall>f active. file_based_at w r = Some (f, active) \<longrightarrow> missing_requisites n w f \<noteq> None)"
  by (auto simp: missing_at_def split: option.split)

lemma missing_at_Nil:
  "missing_at n w r = Some [] \<longleftrightarrow>
     (\<exists>f. file_based_at w r = Some (f, True) \<and> missing_requisites n w f = Some [])"
  by (auto simp: missing_at_def split: option.split)

lemma missing_returns_iff:
  "missing_requisites (Suc n) w d \<noteq> None \<longleftrightarrow> (\<forall>f \<in> asks w d. missing_requisites n w f \<noteq> None)"
proof -
  have "missing_requisites (Suc n) w d \<noteq> None \<longleftrightarrow>
      (\<forall>r \<in> set (requisite_sets (dependants w d)). missing_at n w r \<noteq> None)
      \<and> (\<forall>e \<in> set (accompanying_dependants (dependants w d)). missing_requisites n w e \<noteq> None)"
    using concat_all_Some [of "map (missing_at n w) (requisite_sets (dependants w d))
       @ map (missing_requisites n w) (accompanying_dependants (dependants w d))"]
    unfolding missing_Suc by (simp add: ball_Un)
  also have "\<dots> \<longleftrightarrow> (\<forall>f \<in> asks w d. missing_requisites n w f \<noteq> None)"
    unfolding missing_at_returns asks_def by blast
  finally show ?thesis .
qed

text \<open>Without a cycle the recursion ends: a rank that decreases along the requisites bounds the depth.\<close>

lemma missing_acyclic:
  assumes "\<And>d f. f \<in> asks w d \<Longrightarrow> rank f < (rank d :: nat)" "rank d < n"
  shows "missing_requisites n w d \<noteq> None"
  using assms(2)
proof (induction n arbitrary: d)
  case (Suc n)
  have "missing_requisites n w f \<noteq> None" if "f \<in> asks w d" for f
    using Suc.IH [of f] assms(1) [OF that] Suc.prems by linarith
  then show ?case unfolding missing_returns_iff by blast
qed simp

text \<open>On a cycle it never ends.\<close>

lemma missing_cycle:
  assumes "\<And>d. d \<in> D \<Longrightarrow> \<exists>f \<in> D. f \<in> asks w d" "d \<in> D"
  shows "missing_requisites n w d = None"
  using assms(2)
proof (induction n arbitrary: d)
  case (Suc n)
  then obtain f where "f \<in> D" "f \<in> asks w d" using assms(1) by blast
  then have "\<not> missing_requisites (Suc n) w d \<noteq> None"
    unfolding missing_returns_iff using Suc.IH by blast
  then show ?case by blast
qed simp

text \<open>What must be there: every requisite exists and is active, and so on for it.\<close>

inductive complete :: "requisite_world \<Rightarrow> nat \<Rightarrow> bool" for w where
  "(\<And>r. r \<in> set (requisite_sets (dependants w d)) \<Longrightarrow>
      \<exists>f. file_based_at w r = Some (f, True) \<and> complete w f) \<Longrightarrow>
   (\<And>e. e \<in> set (accompanying_dependants (dependants w d)) \<Longrightarrow> complete w e) \<Longrightarrow> complete w d"

lemma complete_iff:
  "complete w d \<longleftrightarrow>
     (\<forall>r \<in> set (requisite_sets (dependants w d)). \<exists>f. file_based_at w r = Some (f, True) \<and> complete w f)
     \<and> (\<forall>e \<in> set (accompanying_dependants (dependants w d)). complete w e)"
  by (subst complete.simps) auto

lemma missing_Nil_iff:
  "missing_requisites (Suc n) w d = Some [] \<longleftrightarrow>
     (\<forall>r \<in> set (requisite_sets (dependants w d)).
        \<exists>f. file_based_at w r = Some (f, True) \<and> missing_requisites n w f = Some [])
     \<and> (\<forall>e \<in> set (accompanying_dependants (dependants w d)). missing_requisites n w e = Some [])"
  unfolding missing_Suc concat_all_Nil missing_at_Nil [symmetric] by (simp add: ball_Un)

lemma missing_none_complete: "missing_requisites n w d = Some [] \<Longrightarrow> complete w d"
proof (induction n arbitrary: d)
  case (Suc n)
  have "\<forall>r \<in> set (requisite_sets (dependants w d)). \<exists>f. file_based_at w r = Some (f, True) \<and> complete w f"
    using Suc.prems Suc.IH unfolding missing_Nil_iff by blast
  moreover have "\<forall>e \<in> set (accompanying_dependants (dependants w d)). complete w e"
    using Suc.prems Suc.IH unfolding missing_Nil_iff by blast
  ultimately show ?case unfolding complete_iff [of w d] by blast
qed simp

lemma complete_missing_none:
  "complete w d \<Longrightarrow> missing_requisites n w d \<noteq> None \<Longrightarrow> missing_requisites n w d = Some []"
proof (induction n arbitrary: d)
  case (Suc n)
  have asked: "missing_requisites n w f \<noteq> None" if "f \<in> asks w d" for f
    using Suc.prems(2) that unfolding missing_returns_iff by blast
  show ?case
    unfolding missing_Nil_iff
  proof (intro conjI ballI)
    fix r assume r: "r \<in> set (requisite_sets (dependants w d))"
    with Suc.prems(1) obtain f where f: "file_based_at w r = Some (f, True)" "complete w f"
      unfolding complete_iff [of w d] by blast
    then have "f \<in> asks w d" using r unfolding asks_def by blast
    with f show "\<exists>f. file_based_at w r = Some (f, True) \<and> missing_requisites n w f = Some []"
      using Suc.IH asked by blast
  next
    fix e assume e: "e \<in> set (accompanying_dependants (dependants w d))"
    then have "complete w e" "e \<in> asks w d"
      using Suc.prems(1) unfolding complete_iff [of w d] by (simp_all add: asks_def)
    then show "missing_requisites n w e = Some []" using Suc.IH asked by blast
  qed
qed simp

lemma missing_iff_complete:
  "missing_requisites n w d = Some ms \<Longrightarrow> ms = [] \<longleftrightarrow> complete w d"
  using missing_none_complete [of n w d] complete_missing_none [of w d n] by auto

section \<open>Properties\<close>



lemma remove_requisites_dependants [simp]: "dependants (remove_requisites w d) = dependants w"
proof -
  have "dependants (fold (\<lambda>r w. dependencies_remove w d r) rs w) = dependants w" for rs
    by (induction rs arbitrary: w) (simp_all add: dependencies_remove_def)
  then show ?thesis by (simp add: remove_requisites_def)
qed




definition ex_requisites :: requisite_world where
  "ex_requisites = \<lparr>dependants = (\<lambda>_. \<lparr>requisite_sets = [], accompanying_dependants = []\<rparr>),
     path_requestors = (\<lambda>_. []), file_based_at = (\<lambda>r. if r = (0, ''a'') then Some (1, True)
        else if r = (0, ''b'') then Some (2, True) else None), own_path = (\<lambda>_. None)\<rparr>"


text \<open>The requisites, direct or indirect, that are not there or not active.\<close>

inductive lacks :: "requisite_world \<Rightarrow> nat \<Rightarrow> requisite_path \<Rightarrow> bool" for w where
  absent: "r \<in> set (requisite_sets (dependants w d)) \<Longrightarrow> file_based_at w r = None \<Longrightarrow> lacks w d r"
| inactive: "r \<in> set (requisite_sets (dependants w d)) \<Longrightarrow> file_based_at w r = Some (f, False) \<Longrightarrow> lacks w d r"
| indirect: "q \<in> set (requisite_sets (dependants w d)) \<Longrightarrow> file_based_at w q = Some (f, active) \<Longrightarrow> lacks w f r \<Longrightarrow> lacks w d r"
| accompanying: "e \<in> set (accompanying_dependants (dependants w d)) \<Longrightarrow> lacks w e r \<Longrightarrow> lacks w d r"

lemma concat_all_set: "concat_all xs = Some ys \<Longrightarrow> set ys = (\<Union>x \<in> set xs. set (the x)) \<and> (\<forall>x \<in> set xs. x \<noteq> None)"
proof (induction xs arbitrary: ys)
  case (Cons x xs)
  then show ?case by (cases x) auto
qed simp

lemma missing_members: "missing_requisites n w d = Some ms \<Longrightarrow> set ms = {r. lacks w d r}"
proof (induction n arbitrary: d ms)
  case (Suc n)
  let ?rs = "requisite_sets (dependants w d)" and ?es = "accompanying_dependants (dependants w d)"
  note all = concat_all_set [OF Suc.prems [unfolded missing_Suc]]
  have at: "missing_at n w r = Some (the (missing_at n w r))" if "r \<in> set ?rs" for r using all that by auto
  have of: "set (the (missing_requisites n w e)) = {r. lacks w e r}" if "e \<in> set ?es" for e
    using all that Suc.IH [of e] by force
  have below: "set (the (missing_at n w q)) = (case file_based_at w q of None \<Rightarrow> {q}
      | Some (f, active) \<Rightarrow> {r. lacks w f r} \<union> (if active then {} else {q}))" if "q \<in> set ?rs" for q
    using at [OF that] Suc.IH by (auto simp: missing_at_def split: option.splits if_splits)
  have "set ms = (\<Union>q \<in> set ?rs. set (the (missing_at n w q))) \<union> (\<Union>e \<in> set ?es. {r. lacks w e r})"
    using all of by auto
  also have "\<dots> = {r. lacks w d r}"
  proof (rule set_eqI, rule iffI)
    fix r assume "r \<in> (\<Union>q \<in> set ?rs. set (the (missing_at n w q))) \<union> (\<Union>e \<in> set ?es. {r. lacks w e r})"
    then consider q where "q \<in> set ?rs" "r \<in> set (the (missing_at n w q))" | e where "e \<in> set ?es" "lacks w e r" by blast
    then show "r \<in> {r. lacks w d r}"
    proof cases
      case 1
      then show ?thesis unfolding below [OF 1(1)]
        by (cases "file_based_at w q") (auto intro: absent inactive indirect split: prod.splits if_splits)
    qed (simp add: accompanying)
  next
    fix r assume "r \<in> {r. lacks w d r}"
    then have "lacks w d r" by simp
    then show "r \<in> (\<Union>q \<in> set ?rs. set (the (missing_at n w q))) \<union> (\<Union>e \<in> set ?es. {r. lacks w e r})"
    proof (cases rule: lacks.cases)
      case (indirect q f active)
      then have "r \<in> set (the (missing_at n w q))" unfolding below [OF indirect(1)] by simp
      then show ?thesis using indirect(1) by blast
    next
      case (accompanying e)
      then show ?thesis by blast
    next
      case absent
      then have "r \<in> set (the (missing_at n w r))" unfolding below [OF absent(1)] by simp
      then show ?thesis using absent(1) by blast
    next
      case (inactive f)
      then have "r \<in> set (the (missing_at n w r))" unfolding below [OF inactive(1)] by simp
      then show ?thesis using inactive(1) by blast
    qed
  qed
  finally show ?case .
qed simp

text \<open> C34: \<^verbatim>\<open>missing_requisites\<close> returns when the requisites have no cycle and the calls may go deep enough, and yields
  exactly the requisites, direct or indirect, that do not exist, or are not active or are to be removed; so none, exactly when
  every requisite, every requisite of a requisite and so on is there.\<close>

theorem missing_requisites_correct:
  assumes "\<And>d f. f \<in> asks w d \<Longrightarrow> rank f < (rank d :: nat)" "rank d < n"
  shows "\<exists>ms. missing_requisites n w d = Some ms \<and> set ms = {r. lacks w d r} \<and> (ms = [] \<longleftrightarrow> complete w d)"
  using missing_acyclic [of w rank d n, OF assms] missing_iff_complete missing_members by blast

definition ex_chain :: requisite_world where
  "ex_chain = ex_requisites\<lparr>dependants := (\<lambda>d. if d = 7
     then \<lparr>requisite_sets = [(0, ''a''), (0, ''c'')], accompanying_dependants = []\<rparr>
     else \<lparr>requisite_sets = [], accompanying_dependants = []\<rparr>)\<rparr>"

theorem missing_requisites_correct_witness:
  "\<exists>ms. missing_requisites 2 ex_chain 7 = Some ms \<and> set ms = {r. lacks ex_chain 7 r} \<and> ms \<noteq> []"
proof -
  have "f = 1 \<or> f = 2" if "file_based_at ex_chain r = Some (f, active)" for r f active
    using that by (simp add: ex_chain_def ex_requisites_def split: if_splits)
  moreover have "requisite_sets (dependants ex_chain d) = []" if "d \<noteq> 7" for d
    using that by (simp add: ex_chain_def)
  moreover have "accompanying_dependants (dependants ex_chain d) = []" for d
    by (simp add: ex_chain_def)
  ultimately have asks: "d = 7 \<and> (f = 1 \<or> f = 2)" if "f \<in> asks ex_chain d" for d f
    using that unfolding asks_def by fastforce
  have "(0, ''c'') \<in> set (requisite_sets (dependants ex_chain 7))" "file_based_at ex_chain (0, ''c'') = None"
    by (simp_all add: ex_chain_def ex_requisites_def)
  then have "\<not> complete ex_chain 7"
    unfolding complete_iff [of ex_chain 7] by fastforce
  moreover have "\<exists>ms. missing_requisites 2 ex_chain 7 = Some ms \<and> set ms = {r. lacks ex_chain 7 r} \<and> (ms = [] \<longleftrightarrow> complete ex_chain 7)"
    by (rule missing_requisites_correct [where rank = "\<lambda>d. if d = 7 then 1 else 0"])
      (use asks in fastforce)+
  ultimately show ?thesis by blast
qed

text \<open>On a cycle of requisites \<^verbatim>\<open>missing_requisites\<close> never returns, however deep the recursion may
  go; \<^verbatim>\<open>append_requisite_dom_elements\<close> stops at depth 10, \<^verbatim>\<open>missing_requisites\<close> does not.\<close>

theorem missing_requisites_cycle:
  assumes "f \<in> asks w d" "d \<in> asks w f"
  shows "missing_requisites n w d = None"
proof (rule missing_cycle [where D = "{d, f}"])
  show "\<exists>g \<in> {d, f}. g \<in> asks w e" if "e \<in> {d, f}" for e
    using that assms by blast
qed simp

theorem missing_requisites_cycle_witness:
  "missing_requisites 100 (ex_requisites\<lparr>dependants := (\<lambda>d.
      if d = 1 then \<lparr>requisite_sets = [(0, ''b'')], accompanying_dependants = []\<rparr>
      else if d = 2 then \<lparr>requisite_sets = [(0, ''a'')], accompanying_dependants = []\<rparr>
      else \<lparr>requisite_sets = [], accompanying_dependants = []\<rparr>)\<rparr>) 1 = None"
  by (rule missing_requisites_cycle [where f = 2]) (auto simp: asks_def ex_requisites_def)

end
