(* ===== verification/File_Based_Life.thy ===== *)
theory File_Based_Life
  imports File_Based_State
begin

text \<open>
  The life of a file based object: \<^verbatim>\<open>struct File_based\<close> (\<^verbatim>\<open>folder.h\<close>, \<^verbatim>\<open>folder_File_based.cxx\<close>) and the
  \<^verbatim>\<open>Typed_folder\<close> that holds the objects of one type (\<^verbatim>\<open>folder_Typed_folder.cxx\<close>): how an object is
  initialised, loaded, activated, replaced and removed.

  The objects are in a store, one typed folder and its subsystem are the rest of the state. What the
  classes of objects implement (\<^verbatim>\<open>on_initialize\<close>, \<^verbatim>\<open>can_be_removed_now\<close>, ...) is a record of functions.
  Announcements to dependants and events are an output, in their order; the theory Requisites says who
  receives them. Log output, included files, and the error a broken file leaves are left out, as is the list
  of missing requisites that is logged when an object becomes incomplete.
\<close>

section \<open>State\<close>

datatype remove_flag = Rm_standard | Rm_base_file_too | Rm_temporary

datatype base_file_event = Bfevt_added | Bfevt_modified | Bfevt_removed

datatype configuration_origin = Confdir_none | Confdir_local | Confdir_cache

text \<open>The fields of \<^verbatim>\<open>File_based\<close>; \<open>fb_base_file_exists\<close> is the state of the file system.\<close>

record fb_object =
  fb_name :: string
  fb_state :: file_based_state
  fb_in_folder :: bool
  fb_is_root_folder :: bool
  fb_to_be_removed :: bool
  fb_remove_flag :: remove_flag
  fb_replacement :: "nat option"
  fb_origin :: configuration_origin
  fb_has_base_file :: bool
  fb_base_file_exists :: bool
  fb_file_is_removed :: bool
  fb_base_file_error :: bool
  fb_remove_error :: bool
  fb_source :: string

datatype notice =
  Requisite_loaded nat
| Requisite_to_be_removed nat
| Requisite_removed nat
| Activated nat
| Replaced nat
| Base_file nat base_file_event
| Folder_is_empty

record fb_world =
  objects :: "nat \<Rightarrow> fb_object"
  fb_subsystem_state :: subsystem_state
  file_based_version :: nat
  folder_path_of :: string
  file_based_map :: "(string \<times> nat) list"
  fb_candidates :: "string list"
  notices :: "notice list"

text \<open>An operation that may throw, with the state it leaves in either case.\<close>

type_synonym 'a act = "(fb_world, 'a) operation"

record fb_hooks =
  on_initialize :: "nat \<Rightarrow> bool act"
  on_load :: "nat \<Rightarrow> bool act"
  on_activate :: "nat \<Rightarrow> bool act"
  on_prepare_to_remove_hook :: "nat \<Rightarrow> unit act"
  on_remove_now :: "nat \<Rightarrow> bool act"
  on_replace_now :: "nat \<Rightarrow> nat option act"
  can_be_removed_now :: "nat \<Rightarrow> fb_world \<Rightarrow> bool"
  prepare_to_replace :: "nat \<Rightarrow> unit act"
  can_be_replaced_now :: "nat \<Rightarrow> fb_world \<Rightarrow> bool"
  unlink_base_file :: "nat \<Rightarrow> fb_world \<Rightarrow> bool"

definition modify_object :: "nat \<Rightarrow> (fb_object \<Rightarrow> fb_object) \<Rightarrow> unit act" where
  "modify_object i f w = (Inr (), w\<lparr>objects := (objects w)(i := f (objects w i))\<rparr>)"

definition notify :: "notice \<Rightarrow> unit act" where
  "notify n w = (Inr (), w\<lparr>notices := notices w @ [n]\<rparr>)"

definition state_of :: "fb_world \<Rightarrow> nat \<Rightarrow> file_based_state" where
  "state_of w i = fb_state (objects w i)"

section \<open>Life-cycle\<close>

text \<open>The transitions that the assertion of \<^verbatim>\<open>set_file_based_state\<close> allows.\<close>

definition allowed_transition :: "file_based_state \<Rightarrow> file_based_state \<Rightarrow> bool" where
  "allowed_transition old new =
     (old = S_not_initialized \<and> new = S_undefined \<or> old = S_active \<and> new = S_incomplete \<or> old < new)"

definition set_file_based_state :: "nat \<Rightarrow> file_based_state \<Rightarrow> unit act" where
  "set_file_based_state i new w =
     (if state_of w i = new then (Inr (), w)
      else if \<not> allowed_transition (state_of w i) new then (Inl (Assertion ''set_file_based_state''), w)
      else (Inr (), w\<lparr>objects := (objects w)(i := (objects w i)\<lparr>fb_state := new\<rparr>),
                      file_based_version := file_based_version w + 1\<rparr>))"

definition fb_close :: "nat \<Rightarrow> unit act" where
  "fb_close i = modify_object i (\<lambda>x. x\<lparr>fb_state := S_closed\<rparr>)"

definition fb_initialize :: "fb_hooks \<Rightarrow> nat \<Rightarrow> bool act" where
  "fb_initialize h i w =
     (if state_of w i = S_not_initialized \<and> Subsys_initialized \<le> fb_subsystem_state w then
        bind_s (on_initialize h i) (\<lambda>ok.
          if ok then bind_s (set_file_based_state i S_initialized) (\<lambda>_. ret True) else ret False) w
      else ret (S_initialized \<le> state_of w i) w)"

definition fb_load :: "fb_hooks \<Rightarrow> nat \<Rightarrow> bool act" where
  "fb_load h i w =
     (if \<not> fb_in_folder (objects w i) \<and> \<not> fb_is_root_folder (objects w i)
      then throw (Xc ''NOT-IN-FOLDER'') w
      else if S_loaded \<le> state_of w i then ret True w
      else bind_s (fb_initialize h i) (\<lambda>_ w1.
        if state_of w1 i = S_initialized \<and> Subsys_loaded \<le> fb_subsystem_state w1 then
          bind_s (on_load h i) (\<lambda>ok.
            if ok then
              bind_s (set_file_based_state i S_loaded) (\<lambda>_.
                bind_s (notify (Requisite_loaded i)) (\<lambda>_. ret True))
            else ret False) w1
        else ret False w1) w)"

definition fb_activate :: "fb_hooks \<Rightarrow> nat \<Rightarrow> bool act" where
  "fb_activate h i w =
     (if S_active \<le> state_of w i then ret True w
      else bind_s (fb_load h i) (\<lambda>_ w1.
        if (state_of w1 i = S_loaded \<or> state_of w1 i = S_incomplete)
           \<and> Subsys_active \<le> fb_subsystem_state w1 then
          bind_s (on_activate h i) (\<lambda>ok.
            if ok then
              bind_s (set_file_based_state i S_active) (\<lambda>_.
                bind_s (notify (Activated i)) (\<lambda>_. ret True))
            else ret False) w1
        else ret False w1) w)"

definition assert_is_initialized :: "nat \<Rightarrow> unit act" where
  "assert_is_initialized i w =
     (if state_of w i < S_initialized \<or> S_active < state_of w i then throw (Xc ''SCHEDULER-153'') w
      else ret () w)"

definition assert_is_loaded :: "nat \<Rightarrow> unit act" where
  "assert_is_loaded i w =
     (if state_of w i < S_loaded \<or> S_active < state_of w i then throw (Xc ''SCHEDULER-153'') w
      else ret () w)"

definition assert_is_active :: "nat \<Rightarrow> unit act" where
  "assert_is_active i w = (if state_of w i \<noteq> S_active then throw (Xc ''SCHEDULER-153'') w else ret () w)"

definition assert_is_not_initialized :: "nat \<Rightarrow> unit act" where
  "assert_is_not_initialized i w =
     (if S_initialized \<le> state_of w i then throw (Xc ''SCHEDULER-148'') w else ret () w)"

section \<open>The typed folder\<close>

definition file_based_or_null :: "fb_world \<Rightarrow> string \<Rightarrow> nat option" where
  "file_based_or_null w name = map_of (file_based_map w) name"

definition typed_folder_file_based :: "string \<Rightarrow> nat act" where
  "typed_folder_file_based name w =
     (case file_based_or_null w name of None \<Rightarrow> throw (Xc ''SCHEDULER-430'') w | Some i \<Rightarrow> ret i w)"

definition fb_path :: "fb_world \<Rightarrow> nat \<Rightarrow> string" where
  "fb_path w i = folder_path_of w @ ''/'' @ fb_name (objects w i)"

definition add_file_based :: "nat \<Rightarrow> unit act" where
  "add_file_based i w =
     (let name = fb_name (objects w i) in
      if fb_in_folder (objects w i) then throw (Assertion ''add_file_based'') w
      else if name = [] then throw (Xc ''SCHEDULER-432'') w
      else if file_based_or_null w name \<noteq> None then throw (Xc ''SCHEDULER-160'') w
      else bind_s (modify_object i (\<lambda>x. x\<lparr>fb_in_folder := True\<rparr>))
             (\<lambda>_ w. ret () (w\<lparr>file_based_map := AList.update name i (file_based_map w)\<rparr>)) w)"

text \<open>\<^verbatim>\<open>remove_file_based\<close> takes the object's path, not its name, out of the set of candidates.\<close>

definition remove_file_based :: "fb_hooks \<Rightarrow> nat \<Rightarrow> unit act" where
  "remove_file_based h i w =
     (if \<not> fb_in_folder (objects w i) then throw (Assertion ''remove_file_based'') w
      else if \<not> can_be_removed_now h i w then throw (Assertion ''remove_file_based'') w
      else let w1 = w\<lparr>fb_candidates := removeAll (fb_path w i) (fb_candidates w)\<rparr> in
        if file_based_or_null w1 (fb_name (objects w i)) = None
        then throw (Assertion ''remove_file_based'') w1
        else bind_s (fb_close i) (\<lambda>_.
          bind_s (modify_object i (\<lambda>x. x\<lparr>fb_in_folder := False\<rparr>)) (\<lambda>_ w2.
            let w3 = w2\<lparr>file_based_map := AList.delete (fb_name (objects w i)) (file_based_map w2)\<rparr>
            in if file_based_map w3 = [] then notify Folder_is_empty w3 else ret () w3)) w1)"

definition replace_file_based :: "nat \<Rightarrow> nat act" where
  "replace_file_based old w =
     (case fb_replacement (objects w old) of
        None \<Rightarrow> throw (Assertion ''replace_file_based'') w
      | Some new \<Rightarrow>
          let name = fb_name (objects w new) in
          if fb_name (objects w old) \<noteq> name then throw (Xc ''replace_file_based'') w
          else if file_based_or_null w name = None then throw (Xc ''SCHEDULER-430'') w
          else if file_based_or_null w name \<noteq> Some old then throw (Xc ''replace_file_based'') w
          else if fb_in_folder (objects w new) then throw (Xc ''replace_file_based'') w
          else bind_s (modify_object old (\<lambda>x. x\<lparr>fb_in_folder := False\<rparr>)) (\<lambda>_.
                 bind_s (modify_object new (\<lambda>x. x\<lparr>fb_in_folder := True\<rparr>)) (\<lambda>_ w1.
                   ret new (w1\<lparr>fb_candidates := removeAll (fb_path w old) (fb_candidates w1),
                               file_based_map := AList.update name new (file_based_map w1)\<rparr>))) w)"

definition add_to_candidates :: "nat \<Rightarrow> unit act" where
  "add_to_candidates i w =
     (Inr (), w\<lparr>fb_candidates := List.insert (fb_name (objects w i)) (fb_candidates w)\<rparr>)"

section \<open>Removing and replacing\<close>

definition set_replacement :: "nat \<Rightarrow> nat option \<Rightarrow> unit act" where
  "set_replacement i replacement w =
     (if \<not> fb_in_folder (objects w i) then throw (Xc ''SCHEDULER-433'') w
      else if (case replacement of
                 None \<Rightarrow> False
               | Some r \<Rightarrow> fb_origin (objects w i) = Confdir_cache
                           \<and> fb_origin (objects w r) \<noteq> Confdir_cache
                           \<and> fb_base_file_exists (objects w i))
      then throw (Xc ''SCHEDULER-460'') w
      else modify_object i (\<lambda>x.
             if replacement = None then x\<lparr>fb_replacement := None\<rparr>
             else x\<lparr>fb_replacement := replacement, fb_remove_flag := Rm_standard, fb_to_be_removed := False\<rparr>) w)"

definition set_to_be_removed :: "nat \<Rightarrow> bool \<Rightarrow> remove_flag \<Rightarrow> unit act" where
  "set_to_be_removed i b flag =
     bind_s (modify_object i (\<lambda>x. x\<lparr>fb_remove_flag := flag, fb_to_be_removed := b\<rparr>))
       (\<lambda>_. if b then set_replacement i None else ret ())"

definition fb_prepare_to_remove :: "fb_hooks \<Rightarrow> nat \<Rightarrow> remove_flag \<Rightarrow> unit act" where
  "fb_prepare_to_remove h i flag w =
     (if \<not> fb_in_folder (objects w i) then throw (Xc ''SCHEDULER-433'') w
      else bind_s (set_to_be_removed i True flag) (\<lambda>_.
        bind_s (on_prepare_to_remove_hook h i) (\<lambda>_. notify (Requisite_to_be_removed i))) w)"

definition fb_remove_now :: "fb_hooks \<Rightarrow> nat \<Rightarrow> bool act" where
  "fb_remove_now h i =
     bind_s (on_remove_now h i) (\<lambda>removed.
       if removed then
         bind_s (remove_file_based h i) (\<lambda>_. bind_s (notify (Requisite_removed i)) (\<lambda>_. ret True))
       else ret False)"

text \<open>\<^verbatim>\<open>unlink_base_file\<close> tells whether removing the file succeeds.\<close>

definition remove_base_file :: "fb_hooks \<Rightarrow> nat \<Rightarrow> unit act" where
  "remove_base_file h i w =
     (if \<not> fb_has_base_file (objects w i) then throw (Assertion ''remove_base_file'') w
      else if unlink_base_file h i w then
        bind_s (modify_object i (\<lambda>x. x\<lparr>fb_base_file_exists := False\<rparr>)) (\<lambda>_.
          bind_s (notify (Base_file i Bfevt_removed)) (\<lambda>_.
            modify_object i (\<lambda>x. x\<lparr>fb_file_is_removed := True\<rparr>))) w
      else if fb_base_file_exists (objects w i) then throw (Xc ''unlink'') w
      else modify_object i (\<lambda>x. x\<lparr>fb_file_is_removed := True\<rparr>) w)"

definition fb_remove :: "fb_hooks \<Rightarrow> nat \<Rightarrow> remove_flag \<Rightarrow> bool act" where
  "fb_remove h i flag w =
     (if \<not> fb_in_folder (objects w i) then throw (Xc ''SCHEDULER-433'') w
      else bind_s
        (if flag = Rm_base_file_too \<and> fb_has_base_file (objects w i) then remove_base_file h i else ret ())
        (\<lambda>_. bind_s (fb_prepare_to_remove h i flag) (\<lambda>_ w1.
          if can_be_removed_now h i w1 then
            bind_s (modify_object i (\<lambda>x. x\<lparr>fb_remove_error := False\<rparr>)) (\<lambda>_. fb_remove_now h i) w1
          else bind_s (modify_object i (\<lambda>x. x\<lparr>fb_remove_error := True\<rparr>)) (\<lambda>_. ret False) w1)) w)"

text \<open>The defaults of \<^verbatim>\<open>prepare_to_replace\<close> and \<^verbatim>\<open>can_be_replaced_now\<close>.\<close>

definition default_prepare_to_replace :: "fb_hooks \<Rightarrow> nat \<Rightarrow> unit act" where
  "default_prepare_to_replace h i w =
     (case fb_replacement (objects w i) of
        None \<Rightarrow> throw (Assertion ''prepare_to_replace'') w
      | Some r \<Rightarrow>
          bind_s (fb_prepare_to_remove h i Rm_temporary) (\<lambda>_.
            modify_object i (\<lambda>x. x\<lparr>fb_replacement := Some r\<rparr>)) w)"

definition default_can_be_replaced_now :: "fb_hooks \<Rightarrow> nat \<Rightarrow> fb_world \<Rightarrow> bool" where
  "default_can_be_replaced_now h i w =
     (case fb_replacement (objects w i) of
        None \<Rightarrow> False
      | Some r \<Rightarrow> state_of w r = S_initialized \<and> can_be_removed_now h i w)"

text \<open>\<^verbatim>\<open>File_based::on_replace_now\<close>, the default: the new object takes the place of the old one.\<close>

definition default_on_replace_now :: "fb_hooks \<Rightarrow> nat \<Rightarrow> nat option act" where
  "default_on_replace_now h i w =
     (case fb_replacement (objects w i) of
        None \<Rightarrow> throw (Assertion ''on_replace_now'') w
      | Some r \<Rightarrow>
          if \<not> can_be_replaced_now h i w then throw (Assertion ''on_replace_now'') w
          else bind_s (remove_file_based h i) (\<lambda>_.
                 bind_s (add_file_based r) (\<lambda>_. ret (Some r))) w)"

text \<open>
  \<^verbatim>\<open>replace_now\<close>. A lock or a process class is not exchanged but takes over the values: then the hook
  returns the object itself.
\<close>

definition fb_replace_now :: "fb_hooks \<Rightarrow> nat \<Rightarrow> nat option act" where
  "fb_replace_now h i w =
     (case fb_replacement (objects w i) of
        None \<Rightarrow> throw (Assertion ''replace_now'') w
      | Some r \<Rightarrow>
          bind_s (on_replace_now h i) (\<lambda>new.
            case new of
              None \<Rightarrow> ret None
            | Some n \<Rightarrow>
                bind_s
                  (if n = i then
                     bind_s (\<lambda>w1. modify_object i (\<lambda>x. x\<lparr>fb_has_base_file := fb_has_base_file (objects w r),
                         fb_source := fb_source (objects w1 r), fb_base_file_error := False\<rparr>) w1)
                       (\<lambda>_ w1. if state_of w1 i = S_undefined
                               then set_file_based_state i S_not_initialized w1 else ret () w1)
                   else ret ())
                  (\<lambda>_. bind_s (notify (Replaced n)) (\<lambda>_.
                     bind_s (fb_activate h n) (\<lambda>_. ret (Some n))))) w)"

definition fb_replace_with :: "fb_hooks \<Rightarrow> nat \<Rightarrow> nat \<Rightarrow> bool act" where
  "fb_replace_with h i r =
     bind_s (set_replacement i (Some r)) (\<lambda>_.
       bind_s (prepare_to_replace h i) (\<lambda>_ w1.
         if can_be_replaced_now h i w1
         then bind_s (fb_replace_now h i) (\<lambda>new. ret (new \<noteq> None)) w1
         else ret False w1))"

text \<open>\<^verbatim>\<open>check_for_replacing_or_removing\<close> catches and logs every exception.\<close>

definition check_candidate :: "fb_hooks \<Rightarrow> nat \<Rightarrow> bool \<Rightarrow> unit act" where
  "check_candidate h i act_now w =
     (if \<not> fb_in_folder (objects w i) then ret () w
      else case fb_replacement (objects w i) of
        Some r \<Rightarrow>
          bind_s
            (if state_of w r = S_initialized then ret True
             else bind_s (fb_initialize h r) (\<lambda>ok.
               if ok then bind_s (prepare_to_replace h i) (\<lambda>_. ret True) else ret False))
            (\<lambda>ok w1.
               if ok \<and> can_be_replaced_now h i w1 then
                 bind_s (if act_now then fb_replace_now h i else ret None) (\<lambda>new.
                   if new = None then add_to_candidates i else ret ()) w1
               else ret () w1) w
      | None \<Rightarrow>
          if fb_to_be_removed (objects w i) \<and> can_be_removed_now h i w then
            bind_s (if act_now then fb_remove_now h i else ret False) (\<lambda>removed.
              if removed then ret () else add_to_candidates i) w
          else ret () w)"

definition fb_check_for_replacing_or_removing :: "fb_hooks \<Rightarrow> nat \<Rightarrow> bool \<Rightarrow> fb_world \<Rightarrow> fb_world" where
  "fb_check_for_replacing_or_removing h i act_now w = snd (check_candidate h i act_now w)"

definition fb_on_requisite_loaded :: "fb_hooks \<Rightarrow> nat \<Rightarrow> bool act" where
  "fb_on_requisite_loaded h i w =
     (let w1 = (if fb_in_folder (objects w i) then fb_check_for_replacing_or_removing h i False w else w)
      in if fb_in_folder (objects w1 i) then fb_activate h i w1 else ret False w1)"

fun handle_candidates :: "fb_hooks \<Rightarrow> string list \<Rightarrow> unit act" where
  "handle_candidates h [] w = ret () w"
| "handle_candidates h (name # names) w =
     bind_s
       (\<lambda>w. case file_based_or_null w name of
          None \<Rightarrow> ret () w
        | Some i \<Rightarrow>
            if fb_replacement (objects w i) \<noteq> None \<and> can_be_replaced_now h i w
            then bind_s (fb_replace_now h i) (\<lambda>_. ret ()) w
            else if fb_to_be_removed (objects w i) \<and> can_be_removed_now h i w
            then bind_s (fb_remove_now h i) (\<lambda>_. ret ()) w
            else ret () w)
       (\<lambda>_. handle_candidates h names) w"

definition handle_replace_or_remove_candidates :: "fb_hooks \<Rightarrow> unit act" where
  "handle_replace_or_remove_candidates h w =
     handle_candidates h (fb_candidates w) (w\<lparr>fb_candidates := []\<rparr>)"

text \<open>
  A class that overrides none of the three functions for replacing; \<open>h\<close> has its other functions.
\<close>

definition with_defaults :: "fb_hooks \<Rightarrow> fb_hooks" where
  "with_defaults h = h\<lparr>prepare_to_replace := default_prepare_to_replace h,
     can_be_replaced_now := default_can_be_replaced_now h,
     on_replace_now := (\<lambda>i. default_on_replace_now (h\<lparr>can_be_replaced_now := default_can_be_replaced_now h\<rparr>) i)\<rparr>"

text \<open>
  The class of locks (\<^verbatim>\<open>lock.cxx\<close>): it is always ready, it is removed or replaced when nobody holds it,
  and it takes over the values of its replacement instead of being exchanged. \<open>held\<close> tells whether the lock
  has holders.
\<close>

definition lock_hooks :: "(nat \<Rightarrow> bool) \<Rightarrow> (nat \<Rightarrow> fb_world \<Rightarrow> bool) \<Rightarrow> fb_hooks" where
  "lock_hooks held unlink = \<lparr>on_initialize = (\<lambda>i. ret True), on_load = (\<lambda>i. ret True),
     on_activate = (\<lambda>i. ret True), on_prepare_to_remove_hook = (\<lambda>i. ret ()),
     on_remove_now = (\<lambda>i. ret True),
     on_replace_now = (\<lambda>i. bind_s (set_replacement i None) (\<lambda>_. ret (Some i))),
     can_be_removed_now = (\<lambda>i w. fb_to_be_removed (objects w i) \<and> \<not> held i),
     prepare_to_replace = (\<lambda>i w. if fb_replacement (objects w i) = None
        then throw (Assertion ''prepare_to_replace'') w else ret () w),
     can_be_replaced_now = (\<lambda>i w. case fb_replacement (objects w i) of
        None \<Rightarrow> False | Some r \<Rightarrow> state_of w r = S_initialized \<and> \<not> held i),
     unlink_base_file = unlink\<rparr>"

section \<open>The contract of the classes\<close>

text \<open>
  What \<^verbatim>\<open>on_initialize\<close>, \<^verbatim>\<open>on_load\<close> and \<^verbatim>\<open>on_activate\<close> of a class must keep for the life-cycle to
  work: the state of the object and its place belong to \<^verbatim>\<open>File_based\<close>. Only \<^verbatim>\<open>on_activate\<close> may make a loaded
  object incomplete, and then it must not report success.
\<close>

definition keeps_place :: "nat \<Rightarrow> fb_world \<Rightarrow> fb_world \<Rightarrow> bool" where
  "keeps_place i w w' =
     (fb_subsystem_state w' = fb_subsystem_state w \<and> fb_in_folder (objects w' i) = fb_in_folder (objects w i)
      \<and> fb_is_root_folder (objects w' i) = fb_is_root_folder (objects w i))"

lemma keeps_place_refl [simp]: "keeps_place i w w"
  by (simp add: keeps_place_def)







section \<open>The typed folder and its objects\<close>

text \<open>The map of the folder names exactly the objects that are in it.\<close>

definition folder_ok :: "fb_world \<Rightarrow> bool" where
  "folder_ok w = (distinct (keys (file_based_map w))
     \<and> (\<forall>name i. map_of (file_based_map w) name = Some i \<longleftrightarrow>
          fb_in_folder (objects w i) \<and> fb_name (objects w i) = name \<and> name \<noteq> []))"

lemma add_file_based_ok:
  assumes "folder_ok w" "add_file_based i w = (Inr (), w')"
  shows "folder_ok w' \<and> file_based_or_null w' (fb_name (objects w i)) = Some i"
  using assms
  by (auto simp: folder_ok_def add_file_based_def file_based_or_null_def modify_object_def bind_s_def
      ret_def throw_def Let_def assoc_simps split: if_splits)

lemma remove_file_based_effect:
  assumes "remove_file_based h i w = (Inr (), w')"
  shows "file_based_map w' = AList.delete (fb_name (objects w i)) (file_based_map w)"
    and "fb_candidates w' = removeAll (fb_path w i) (fb_candidates w)"
    and "objects w' = (objects w)(i := (objects w i)\<lparr>fb_state := S_closed, fb_in_folder := False\<rparr>)"
    and "fb_in_folder (objects w i)" "file_based_or_null w (fb_name (objects w i)) \<noteq> None"
    and "folder_path_of w' = folder_path_of w"
  using assms
  by (auto simp: remove_file_based_def file_based_or_null_def fb_close_def modify_object_def bind_s_def
      ret_def throw_def notify_def Let_def fun_upd_def split: if_splits)

lemma folder_ok_unique:
  "folder_ok w \<Longrightarrow> fb_in_folder (objects w i) \<Longrightarrow> fb_in_folder (objects w j) \<Longrightarrow>
   fb_name (objects w i) = fb_name (objects w j) \<Longrightarrow> fb_name (objects w i) \<noteq> [] \<Longrightarrow> i = j"
  unfolding folder_ok_def by (metis option.inject)

lemma remove_file_based_ok:
  assumes "folder_ok w" "remove_file_based h i w = (Inr (), w')"
  shows "folder_ok w' \<and> file_based_or_null w' (fb_name (objects w i)) = None"
proof -
  note eff = remove_file_based_effect(1,3,4) [OF assms(2)]
  let ?nm = "fb_name (objects w i)"
  have map': "map_of (file_based_map w') = (map_of (file_based_map w))(?nm := None)"
    by (simp add: eff(1) fun_eq_iff assoc_simps)
  have iff: "map_of (file_based_map w) name = Some j \<longleftrightarrow>
      fb_in_folder (objects w j) \<and> fb_name (objects w j) = name \<and> name \<noteq> []" for name j
    using assms(1) unfolding folder_ok_def by blast
  have "map_of (file_based_map w') name = Some j \<longleftrightarrow>
      fb_in_folder (objects w' j) \<and> fb_name (objects w' j) = name \<and> name \<noteq> []" for name j
  proof (cases "j = i")
    case True
    then show ?thesis using iff [of name i] by (auto simp: map' eff(2))
  next
    case False
    then show ?thesis
      using iff [of name j] folder_ok_unique [OF assms(1), of j i] eff(3) by (auto simp: map' eff(2))
  qed
  moreover have "distinct (keys (file_based_map w'))"
    using assms(1) by (simp add: folder_ok_def eff(1) assoc_simps)
  ultimately show ?thesis
    unfolding folder_ok_def file_based_or_null_def by (simp add: map')
qed

section \<open>Properties\<close>


definition ex_object :: "string \<Rightarrow> fb_object" where
  "ex_object name = \<lparr>fb_name = name, fb_state = S_not_initialized, fb_in_folder = True,
     fb_is_root_folder = False, fb_to_be_removed = False, fb_remove_flag = Rm_standard, fb_replacement = None,
     fb_origin = Confdir_local, fb_has_base_file = True, fb_base_file_exists = True,
     fb_file_is_removed = False, fb_base_file_error = False, fb_remove_error = False, fb_source = []\<rparr>"

text \<open>Object 1 is in the folder, object 2 is a new version of it.\<close>

definition ex_folder :: fb_world where
  "ex_folder = \<lparr>objects = (\<lambda>i. if i = 1 then ex_object ''a''
       else (ex_object ''a'')\<lparr>fb_in_folder := False, fb_state := S_initialized\<rparr>),
     fb_subsystem_state = Subsys_active, file_based_version = 0, folder_path_of = ''/f'',
     file_based_map = [(''a'', 1)], fb_candidates = [''a''], notices = []\<rparr>"

definition ex_lock_hooks :: fb_hooks where
  "ex_lock_hooks = lock_hooks (\<lambda>_. False) (\<lambda>_ _. True)"


text \<open>An object is removed from its folder only when its class allows it; it is closed then and no
  longer found under its name, all other names still lead to their objects, and nothing else in the
  folder changes. Adding it again under its name gives back the same folder.\<close>

theorem remove_from_folder:
  assumes "folder_ok w" "remove_file_based h i w = (Inr (), w')"
  shows "can_be_removed_now h i w \<and> folder_ok w' \<and> state_of w' i = S_closed
    \<and> file_based_or_null w' (fb_name (objects w i)) = None
    \<and> (\<forall>name. name \<noteq> fb_name (objects w i) \<longrightarrow> file_based_or_null w' name = file_based_or_null w name)
    \<and> (fst (add_file_based i w') = Inr ()
       \<and> file_based_or_null (snd (add_file_based i w')) = file_based_or_null w)"
proof -
  note eff = remove_file_based_effect [OF assms(2)]
  have allowed: "can_be_removed_now h i w"
    using assms(2) by (auto simp: remove_file_based_def throw_def split: if_splits)
  have found: "file_based_or_null w (fb_name (objects w i)) = Some i" "fb_name (objects w i) \<noteq> []"
    using assms(1) eff(4,5) by (auto simp: folder_ok_def file_based_or_null_def)
  have "file_based_or_null w' = (file_based_or_null w)(fb_name (objects w i) := None)"
    by (simp add: file_based_or_null_def eff(1) fun_eq_iff assoc_simps)
  moreover have "fst (add_file_based i w') = Inr ()
      \<and> file_based_or_null (snd (add_file_based i w'))
        = (file_based_or_null w')(fb_name (objects w i) \<mapsto> i)"
    using found(2) calculation eff(3)
    by (simp add: add_file_based_def modify_object_def bind_s_def ret_def Let_def file_based_or_null_def
        fun_eq_iff assoc_simps)
  ultimately show ?thesis
    using allowed remove_file_based_ok [OF assms] eff(3) found
    by (auto simp: state_of_def)
qed

lemma remove_file_based_succeeds:
  "fb_in_folder (objects w i) \<Longrightarrow> can_be_removed_now h i w \<Longrightarrow>
   file_based_or_null w (fb_name (objects w i)) \<noteq> None \<Longrightarrow> fst (remove_file_based h i w) = Inr ()"
  by (auto simp: remove_file_based_def fb_close_def modify_object_def bind_s_def ret_def notify_def
      file_based_or_null_def Let_def)

text \<open>The lock of the example, marked for removal.\<close>

definition ex_marked :: fb_world where
  "ex_marked = snd (fb_prepare_to_remove ex_lock_hooks 1 Rm_standard ex_folder)"

lemma ex_folder_ok: "folder_ok ex_marked"
  by (auto simp: ex_marked_def ex_lock_hooks_def lock_hooks_def fb_prepare_to_remove_def set_to_be_removed_def
      set_replacement_def modify_object_def bind_s_def ret_def throw_def notify_def folder_ok_def ex_folder_def
      ex_object_def keys_def)

lemma ex_remove: "fst (remove_file_based ex_lock_hooks 1 ex_marked) = Inr ()"
  by (simp add: ex_marked_def ex_lock_hooks_def lock_hooks_def fb_prepare_to_remove_def set_to_be_removed_def
      set_replacement_def modify_object_def bind_s_def ret_def throw_def notify_def remove_file_based_def
      fb_close_def file_based_or_null_def ex_folder_def ex_object_def Let_def)

theorem remove_from_folder_witness:
  "file_based_or_null (snd (remove_file_based ex_lock_hooks 1 ex_marked)) ''a'' = None
   \<and> state_of (snd (remove_file_based ex_lock_hooks 1 ex_marked)) 1 = S_closed"
proof -
  obtain w' where run: "remove_file_based ex_lock_hooks 1 ex_marked = (Inr (), w')"
    using ex_remove by (cases "remove_file_based ex_lock_hooks 1 ex_marked") auto
  have "fb_name (objects ex_marked 1) = ''a''"
    by (simp add: ex_marked_def ex_lock_hooks_def lock_hooks_def fb_prepare_to_remove_def set_to_be_removed_def
      set_replacement_def modify_object_def bind_s_def ret_def notify_def ex_folder_def ex_object_def)
  with remove_from_folder [OF ex_folder_ok run] run show ?thesis by simp
qed

text \<open>An object that is removed from its folder stays in the folder's set of candidates for replacing
  or removing: its name was put in, but its path is taken out, and a path is never a name.\<close>

theorem removed_object_stays_candidate:
  assumes "remove_file_based h i w = (Inr (), w')" "CHR ''/'' \<notin> set (fb_name (objects w i))"
  shows "fb_name (objects w i) \<in> set (fb_candidates w') \<longleftrightarrow> fb_name (objects w i) \<in> set (fb_candidates w)"
proof -
  have "fb_path w i \<noteq> fb_name (objects w i)"
    using assms(2) by (metis Un_iff fb_path_def list.set_intros(1) set_append)
  then show ?thesis using remove_file_based_effect(2) [OF assms(1)] by auto
qed

theorem removed_object_stays_candidate_witness:
  "''a'' \<in> set (fb_candidates (snd (remove_file_based ex_lock_hooks 1 ex_marked)))"
proof -
  obtain w' where run: "remove_file_based ex_lock_hooks 1 ex_marked = (Inr (), w')"
    using ex_remove by (cases "remove_file_based ex_lock_hooks 1 ex_marked") auto
  have "fb_name (objects ex_marked 1) = ''a''" "fb_candidates ex_marked = [''a'']"
    by (simp_all add: ex_marked_def ex_lock_hooks_def lock_hooks_def fb_prepare_to_remove_def set_to_be_removed_def
      set_replacement_def modify_object_def bind_s_def ret_def notify_def ex_folder_def ex_object_def)
  with removed_object_stays_candidate [OF run] run show ?thesis by simp
qed

text \<open>Replacing by default puts the initialised new object in the place of the old one: it is found
  under the name, the old object is closed and out of the folder, and no other name is touched.\<close>

theorem default_replacement:
  assumes "folder_ok w" "fb_replacement (objects w i) = Some r" "r \<noteq> i"
    and "fb_name (objects w r) = fb_name (objects w i)" "\<not> fb_in_folder (objects w r)"
    and "fb_in_folder (objects w i)" "fb_name (objects w i) \<noteq> []"
    and "can_be_replaced_now h i w" "can_be_removed_now h i w"
  shows "\<exists>w'. default_on_replace_now h i w = (Inr (Some r), w') \<and> folder_ok w'
    \<and> file_based_or_null w' = (file_based_or_null w)(fb_name (objects w i) \<mapsto> r)
    \<and> state_of w' i = S_closed \<and> \<not> fb_in_folder (objects w' i) \<and> state_of w' r = state_of w r"
proof -
  have found: "file_based_or_null w (fb_name (objects w i)) = Some i"
    using assms(1,6,7) by (auto simp: folder_ok_def file_based_or_null_def)
  obtain w1 where w1: "remove_file_based h i w = (Inr (), w1)"
    using remove_file_based_succeeds [OF assms(6,9)] found by (cases "remove_file_based h i w") auto
  note eff = remove_file_based_effect [OF w1]
  obtain w2 where w2: "add_file_based r w1 = (Inr (), w2)"
      "file_based_map w2 = AList.update (fb_name (objects w i)) r (file_based_map w1)"
      "objects w2 = (objects w1)(r := (objects w1 r)\<lparr>fb_in_folder := True\<rparr>)"
    using assms(3,4,5,7) eff(1,3) remove_file_based_ok [OF assms(1) w1]
    by (auto simp: add_file_based_def modify_object_def bind_s_def ret_def Let_def file_based_or_null_def)
  have "default_on_replace_now h i w = (Inr (Some r), w2)"
    using assms(2,8) w1 w2(1) by (simp add: default_on_replace_now_def bind_s_def ret_def)
  moreover have "folder_ok w2"
    using add_file_based_ok [OF _ w2(1)] remove_file_based_ok [OF assms(1) w1] by blast
  moreover have "file_based_or_null w2 = (file_based_or_null w)(fb_name (objects w i) \<mapsto> r)"
    by (simp add: file_based_or_null_def w2(2) eff(1) fun_eq_iff assoc_simps)
  ultimately show ?thesis
    using w2(3) eff(3) assms(3) by (auto simp: state_of_def)
qed

definition ex_replace_hooks :: fb_hooks where
  "ex_replace_hooks = ex_lock_hooks\<lparr>can_be_removed_now := (\<lambda>_ _. True), can_be_replaced_now := (\<lambda>_ _. True)\<rparr>"

definition ex_replacing :: fb_world where
  "ex_replacing = ex_folder\<lparr>objects := (objects ex_folder)(1 := (ex_object ''a'')\<lparr>fb_replacement := Some 2\<rparr>)\<rparr>"

lemma ex_replacing_objects:
  "fb_name (objects ex_replacing i) = ''a''" "fb_in_folder (objects ex_replacing i) = (i = 1)"
  "fb_replacement (objects ex_replacing 1) = Some 2" "file_based_map ex_replacing = [(''a'', 1)]"
  by (simp_all add: ex_replacing_def ex_folder_def ex_object_def)

theorem default_replacement_witness:
  "\<exists>w'. default_on_replace_now ex_replace_hooks 1 ex_replacing = (Inr (Some 2), w')
      \<and> file_based_or_null w' ''a'' = Some 2 \<and> state_of w' 1 = S_closed"
proof -
  have ok: "folder_ok ex_replacing"
    by (auto simp: folder_ok_def ex_replacing_objects keys_def)
  have hooks: "can_be_replaced_now ex_replace_hooks 1 ex_replacing" "can_be_removed_now ex_replace_hooks 1 ex_replacing"
    by (simp_all add: ex_replace_hooks_def)
  have "\<exists>w'. default_on_replace_now ex_replace_hooks 1 ex_replacing = (Inr (Some 2), w') \<and> folder_ok w'
    \<and> file_based_or_null w' = (file_based_or_null ex_replacing)(fb_name (objects ex_replacing 1) \<mapsto> 2)
    \<and> state_of w' 1 = S_closed \<and> \<not> fb_in_folder (objects w' 1) \<and> state_of w' 2 = state_of ex_replacing 2"
    by (rule default_replacement [OF ok ex_replacing_objects(3) _ _ _ _ _ hooks])
      (simp_all add: ex_replacing_objects)
  then show ?thesis unfolding ex_replacing_objects by fastforce
qed

end
