(* ===== verification/Directory_Merge.thy ===== *)
theory Directory_Merge
  imports Scheduler_Prelude "HOL-Library.List_Lexorder" "HOL-Library.Char_ord"
begin

text \<open>
  \<^verbatim>\<open>Typed_folder::adjust_with_directory\<close> (\<^verbatim>\<open>folder_Typed_folder.cxx\<close>): the files found in a directory
  are compared with the objects of the folder, and \<^verbatim>\<open>on_base_file_changed\<close> is called for every file that
  is new, still there or gone. The calls are the output here.

  A file or an object is a pair of its normalised name and whatever else it has. Names are compared
  character by character.
\<close>

section \<open>The code\<close>

text \<open>\<^verbatim>\<open>remove_duplicates_from_list\<close>: of the entries with the same normalised name the first one stays.\<close>

fun remove_duplicates :: "string list \<Rightarrow> (string \<times> 'e) list \<Rightarrow> (string \<times> 'e) list" where
  "remove_duplicates used [] = []"
| "remove_duplicates used (e # es) =
     (if fst e \<in> set used then remove_duplicates used es
      else e # remove_duplicates (fst e # used) es)"

definition remove_duplicates_from_list :: "(string \<times> 'e) list \<Rightarrow> (string \<times> 'e) list" where
  "remove_duplicates_from_list es = remove_duplicates [] es"

type_synonym ('o, 'e) change = "'o option \<times> 'e option"

text \<open>The three inner loops; each returns its calls and what is left of the two sorted lists.\<close>

fun equal_loop ::
  "(string \<times> 'e) list \<Rightarrow> (string \<times> 'o) list \<Rightarrow>
   ('o, 'e) change list \<times> (string \<times> 'e) list \<times> (string \<times> 'o) list" where
  "equal_loop (d # ds) (f # fs) =
     (if fst f = fst d
      then (let (cs, ds', fs') = equal_loop ds fs in ((Some (snd f), Some (snd d)) # cs, ds', fs'))
      else ([], d # ds, f # fs))"
| "equal_loop ds fs = ([], ds, fs)"

fun added_loop ::
  "(string \<times> 'e) list \<Rightarrow> (string \<times> 'o) list \<Rightarrow>
   ('o, 'e) change list \<times> (string \<times> 'e) list \<times> (string \<times> 'o) list" where
  "added_loop [] fs = ([], [], fs)"
| "added_loop (d # ds) fs =
     (if fs = [] \<or> fst d < fst (hd fs)
      then (let (cs, ds', fs') = added_loop ds fs in ((None, Some (snd d)) # cs, ds', fs'))
      else ([], d # ds, fs))"

fun removed_loop ::
  "(string \<times> 'e) list \<Rightarrow> (string \<times> 'o) list \<Rightarrow>
   ('o, 'e) change list \<times> (string \<times> 'e) list \<times> (string \<times> 'o) list" where
  "removed_loop ds [] = ([], ds, [])"
| "removed_loop ds (f # fs) =
     (if ds = [] \<or> fst f < fst (hd ds)
      then (let (cs, ds', fs') = removed_loop ds fs in ((Some (snd f), None) # cs, ds', fs'))
      else ([], ds, f # fs))"

text \<open>One pass of the outer loop, and the loop.\<close>

definition adjust_pass ::
  "(string \<times> 'e) list \<Rightarrow> (string \<times> 'o) list \<Rightarrow>
   ('o, 'e) change list \<times> (string \<times> 'e) list \<times> (string \<times> 'o) list" where
  "adjust_pass ds fs =
     (let (c1, ds1, fs1) = equal_loop ds fs;
          (c2, ds2, fs2) = added_loop ds1 fs1;
          (c3, ds3, fs3) = removed_loop ds2 fs2
      in (c1 @ c2 @ c3, ds3, fs3))"

text \<open>Every inner loop leaves the lists shorter, or as they are.\<close>

lemma equal_loop_length:
  assumes "equal_loop ds fs = (cs, ds', fs')"
  shows "length ds' \<le> length ds" and "length fs' \<le> length fs"
    and "length ds' = length ds \<Longrightarrow> ds' = ds \<and> fs' = fs \<and> (ds \<noteq> [] \<longrightarrow> fs \<noteq> [] \<longrightarrow> fst (hd fs) \<noteq> fst (hd ds))"
proof -
  have "length ds' \<le> length ds \<and> length fs' \<le> length fs \<and>
        (length ds' = length ds \<longrightarrow>
           ds' = ds \<and> fs' = fs \<and> (ds \<noteq> [] \<longrightarrow> fs \<noteq> [] \<longrightarrow> fst (hd fs) \<noteq> fst (hd ds)))"
    using assms
  proof (induction ds fs arbitrary: cs ds' fs' rule: equal_loop.induct)
    case (1 d ds f fs)
    show ?case
    proof (cases "fst f = fst d")
      case True
      obtain c ds1 fs1 where r: "equal_loop ds fs = (c, ds1, fs1)"
        by (cases "equal_loop ds fs") auto
      show ?thesis using 1(1)[OF True r] 1(2) True r by auto
    qed (use 1(2) in auto)
  qed auto
  thus "length ds' \<le> length ds" "length fs' \<le> length fs"
    "length ds' = length ds \<Longrightarrow> ds' = ds \<and> fs' = fs \<and> (ds \<noteq> [] \<longrightarrow> fs \<noteq> [] \<longrightarrow> fst (hd fs) \<noteq> fst (hd ds))"
    by auto
qed

lemma added_loop_length:
  assumes "added_loop ds fs = (cs, ds', fs')"
  shows "fs' = fs \<and> length ds' \<le> length ds \<and>
     (length ds' = length ds \<longrightarrow>
        ds' = ds \<and> (ds \<noteq> [] \<longrightarrow> fs \<noteq> [] \<and> \<not> fst (hd ds) < fst (hd fs)))"
  using assms
proof (induction ds fs arbitrary: cs ds' fs' rule: added_loop.induct)
  case (2 d ds fs)
  show ?case
  proof (cases "fs = [] \<or> fst d < fst (hd fs)")
    case True
    obtain c ds1 fs1 where r: "added_loop ds fs = (c, ds1, fs1)"
      by (cases "added_loop ds fs") auto
    show ?thesis using 2(1)[OF True r] 2(2) True r by auto
  qed (use 2(2) in auto)
qed auto

lemma removed_loop_length:
  assumes "removed_loop ds fs = (cs, ds', fs')"
  shows "ds' = ds \<and> length fs' \<le> length fs \<and>
     (length fs' = length fs \<longrightarrow>
        fs' = fs \<and> (fs \<noteq> [] \<longrightarrow> ds \<noteq> [] \<and> \<not> fst (hd fs) < fst (hd ds)))"
  using assms
proof (induction ds fs arbitrary: cs ds' fs' rule: removed_loop.induct)
  case (2 ds f fs)
  show ?case
  proof (cases "ds = [] \<or> fst f < fst (hd ds)")
    case True
    obtain c ds1 fs1 where r: "removed_loop ds fs = (c, ds1, fs1)"
      by (cases "removed_loop ds fs") auto
    show ?thesis using 2(1)[OF True r] 2(2) True r by auto
  qed (use 2(2) in auto)
qed auto

text \<open>A pass consumes something as long as there is something.\<close>

lemma adjust_pass_progress:
  fixes ds :: "(string \<times> 'e) list" and fs :: "(string \<times> 'o) list"
  assumes pass: "adjust_pass ds fs = (cs, ds', fs')" and some: "\<not> (ds = [] \<and> fs = [])"
  shows "length ds' + length fs' < length ds + length fs"
proof -
  obtain c1 ds1 fs1 where e: "equal_loop ds fs = (c1, ds1, fs1)" by (cases "equal_loop ds fs") auto
  obtain c2 ds2 fs2 where a: "added_loop ds1 fs1 = (c2, ds2, fs2)" by (cases "added_loop ds1 fs1") auto
  obtain c3 ds3 fs3 where r: "removed_loop ds2 fs2 = (c3, ds3, fs3)" by (cases "removed_loop ds2 fs2") auto
  have eqs: "ds' = ds3" "fs' = fs3" using pass e a r by (auto simp: adjust_pass_def)
  note el = equal_loop_length[OF e] and al = added_loop_length[OF a] and rl = removed_loop_length[OF r]
  have le: "length ds' \<le> length ds" "length fs' \<le> length fs" using el(1,2) al rl eqs by auto
  have "\<not> (length ds' = length ds \<and> length fs' = length fs)"
  proof
    assume same: "length ds' = length ds \<and> length fs' = length fs"
    have "length ds1 = length ds" using same el(1) al rl eqs by auto
    from el(3)[OF this] have e1: "ds1 = ds" "fs1 = fs"
      and ne: "ds \<noteq> [] \<Longrightarrow> fs \<noteq> [] \<Longrightarrow> fst (hd fs) \<noteq> fst (hd ds)" by auto
    have a1: "ds2 = ds" "fs2 = fs" "ds \<noteq> [] \<Longrightarrow> fs \<noteq> [] \<and> \<not> fst (hd ds) < fst (hd fs)"
      using same al rl eqs e1 by auto
    have r1: "fs \<noteq> [] \<Longrightarrow> ds \<noteq> [] \<and> \<not> fst (hd fs) < fst (hd ds)" using same rl eqs a1 by auto
    show False using some ne a1(3) r1 by (metis linorder_less_linear)
  qed
  thus ?thesis using le by linarith
qed

function adjust_loop ::
  "(string \<times> 'e) list \<Rightarrow> (string \<times> 'o) list \<Rightarrow> ('o, 'e) change list" where
  "adjust_loop ds fs =
     (if ds = [] \<and> fs = [] then []
      else (case adjust_pass ds fs of (cs, ds', fs') \<Rightarrow> cs @ adjust_loop ds' fs'))"
  by pat_completeness auto
termination
  by (relation "measure (\<lambda>(ds, fs). length ds + length fs)") (auto dest: adjust_pass_progress[OF sym])

declare adjust_loop.simps [simp del]

definition adjust_with_directory ::
  "(string \<times> 'e) list \<Rightarrow> (string \<times> 'o) list \<Rightarrow> ('o, 'e) change list" where
  "adjust_with_directory es fs = adjust_loop (sort_key fst es) (sort_key fst fs)"

section \<open>One merge\<close>

fun merge_step ::
  "(string \<times> 'e) list \<Rightarrow> (string \<times> 'o) list \<Rightarrow> ('o, 'e) change list" where
  "merge_step [] [] = []"
| "merge_step (d # ds) [] = (None, Some (snd d)) # merge_step ds []"
| "merge_step [] (f # fs) = (Some (snd f), None) # merge_step [] fs"
| "merge_step (d # ds) (f # fs) =
     (if fst f = fst d then (Some (snd f), Some (snd d)) # merge_step ds fs
      else if fst d < fst f then (None, Some (snd d)) # merge_step ds (f # fs)
      else (Some (snd f), None) # merge_step (d # ds) fs)"

lemma merge_equal_loop:
  "equal_loop ds fs = (cs, ds', fs') \<Longrightarrow> merge_step ds fs = cs @ merge_step ds' fs'"
  by (induction ds fs arbitrary: cs ds' fs' rule: equal_loop.induct)
     (auto split: if_splits prod.splits)

lemma merge_added_loop:
  "added_loop ds fs = (cs, ds', fs') \<Longrightarrow> merge_step ds fs = cs @ merge_step ds' fs'"
proof (induction ds fs arbitrary: cs ds' fs' rule: added_loop.induct)
  case (2 d ds fs)
  thus ?case by (cases fs) (auto split: if_splits prod.splits)
qed auto

lemma merge_removed_loop:
  "removed_loop ds fs = (cs, ds', fs') \<Longrightarrow> merge_step ds fs = cs @ merge_step ds' fs'"
proof (induction ds fs arbitrary: cs ds' fs' rule: removed_loop.induct)
  case (2 ds f fs)
  thus ?case by (cases ds) (auto split: if_splits prod.splits)
qed auto

lemma adjust_loop_merges: "adjust_loop ds fs = merge_step ds fs"
proof (induction ds fs rule: adjust_loop.induct)
  case (1 ds fs)
  show ?case
  proof (cases "ds = [] \<and> fs = []")
    case True thus ?thesis by (simp add: adjust_loop.simps)
  next
    case False
    obtain c1 ds1 fs1 where e: "equal_loop ds fs = (c1, ds1, fs1)" by (cases "equal_loop ds fs") auto
    obtain c2 ds2 fs2 where a: "added_loop ds1 fs1 = (c2, ds2, fs2)" by (cases "added_loop ds1 fs1") auto
    obtain c3 ds3 fs3 where r: "removed_loop ds2 fs2 = (c3, ds3, fs3)" by (cases "removed_loop ds2 fs2") auto
    have p: "adjust_pass ds fs = (c1 @ c2 @ c3, ds3, fs3)" using e a r by (simp add: adjust_pass_def)
    have "adjust_loop ds fs = (c1 @ c2 @ c3) @ adjust_loop ds3 fs3"
      using p False by (subst adjust_loop.simps) auto
    also have "adjust_loop ds3 fs3 = merge_step ds3 fs3" using 1[OF False p[symmetric]] by auto
    finally show ?thesis
      using merge_equal_loop[OF e] merge_added_loop[OF a] merge_removed_loop[OF r] by simp
  qed
qed

section \<open>Every name once, in order\<close>

lemma sorted_list_of_set_least:
  assumes "finite A" and "\<And>y. y \<in> A \<Longrightarrow> (x::'k::linorder) < y"
  shows "sorted_list_of_set (insert x A) = x # sorted_list_of_set A"
proof -
  have "x \<notin> A" using assms(2) by blast
  hence "sorted_list_of_set (insert x A) = insort x (sorted_list_of_set A)" using assms(1) by simp
  also have "\<dots> = x # sorted_list_of_set A"
    using assms by (intro insort_is_Cons) (auto intro: less_imp_le)
  finally show ?thesis .
qed

definition names_of :: "(string \<times> 'e) list \<Rightarrow> (string \<times> 'o) list \<Rightarrow> string set" where
  "names_of es fs = fst ` set es \<union> fst ` set fs"

definition change_of ::
  "(string \<times> 'e) list \<Rightarrow> (string \<times> 'o) list \<Rightarrow> string \<Rightarrow> ('o, 'e) change" where
  "change_of es fs n = (map_of fs n, map_of es n)"

lemma map_of_Cons_other: "n \<noteq> fst e \<Longrightarrow> map_of (e # es) n = map_of es n"
  by (cases e) auto

lemma map_of_none_less:
  "\<lbrakk>\<And>e. e \<in> set es \<Longrightarrow> (k::string) < fst e\<rbrakk> \<Longrightarrow> map_of es k = None"
  by (auto simp: map_of_eq_None_iff)

lemma map_sorted_cons:
  assumes N: "names_of es fs = insert k (names_of es' fs')" and k: "\<And>y. y \<in> names_of es' fs' \<Longrightarrow> k < y"
    and keep: "\<And>n. k < n \<Longrightarrow> change_of es fs n = change_of es' fs' n" and c: "change_of es fs k = c"
  shows "map (change_of es fs) (sorted_list_of_set (names_of es fs))
       = c # map (change_of es' fs') (sorted_list_of_set (names_of es' fs'))"
proof -
  have fin: "finite (names_of es' fs')" by (simp add: names_of_def)
  have "map (change_of es fs) (sorted_list_of_set (names_of es' fs'))
      = map (change_of es' fs') (sorted_list_of_set (names_of es' fs'))"
    using fin k keep by (intro map_cong) auto
  thus ?thesis using sorted_list_of_set_least[OF fin k] c unfolding N by simp
qed

lemma merge_step_sorted:
  fixes ds :: "(string \<times> 'e) list" and fs :: "(string \<times> 'o) list"
  shows "sorted_wrt (<) (map fst ds) \<Longrightarrow> sorted_wrt (<) (map fst fs) \<Longrightarrow>
   merge_step ds fs = map (change_of ds fs) (sorted_list_of_set (names_of ds fs))"
proof (induction ds fs rule: merge_step.induct)
  case 1 show ?case by (simp add: names_of_def)
next
  case (2 d ds)
  let ?e = "[] :: (string \<times> 'o) list"
  have "map (change_of (d # ds) ?e) (sorted_list_of_set (names_of (d # ds) ?e))
      = (None, Some (snd d)) # map (change_of ds ?e) (sorted_list_of_set (names_of ds ?e))"
    using 2(2) by (intro map_sorted_cons[where k = "fst d"])
      (auto simp: names_of_def change_of_def map_of_Cons_other)
  thus ?case using 2 by simp
next
  case (3 f fs)
  let ?e = "[] :: (string \<times> 'e) list"
  have "map (change_of ?e (f # fs)) (sorted_list_of_set (names_of ?e (f # fs)))
      = (Some (snd f), None) # map (change_of ?e fs) (sorted_list_of_set (names_of ?e fs))"
    using 3(3) by (intro map_sorted_cons[where k = "fst f"])
      (auto simp: names_of_def change_of_def map_of_Cons_other)
  thus ?case using 3 by simp
next
  case (4 d ds f fs)
  have lt: "\<And>e. e \<in> set ds \<Longrightarrow> fst d < fst e" "\<And>e. e \<in> set fs \<Longrightarrow> fst f < fst e"
    using 4(4,5) by auto
  consider "fst f = fst d" | "fst f \<noteq> fst d" "fst d < fst f" | "fst f < fst d"
    by (metis linorder_less_linear)
  thus ?case
  proof cases
    case 1
    have "map (change_of (d # ds) (f # fs)) (sorted_list_of_set (names_of (d # ds) (f # fs)))
        = (Some (snd f), Some (snd d)) # map (change_of ds fs) (sorted_list_of_set (names_of ds fs))"
    proof (rule map_sorted_cons[where k = "fst d"])
      show "names_of (d # ds) (f # fs) = insert (fst d) (names_of ds fs)" using 1 by (simp add: names_of_def)
      show "fst d < y" if "y \<in> names_of ds fs" for y using that lt 1 by (auto simp: names_of_def)
      show "change_of (d # ds) (f # fs) n = change_of ds fs n" if "fst d < n" for n
        using that 1 by (auto simp: change_of_def map_of_Cons_other)
      show "change_of (d # ds) (f # fs) (fst d) = (Some (snd f), Some (snd d))"
        using 1 by (cases d; cases f) (simp add: change_of_def)
    qed
    thus ?thesis using 1 4(1)[OF 1] 4(4,5) by simp
  next
    case 2
    have far: "fst d < fst e" if "e \<in> set (f # fs)" for e
      using that lt(2)[of e] 2(2) by (auto intro: less_trans[of _ "fst f"])
    hence out: "map_of (f # fs) (fst d) = None" by (rule map_of_none_less)
    have far': "fst d < fst e" if "e \<in> set fs" for e using far that by simp
    have "map (change_of (d # ds) (f # fs)) (sorted_list_of_set (names_of (d # ds) (f # fs)))
        = (None, Some (snd d)) # map (change_of ds (f # fs)) (sorted_list_of_set (names_of ds (f # fs)))"
      using lt(1) far' 2 out by (intro map_sorted_cons[where k = "fst d"])
        (auto simp: names_of_def change_of_def map_of_Cons_other)
    thus ?thesis using 2 4(2)[OF 2] 4(4,5) by simp
  next
    case 3
    hence ne: "fst f \<noteq> fst d" "\<not> fst d < fst f" by auto
    have far: "fst f < fst e" if "e \<in> set (d # ds)" for e
      using that lt(1)[of e] 3 by (auto intro: less_trans[of _ "fst d"])
    hence out: "map_of (d # ds) (fst f) = None" by (rule map_of_none_less)
    have far': "fst f < fst e" if "e \<in> set ds" for e using far that by simp
    have "map (change_of (d # ds) (f # fs)) (sorted_list_of_set (names_of (d # ds) (f # fs)))
        = (Some (snd f), None) # map (change_of (d # ds) fs) (sorted_list_of_set (names_of (d # ds) fs))"
      using lt(2) far' 3 out by (intro map_sorted_cons[where k = "fst f"])
        (auto simp: names_of_def change_of_def map_of_Cons_other)
    thus ?thesis using 3 ne 4(3)[OF ne] 4(4,5) by simp
  qed
qed

lemma sort_key_strict:
  assumes "distinct (map fst es)"
  shows "sorted_wrt (<) (map fst (sort_key fst es))"
proof -
  have "distinct (map fst (sort_key fst es))"
    using assms by (metis distinct_map distinct_sort set_sort)
  thus ?thesis using sorted_sort_key[of fst es] by (simp add: strict_sorted_iff)
qed

lemma map_of_sort_key:
  assumes "distinct (map fst es)"
  shows "map_of (sort_key fst es) = map_of (es :: (string \<times> 'c) list)"
proof
  fix n
  have d: "distinct (map fst (sort_key fst es))"
    using assms by (metis distinct_map distinct_sort set_sort)
  show "map_of (sort_key fst es) n = map_of es n"
  proof (cases "map_of es n")
    case None
    hence "n \<notin> fst ` set (sort_key fst es)" by (simp add: map_of_eq_None_iff)
    hence "map_of (sort_key fst es) n = None" by (rule map_of_eq_None_iff[THEN iffD2])
    thus ?thesis using None by simp
  next
    case (Some v)
    hence "(n, v) \<in> set (sort_key fst es)" by (simp add: map_of_SomeD)
    thus ?thesis using Some d by (simp add: map_of_is_SomeI)
  qed
qed

lemma change_of_sorted:
  assumes "distinct (map fst es)" and "distinct (map fst fs)"
  shows "change_of (sort_key fst es) (sort_key fst fs) = change_of es fs"
  using assms by (simp add: change_of_def fun_eq_iff map_of_sort_key)

lemma adjust_sorted:
  assumes "distinct (map fst es)" and "distinct (map fst fs)"
  shows "adjust_with_directory es fs = map (change_of es fs) (sorted_list_of_set (names_of es fs))"
proof -
  have "names_of (sort_key fst es) (sort_key fst fs) = names_of es fs" by (simp add: names_of_def)
  thus ?thesis
    using assms by (simp add: adjust_with_directory_def adjust_loop_merges merge_step_sorted
        sort_key_strict change_of_sorted)
qed

text \<open>\<^verbatim>\<open>remove_duplicates_from_list\<close> leaves each name once, with its first entry.\<close>

lemma remove_duplicates_fst:
  "set (map fst (remove_duplicates used es)) = fst ` set es - set used \<and>
   distinct (map fst (remove_duplicates used es))"
  by (induction es arbitrary: used) auto

lemma remove_duplicates_map_of:
  "n \<notin> set used \<Longrightarrow> map_of (remove_duplicates used es) n = map_of es n"
  by (induction es arbitrary: used) (auto simp: map_of_Cons_other)

lemma remove_duplicates_from_list_props:
  "distinct (map fst (remove_duplicates_from_list es))"
  "names_of (remove_duplicates_from_list es) fs = names_of es fs"
  "change_of (remove_duplicates_from_list es) fs = change_of es fs"
  using remove_duplicates_fst[of "[]" es]
  by (auto simp: remove_duplicates_from_list_def names_of_def change_of_def fun_eq_iff
      remove_duplicates_map_of)

section \<open>Claims\<close>

text \<open> C17: after the duplicates are removed, comparing the directory with the folder reports every
  name of a file or an object exactly once and in the order of the names, together with the object
  of this name, if any, and the first file of this name, if any. So nothing is missed, and no file
  is taken for another one's object.\<close>

theorem directory_changes_complete:
  assumes "distinct (map fst objects)"
  shows "adjust_with_directory (remove_duplicates_from_list es) objects
       = map (\<lambda>n. (map_of objects n, map_of es n))
             (sorted_list_of_set (fst ` set es \<union> fst ` set objects))"
proof -
  note p = remove_duplicates_from_list_props
  have "adjust_with_directory (remove_duplicates_from_list es) objects
      = map (change_of es objects) (sorted_list_of_set (names_of es objects))"
    using adjust_sorted[OF p(1)[of es] assms] by (simp add: p(2,3))
  thus ?thesis by (simp add: names_of_def change_of_def [abs_def])
qed

theorem directory_changes_complete_witness:
  "adjust_with_directory
     (remove_duplicates_from_list [(''c'', 1), (''a'', 2), (''c'', 3 :: nat)]) [(''b'', 10), (''c'', 11 :: nat)]
   = map (\<lambda>n. (map_of [(''b'', 10), (''c'', 11 :: nat)] n, map_of [(''c'', 1), (''a'', 2), (''c'', 3 :: nat)] n))
         (sorted_list_of_set {''a'', ''b'', ''c''})"
proof -
  have n: "fst ` set [(''c'', 1), (''a'', 2), (''c'', 3 :: nat)] \<union> fst ` set [(''b'', 10), (''c'', 11 :: nat)]
         = {''a'', ''b'', ''c''}" by auto
  show ?thesis
    unfolding n[symmetric] by (rule directory_changes_complete) simp
qed

end
