(* ===== verification/Schedule_Period.thy ===== *)
theory Schedule_Period
  imports Scheduler_Time
begin

text \<open>
  \<^verbatim>\<open>Period\<close> of \<^verbatim>\<open>scheduler/schedule.h\<close> and \<^verbatim>\<open>schedule.cxx\<close>: a stretch of time in which a job may run, with
  its starts. The bits of \<^verbatim>\<open>With_single_start\<close> are a set of flags. XML and printing are not modelled.
\<close>

section \<open>Data\<close>

datatype wss_flag =
  Wss_next_period | Wss_next_single_start | Wss_next_begin | Wss_next_any_start
| Wss_when_holiday_ignore_holiday | Wss_when_holiday_next_non_holiday | Wss_when_holiday_previous_non_holiday

type_synonym with_single_start = "wss_flag set"

definition wss_next_period_or_single_start :: with_single_start where
  "wss_next_period_or_single_start = {Wss_next_period, Wss_next_single_start}"

definition wss_next_begin_or_single_start :: with_single_start where
  "wss_next_begin_or_single_start = {Wss_next_single_start, Wss_next_begin}"

datatype when_holiday = Wh_suppress | Wh_ignore_holiday | Wh_next_non_holiday | Wh_previous_non_holiday

definition string_from_when_holiday :: "when_holiday \<Rightarrow> string" where
  "string_from_when_holiday h =
     (case h of Wh_suppress \<Rightarrow> ''suppress'' | Wh_ignore_holiday \<Rightarrow> ''ignore_holiday''
      | Wh_next_non_holiday \<Rightarrow> ''next_non_holiday'' | Wh_previous_non_holiday \<Rightarrow> ''previous_non_holiday'')"

definition when_holiday_from_string :: "string \<Rightarrow> when_holiday result" where
  "when_holiday_from_string w =
     (if w = ''suppress'' then Inr Wh_suppress
      else if w = ''ignore_holiday'' then Inr Wh_ignore_holiday
      else if w = ''next_non_holiday'' then Inr Wh_next_non_holiday
      else if w = ''previous_non_holiday'' then Inr Wh_previous_non_holiday
      else Inl (Xc ''when_holiday_from_string''))"

record period =
  p_begin :: time
  absolute_repeat_begin :: time
  p_end :: time
  repeat :: duration
  absolute_repeat :: duration
  single_start :: bool
  let_run :: bool
  start_once :: bool
  p_when_holiday :: when_holiday
  schedule_path :: string

definition empty_period :: period where
  "empty_period = \<lparr>p_begin = never, absolute_repeat_begin = Time 0, p_end = never, repeat = eternal,
     absolute_repeat = eternal, single_start = False, let_run = False, start_once = False,
     p_when_holiday = Wh_suppress, schedule_path = []\<rparr>"

section \<open>Operations\<close>

definition period_empty :: "period \<Rightarrow> bool" where
  "period_empty p = is_never (p_begin p)"

definition has_start :: "period \<Rightarrow> bool" where
  "has_start p = (single_start p \<or> \<not> is_eternal (repeat p))"

definition has_repeat_or_once :: "period \<Rightarrow> bool" where
  "has_repeat_or_once p = (\<not> is_eternal (repeat p) \<or> start_once p)"

definition is_in_time :: "period \<Rightarrow> time \<Rightarrow> bool" where
  "is_in_time p t = (p_begin p \<le> t \<and> t < p_end p)"

definition is_seamless_repeat_of :: "period \<Rightarrow> period \<Rightarrow> bool" where
  "is_seamless_repeat_of p q =
     (p_begin p = p_end q \<and> \<not> is_eternal (repeat p) \<and> repeat p = repeat q)"

definition period_eq :: "period \<Rightarrow> period \<Rightarrow> bool" where
  "period_eq p q =
     (p_begin p = p_begin q \<and> absolute_repeat_begin p = absolute_repeat_begin q \<and> p_end p = p_end q
      \<and> repeat p = repeat q \<and> absolute_repeat p = absolute_repeat q \<and> single_start p = single_start q)"

text \<open>\<^verbatim>\<open>operator +=\<close> asserts that begin and end have no date yet.\<close>

definition period_plus :: "time \<Rightarrow> period \<Rightarrow> period result" where
  "period_plus t p =
     (if has_date (p_begin p) \<or> has_date (p_end p) then Inl (Assertion ''Period::operator+='')
      else Inr (p\<lparr>p_begin := time_add_assign (p_begin p) (Duration (time_of t)),
                  p_end := time_add_assign (p_end p) (Duration (time_of t))\<rparr>))"

definition period_minus :: "period \<Rightarrow> duration \<Rightarrow> period" where
  "period_minus p d = p\<lparr>p_begin := time_sub_assign (p_begin p) d, p_end := time_sub_assign (p_end p) d\<rparr>"

definition set_single_start :: "period \<Rightarrow> time \<Rightarrow> period" where
  "set_single_start p t =
     p\<lparr>p_begin := t, p_end := t, repeat := eternal, absolute_repeat := eternal, single_start := True,
       let_run := True\<rparr>"

text \<open>\<^verbatim>\<open>Period::check\<close>, after the XML element has been read.\<close>

definition period_check :: "bool \<Rightarrow> period \<Rightarrow> unit result" where
  "period_check with_date p =
     (if p_begin p < Time 0 \<or> p_end p < p_begin p \<or> \<not> with_date \<and> Time (24 * 60 * 60) < p_end p
      then Inl (Xc ''SCHEDULER-104'') else Inr ())"

definition next_try :: "period \<Rightarrow> time \<Rightarrow> time" where
  "next_try p t = (if p_end p \<le> t then never else t)"

text \<open>
  \<^verbatim>\<open>(int)\<close> of a \<^verbatim>\<open>double\<close> cuts off the fraction. A number that does not fit into 32 bits is undefined in C++; here it becomes the
  smallest \<^verbatim>\<open>int\<close>, as on x86. \<^verbatim>\<open>n + 1\<close> wraps around.
\<close>

definition to_int32 :: "rat \<Rightarrow> int" where
  "to_int32 x = (if - (2 ^ 31) \<le> trunc x \<and> trunc x < 2 ^ 31 then trunc x else - (2 ^ 31))"

definition int32_Suc :: "int \<Rightarrow> int" where
  "int32_Suc n = (n + 1 + 2 ^ 31) mod 2 ^ 32 - 2 ^ 31"

lemma int32_fits:
  assumes "0 \<le> x" "x < 2147483647"
  shows "to_int32 x = trunc x" "int32_Suc (trunc x) = trunc x + 1"
proof -
  have "0 \<le> trunc x" "trunc x < 2147483647" using assms by (simp_all add: trunc_def floor_less_iff)
  then show "to_int32 x = trunc x" "int32_Suc (trunc x) = trunc x + 1"
    by (simp_all add: to_int32_def int32_Suc_def)
qed

text \<open>
  The assertion \<^verbatim>\<open>result >= t\<close> is left out; \<open>next_absolute_repeated_least\<close> shows that it holds as long as the number of the
  point fits into 32 bits.
\<close>

definition next_absolute_repeated :: "period \<Rightarrow> time \<Rightarrow> time" where
  "next_absolute_repeated p tim =
     (let t = (if tim < p_begin p then p_begin p else tim);
          n = to_int32 (seconds_of (time_diff t (absolute_repeat_begin p)) / seconds_of (absolute_repeat p));
          r = set_time (time_of (absolute_repeat_begin p) + of_int (int32_Suc n) * seconds_of (absolute_repeat p));
          res = (if r = time_plus t (absolute_repeat p) then t else r)
      in if res < p_end p then res else never)"

definition next_repeated_allow_after_end :: "period \<Rightarrow> time \<Rightarrow> time" where
  "next_repeated_allow_after_end p t =
     (if \<not> is_eternal (repeat p) then (if t < p_begin p then p_begin p else time_plus t (repeat p))
      else if \<not> is_eternal (absolute_repeat p) then next_absolute_repeated p t
      else never)"

definition next_repeated :: "period \<Rightarrow> time \<Rightarrow> time" where
  "next_repeated p t =
     (let r = next_repeated_allow_after_end p t in if r < p_end p then r else never)"

definition is_coming :: "period \<Rightarrow> time \<Rightarrow> with_single_start \<Rightarrow> bool" where
  "is_coming p tod wss =
     (if Wss_when_holiday_ignore_holiday \<in> wss \<and> p_when_holiday p \<noteq> Wh_ignore_holiday then False
      else if Wss_when_holiday_previous_non_holiday \<in> wss \<and> p_when_holiday p \<noteq> Wh_previous_non_holiday then False
      else if Wss_when_holiday_next_non_holiday \<in> wss \<and> p_when_holiday p \<noteq> Wh_next_non_holiday then False
      else if Wss_next_period \<in> wss \<and> \<not> single_start p \<and> tod < p_end p then True
      else if Wss_next_begin \<in> wss \<and> \<not> single_start p \<and> tod \<le> p_begin p then True
      else if Wss_next_single_start \<in> wss \<and> single_start p \<and> tod \<le> p_begin p then True
      else if Wss_next_any_start \<in> wss
              \<and> (single_start p \<and> tod \<le> p_begin p \<or> has_repeat_or_once p \<and> tod < p_end p) then True
      else if (Wss_next_any_start \<in> wss \<or> Wss_next_single_start \<in> wss) \<and> \<not> is_eternal (absolute_repeat p)
              \<and> \<not> is_never (next_absolute_repeated p tod) then True
      else False)"

text \<open>\<^verbatim>\<open>min\<close> of the standard library, with \<^verbatim>\<open>operator <\<close> of \<^verbatim>\<open>Period\<close>, which compares the begin.\<close>

definition period_min :: "period \<Rightarrow> period \<Rightarrow> period" where
  "period_min p q = (if p_begin q < p_begin p then q else p)"

section \<open>Facts\<close>

lemma period_empty_empty [simp]: "period_empty empty_period"
  by (simp add: period_empty_def empty_period_def is_never_def never_def)

lemma p_begin_min: "p_begin (period_min p q) = min (p_begin p) (p_begin q)"
  by (auto simp: period_min_def min_def)

lemma period_min_cases: "period_min p q = p \<or> period_min p q = q"
  by (simp add: period_min_def)

lemma when_holiday_roundtrip: "when_holiday_from_string (string_from_when_holiday h) = Inr h"
  by (cases h) (simp_all add: string_from_when_holiday_def when_holiday_from_string_def)

section \<open>The grid of absolute repeats\<close>

definition grid :: "period \<Rightarrow> nat \<Rightarrow> time" where
  "grid p k = Time (time_of (absolute_repeat_begin p) + of_nat k * seconds_of (absolute_repeat p))"

lemma set_time_above:
  assumes "whole_ms t"
  shows "set_time t = (if t \<le> never_seconds then Time t else never)"
  using assms by (simp add: set_time_def whole_ms_round)

lemma whole_ms_grid:
  "whole_ms a \<Longrightarrow> whole_ms r \<Longrightarrow> whole_ms (a + of_nat k * r)"
  using whole_ms_times[of r "int k"] by (simp add: whole_ms_plus)

text \<open>The value before it is compared with the end: the first point of the grid that is not before \<open>x\<close>.\<close>

lemma grid_step:
  fixes a r x :: rat
  assumes r: "0 < r" and ax: "a \<le> x"
  defines "n \<equiv> trunc ((x - a) / r)"
  shows "0 \<le> n" and "a + of_int n * r \<le> x" and "x < a + of_int (n + 1) * r"
proof -
  have q: "0 \<le> (x - a) / r" using r ax by simp
  hence n: "n = \<lfloor>(x - a) / r\<rfloor>" by (simp add: n_def trunc_def)
  thus "0 \<le> n" using q by simp
  have "of_int n \<le> (x - a) / r" "(x - a) / r < of_int n + 1" unfolding n by linarith+
  thus "a + of_int n * r \<le> x" "x < a + of_int (n + 1) * r"
    using r by (simp_all add: field_simps)
qed

lemma grid_mono: "0 < seconds_of (absolute_repeat p) \<Longrightarrow> grid p i < grid p j \<longleftrightarrow> i < j"
  by (simp add: grid_def less_time_def)

lemma next_absolute_repeated_grid:
  assumes r: "0 < seconds_of (absolute_repeat p)" "whole_ms (seconds_of (absolute_repeat p))"
    and a: "whole_ms (time_of (absolute_repeat_begin p))" "absolute_repeat_begin p \<le> p_begin p"
    and tim: "time_ok tim" "time_ok (p_begin p)"
    and noteternal: "\<not> is_eternal (absolute_repeat p)"
    and room: "time_of (max tim (p_begin p)) + seconds_of (absolute_repeat p) \<le> never_seconds"
    and fits: "(time_of (max tim (p_begin p)) - time_of (absolute_repeat_begin p)) / seconds_of (absolute_repeat p) < 2147483647"
  obtains k where "next_absolute_repeated p tim = (if grid p k < p_end p then grid p k else never)"
    and "max tim (p_begin p) \<le> grid p k" and "\<And>i. i < k \<Longrightarrow> grid p i < max tim (p_begin p)"
proof -
  define t where "t = max tim (p_begin p)"
  define R where "R = seconds_of (absolute_repeat p)"
  define A where "A = time_of (absolute_repeat_begin p)"
  define n where "n = trunc ((time_of t - A) / R)"
  have t: "(if tim < p_begin p then p_begin p else tim) = t" by (auto simp: t_def max_def)
  have tok: "time_ok t" using tim by (auto simp: t_def max_def)
  have At: "A \<le> time_of t" using a(2) by (auto simp: A_def t_def time_order max_def)
  have R: "0 < R" "whole_ms R" using r by (simp_all add: R_def)
  note step = grid_step[OF R(1) At, folded n_def]
  have "0 \<le> (time_of t - A) / R" "(time_of t - A) / R < 2147483647" using At R(1) fits by (simp_all add: t_def A_def R_def)
  note int32 = int32_fits [OF this, folded n_def]
  have room': "time_of t + R \<le> never_seconds" using room by (simp add: t_def R_def)
  have ms: "whole_ms (A + of_int (n + 1) * R)"
    using a(1) R(2) by (intro whole_ms_plus whole_ms_times) (simp_all add: A_def)
  have le: "A + of_int (n + 1) * R \<le> time_of t + R" using step(2) by (simp add: algebra_simps)
  have set: "set_time (A + of_int (n + 1) * R) = Time (A + of_int (n + 1) * R)"
    using ms le room' by (simp add: set_time_above)
  have rest: "x + R \<le> never_seconds" if "x \<le> time_of t" for x using that room' by linarith
  have t_never: "time_of t \<noteq> never_seconds" using room' R(1) by auto
  have tms: "whole_ms (time_of t + R)" using tok R(2) by (auto simp: time_ok_def whole_ms_plus)
  have eternal: "\<not> is_eternal (absolute_repeat p)"
    using noteternal by (simp add: is_eternal_def R_def)
  have plus: "time_plus t (absolute_repeat p) = Time (time_of t + R)"
    using eternal t_never room' tms
    by (simp add: time_plus_def is_never_def R_def[symmetric] set_time_above min_def)
  define k where "k = (if A + of_int n * R = time_of t then nat n else nat (n + 1))"
  have k: "grid p (nat n) = Time (A + of_int n * R)" "grid p (nat (n + 1)) = Time (A + of_int (n + 1) * R)"
    using step(1) by (simp_all add: grid_def A_def R_def)
  have same: "Time (A + of_int (n + 1) * R) = Time (time_of t + R) \<longleftrightarrow> A + of_int n * R = time_of t"
    by (auto simp: algebra_simps)
  have val: "(if Time (A + of_int (n + 1) * R) = Time (time_of t + R) then t else Time (A + of_int (n + 1) * R))
           = grid p k"
  proof (cases "A + of_int n * R = time_of t")
    case True
    thus ?thesis using same k by (cases t) (simp add: k_def)
  next
    case False
    thus ?thesis using same k by (simp add: k_def)
  qed
  have res: "next_absolute_repeated p tim = (if grid p k < p_end p then grid p k else never)"
    unfolding next_absolute_repeated_def Let_def t val[symmetric] set[symmetric] plus[symmetric]
    using int32 by (simp add: A_def[symmetric] R_def[symmetric] time_diff_def)
  have before: "grid p i < t" if "i < k" for i
  proof (cases "A + of_int n * R = time_of t")
    case True
    hence "grid p k = t" using k by (cases t) (auto simp: k_def)
    thus ?thesis using that grid_mono[of p i k] r(1) by simp
  next
    case False
    hence "i \<le> nat n" using that step(1) by (auto simp: k_def)
    hence "grid p i \<le> grid p (nat n)" using grid_mono[of p] r(1) by (metis le_less order.refl less_le)
    thus ?thesis using False step(2) k by (auto simp: time_order)
  qed
  have "t \<le> grid p k" using step(2,3) k by (auto simp: k_def time_order)
  with res before show thesis by (intro that[of k]) (auto simp: t_def)
qed

section \<open>Claims\<close>

text \<open> C32: with \<^verbatim>\<open>absolute_repeat\<close>, the next start is the first point of the grid, counted from
  \<^verbatim>\<open>_absolute_repeat_begin\<close>, that is neither before the given time nor before the begin of the period,
  and \<^verbatim>\<open>never\<close> if this point is not before the end. The repeat interval is a positive number of
  milliseconds and must not lead past the year 2038, the grid does not begin after the period, and the number of the
  interval, which the code keeps in an \<^verbatim>\<open>int\<close>, must fit into 32 bits (from 1970 on with intervals of a second it always does).\<close>

theorem next_absolute_repeated_least:
  assumes "0 < seconds_of (absolute_repeat p)" and "whole_ms (seconds_of (absolute_repeat p))"
    and "\<not> is_eternal (absolute_repeat p)"
    and "time_ok (absolute_repeat_begin p)" and "absolute_repeat_begin p \<le> p_begin p"
    and "time_ok tim" and "time_ok (p_begin p)"
    and "time_of (max tim (p_begin p)) + seconds_of (absolute_repeat p) \<le> never_seconds"
    and "(time_of (max tim (p_begin p)) - time_of (absolute_repeat_begin p)) / seconds_of (absolute_repeat p) < 2147483647"
  shows "\<exists>k. next_absolute_repeated p tim = (if grid p k < p_end p then grid p k else never)
           \<and> tim \<le> grid p k \<and> p_begin p \<le> grid p k
           \<and> (\<forall>i < k. grid p i < tim \<or> grid p i < p_begin p)"
proof -
  obtain k where k: "next_absolute_repeated p tim = (if grid p k < p_end p then grid p k else never)"
      "max tim (p_begin p) \<le> grid p k" "\<And>i. i < k \<Longrightarrow> grid p i < max tim (p_begin p)"
    using assms by (elim next_absolute_repeated_grid[of p tim]) (auto simp: time_ok_def)
  thus ?thesis by (intro exI[of _ k]) (auto simp: less_max_iff_disj)
qed

definition ex_period :: period where
  "ex_period = empty_period\<lparr>p_begin := Time 1800, p_end := Time 9000, absolute_repeat := Duration 3600\<rparr>"

theorem next_absolute_repeated_least_witness:
  "\<exists>k. next_absolute_repeated ex_period (Time 4000) = (if grid ex_period k < p_end ex_period then grid ex_period k else never)
           \<and> Time 4000 \<le> grid ex_period k \<and> p_begin ex_period \<le> grid ex_period k
           \<and> (\<forall>i < k. grid ex_period i < Time 4000 \<or> grid ex_period i < p_begin ex_period)"
  by (rule next_absolute_repeated_least)
    (simp_all add: ex_period_def empty_period_def time_ok_def is_eternal_def never_seconds_def never_int_def
      time_order max_def)

end
