(* ===== verification/Calendar_Dates.thy ===== *)
theory Calendar_Dates
  imports Scheduler_Prelude
begin

text \<open>
  Dates of \<^verbatim>\<open>kram/sosdate.h\<close> and \<^verbatim>\<open>kram/sosdate.cxx\<close>, as far as the schedules use them: from the number
  of a day to year, month and day and back, and the length of a month. \<^verbatim>\<open>None\<close> is the null date.
\<close>

section \<open>The code\<close>

record sos_date =
  year_of_date :: int
  month_of_date :: int
  day_of_date :: int
  seconds_of_date :: int

abbreviation date_at :: "int \<Rightarrow> int \<Rightarrow> int \<Rightarrow> sos_date" where
  "date_at y m d \<equiv> \<lparr>year_of_date = y, month_of_date = m, day_of_date = d, seconds_of_date = 0\<rparr>"

text \<open>Division and remainder of C, which cut towards zero.\<close>

definition c_div :: "int \<Rightarrow> int \<Rightarrow> int" where
  "c_div a b = sgn a * sgn b * (\<bar>a\<bar> div \<bar>b\<bar>)"

definition c_mod :: "int \<Rightarrow> int \<Rightarrow> int" where
  "c_mod a b = a - c_div a b * b"

definition schaltjahr :: "int \<Rightarrow> bool" where
  "schaltjahr y = (y mod 4 = 0 \<and> (y mod 100 \<noteq> 0 \<or> y mod 400 = 0))"

definition monatstage :: "int \<Rightarrow> int" where
  "monatstage m = [0, 31, 29, 31, 30, 31, 30, 31, 31, 30, 31, 30, 31] ! nat m"

definition default_schwellenjahr :: int where
  "default_schwellenjahr = 100"

definition assign_date :: "int \<Rightarrow> int \<Rightarrow> int \<Rightarrow> sos_date option result" where
  "assign_date y m d =
     (if y = 0 \<and> m = 0 \<and> d = 0 then Inr None
      else let y' = (if y < 100 then y + (if y < default_schwellenjahr then 2000 else 1900) else y) in
        if y' < 1582 \<or> 4000 < y' \<or> m < 1 \<or> 12 < m \<or> d < 1 \<or> 31 < d \<or> monatstage m < d
           \<or> d = 29 \<and> m = 2 \<and> \<not> schaltjahr y'
        then Inl (Xc ''SOS-1101'')
        else Inr (Some (date_at y' m d)))"

text \<open>The loop of \<^verbatim>\<open>day_of_year( int )\<close> from March on.\<close>

function find_month :: "int \<Rightarrow> int \<Rightarrow> int \<times> int" where
  "find_month m tag = (if m \<le> 12 \<and> monatstage m < tag then find_month (m + 1) (tag - monatstage m) else (m, tag))"
  by pat_completeness auto
termination by (relation "measure (\<lambda>(m, tag). nat (13 - m))") auto

declare find_month.simps [simp del]

definition set_day_of_year :: "int \<Rightarrow> int \<Rightarrow> sos_date option result" where
  "set_day_of_year y doy =
     (if doy \<le> 31 then assign_date y 1 doy
      else let tag = doy - 31; feb = (if schaltjahr y then 29 else 28) in
        if tag \<le> feb then assign_date y 2 tag
        else let (m, tag') = find_month 3 (tag - feb) in
          if 12 < m then Inl (Xc ''SOS-1180'') else assign_date y m tag')"

definition day_of_year :: "sos_date \<Rightarrow> int" where
  "day_of_year d =
     (if month_of_date d = 1 then day_of_date d
      else if month_of_date d = 2 then 31 + day_of_date d
      else 31 + day_of_date d + (if schaltjahr (year_of_date d) then 29 else 28) + sum_list (map monatstage [3..month_of_date d - 1]))"

definition day_count :: "sos_date option \<Rightarrow> int result" where
  "day_count x =
     (case x of None \<Rightarrow> Inl (Xc ''SOS-1195'')
      | Some d \<Rightarrow>
          (let y = year_of_date d - 1900;
               tage = y * 365 + c_div (y + 3) 4 + day_of_year d - 1
           in Inr (tage - (if 1900 < year_of_date d then 1 else 0) - (if 2100 < year_of_date d then 1 else 0))))"

text \<open>The loop of \<^verbatim>\<open>day_count( int4 )\<close>: the year of the day, and the number of its first day.\<close>

function find_year :: "int \<Rightarrow> int \<Rightarrow> int \<Rightarrow> int \<times> int" where
  "find_year tage y t =
     (let t2 = t + (if schaltjahr y then 366 else 365) in
      if tage < t2 then (y, t) else find_year tage (y + 1) t2)"
  by pat_completeness auto
termination by (relation "measure (\<lambda>(tage, y, t). nat (tage - t + 1))") (auto simp: Let_def split: if_splits)

declare find_year.simps [simp del]

definition date_of_day_count :: "int \<Rightarrow> sos_date option result" where
  "date_of_day_count tage =
     (if 300000 < tage then Inl (Xc ''SOS-1101'')
      else let (y, t) = find_year tage 1900 0 in set_day_of_year y (tage - t + 1))"

definition zero_day :: int where
  "zero_day = 25567"

definition date_of_time_t :: "int \<Rightarrow> sos_date option result" where
  "date_of_time_t t =
     (if t = 0 then Inr None
      else map_sum id (map_option (\<lambda>d. d\<lparr>seconds_of_date := c_mod t (24 * 60 * 60)\<rparr>))
             (date_of_day_count (zero_day + c_div t (24 * 60 * 60))))"

definition last_day_of_month :: "sos_date \<Rightarrow> int" where
  "last_day_of_month d =
     (if month_of_date d = 2 then (if schaltjahr (year_of_date d) then 29 else 28) else monatstage (month_of_date d))"

lemma zero_day_value: "day_count (Some (date_at 1970 1 1)) = Inr zero_day"
  by (simp add: day_count_def day_of_year_def c_div_def zero_day_def)

section \<open>Months\<close>

lemma month_cases:
  assumes "1 \<le> m" "m \<le> (12::int)"
  obtains "m = 1" | "m = 2" | "m = 3" | "m = 4" | "m = 5" | "m = 6" | "m = 7" | "m = 8" | "m = 9"
  | "m = 10" | "m = 11" | "m = 12"
proof -
  have "m = 1 \<or> m = 2 \<or> m = 3 \<or> m = 4 \<or> m = 5 \<or> m = 6 \<or> m = 7 \<or> m = 8 \<or> m = 9 \<or> m = 10 \<or> m = 11 \<or> m = 12"
  proof -
    have "m \<in> set [1..12]" using assms by simp
    thus ?thesis by (simp add: upto.simps)
  qed
  thus ?thesis using that by (elim disjE) blast+
qed

lemma monatstage_values [simp]:
  "monatstage 1 = 31" "monatstage 2 = 29" "monatstage 3 = 31" "monatstage 4 = 30" "monatstage 5 = 31"
  "monatstage 6 = 30" "monatstage 7 = 31" "monatstage 8 = 31" "monatstage 9 = 30" "monatstage 10 = 31"
  "monatstage 11 = 30" "monatstage 12 = 31"
  by (simp_all add: monatstage_def)

lemma monatstage_bounds: "1 \<le> m \<Longrightarrow> m \<le> 12 \<Longrightarrow> 29 \<le> monatstage m \<and> monatstage m \<le> 31"
  by (erule (1) month_cases) auto

lemma find_month_spec:
  assumes "find_month m tag = (m', tag')" and "3 \<le> m" and "m \<le> 12" and "1 \<le> tag"
    and "tag \<le> sum_list (map monatstage [m..12])"
  shows "m \<le> m' \<and> m' \<le> 12 \<and> 1 \<le> tag' \<and> tag' \<le> monatstage m'
       \<and> tag = tag' + sum_list (map monatstage [m..m' - 1])"
  using assms
proof (induction m tag arbitrary: m' tag' rule: find_month.induct)
  case (1 m tag)
  show ?case
  proof (cases "monatstage m < tag")
    case False
    with 1(2,4) have "m' = m" "tag' = tag" by (auto simp: find_month.simps[of m tag])
    with False 1 show ?thesis by auto
  next
    case True
    have rest: "sum_list (map monatstage [m..12]) = monatstage m + sum_list (map monatstage [m + 1..12])"
      using 1(4) by (subst upto_rec1) auto
    have m: "m + 1 \<le> 12"
    proof (rule ccontr)
      assume "\<not> m + 1 \<le> 12"
      hence "[m + 1..12] = []" by simp
      with rest 1(6) True show False by simp
    qed
    have "find_month (m + 1) (tag - monatstage m) = (m', tag')"
      using 1(2,4) True by (subst (asm) find_month.simps) auto
    from 1(1)[OF _ this] True 1(3,4,6) m rest
    have ih: "m + 1 \<le> m'" "m' \<le> 12" "1 \<le> tag'" "tag' \<le> monatstage m'"
      "tag - monatstage m = tag' + sum_list (map monatstage [m + 1..m' - 1])" by auto
    have "sum_list (map monatstage [m..m' - 1]) = monatstage m + sum_list (map monatstage [m + 1..m' - 1])"
      using ih(1) by (subst upto_rec1) auto
    with ih show ?thesis by auto
  qed
qed

definition year_length :: "int \<Rightarrow> int" where
  "year_length y = (if schaltjahr y then 366 else 365)"

lemma assign_date_ok:
  assumes "1582 \<le> y" "y \<le> 4000" "1 \<le> m" "m \<le> 12" "1 \<le> d" "d \<le> monatstage m"
    and "\<not> (d = 29 \<and> m = 2 \<and> \<not> schaltjahr y)"
  shows "assign_date y m d = Inr (Some (date_at y m d))"
  using assms monatstage_bounds[of m] by (auto simp: assign_date_def Let_def)

lemma set_day_of_year_ok:
  assumes y: "1582 \<le> y" "y \<le> 4000" and doy: "1 \<le> doy" "doy \<le> year_length y"
  obtains m d where "set_day_of_year y doy = Inr (Some (date_at y m d))"
    and "day_of_year (date_at y m d) = doy"
    and "1 \<le> m" "m \<le> 12" "1 \<le> d" "d \<le> last_day_of_month (date_at y m d)"
proof -
  define feb :: int where "feb = (if schaltjahr y then 29 else 28)"
  consider "doy \<le> 31" | "31 < doy" "doy - 31 \<le> feb" | "31 < doy" "feb < doy - 31" by linarith
  thus ?thesis
  proof cases
    case 1
    thus ?thesis using assign_date_ok[of y 1 doy] doy y
      by (intro that[of 1 doy]) (auto simp: set_day_of_year_def day_of_year_def last_day_of_month_def)
  next
    case 2
    hence "assign_date y 2 (doy - 31) = Inr (Some (date_at y 2 (doy - 31)))"
      using y by (intro assign_date_ok) (auto simp: feb_def split: if_splits)
    with 2 show ?thesis
      by (intro that[of 2 "doy - 31"])
        (auto simp: set_day_of_year_def day_of_year_def last_day_of_month_def feb_def Let_def)
  next
    case 3
    obtain m tag where run: "find_month 3 (doy - 31 - feb) = (m, tag)" by fastforce
    have "sum_list (map monatstage [3..12]) = 306" by (simp add: upto.simps)
    hence "doy - 31 - feb \<le> sum_list (map monatstage [3..12])"
      using doy by (auto simp: feb_def year_length_def split: if_splits)
    from find_month_spec[OF run _ _ _ this] 3
    have m: "3 \<le> m" "m \<le> 12" "1 \<le> tag" "tag \<le> monatstage m"
      "doy - 31 - feb = tag + sum_list (map monatstage [3..m - 1])" by auto
    have "assign_date y m tag = Inr (Some (date_at y m tag))"
      using m y by (intro assign_date_ok) auto
    with 3 m run show ?thesis
      by (intro that[of m tag])
        (auto simp: set_day_of_year_def day_of_year_def last_day_of_month_def feb_def[symmetric] Let_def)
  qed
qed

section \<open>Years\<close>

definition days_before :: "int \<Rightarrow> int" where
  "days_before y = (y - 1900) * 365 + (y - 1897) div 4
     - (if 1900 < y then 1 else 0) - (if 2100 < y then 1 else 0)"

lemma schaltjahr_range:
  assumes "1900 \<le> y" "y \<le> 2199"
  shows "schaltjahr y \<longleftrightarrow> y mod 4 = 0 \<and> y \<noteq> 1900 \<and> y \<noteq> 2100"
proof -
  have "19 \<le> y div 100" "y div 100 < 22" using assms by (auto simp: div_less_iff_less_mult)
  hence "y div 100 = 19 \<or> y div 100 = 20 \<or> y div 100 = 21" by linarith
  moreover have "y = 100 * (y div 100) + y mod 100" by simp
  ultimately have h: "y mod 100 = 0 \<longleftrightarrow> y = 1900 \<or> y = 2000 \<or> y = 2100" by fastforce
  have "(1900 :: int) mod 400 \<noteq> 0" "(2000 :: int) mod 400 = 0" "(2100 :: int) mod 400 \<noteq> 0" by simp_all
  with h show ?thesis by (auto simp: schaltjahr_def)
qed

lemma days_before_Suc:
  assumes "1900 \<le> y" "y \<le> 2199"
  shows "days_before (y + 1) = days_before y + year_length y"
proof -
  define q r where "q = y div 4" and "r = y mod 4"
  have y: "y = 4 * q + r" "0 \<le> r" "r < 4" by (auto simp: q_def r_def)
  have "(y - 1896) div 4 = q - 474" using y by (intro int_div_pos_eq[of _ _ _ r]) auto
  moreover have "(y - 1897) div 4 = (if r = 0 then q - 475 else q - 474)" 
    using y int_div_pos_eq[of "y - 1897" 4 "q - 475" 3] int_div_pos_eq[of "y - 1897" 4 "q - 474" "r - 1"]
    by (cases "r = 0") auto
  ultimately have d: "(y - 1896) div 4 = (y - 1897) div 4 + (if r = 0 then 1 else 0)" by simp
  have leap: "schaltjahr y \<longleftrightarrow> r = 0 \<and> y \<noteq> 1900 \<and> y \<noteq> 2100"
    using schaltjahr_range[OF assms] by (simp add: r_def)
  have "r = 0" if "y = 1900 \<or> y = 2100" using that by (auto simp: r_def)
  hence ends: "schaltjahr 2000" "\<not> schaltjahr 1900" "\<not> schaltjahr 2100" by (simp_all add: schaltjahr_def)
  consider "y = 1900" | "y = 2100" | "1900 < y" "y < 2100" | "2100 < y" using assms by linarith
  thus ?thesis
  proof cases
    case 1 thus ?thesis using ends by (simp add: days_before_def year_length_def)
  next
    case 2 thus ?thesis using ends by (simp add: days_before_def year_length_def)
  next
    case 3 thus ?thesis using d leap by (cases "r = 0") (simp_all add: days_before_def year_length_def)
  next
    case 4 thus ?thesis using d leap by (cases "r = 0") (simp_all add: days_before_def year_length_def)
  qed
qed

lemma find_year_unfold:
  "find_year tage y t =
     (if tage < t + year_length y then (y, t) else find_year tage (y + 1) (t + year_length y))"
  unfolding year_length_def Let_def by (subst find_year.simps) (simp only: Let_def)

lemma days_before_values: "days_before 1900 = 0" "days_before 2200 = 109573"
  by (simp_all add: days_before_def)

lemma find_year_spec:
  assumes "find_year tage y t = (y', t')" and "t = days_before y" and "1900 \<le> y" and "y \<le> 2199"
    and "t \<le> tage" and "tage < days_before 2200"
  shows "1900 \<le> y' \<and> y' \<le> 2199 \<and> t' = days_before y' \<and> t' \<le> tage \<and> tage < t' + year_length y'"
  using assms
proof (induction tage y t arbitrary: y' t' rule: find_year.induct)
  case (1 tage y t)
  show ?case
  proof (cases "tage < t + year_length y")
    case True
    hence "find_year tage y t = (y, t)" by (subst find_year_unfold) simp
    with 1(2) have "y' = y" "t' = t" by auto
    with True 1(3-6) show ?thesis by simp
  next
    case False
    have step: "t + year_length y = days_before (y + 1)" using 1(3,4,5) by (simp add: days_before_Suc)
    have y: "y + 1 \<le> 2199"
    proof (rule ccontr)
      assume "\<not> y + 1 \<le> 2199"
      hence "y = 2199" using 1(5) by simp
      with step False 1(7) show False by simp
    qed
    have "find_year tage (y + 1) (t + year_length y) = (y', t')"
      using 1(2) False by (subst (asm) find_year_unfold) simp
    from 1(1)[OF refl _ this[unfolded year_length_def]] False step y 1(4,7)
    show ?thesis by (simp add: year_length_def)
  qed
qed

lemma day_count_year:
  assumes "1900 \<le> year_of_date d" "year_of_date d \<le> 2199"
  shows "day_count (Some d) = Inr (days_before (year_of_date d) + day_of_year d - 1)"
  using assms by (auto simp: day_count_def Let_def days_before_def c_div_def sgn_if)

lemma date_of_day_count_ok:
  assumes "0 \<le> n" and "n < days_before 2200"
  obtains d where "date_of_day_count n = Inr (Some d)" and "day_count (Some d) = Inr n"
    and "1900 \<le> year_of_date d" "year_of_date d < 2200" "1 \<le> month_of_date d" "month_of_date d \<le> 12" "1 \<le> day_of_date d" "day_of_date d \<le> last_day_of_month d"
proof -
  obtain y t where run: "find_year n 1900 0 = (y, t)" by fastforce
  have y: "1900 \<le> y" "y \<le> 2199" "t = days_before y" "t \<le> n" "n < t + year_length y"
    using find_year_spec[OF run] assms by (auto simp: days_before_values)
  hence len: "1 \<le> n - t + 1" "n - t + 1 \<le> year_length y" by auto
  obtain m dd where d: "set_day_of_year y (n - t + 1) = Inr (Some (date_at y m dd))"
      "day_of_year (date_at y m dd) = n - t + 1" "1 \<le> m" "m \<le> 12" "1 \<le> dd"
      "dd \<le> last_day_of_month (date_at y m dd)"
    using set_day_of_year_ok[OF _ _ len] y by auto
  let ?d = "date_at y m dd"
  have "date_of_day_count n = Inr (Some ?d)"
    using run d(1) assms by (simp add: date_of_day_count_def days_before_values)
  moreover have "day_count (Some ?d) = Inr n" using d(2) y by (simp add: day_count_year)
  ultimately show ?thesis using d y by (intro that[of ?d]) auto
qed

lemma days_before_mono:
  "1900 \<le> a \<Longrightarrow> a + int m \<le> 2200 \<Longrightarrow> days_before a \<le> days_before (a + int m)"
proof (induction m)
  case (Suc m)
  have "days_before (a + int m) \<le> days_before (a + int m + 1)"
    using Suc(2,3) by (subst days_before_Suc) (auto simp: year_length_def)
  thus ?case using Suc by (auto simp: algebra_simps)
qed simp

lemma find_year_skip:
  assumes "1900 \<le> y" "y \<le> 2200" "days_before 2200 \<le> tage"
  shows "find_year tage y (days_before y) = find_year tage 2200 (days_before 2200)"
  using assms(1,2)
proof (induction "nat (2200 - y)" arbitrary: y)
  case (Suc k)
  hence y: "y \<le> 2199" by auto
  have mono: "days_before (y + 1) \<le> days_before 2200"
    using days_before_mono[of "y + 1" "nat (2199 - y)"] Suc(3) y by simp
  have "find_year tage y (days_before y) = find_year tage (y + 1) (days_before (y + 1))"
    using days_before_Suc[OF Suc(3) y] mono assms(3) by (subst find_year_unfold) auto
  also have "\<dots> = find_year tage 2200 (days_before 2200)"
    using Suc y by (intro Suc(1)) auto
  finally show ?case .
qed (use assms in auto)

section \<open>Claims\<close>

text \<open> C33: for every day from 1900 to 2199, \<^verbatim>\<open>day_count( int4 )\<close> sets a date that exists, and the
  function \<^verbatim>\<open>day_count()\<close> of this date is the number of the day again.\<close>

theorem day_count_roundtrip:
  assumes "0 \<le> n" and "n < 109573"
  shows "\<exists>d. date_of_day_count n = Inr (Some d) \<and> day_count (Some d) = Inr n
           \<and> 1900 \<le> year_of_date d \<and> year_of_date d < 2200 \<and> 1 \<le> month_of_date d \<and> month_of_date d \<le> 12
           \<and> 1 \<le> day_of_date d \<and> day_of_date d \<le> last_day_of_month d"
  using date_of_day_count_ok[of n] assms by (metis days_before_values(2))

theorem day_count_roundtrip_witness:
  "\<exists>d. date_of_day_count 40000 = Inr (Some d) \<and> day_count (Some d) = Inr 40000
           \<and> 1900 \<le> year_of_date d \<and> year_of_date d < 2200 \<and> 1 \<le> month_of_date d \<and> month_of_date d \<le> 12
           \<and> 1 \<le> day_of_date d \<and> day_of_date d \<le> last_day_of_month d"
  by (rule day_count_roundtrip) simp_all

text \<open>The correction for years that are no leap years ends with 2100: from 2201 on, the two functions
  disagree.\<close>

lemma day_count_after_2200:
  "date_of_day_count 109938 = Inr (Some (date_at 2201 1 1))"
  "day_count (Some (date_at 2201 1 1)) = Inr 109939"
proof -
  have l: "year_length 2200 = 365" "year_length 2201 = 365" by (simp_all add: year_length_def schaltjahr_def)
  have "find_year 109938 1900 0 = find_year 109938 2200 109573"
    using find_year_skip[of 1900 109938] by (simp add: days_before_values)
  also have "\<dots> = (2201, 109938)" using l by (subst find_year_unfold, simp, subst find_year_unfold, simp)
  finally show "date_of_day_count 109938 = Inr (Some (date_at 2201 1 1))"
    by (simp add: date_of_day_count_def set_day_of_year_def assign_date_def)
qed (simp add: day_count_def day_of_year_def c_div_def)

end
