(* ===== verification/Schedule_Days.thy ===== *)
theory Schedule_Days
  imports Schedule_Period Calendar_Dates
begin

text \<open>
  The sets of days of a schedule (\<^verbatim>\<open>schedule.h\<close>, \<^verbatim>\<open>schedule.cxx\<close>): weekdays, days of the month counted from
  its begin and from its end, months, single dates, single times, and holidays; and the next period of
  the day of a given time. Reading them from XML is not modelled, apart from how a set of days is filled.

  The code stands for local times from 1970 on. At the very first second of 1970 a date is null
  (\<^verbatim>\<open>Sos_optional_date_time::set_time_t\<close>); then \<^verbatim>\<open>_months[-1]\<close> is read, an error here.
\<close>

section \<open>Day\<close>

text \<open>A \<^verbatim>\<open>set<Period>\<close> is ordered by the begin and holds one period for each begin, the first inserted.\<close>

type_synonym day = "period list"

fun day_add :: "period \<Rightarrow> day \<Rightarrow> day" where
  "day_add p [] = [p]"
| "day_add p (q # qs) =
     (if p_begin p < p_begin q then p # q # qs
      else if p_begin q < p_begin p then q # day_add p qs
      else q # qs)"

definition day_merge :: "day \<Rightarrow> day \<Rightarrow> day" where
  "day_merge d other = fold day_add other d"

definition day_has_time :: "day \<Rightarrow> time \<Rightarrow> bool" where
  "day_has_time d tod = list_ex (\<lambda>p. tod \<le> p_begin p \<or> tod < p_end p) d"

definition day_next_period :: "day \<Rightarrow> time \<Rightarrow> with_single_start \<Rightarrow> period" where
  "day_next_period d tod wss =
     (case find (\<lambda>p. is_coming p tod wss) d of Some p \<Rightarrow> p | None \<Rightarrow> empty_period)"

section \<open>Sets of days\<close>

record day_set =
  ds_minimum :: int
  ds_maximum :: int
  ds_days :: "day option list"
  is_day_set_filled :: bool

definition new_day_set :: "int \<Rightarrow> int \<Rightarrow> day_set" where
  "new_day_set mi ma = \<lparr>ds_minimum = mi, ds_maximum = ma, ds_days = replicate (nat (1 + ma)) None,
     is_day_set_filled = False\<rparr>"

text \<open>\<^verbatim>\<open>Day_set::set_dom\<close> for one element, with the day numbers that \<^verbatim>\<open>get_day_numbers\<close> has read.\<close>

definition put_day :: "day \<Rightarrow> int \<Rightarrow> day option list \<Rightarrow> day option list" where
  "put_day d i ds =
     ds[nat i := Some (case ds ! nat i of None \<Rightarrow> d | Some e \<Rightarrow> day_merge e d)]"

definition day_set_add :: "day_set \<Rightarrow> int list \<Rightarrow> day \<Rightarrow> day_set" where
  "day_set_add s numbers d =
     s\<lparr>ds_days := fold (put_day d) numbers (ds_days s), is_day_set_filled := True\<rparr>"

text \<open>The check of \<^verbatim>\<open>get_day_number\<close> for other sets than the weekdays; \<open>n\<close> is the number read.\<close>

definition check_day_number :: "day_set \<Rightarrow> int \<Rightarrow> int result" where
  "check_day_number s n =
     (if n < ds_minimum s \<or> ds_maximum s < n then Inl (Xc ''SCHEDULER-221'') else Inr n)"

definition fill_with_default :: "day_set \<Rightarrow> day \<Rightarrow> day_set" where
  "fill_with_default s d =
     s\<lparr>ds_days := fold (\<lambda>i ds. ds[i := Some d]) [0..<7] (ds_days s), is_day_set_filled := True\<rparr>"

lemma fill_with_default_new:
  "ds_days (fill_with_default (new_day_set 0 6) d) = replicate 7 (Some d)"
  "is_day_set_filled (fill_with_default s d)"
  by (simp_all add: fill_with_default_def new_day_set_def upt_rec numeral_eq_Suc)

definition weekday_of_day_number :: "int \<Rightarrow> int" where
  "weekday_of_day_number n = c_mod (n + 4) 7"

text \<open>\<^verbatim>\<open>Time( day_nr * (24*60*60) ) + period\<close>, or the empty period.\<close>

definition dated :: "int \<Rightarrow> period \<Rightarrow> period result" where
  "dated nr p =
     (if period_empty p then Inr empty_period else period_plus (set_time (of_int (nr * (24 * 60 * 60)))) p)"

definition weekday_set_next :: "day_set \<Rightarrow> time \<Rightarrow> with_single_start \<Rightarrow> period result" where
  "weekday_set_next s tim wss =
     (if is_day_set_filled s then
        (case ds_days s ! nat (weekday_of_day_number (day_nr tim) mod 7) of
           None \<Rightarrow> Inr empty_period
         | Some d \<Rightarrow> dated (day_nr tim) (day_next_period d (time_of_day tim) wss))
      else Inr empty_period)"

section \<open>Days of the month\<close>

record month_weekdays =
  mw_days :: "day option list"
  mw_is_filled :: bool

record monthday_set =
  md_day_set :: day_set
  month_weekdays :: month_weekdays
  reverse_month_weekdays :: month_weekdays

definition max_weekdays_per_month :: int where
  "max_weekdays_per_month = 5"

definition month_weekdays_index :: "int \<Rightarrow> int \<Rightarrow> nat result" where
  "month_weekdays_index which weekday =
     (if which = 0 \<or> max_weekdays_per_month < which \<or> weekday < 0 \<or> 7 \<le> weekday
      then Inl (Assertion ''Month_weekdays::day'') else Inr (nat (7 * (which - 1) + weekday)))"

text \<open>\<^verbatim>\<open>Monthday_set::set_dom\<close> for one \<^verbatim>\<open><weekday>\<close>: the weekdays read, and which of the month.\<close>

fun put_month_weekdays :: "int \<Rightarrow> day \<Rightarrow> int list \<Rightarrow> month_weekdays \<Rightarrow> month_weekdays result" where
  "put_month_weekdays which d [] m = Inr (m\<lparr>mw_is_filled := True\<rparr>)"
| "put_month_weekdays which d (w # ws) m =
     bind_r (month_weekdays_index \<bar>which\<bar> w) (\<lambda>i.
       if mw_days m ! i \<noteq> None then Inl (Xc ''SCHEDULER-446'')
       else put_month_weekdays which d ws (m\<lparr>mw_days := (mw_days m)[i := Some d]\<rparr>))"

definition monthday_set_add_weekdays ::
  "monthday_set \<Rightarrow> int \<Rightarrow> int list \<Rightarrow> day \<Rightarrow> monthday_set result" where
  "monthday_set_add_weekdays s which ws d =
     (if which = 0 \<or> max_weekdays_per_month < \<bar>which\<bar> then Inl (Xc ''Monthday_set::set_dom'')
      else if 0 < which
      then map_sum id (\<lambda>m. s\<lparr>month_weekdays := m\<rparr>) (put_month_weekdays which d ws (month_weekdays s))
      else map_sum id (\<lambda>m. s\<lparr>reverse_month_weekdays := m\<rparr>)
             (put_month_weekdays which d ws (reverse_month_weekdays s)))"

definition monthday_set_is_filled :: "monthday_set \<Rightarrow> bool" where
  "monthday_set_is_filled s =
     (is_day_set_filled (md_day_set s) \<or> mw_is_filled (month_weekdays s)
      \<or> mw_is_filled (reverse_month_weekdays s))"

definition day_or_none :: "day option \<Rightarrow> time \<Rightarrow> with_single_start \<Rightarrow> period \<Rightarrow> period" where
  "day_or_none x tod wss p =
     (case x of None \<Rightarrow> p | Some d \<Rightarrow> period_min p (day_next_period d tod wss))"

definition month_weekdays_next ::
  "month_weekdays \<Rightarrow> int \<Rightarrow> int \<Rightarrow> time \<Rightarrow> with_single_start \<Rightarrow> period \<Rightarrow> period result" where
  "month_weekdays_next m which weekday tod wss p =
     map_sum id (\<lambda>i. day_or_none (mw_days m ! i) tod wss p) (month_weekdays_index which weekday)"

definition day_of_optional_date :: "sos_date option \<Rightarrow> int" where
  "day_of_optional_date x = (case x of None \<Rightarrow> 0 | Some d \<Rightarrow> day_of_date d)"

definition monthday_set_next :: "monthday_set \<Rightarrow> time \<Rightarrow> with_single_start \<Rightarrow> period result" where
  "monthday_set_next s tim wss =
     (if monthday_set_is_filled s then
        bind_r (date_of_time_t (as_time_t tim)) (\<lambda>date.
          let tod = time_of_day tim;
              weekday = weekday_of_day_number (day_nr tim);
              mday = day_of_optional_date date;
              p1 = (if is_day_set_filled (md_day_set s) then
                      (case ds_days (md_day_set s) ! nat mday of
                         None \<Rightarrow> empty_period | Some d \<Rightarrow> day_next_period d tod wss)
                    else empty_period)
          in bind_r
               (if mw_is_filled (month_weekdays s)
                then month_weekdays_next (month_weekdays s) (1 + c_div (mday - 1) 7) weekday tod wss p1
                else Inr p1) (\<lambda>p2.
             bind_r
               (if mw_is_filled (reverse_month_weekdays s)
                then (case date of
                        None \<Rightarrow> Inl (Xc ''SOS-1195'')
                      | Some d \<Rightarrow> month_weekdays_next (reverse_month_weekdays s)
                                    (1 + c_div (last_day_of_month d - mday) 7) weekday tod wss p2)
                else Inr p2) (\<lambda>p3. dated (day_nr tim) p3)))
      else Inr empty_period)"

definition ultimo_set_next :: "day_set \<Rightarrow> time \<Rightarrow> with_single_start \<Rightarrow> period result" where
  "ultimo_set_next s tim wss =
     (if is_day_set_filled s then
        bind_r (date_of_time_t (as_time_t tim)) (\<lambda>x.
          case x of
            None \<Rightarrow> Inl (Xc ''SOS-1195'')
          | Some date \<Rightarrow>
              (case ds_days s ! nat (last_day_of_month date - day_of_date date) of
                 None \<Rightarrow> Inr empty_period
               | Some d \<Rightarrow> dated (day_nr tim) (day_next_period d (time_of_day tim) wss)))
      else Inr empty_period)"

section \<open>Months, dates, times, holidays\<close>

record month_days =
  m_weekday_set :: day_set
  m_monthday_set :: monthday_set
  m_ultimo_set :: day_set

text \<open>\<^verbatim>\<open>result = min( result, ... )\<close> with a function that may throw.\<close>

definition min_r :: "bool \<Rightarrow> period result \<Rightarrow> period \<Rightarrow> period result" where
  "min_r filled m p = (if filled then map_sum id (period_min p) m else Inr p)"

definition month_is_filled :: "month_days \<Rightarrow> bool" where
  "month_is_filled m =
     (is_day_set_filled (m_weekday_set m) \<or> monthday_set_is_filled (m_monthday_set m)
      \<or> is_day_set_filled (m_ultimo_set m))"

definition month_next :: "month_days \<Rightarrow> time \<Rightarrow> with_single_start \<Rightarrow> period result" where
  "month_next m tim wss =
     bind_r (min_r (is_day_set_filled (m_weekday_set m)) (weekday_set_next (m_weekday_set m) tim wss) empty_period) (\<lambda>p1.
     bind_r (min_r (monthday_set_is_filled (m_monthday_set m)) (monthday_set_next (m_monthday_set m) tim wss) p1) (\<lambda>p2.
     min_r (is_day_set_filled (m_ultimo_set m)) (ultimo_set_next (m_ultimo_set m) tim wss) p2))"

text \<open>A \<^verbatim>\<open>set<Date>\<close> and a \<^verbatim>\<open>set<Time>\<close> are ascending lists.\<close>

fun date_set_next :: "(int \<times> day) list \<Rightarrow> time \<Rightarrow> with_single_start \<Rightarrow> period result" where
  "date_set_next [] tim wss = Inr empty_period"
| "date_set_next ((nr, d) # ds) tim wss =
     (if day_nr tim \<le> nr then
        (if nr = day_nr tim then dated nr (day_next_period d (time_of_day tim) wss) else Inr empty_period)
      else date_set_next ds tim wss)"

fun at_set_next :: "time list \<Rightarrow> time \<Rightarrow> with_single_start \<Rightarrow> period" where
  "at_set_next [] tim wss = empty_period"
| "at_set_next (t # ts) tim wss =
     (if Wss_next_any_start \<in> wss \<or> Wss_next_single_start \<in> wss then
        (if tim \<le> t then
           (if day_nr t = day_nr tim
            then empty_period\<lparr>p_begin := t, p_end := time_plus t epsilon, single_start := True, let_run := True,
                             repeat := eternal, absolute_repeat := eternal\<rparr>
            else empty_period)
         else at_set_next ts tim wss)
      else empty_period)"

fun at_set_add :: "time \<Rightarrow> time list \<Rightarrow> time list" where
  "at_set_add t [] = [t]"
| "at_set_add t (u # us) =
     (if t < u then t # u # us else if u < t then u # at_set_add t us else u # us)"

record holidays =
  holiday_days :: "int list"
  holiday_weekdays :: "bool list"

definition include_day :: "holidays \<Rightarrow> int \<Rightarrow> holidays" where
  "include_day h n = h\<lparr>holiday_days := List.insert n (holiday_days h)\<rparr>"

definition holidays_clear :: "holidays \<Rightarrow> holidays" where
  "holidays_clear h = h\<lparr>holiday_days := []\<rparr>"

definition holidays_is_filled :: "holidays \<Rightarrow> bool" where
  "holidays_is_filled h = (holiday_days h \<noteq> [])"

definition is_holiday :: "holidays \<Rightarrow> time \<Rightarrow> bool" where
  "is_holiday h t =
     (let n = day_nr t in n \<in> set (holiday_days h) \<or> holiday_weekdays h ! nat (weekday_of_day_number n))"

section \<open>A day is ordered, and the first period that is coming is taken\<close>

definition day_ok :: "day \<Rightarrow> bool" where
  "day_ok d = sorted_wrt (\<lambda>p q. p_begin p < p_begin q) d"

lemma set_day_add: "set (day_add p d) \<subseteq> insert p (set d)"
  by (induction d) auto

lemma begins_day_add: "p_begin ` set (day_add p d) = insert (p_begin p) (p_begin ` set d)"
  by (induction d) auto

lemma day_add_ok: "day_ok d \<Longrightarrow> day_ok (day_add p d)"
proof (induction d)
  case (Cons q qs)
  have "day_ok (day_add p qs)" using Cons by (simp add: day_ok_def)
  moreover have "\<forall>r \<in> set (day_add p qs). p_begin q < p_begin r" if "p_begin q < p_begin p"
    using that Cons(2) set_day_add[of p qs] by (auto simp: day_ok_def)
  ultimately show ?case using Cons(2) by (auto simp: day_ok_def)
qed (simp add: day_ok_def)

lemma day_merge_ok: "day_ok d \<Longrightarrow> day_ok (day_merge d other)"
  unfolding day_merge_def by (induction other arbitrary: d) (auto intro: day_add_ok)

lemma find_sorted:
  "find P d = Some p \<Longrightarrow> day_ok d \<Longrightarrow> p \<in> set d \<and> P p \<and> (\<forall>q \<in> set d. P q \<longrightarrow> p_begin p \<le> p_begin q)"
proof (induction d)
  case (Cons r d)
  show ?case
  proof (cases "P r")
    case True
    with Cons(2) have "p = r" by simp
    with True Cons(3) show ?thesis by (auto simp: day_ok_def intro: less_imp_le)
  next
    case False
    with Cons show ?thesis by (simp add: day_ok_def)
  qed
qed simp

lemma day_next_period_first:
  assumes "day_ok d"
  shows "day_next_period d tod wss = empty_period \<and> (\<forall>q \<in> set d. \<not> is_coming q tod wss)
    \<or> day_next_period d tod wss \<in> set d \<and> is_coming (day_next_period d tod wss) tod wss
      \<and> (\<forall>q \<in> set d. is_coming q tod wss \<longrightarrow> p_begin (day_next_period d tod wss) \<le> p_begin q)"
proof (cases "find (\<lambda>p. is_coming p tod wss) d")
  case None
  hence "\<not> (\<exists>q. q \<in> set d \<and> is_coming q tod wss)" by (simp only: find_None_iff not_False_eq_True)
  with None show ?thesis by (auto simp: day_next_period_def)
next
  case (Some p)
  from find_sorted[OF this assms] show ?thesis by (simp add: day_next_period_def Some)
qed

section \<open>What all sets of days keep of their periods\<close>

text \<open>A quality \<open>Q\<close> that the periods which are coming have and that does not depend on their date; the
  empty period counts as having it.\<close>

definition has_quality :: "(period \<Rightarrow> bool) \<Rightarrow> period \<Rightarrow> bool" where
  "has_quality Q p = (period_empty p \<or> Q p)"

locale coming_quality =
  fixes Q :: "period \<Rightarrow> bool" and wss :: with_single_start
  assumes coming: "is_coming p tod wss \<Longrightarrow> Q p"
    and dateless: "Q (p\<lparr>p_begin := b, p_end := e\<rparr>) = Q p"
begin

lemma empty: "has_quality Q empty_period"
  by (simp add: has_quality_def)

lemma day_next: "has_quality Q (day_next_period d tod wss)"
  using coming by (auto simp: day_next_period_def has_quality_def find_Some_iff split: option.splits)

lemma min: "has_quality Q p \<Longrightarrow> has_quality Q q \<Longrightarrow> has_quality Q (period_min p q)"
  by (simp add: period_min_def)

lemma dated: "has_quality Q p \<Longrightarrow> dated nr p = Inr q \<Longrightarrow> has_quality Q q"
  using dateless[where p = p] by (auto simp: dated_def period_plus_def has_quality_def split: if_splits)

lemma day_or_none: "has_quality Q p \<Longrightarrow> has_quality Q (day_or_none x tod wss p)"
  using day_next min by (auto simp: day_or_none_def split: option.splits)

lemma weekday: "weekday_set_next s t wss = Inr p \<Longrightarrow> has_quality Q p"
  using dated[OF day_next] empty by (auto simp: weekday_set_next_def split: if_splits option.splits)

lemma ultimo:
  assumes "ultimo_set_next s t wss = Inr p"
  shows "has_quality Q p"
proof (cases "is_day_set_filled s")
  case True
  with assms obtain date where "(case ds_days s ! nat (last_day_of_month date - day_of_date date) of
      None \<Rightarrow> Inr empty_period
    | Some d \<Rightarrow> dated (day_nr t) (day_next_period d (time_of_day t) wss)) = Inr p"
    unfolding ultimo_set_next_def by (auto elim!: bind_r_InrE simp: option.case_eq_if split: if_splits)
  thus ?thesis using dated[OF day_next] empty by (auto split: option.splits)
qed (use assms empty in \<open>simp add: ultimo_set_next_def\<close>)

lemma month_weekdays:
  "has_quality Q p \<Longrightarrow> month_weekdays_next m w n tod wss p = Inr q \<Longrightarrow> has_quality Q q"
  using day_or_none by (auto simp: month_weekdays_next_def month_weekdays_index_def split: if_splits)

lemma monthday:
  assumes "monthday_set_next s t wss = Inr p"
  shows "has_quality Q p"
proof (cases "monthday_set_is_filled s")
  case True
  define p1 where "p1 date = (if is_day_set_filled (md_day_set s) then
      (case ds_days (md_day_set s) ! nat (day_of_optional_date date) of
         None \<Rightarrow> empty_period | Some d \<Rightarrow> day_next_period d (time_of_day t) wss)
      else empty_period)" for date
  have p1: "has_quality Q (p1 date)" for date
    using day_next empty by (auto simp: p1_def split: option.splits)
  from assms True obtain date p2 p3 where
    a2: "(if mw_is_filled (month_weekdays s)
          then month_weekdays_next (month_weekdays s) (1 + c_div (day_of_optional_date date - 1) 7)
                 (weekday_of_day_number (day_nr t)) (time_of_day t) wss (p1 date)
          else Inr (p1 date)) = Inr p2"
    and a3: "(if mw_is_filled (reverse_month_weekdays s)
          then (case date of
                  None \<Rightarrow> Inl (Xc ''SOS-1195'')
                | Some d \<Rightarrow> month_weekdays_next (reverse_month_weekdays s)
                    (1 + c_div (last_day_of_month d - day_of_optional_date date) 7)
                    (weekday_of_day_number (day_nr t)) (time_of_day t) wss p2)
          else Inr p2) = Inr p3"
    and 4: "dated (day_nr t) p3 = Inr p"
    unfolding monthday_set_next_def Let_def p1_def if_P[OF True] by (elim bind_r_InrE) blast
  have 2: "p2 = p1 date \<or> (\<exists>w n. month_weekdays_next (month_weekdays s) w n (time_of_day t) wss (p1 date) = Inr p2)"
    using a2 by (auto split: if_splits)
  have 3: "p3 = p2 \<or> (\<exists>w n. month_weekdays_next (reverse_month_weekdays s) w n (time_of_day t) wss p2 = Inr p3)"
    using a3 by (auto split: if_splits option.splits)
  have "has_quality Q p2" using 2 month_weekdays[OF p1] p1 by auto
  with 3 have "has_quality Q p3" using month_weekdays by auto
  with 4 show ?thesis by (rule dated[rotated])
next
  case False
  thus ?thesis using assms empty by (simp add: monthday_set_next_def)
qed

lemma min_r:
  assumes "\<And>q. m = Inr q \<Longrightarrow> has_quality Q q" and "has_quality Q p" and "min_r f m p = Inr r"
  shows "has_quality Q r"
  using assms min[of p] by (cases m) (auto simp: min_r_def split: if_splits)

lemma month:
  assumes "month_next m t wss = Inr p"
  shows "has_quality Q p"
proof -
  from assms obtain p1 p2 where
    "min_r (is_day_set_filled (m_weekday_set m)) (weekday_set_next (m_weekday_set m) t wss) empty_period = Inr p1"
    and "min_r (monthday_set_is_filled (m_monthday_set m)) (monthday_set_next (m_monthday_set m) t wss) p1 = Inr p2"
    and "min_r (is_day_set_filled (m_ultimo_set m)) (ultimo_set_next (m_ultimo_set m) t wss) p2 = Inr p"
    unfolding month_next_def by (elim bind_r_InrE)
  from min_r[OF ultimo min_r[OF monthday min_r[OF weekday empty this(1)] this(2)] this(3)]
  show ?thesis .
qed

lemma date_set: "date_set_next ds t wss = Inr p \<Longrightarrow> has_quality Q p"
proof (induction ds)
  case Nil thus ?case using empty by auto
next
  case (Cons e ds)
  thus ?case using dated[OF day_next] empty by (cases e) (auto split: if_splits)
qed

end

text \<open>With one of the flags for holidays, only the periods with this \<^verbatim>\<open>when_holiday\<close> are coming.\<close>

interpretation ignoring: coming_quality
  "\<lambda>p. p_when_holiday p = Wh_ignore_holiday" "insert Wss_when_holiday_ignore_holiday wss" for wss
  by unfold_locales (auto simp: is_coming_def split: if_splits)

interpretation moved_later: coming_quality
  "\<lambda>p. p_when_holiday p = Wh_next_non_holiday" "insert Wss_when_holiday_next_non_holiday wss" for wss
  by unfold_locales (auto simp: is_coming_def split: if_splits)

interpretation moved_earlier: coming_quality
  "\<lambda>p. p_when_holiday p = Wh_previous_non_holiday" "insert Wss_when_holiday_previous_non_holiday wss" for wss
  by unfold_locales (auto simp: is_coming_def split: if_splits)

section \<open>Clearing the holidays\<close>

text \<open>\<^verbatim>\<open>Holidays::clear\<close> leaves the weekdays, so a weekday that was a holiday stays one.\<close>

lemma holidays_clear_keeps_weekdays:
  "is_holiday (holidays_clear h) t \<longleftrightarrow> holiday_weekdays h ! nat (weekday_of_day_number (day_nr t))"
  by (simp add: is_holiday_def holidays_clear_def Let_def)

end
