(* ===== verification/Schedule_Search.thy ===== *)
theory Schedule_Search
  imports Schedule_Days
begin

text \<open>
  The search of a schedule (\<^verbatim>\<open>Schedule::Inlay\<close> of \<^verbatim>\<open>schedule.cxx\<close>) for the next period, day by day, with
  the periods that a holiday moves to another day and the start time function of the scheduler script.

  The script is a parameter: for the requested beginning it fails, or yields nothing, or a time. Log
  output is not modelled. The search looks ahead \<^verbatim>\<open>foresee_years\<close> years; each pass takes a day.
\<close>

section \<open>Data\<close>

record inlay =
  once :: bool
  at_set :: "time list"
  date_set :: "(int \<times> day) list"
  weekday_set :: day_set
  monthday_set :: monthday_set
  ultimo_set :: day_set
  months :: "month_days option list"
  has_month :: bool
  holidays :: holidays
  start_time_function :: string
  start_time_function_error :: bool
  covered_schedule_path :: string
  covered_schedule_begin :: time
  covered_schedule_end :: time

definition foresee_years :: int where
  "foresee_years = 20"

definition new_monthday_set :: monthday_set where
  "new_monthday_set = \<lparr>md_day_set = new_day_set 1 31,
     month_weekdays = \<lparr>mw_days = replicate 35 None, mw_is_filled = False\<rparr>,
     reverse_month_weekdays = \<lparr>mw_days = replicate 35 None, mw_is_filled = False\<rparr>\<rparr>"

definition new_inlay :: "holidays \<Rightarrow> inlay" where
  "new_inlay scheduler_holidays = \<lparr>once = False, at_set = [], date_set = [], weekday_set = new_day_set 0 6,
     monthday_set = new_monthday_set, ultimo_set = new_day_set 0 30, months = replicate 12 None,
     has_month = False, holidays = scheduler_holidays, start_time_function = [],
     start_time_function_error = False, covered_schedule_path = [], covered_schedule_begin = Time 0,
     covered_schedule_end = never\<rparr>"

definition inlay_is_filled :: "inlay \<Rightarrow> bool" where
  "inlay_is_filled s =
     (at_set s \<noteq> [] \<or> date_set s \<noteq> [] \<or> is_day_set_filled (weekday_set s)
      \<or> monthday_set_is_filled (monthday_set s) \<or> is_day_set_filled (ultimo_set s)
      \<or> has_month s \<and> list_ex (\<lambda>m. case m of None \<Rightarrow> False | Some d \<Rightarrow> month_is_filled d) (months s))"

text \<open>Months of the element \<^verbatim>\<open><month>\<close>, as \<^verbatim>\<open>Schedule::Inlay::set_dom\<close> enters them.\<close>

fun inlay_add_month :: "month_days \<Rightarrow> int list \<Rightarrow> inlay \<Rightarrow> inlay result" where
  "inlay_add_month d [] s = Inr s"
| "inlay_add_month d (m # ms) s =
     (if months s ! nat m \<noteq> None then Inl (Xc ''SCHEDULER-443'')
      else inlay_add_month d ms (s\<lparr>months := (months s)[nat m := Some d], has_month := True\<rparr>))"

section \<open>One day\<close>

definition month_nr :: "time \<Rightarrow> int result" where
  "month_nr t =
     map_sum id (\<lambda>x. case x of None \<Rightarrow> 0 | Some d \<Rightarrow> month_of_date d) (date_of_time_t (as_time_t t))"

definition general_days :: "inlay \<Rightarrow> time \<Rightarrow> with_single_start \<Rightarrow> period \<Rightarrow> period result" where
  "general_days s t wss p =
     bind_r (min_r (is_day_set_filled (weekday_set s)) (weekday_set_next (weekday_set s) t wss) p) (\<lambda>p1.
     bind_r (min_r (monthday_set_is_filled (monthday_set s)) (monthday_set_next (monthday_set s) t wss) p1) (\<lambda>p2.
     min_r (is_day_set_filled (ultimo_set s)) (ultimo_set_next (ultimo_set s) t wss) p2))"

definition next_period_of_same_day :: "inlay \<Rightarrow> time \<Rightarrow> with_single_start \<Rightarrow> period result" where
  "next_period_of_same_day s t wss =
     (let p1 = (if at_set s \<noteq> [] then period_min empty_period (at_set_next (at_set s) t wss) else empty_period) in
      bind_r (min_r (date_set s \<noteq> []) (date_set_next (date_set s) t wss) p1) (\<lambda>p2.
        if has_month s then
          bind_r (month_nr t) (\<lambda>m.
            if m = 0 then Inl (Assertion ''_months[-1]'')
            else (case months s ! nat (m - 1) of
                    Some d \<Rightarrow> map_sum id (period_min p2) (month_next d t wss)
                  | None \<Rightarrow> general_days s t wss p2))
        else general_days s t wss p2))"

text \<open>
  Days before \<open>t\<close> that are holidays without a gap: their periods with \<^verbatim>\<open>next_non_holiday\<close> are moved to
  the day of \<open>t\<close>. \<open>k\<close> counts the days; \<^verbatim>\<open>foresee_duration\<close> is \<^verbatim>\<open>foresee_years\<close> days.
\<close>

definition days :: "int \<Rightarrow> duration" where
  "days k = Duration (of_int k * 86400)"

function earlier_holidays ::
  "inlay \<Rightarrow> time \<Rightarrow> with_single_start \<Rightarrow> int \<Rightarrow> period \<Rightarrow> period result" where
  "earlier_holidays s t wss k p =
     (if k \<le> foresee_years \<and> is_holiday (holidays s) (time_plus t (days (- k))) then
        bind_r (next_period_of_same_day s (time_plus t (days (- k)))
                 (insert Wss_when_holiday_next_non_holiday wss)) (\<lambda>q.
          earlier_holidays s t wss (k + 1)
            (if period_empty q then p else period_min p (period_minus q (days (- k)))))
      else Inr p)"
  by pat_completeness auto
termination by (relation "measure (\<lambda>(s, t, wss, k, p). nat (foresee_years + 1 - k))") auto

function later_holidays ::
  "inlay \<Rightarrow> time \<Rightarrow> with_single_start \<Rightarrow> int \<Rightarrow> period \<Rightarrow> period result" where
  "later_holidays s t wss k p =
     (if k \<le> foresee_years \<and> \<not> is_never (time_plus t (days k))
         \<and> is_holiday (holidays s) (time_plus t (days k)) then
        bind_r (next_period_of_same_day s (time_plus t (days k))
                 (insert Wss_when_holiday_previous_non_holiday wss)) (\<lambda>q.
          later_holidays s t wss (k + 1)
            (if period_empty q then p else period_min p (period_minus q (days k))))
      else Inr p)"
  by pat_completeness auto
termination by (relation "measure (\<lambda>(s, t, wss, k, p). nat (foresee_years + 1 - k))") auto

declare earlier_holidays.simps [simp del] later_holidays.simps [simp del]

text \<open>\<^verbatim>\<open>call_function\<close>: the result, and the new value of \<^verbatim>\<open>_start_time_function_error\<close>.\<close>

definition call_function ::
  "(time \<Rightarrow> time option result) \<Rightarrow> bool \<Rightarrow> time \<Rightarrow> period result \<times> bool" where
  "call_function script err t =
     (if err then (Inr empty_period, err)
      else (case script t of
              Inl e \<Rightarrow> (Inl (Xc ''SCHEDULER-393''), True)
            | Inr None \<Rightarrow> (Inr empty_period, err)
            | Inr (Some u) \<Rightarrow>
                if u < t then (Inl (Xc ''SCHEDULER-393''), True)
                else if is_never u then (Inr empty_period, err)
                else (Inr (set_single_start empty_period u), err)))"

text \<open>What the loop over the days keeps, apart from the result.\<close>

record search_state =
  last_function_result :: period
  warning_logged :: bool
  function_error :: bool

definition function_step ::
  "inlay \<Rightarrow> (time \<Rightarrow> time option result) \<Rightarrow> bool \<Rightarrow> time \<Rightarrow> with_single_start \<Rightarrow> search_state
   \<Rightarrow> period \<times> search_state" where
  "function_step s script script_active t wss st =
     (if start_time_function s \<noteq> [] \<and> (Wss_next_any_start \<in> wss \<or> Wss_next_single_start \<in> wss) then
        (if \<not> script_active \<and> \<not> warning_logged st then (empty_period, st\<lparr>warning_logged := True\<rparr>)
         else if p_begin (last_function_result st) < t then
           (case call_function script (function_error st) t of
              (Inl e, err) \<Rightarrow> (empty_period, st\<lparr>function_error := err\<rparr>)
            | (Inr p, err) \<Rightarrow>
                (let q = period_min empty_period p in
                 (q, st\<lparr>last_function_result := q, function_error := err\<rparr>)))
         else (empty_period, st))
      else (empty_period, st))"

definition search_day ::
  "inlay \<Rightarrow> (time \<Rightarrow> time option result) \<Rightarrow> bool \<Rightarrow> time \<Rightarrow> with_single_start \<Rightarrow> search_state
   \<Rightarrow> period result \<times> search_state" where
  "search_day s script script_active t wss st =
     (if is_holiday (holidays s) t
      then (next_period_of_same_day s t (insert Wss_when_holiday_ignore_holiday wss), st)
      else (let (p0, st') = function_step s script script_active t wss st in
            (bind_r (next_period_of_same_day s t wss) (\<lambda>q.
               bind_r (earlier_holidays s t wss 1 (period_min p0 q)) (\<lambda>p2.
                 later_holidays s t wss 1 p2)), st')))"

section \<open>The loop over the days\<close>

definition limited_before :: "time \<Rightarrow> time \<Rightarrow> time" where
  "limited_before before beginning = min before (time_plus beginning (days (foresee_years * 366)))"

definition next_day :: "time \<Rightarrow> time" where
  "next_day t = time_plus (midnight t) day_duration"

lemma next_day_value:
  assumes "t < never"
  shows "next_day t = Time (min never_seconds (of_int (day_nr t + 1) * 86400))"
proof -
  have t: "time_of t < never_seconds" using assms by (simp add: less_time_def never_def)
  have m: "midnight t = Time (of_int (day_nr t) * 86400)" using t by (simp add: midnight_exact)
  have b: "of_int (day_nr t) * 86400 < never_seconds" using day_nr_bounds(1)[of t] t by linarith
  have w: "whole_ms (min never_seconds (of_int (day_nr t + 1) * 86400))"
    by (simp add: min_def flip: of_int_add)
  have "next_day t = set_time (min never_seconds (of_int (day_nr t + 1) * 86400))"
    using b never_big by (simp add: next_day_def m time_plus_def is_never_def is_eternal_def day_duration_def
        algebra_simps)
  also have "\<dots> = Time (min never_seconds (of_int (day_nr t + 1) * 86400))"
    using w by (simp only: set_time_above) (simp add: never_def)
  finally show ?thesis .
qed

lemma next_day_later: "t < never \<Longrightarrow> t < next_day t"
  using day_nr_bounds(2)[of t] by (simp add: next_day_value less_time_def never_def distrib_right)

lemma next_day_le_never: "next_day t \<le> never"
  by (simp add: next_day_def time_plus_le_never)

lemma day_nr_next_day: "t < never \<Longrightarrow> next_day t < never \<Longrightarrow> day_nr (next_day t) = day_nr t + 1"
  by (rule day_nr_unique) (auto simp: next_day_value less_time_def never_def min_def split: if_splits)

text \<open>The days up to the end of time that are left.\<close>

definition days_left :: "time \<Rightarrow> nat" where
  "days_left t = (if t < never then Suc (nat (day_nr never - day_nr t)) else 0)"

lemma day_nr_mono: "t \<le> u \<Longrightarrow> day_nr t \<le> day_nr u"
  by (simp add: day_nr_def less_eq_time_def floor_mono zdiv_mono1)

lemma days_left_next_day: "t < never \<Longrightarrow> days_left (next_day t) < days_left t"
  using day_nr_next_day[of t] day_nr_mono[of "next_day t" never] next_day_le_never[of t]
  by (auto simp: days_left_def)

lemma limited_before_never: "limited_before before b \<le> never"
  by (simp add: limited_before_def time_plus_le_never min.coboundedI2)

text \<open>\<open>beginning\<close> and \<open>before\<close> stay the same; \<open>t\<close> is the loop variable.\<close>

function search_days ::
  "inlay \<Rightarrow> (time \<Rightarrow> time option result) \<Rightarrow> bool \<Rightarrow> with_single_start \<Rightarrow> time \<Rightarrow> time \<Rightarrow> time
   \<Rightarrow> search_state \<Rightarrow> period result \<times> search_state" where
  "search_days s script script_active wss before beginning t st =
     (if t < limited_before before beginning then
        (case search_day s script script_active t wss st of
           (Inl e, st') \<Rightarrow> (Inl e, st')
         | (Inr p, st') \<Rightarrow>
             if period_empty p
             then search_days s script script_active wss before beginning (next_day t) st'
             else (Inr p, st'))
      else (Inr empty_period, st))"
  by pat_completeness auto
termination
proof (relation "measure (\<lambda>(s, script, act, wss, before, b, t, st). days_left t)", goal_cases)
  case (2 s script act wss before b t st x y p)
  have "t < never" using 2(1) limited_before_never[of before b] by (rule less_le_trans)
  thus ?case by (simp add: days_left_next_day)
qed simp

declare search_days.simps [simp del]

definition inlay_next_local_period ::
  "inlay \<Rightarrow> (time \<Rightarrow> time option result) \<Rightarrow> bool \<Rightarrow> time \<Rightarrow> with_single_start \<Rightarrow> time
   \<Rightarrow> period result \<times> inlay" where
  "inlay_next_local_period s script script_active beginning wss before =
     (if \<not> is_never beginning \<and> (start_time_function s \<noteq> [] \<or> inlay_is_filled s) then
        (case search_days s script script_active wss before beginning beginning
                \<lparr>last_function_result = set_single_start empty_period (Time 0), warning_logged = False,
                 function_error = start_time_function_error s\<rparr> of
           (r, st) \<Rightarrow> (r, s\<lparr>start_time_function_error := function_error st\<rparr>))
      else (Inr empty_period, s))"

section \<open>Periods of a holiday\<close>

context coming_quality
begin

lemma general:
  assumes "general_days s t wss p = Inr q" and "has_quality Q p"
  shows "has_quality Q q"
proof -
  from assms(1) obtain p1 p2 where
    "min_r (is_day_set_filled (weekday_set s)) (weekday_set_next (weekday_set s) t wss) p = Inr p1"
    and "min_r (monthday_set_is_filled (monthday_set s)) (monthday_set_next (monthday_set s) t wss) p1 = Inr p2"
    and "min_r (is_day_set_filled (ultimo_set s)) (ultimo_set_next (ultimo_set s) t wss) p2 = Inr q"
    unfolding general_days_def by (elim bind_r_InrE)
  from min_r[OF ultimo min_r[OF monthday min_r[OF weekday assms(2) this(1)] this(2)] this(3)]
  show ?thesis .
qed

lemma same_day:
  assumes "next_period_of_same_day s t wss = Inr p" and "at_set s = []"
  shows "has_quality Q p"
proof -
  from assms obtain p2 where d: "min_r (date_set s \<noteq> []) (date_set_next (date_set s) t wss) empty_period = Inr p2"
    and rest: "(if has_month s then
          bind_r (month_nr t) (\<lambda>m.
            if m = 0 then Inl (Assertion ''_months[-1]'')
            else (case months s ! nat (m - 1) of
                    Some d \<Rightarrow> map_sum id (period_min p2) (month_next d t wss)
                  | None \<Rightarrow> general_days s t wss p2))
        else general_days s t wss p2) = Inr p"
    unfolding next_period_of_same_day_def Let_def by (auto elim!: bind_r_InrE simp: period_min_def)
  have p2: "has_quality Q p2" by (rule min_r[OF date_set empty d])
  from rest consider "general_days s t wss p2 = Inr p"
    | d q where "month_next d t wss = Inr q" "p = period_min p2 q"
    by (auto elim!: bind_r_InrE split: if_splits option.splits) (metis map_sum_sel(2) sum.collapse(2) sum.disc(2) id_def map_sum.simps old.sum.exhaust sum.inject(2) Inl_Inr_False)
  thus ?thesis using general[OF _ p2] min[OF p2 month] by cases auto
qed

end

section \<open>The first day with a period\<close>

text \<open>Without a start time function, a day does not depend on what the loop keeps.\<close>

definition day_result :: "inlay \<Rightarrow> with_single_start \<Rightarrow> time \<Rightarrow> period result" where
  "day_result s wss t =
     (if is_holiday (holidays s) t then next_period_of_same_day s t (insert Wss_when_holiday_ignore_holiday wss)
      else bind_r (next_period_of_same_day s t wss) (\<lambda>q.
             bind_r (earlier_holidays s t wss 1 (period_min empty_period q)) (\<lambda>p.
               later_holidays s t wss 1 p)))"

lemma search_day_plain:
  "start_time_function s = [] \<Longrightarrow> search_day s script act t wss st = (day_result s wss t, st)"
  by (simp add: search_day_def day_result_def function_step_def)

definition nth_day :: "time \<Rightarrow> nat \<Rightarrow> time" where
  "nth_day t n = (next_day ^^ n) t"

lemma nth_day_Suc: "nth_day (next_day t) n = nth_day t (Suc n)"
  by (simp add: nth_day_def funpow_swap1)

definition without_period :: "period result \<Rightarrow> bool" where
  "without_period r = (\<exists>p. r = Inr p \<and> period_empty p)"

text \<open>The search ends at the first day that has a period, or where a day fails, or at the limit.\<close>

lemma search_days_first:
  assumes "start_time_function s = []"
  obtains n where "\<And>m. m < n \<Longrightarrow> nth_day t m < limited_before before b \<and> without_period (day_result s wss (nth_day t m))"
    and "search_days s script act wss before b t st =
           (if nth_day t n < limited_before before b then (day_result s wss (nth_day t n), st)
            else (Inr empty_period, st))"
    and "nth_day t n < limited_before before b \<Longrightarrow> \<not> without_period (day_result s wss (nth_day t n))"
proof -
  have "\<exists>n. (\<forall>m < n. nth_day t m < limited_before before b \<and> without_period (day_result s wss (nth_day t m)))
    \<and> search_days s script act wss before b t st =
        (if nth_day t n < limited_before before b then (day_result s wss (nth_day t n), st)
         else (Inr empty_period, st))
    \<and> (nth_day t n < limited_before before b \<longrightarrow> \<not> without_period (day_result s wss (nth_day t n)))"
  proof (induction "days_left t" arbitrary: t rule: less_induct)
    case less
    have zero: "nth_day t 0 = t" by (simp add: nth_day_def)
    show ?case
    proof (cases "t < limited_before before b \<and> without_period (day_result s wss t)")
      case False
      thus ?thesis using assms zero
        by (intro exI[of _ 0], subst search_days.simps)
          (auto simp: search_day_plain without_period_def split: sum.splits)
    next
      case True
      hence "t < never" using limited_before_never[of before b] by (auto intro: less_le_trans)
      from less[OF days_left_next_day[OF this]] obtain n where
        n: "\<And>m. m < n \<Longrightarrow> nth_day t (Suc m) < limited_before before b \<and> without_period (day_result s wss (nth_day t (Suc m)))"
        "search_days s script act wss before b (next_day t) st =
          (if nth_day t (Suc n) < limited_before before b then (day_result s wss (nth_day t (Suc n)), st)
           else (Inr empty_period, st))"
        "nth_day t (Suc n) < limited_before before b \<Longrightarrow> \<not> without_period (day_result s wss (nth_day t (Suc n)))"
        unfolding nth_day_Suc by blast
      have "search_days s script act wss before b t st = search_days s script act wss before b (next_day t) st"
        using True assms by (subst search_days.simps) (auto simp: search_day_plain without_period_def)
      moreover have "nth_day t m < limited_before before b \<and> without_period (day_result s wss (nth_day t m))"
        if "m < Suc n" for m
        using that True zero n(1) by (cases m) auto
      ultimately show ?thesis using n(2,3) by (intro exI[of _ "Suc n"]) auto
    qed
  qed
  thus thesis using that by blast
qed

section \<open>A script that is not active\<close>

text \<open>The warning is logged once; with the next day, the function is called all the same.\<close>

lemma inactive_script_called:
  assumes "start_time_function s \<noteq> []" and "Wss_next_any_start \<in> wss" and "\<not> warning_logged st"
    and "p_begin (last_function_result st) < t" and "\<not> function_error st" and "script t = Inr (Some t)" and "t < never"
  shows "function_step s script False t wss st = (empty_period, st\<lparr>warning_logged := True\<rparr>)"
    and "fst (function_step s script False t wss (st\<lparr>warning_logged := True\<rparr>)) = set_single_start empty_period t"
  using assms
  by (simp_all add: function_step_def call_function_def period_min_def set_single_start_def empty_period_def
      is_never_def never_def less_time_def Let_def)

section \<open>Claims\<close>

text \<open> C35: on a holiday, the days of a schedule yield only periods with \<^verbatim>\<open>when_holiday="ignore_holiday"\<close>,
  with any combination of weekdays, days of the month, months and dates (an \<^verbatim>\<open><at>\<close> is a single start
  at a fixed time and is not subject to it).\<close>

theorem holiday_only_ignoring:
  assumes "is_holiday (holidays s) t" and "at_set s = []"
    and "search_day s script script_active t wss st = (Inr p, st')"
  shows "period_empty p \<or> p_when_holiday p = Wh_ignore_holiday"
  using ignoring.same_day[of s t wss p] assms by (simp add: search_day_def has_quality_def)

definition ex_day :: day where
  "ex_day = [empty_period\<lparr>p_begin := Time 3600, p_end := Time 7200\<rparr>,
             empty_period\<lparr>p_begin := Time 36000, p_end := Time 72000, p_when_holiday := Wh_ignore_holiday\<rparr>]"

definition ex_inlay :: inlay where
  "ex_inlay = (new_inlay \<lparr>holiday_days = [1], holiday_weekdays = replicate 7 False\<rparr>)
     \<lparr>weekday_set := fill_with_default (new_day_set 0 6) ex_day\<rparr>"

definition ex_state :: search_state where
  "ex_state = \<lparr>last_function_result = empty_period, warning_logged = False, function_error = False\<rparr>"

lemma ex_unfilled: "\<not> monthday_set_is_filled new_monthday_set" "\<not> is_day_set_filled (new_day_set a b)"
  by (simp_all add: monthday_set_is_filled_def new_monthday_set_def new_day_set_def)

lemma ex_inlay_holiday:
  "is_holiday (holidays ex_inlay) (Time 86400)"
  "search_day ex_inlay script act (Time 86400) {Wss_next_period} ex_state =
     (Inr (empty_period\<lparr>p_begin := Time 122400, p_end := Time 158400, p_when_holiday := Wh_ignore_holiday\<rparr>), ex_state)"
  by (simp_all add: is_holiday_def ex_inlay_def new_inlay_def day_nr_def search_day_def
      next_period_of_same_day_def general_days_def min_r_def fill_with_default_new
      ex_unfilled weekday_set_next_def weekday_of_day_number_def c_mod_def
      c_div_def time_of_day_def time_diff_def midnight_def set_time_above
      never_seconds_def never_int_def day_next_period_def ex_day_def is_coming_def empty_period_def
      time_order dated_def period_empty_def is_never_def period_plus_def has_date_def time_add_assign_def
      is_eternal_def never_def eternal_def period_min_def)

theorem holiday_only_ignoring_witness:
  "\<not> period_empty (empty_period\<lparr>p_begin := Time 122400, p_end := Time 158400, p_when_holiday := Wh_ignore_holiday\<rparr>)
   \<and> (period_empty (empty_period\<lparr>p_begin := Time 122400, p_end := Time 158400, p_when_holiday := Wh_ignore_holiday\<rparr>)
      \<or> p_when_holiday (empty_period\<lparr>p_begin := Time 122400, p_end := Time 158400, p_when_holiday := Wh_ignore_holiday\<rparr>)
        = Wh_ignore_holiday)"
proof
  show "\<not> period_empty (empty_period\<lparr>p_begin := Time 122400, p_end := Time 158400, p_when_holiday := Wh_ignore_holiday\<rparr>)"
    by (simp add: period_empty_def is_never_def never_seconds_def never_int_def)
  show "period_empty (empty_period\<lparr>p_begin := Time 122400, p_end := Time 158400, p_when_holiday := Wh_ignore_holiday\<rparr>)
      \<or> p_when_holiday (empty_period\<lparr>p_begin := Time 122400, p_end := Time 158400, p_when_holiday := Wh_ignore_holiday\<rparr>)
        = Wh_ignore_holiday"
    by (rule holiday_only_ignoring[OF ex_inlay_holiday(1) _ ex_inlay_holiday(2)])
      (simp add: ex_inlay_def new_inlay_def)
qed

text \<open> C29: a schedule without a start time function is searched day by day from the given time on, and the
  search ends: its result is that of the first day which has a period, and empty if there is none before
  the limit, that is before the given time and within the years it looks ahead.\<close>

theorem search_takes_first_day:
  assumes "start_time_function s = []" and "inlay_is_filled s" and "\<not> is_never b"
  shows "\<exists>n. (\<forall>m < n. nth_day b m < limited_before before b \<and> without_period (day_result s wss (nth_day b m)))
     \<and> inlay_next_local_period s script script_active b wss before
       = (if nth_day b n < limited_before before b then day_result s wss (nth_day b n) else Inr empty_period, s)
     \<and> (nth_day b n < limited_before before b \<longrightarrow> \<not> without_period (day_result s wss (nth_day b n)))"
proof -
  define st where "st = \<lparr>last_function_result = set_single_start empty_period (Time 0), warning_logged = False,
    function_error = start_time_function_error s\<rparr>"
  obtain n where n: "\<And>m. m < n \<Longrightarrow> nth_day b m < limited_before before b \<and> without_period (day_result s wss (nth_day b m))"
    "search_days s script script_active wss before b b st =
       (if nth_day b n < limited_before before b then (day_result s wss (nth_day b n), st) else (Inr empty_period, st))"
    "nth_day b n < limited_before before b \<Longrightarrow> \<not> without_period (day_result s wss (nth_day b n))"
    using search_days_first[OF assms(1), of b before b wss script script_active st] by blast
  have "inlay_next_local_period s script script_active b wss before
      = (if nth_day b n < limited_before before b then day_result s wss (nth_day b n) else Inr empty_period, s)"
    using assms(2,3) n(2) by (simp add: inlay_next_local_period_def st_def[symmetric]) (simp add: st_def)
  with n(1,3) show ?thesis by blast
qed

theorem search_takes_first_day_witness:
  "\<exists>n. (\<forall>m < n. nth_day (Time 86400) m < limited_before never (Time 86400)
        \<and> without_period (day_result ex_inlay {Wss_next_begin} (nth_day (Time 86400) m)))
     \<and> inlay_next_local_period ex_inlay (\<lambda>_. Inr None) True (Time 86400) {Wss_next_begin} never
       = (if nth_day (Time 86400) n < limited_before never (Time 86400)
          then day_result ex_inlay {Wss_next_begin} (nth_day (Time 86400) n) else Inr empty_period, ex_inlay)
     \<and> (nth_day (Time 86400) n < limited_before never (Time 86400)
        \<longrightarrow> \<not> without_period (day_result ex_inlay {Wss_next_begin} (nth_day (Time 86400) n)))"
  by (rule search_takes_first_day)
    (simp_all add: ex_inlay_def new_inlay_def inlay_is_filled_def fill_with_default_def is_never_def
      never_seconds_def never_int_def)

end
