(* ===== verification/Schedule_Covering.thy ===== *)
theory Schedule_Covering
  imports Schedule_Search File_Based_State
begin

text \<open>
  Schedules that cover another one for a time (\<^verbatim>\<open><schedule substitute="...">\<close>, \<^verbatim>\<open>Schedule\<close> in
  \<^verbatim>\<open>schedule.cxx\<close>), the search for a period over all of them, and the use of a schedule by a job or an
  order (\<^verbatim>\<open>Schedule_use\<close>), which works in UTC.

  \<^verbatim>\<open>map<int64,Schedule*>\<close> is a list ordered by its keys. What is told to the users of a schedule is recorded
  as an output. The scheduler script and the time zones of Java are parameters.
\<close>

section \<open>State\<close>

record schedule =
  path :: string
  file_based_state :: file_based_state
  inlay_of :: "inlay option"
  use_set :: "nat list"
  covering_schedules :: "(int \<times> nat) list"
  covered_schedule :: "nat option"

record schedule_world =
  schedules :: "nat \<Rightarrow> schedule"
  schedule_at_path :: "string \<Rightarrow> nat option"
  registered_requisites :: "nat \<Rightarrow> string list"
  told_modified :: "nat list"

abbreviation the_inlay :: "schedule_world \<Rightarrow> nat \<Rightarrow> inlay" where
  "the_inlay w i \<equiv> the (inlay_of (schedules w i))"

definition set_schedule_of :: "schedule_world \<Rightarrow> nat \<Rightarrow> schedule \<Rightarrow> schedule_world" where
  "set_schedule_of w i s = w\<lparr>schedules := (schedules w)(i := s)\<rparr>"

definition on_schedule_modified :: "schedule_world \<Rightarrow> nat \<Rightarrow> schedule_world" where
  "on_schedule_modified w i = w\<lparr>told_modified := told_modified w @ use_set (schedules w i)\<rparr>"

section \<open>Covering\<close>

definition covers_from :: "schedule_world \<Rightarrow> nat \<Rightarrow> time" where
  "covers_from w c = covered_schedule_begin (the_inlay w c)"

definition covers_to :: "schedule_world \<Rightarrow> nat \<Rightarrow> time" where
  "covers_to w c = covered_schedule_end (the_inlay w c)"

definition is_covering :: "schedule_world \<Rightarrow> nat \<Rightarrow> bool" where
  "is_covering w i = (covered_schedule_path (the_inlay w i) \<noteq> [])"

definition is_covering_at :: "schedule_world \<Rightarrow> nat \<Rightarrow> time \<Rightarrow> bool" where
  "is_covering_at w c t = (is_covering w c \<and> covers_from w c \<le> t \<and> t < covers_to w c)"

definition before_key :: "(int \<Rightarrow> bool) \<Rightarrow> (int \<times> nat) list \<Rightarrow> nat option" where
  "before_key P m = (case rev (takeWhile (\<lambda>e. P (fst e)) m) of [] \<Rightarrow> None | e # _ \<Rightarrow> Some (snd e))"

text \<open>\<^verbatim>\<open>lower_bound\<close> of the end and the entry before it.\<close>

definition assert_no_overlapped_covering :: "schedule_world \<Rightarrow> nat \<Rightarrow> nat \<Rightarrow> unit result" where
  "assert_no_overlapped_covering w i c =
     (case before_key (\<lambda>k. k < time_millis (covers_to w c)) (covering_schedules (schedules w i)) of
        None \<Rightarrow> Inr ()
      | Some d \<Rightarrow> if covers_from w c < covers_to w d then Inl (Xc ''SCHEDULER-465'') else Inr ())"

fun put_key :: "int \<Rightarrow> nat \<Rightarrow> (int \<times> nat) list \<Rightarrow> (int \<times> nat) list" where
  "put_key k c [] = [(k, c)]"
| "put_key k c (e # m) =
     (if k < fst e then (k, c) # e # m else if k = fst e then (k, c) # m else e # put_key k c m)"

definition cover_with_schedule :: "schedule_world \<Rightarrow> nat \<Rightarrow> nat \<Rightarrow> schedule_world result" where
  "cover_with_schedule w i c =
     (if is_covering w i then Inl (Xc ''SCHEDULER-463'')
      else bind_r (assert_no_overlapped_covering w i c) (\<lambda>_.
        let s = schedules w i in
        Inr (on_schedule_modified
          (set_schedule_of w i (s\<lparr>covering_schedules :=
             put_key (time_millis (covers_from w c)) c (covering_schedules s)\<rparr>)) i)))"

definition uncover_from_schedule :: "schedule_world \<Rightarrow> nat \<Rightarrow> nat \<Rightarrow> schedule_world result" where
  "uncover_from_schedule w i c =
     (let s = schedules w i; k = time_millis (covers_from w c) in
      if k \<notin> fst ` set (covering_schedules s) then Inl (Assertion ''uncover_from_schedule'')
      else Inr (on_schedule_modified
        (set_schedule_of w i (s\<lparr>covering_schedules := filter (\<lambda>e. fst e \<noteq> k) (covering_schedules s)\<rparr>)) i))"

definition set_incomplete :: "schedule_world \<Rightarrow> nat \<Rightarrow> schedule_world" where
  "set_incomplete w i = set_schedule_of w i ((schedules w i)\<lparr>file_based_state := S_incomplete\<rparr>)"

definition try_connect_covered_schedule :: "schedule_world \<Rightarrow> nat \<Rightarrow> (bool \<times> schedule_world) result" where
  "try_connect_covered_schedule w i =
     (if covered_schedule (schedules w i) = None \<and> covered_schedule_path (the_inlay w i) \<noteq> [] then
        (case schedule_at_path w (covered_schedule_path (the_inlay w i)) of
           Some j \<Rightarrow>
             bind_r (cover_with_schedule w j i) (\<lambda>w'.
               Inr (True, set_schedule_of w' i ((schedules w' i)\<lparr>covered_schedule := Some j\<rparr>)))
         | None \<Rightarrow>
             Inr (False, if file_based_state (schedules w i) = S_active then set_incomplete w i else w))
      else Inr (covered_schedule (schedules w i) \<noteq> None, w))"

definition disconnect_covered_schedule :: "schedule_world \<Rightarrow> nat \<Rightarrow> schedule_world result" where
  "disconnect_covered_schedule w i =
     (case covered_schedule (schedules w i) of
        None \<Rightarrow> Inr w
      | Some j \<Rightarrow>
          bind_r (uncover_from_schedule w j i) (\<lambda>w1.
            let w2 = set_schedule_of w1 i ((schedules w1 i)\<lparr>covered_schedule := None\<rparr>) in
            Inr (if file_based_state (schedules w2 i) = S_active
                    \<and> covered_schedule_path (the_inlay w2 i) \<in> set (registered_requisites w2 i)
                 then set_incomplete w2 i else w2)))"

text \<open>\<^verbatim>\<open>initialize_inlay\<close>, \<^verbatim>\<open>try_load_inlay\<close> and \<^verbatim>\<open>set_inlay\<close>; the objects are compared by their address,
  here \<open>changed\<close> says whether they differ.\<close>

definition initialize_inlay :: "schedule_world \<Rightarrow> nat \<Rightarrow> schedule_world" where
  "initialize_inlay w i =
     (let p = covered_schedule_path (the_inlay w i) in
      if p \<noteq> [] then w\<lparr>registered_requisites := (registered_requisites w)(i := List.insert p (registered_requisites w i))\<rparr>
      else w)"

definition try_load_inlay :: "schedule_world \<Rightarrow> nat \<Rightarrow> (bool \<times> schedule_world) result" where
  "try_load_inlay w i =
     (if covered_schedule_path (the_inlay w i) \<noteq> [] then try_connect_covered_schedule w i else Inr (True, w))"

definition remove_inlay_requisite :: "schedule_world \<Rightarrow> nat \<Rightarrow> schedule_world" where
  "remove_inlay_requisite w i =
     w\<lparr>registered_requisites := (registered_requisites w)
        (i := removeAll (covered_schedule_path (the_inlay w i)) (registered_requisites w i))\<rparr>"

definition leave_inlay :: "schedule_world \<Rightarrow> nat \<Rightarrow> schedule_world result" where
  "leave_inlay w i =
     (if inlay_of (schedules w i) \<noteq> None \<and> covered_schedule_path (the_inlay w i) \<noteq> []
      then disconnect_covered_schedule (remove_inlay_requisite w i) i else Inr w)"

definition enter_inlay :: "schedule_world \<Rightarrow> nat \<Rightarrow> schedule_world result" where
  "enter_inlay w i =
     (if inlay_of (schedules w i) \<noteq> None \<and> S_initialized \<le> file_based_state (schedules w i) then
        (let w1 = initialize_inlay w i in
         if S_loaded \<le> file_based_state (schedules w1 i)
         then bind_r (try_load_inlay w1 i) (\<lambda>(_, w2). Inr (on_schedule_modified w2 i))
         else Inr w1)
      else Inr w)"

definition set_inlay :: "schedule_world \<Rightarrow> nat \<Rightarrow> bool \<Rightarrow> inlay option \<Rightarrow> schedule_world result" where
  "set_inlay w i changed x =
     (if changed then
        bind_r (leave_inlay w i) (\<lambda>w1.
          enter_inlay (set_schedule_of w1 i ((schedules w1 i)\<lparr>inlay_of := x\<rparr>)) i)
      else Inr w)"

definition schedule_on_initialize :: "schedule_world \<Rightarrow> nat \<Rightarrow> schedule_world" where
  "schedule_on_initialize w i = initialize_inlay w i"

definition schedule_on_activate :: "schedule_world \<Rightarrow> nat \<Rightarrow> (bool \<times> schedule_world) result" where
  "schedule_on_activate w i =
     bind_r (try_load_inlay w i) (\<lambda>(ok, w'). Inr (ok, if ok then w' else set_incomplete w' i))"

section \<open>The schedule at a time\<close>

definition covering_schedule_at :: "schedule_world \<Rightarrow> nat \<Rightarrow> time \<Rightarrow> nat option" where
  "covering_schedule_at w i t =
     (case before_key (\<lambda>k. k \<le> time_millis t) (covering_schedules (schedules w i)) of
        None \<Rightarrow> None
      | Some c \<Rightarrow> if is_covering_at w c t then Some c else None)"

definition active_schedule_at :: "schedule_world \<Rightarrow> nat \<Rightarrow> time \<Rightarrow> nat" where
  "active_schedule_at w i t = (case covering_schedule_at w i t of Some c \<Rightarrow> c | None \<Rightarrow> i)"

definition active_schedule_path_at :: "schedule_world \<Rightarrow> nat \<Rightarrow> time \<Rightarrow> string" where
  "active_schedule_path_at w i t =
     (case covering_schedule_at w i t of Some c \<Rightarrow> path (schedules w c) | None \<Rightarrow> path (schedules w i))"

section \<open>The next period\<close>

text \<open>What a search needs besides the world: the script by the name of its function, whether it is active,
  which periods are asked for, and the limit.\<close>

record search_input =
  script_of :: "string \<Rightarrow> time \<Rightarrow> time option result"
  script_active :: bool
  wss_of :: with_single_start
  before_of :: time

definition inlay_search :: "search_input \<Rightarrow> schedule_world \<Rightarrow> nat \<Rightarrow> time \<Rightarrow> period result \<times> schedule_world" where
  "inlay_search x w c t =
     (case inlay_next_local_period (the_inlay w c) (script_of x (start_time_function (the_inlay w c)))
             (script_active x) t (wss_of x) (before_of x) of
        (r, inl) \<Rightarrow> (r, set_schedule_of w c ((schedules w c)\<lparr>inlay_of := Some inl\<rparr>)))"

text \<open>A period that was found, with the interval in which its schedule is the active one.\<close>

type_synonym found = "period \<times> time \<times> time"

text \<open>
  The loop of \<^verbatim>\<open>Schedule::next_local_period\<close>: \<open>prev\<close> is the schedule before the iterator, \<open>rest\<close> the
  schedules from the iterator on. \<open>gap_search\<close> looks at the gap up to the next covering schedule.
\<close>

definition gap_end :: "schedule_world \<Rightarrow> (int \<times> nat) list \<Rightarrow> time" where
  "gap_end w rest = (case rest of [] \<Rightarrow> never | e # _ \<Rightarrow> covers_from w (snd e))"

definition gap_search ::
  "search_input \<Rightarrow> schedule_world \<Rightarrow> nat \<Rightarrow> time \<Rightarrow> time \<Rightarrow> time \<Rightarrow> found option result \<times> schedule_world" where
  "gap_search x w i interval_begin interval_end t =
     (if interval_begin < interval_end then
        (case inlay_search x w i t of
           (Inl e, w') \<Rightarrow> (Inl e, w')
         | (Inr p, w') \<Rightarrow>
             (Inr (if p_begin p < interval_end
                   then Some (p\<lparr>schedule_path := path (schedules w i)\<rparr>, interval_begin, interval_end)
                   else None), w'))
      else (Inr None, w))"

definition cover_search ::
  "search_input \<Rightarrow> schedule_world \<Rightarrow> nat \<Rightarrow> time \<Rightarrow> found option result \<times> schedule_world" where
  "cover_search x w c t =
     (case inlay_search x w c t of
        (Inl e, w') \<Rightarrow> (Inl e, w')
      | (Inr p, w') \<Rightarrow>
          (Inr (if p_begin p < covers_to w c
                then Some (p\<lparr>schedule_path := path (schedules w c)\<rparr>, covers_from w c, covers_to w c)
                else None), w'))"

fun cover_loop ::
  "search_input \<Rightarrow> schedule_world \<Rightarrow> nat \<Rightarrow> nat option \<Rightarrow> (int \<times> nat) list \<Rightarrow> time \<Rightarrow> found result \<times> schedule_world" where
  "cover_loop x w i prev rest t =
     (case (case prev of
              Some c \<Rightarrow> if is_covering_at w c t then cover_search x w c t else (Inr None, w)
            | None \<Rightarrow> (Inr None, w)) of
        (Inl e, w1) \<Rightarrow> (Inl e, w1)
      | (Inr (Some found), w1) \<Rightarrow> (Inr found, w1)
      | (Inr None, w1) \<Rightarrow>
          (let t1 = (case prev of Some c \<Rightarrow> if is_covering_at w c t then covers_to w c else t | None \<Rightarrow> t);
               ib = (case prev of Some c \<Rightarrow> covers_to w c | None \<Rightarrow> Time 0);
               ie = gap_end w rest
           in (case gap_search x w1 i ib ie t1 of
                 (Inl e, w2) \<Rightarrow> (Inl e, w2)
               | (Inr (Some found), w2) \<Rightarrow> (Inr found, w2)
               | (Inr None, w2) \<Rightarrow>
                   if is_never ie then (Inr (empty_period, ib, ie), w2)
                   else (case rest of
                           [] \<Rightarrow> (Inr (empty_period, ib, ie), w2)
                         | e # rest' \<Rightarrow> cover_loop x w2 i (Some (snd e)) rest' ie))))"

declare cover_loop.simps [simp del]

text \<open>The period is cut to the interval of its schedule, unless it is a single start.\<close>

definition cut_period :: "found \<Rightarrow> period" where
  "cut_period found =
     (case found of (p, ib, ie) \<Rightarrow>
        if single_start p then p
        else p\<lparr>absolute_repeat_begin := p_begin p,
               p_begin := (if p_begin p < ib then ib else p_begin p),
               p_end := (if ie < p_end p then ie else p_end p)\<rparr>)"

definition next_local_period ::
  "search_input \<Rightarrow> schedule_world \<Rightarrow> nat \<Rightarrow> time \<Rightarrow> period result \<times> schedule_world" where
  "next_local_period x w i t =
     (let m = covering_schedules (schedules w i);
          prev = before_key (\<lambda>k. k \<le> time_millis t) m;
          rest = dropWhile (\<lambda>e. fst e \<le> time_millis t) m
      in (case cover_loop x w i prev rest t of
            (Inl e, w') \<Rightarrow> (Inl e, w')
          | (Inr found, w') \<Rightarrow> (Inr (cut_period found), w')))"

section \<open>Schedule_use\<close>

record schedule_use =
  use_schedule_path :: string
  use_schedule :: "nat option"
  use_active_schedule_path :: string
  time_zone_name :: string

definition use_set_schedule ::
  "schedule_world \<Rightarrow> nat \<Rightarrow> schedule_use \<Rightarrow> nat option \<Rightarrow> (schedule_use \<times> schedule_world) result" where
  "use_set_schedule w u use x =
     (if x = use_schedule use then Inr (use, w)
      else if (case x of Some j \<Rightarrow> is_covering w j | None \<Rightarrow> False) then Inl (Xc ''SCHEDULER-466'')
      else (let w1 = (case use_schedule use of None \<Rightarrow> w
                      | Some j \<Rightarrow> set_schedule_of w j ((schedules w j)\<lparr>use_set := removeAll u (use_set (schedules w j))\<rparr>));
                w2 = (case x of None \<Rightarrow> w1
                      | Some j \<Rightarrow> set_schedule_of w1 j ((schedules w1 j)\<lparr>use_set := List.insert u (use_set (schedules w1 j))\<rparr>))
            in Inr (use\<lparr>use_schedule := x\<rparr>, w2)))"

definition use_the_schedule :: "schedule_use \<Rightarrow> nat result" where
  "use_the_schedule use = (case use_schedule use of None \<Rightarrow> Inl (Xc ''Schedule_use::schedule'') | Some j \<Rightarrow> Inr j)"

definition use_try_load :: "schedule_world \<Rightarrow> nat \<Rightarrow> schedule_use \<Rightarrow> (bool \<times> schedule_use \<times> schedule_world) result" where
  "use_try_load w u use =
     (if use_schedule use = None \<and> use_schedule_path use \<noteq> [] then
        (case schedule_at_path w (use_schedule_path use) of
           None \<Rightarrow> Inr (False, use, w)
         | Some j \<Rightarrow> bind_r (use_set_schedule w u use (Some j)) (\<lambda>(use', w'). Inr (True, use', w')))
      else Inr (use_schedule use \<noteq> None, use, w))"

record time_zones =
  to_local :: "string \<Rightarrow> int \<Rightarrow> int"
  to_utc :: "string \<Rightarrow> int \<Rightarrow> int"

definition period_to_utc :: "time_zones \<Rightarrow> string \<Rightarrow> period \<Rightarrow> period" where
  "period_to_utc z zone p =
     p\<lparr>p_begin := utc_from_time_zone (to_utc z) zone (p_begin p),
       p_end := utc_from_time_zone (to_utc z) zone (p_end p),
       absolute_repeat_begin := utc_from_time_zone (to_utc z) zone (absolute_repeat_begin p)\<rparr>"

definition use_next_period ::
  "time_zones \<Rightarrow> search_input \<Rightarrow> schedule_world \<Rightarrow> schedule_use \<Rightarrow> time \<Rightarrow> period result \<times> schedule_world" where
  "use_next_period z x w use t =
     (case use_the_schedule use of
        Inl e \<Rightarrow> (Inl e, w)
      | Inr i \<Rightarrow>
          (case next_local_period (x\<lparr>before_of := local_time (to_local z) (time_zone_name use) (before_of x)\<rparr>) w i
                  (local_time (to_local z) (time_zone_name use) t) of
             (Inl e, w') \<Rightarrow> (Inl e, w')
           | (Inr p, w') \<Rightarrow> (Inr (period_to_utc z (time_zone_name use) p), w')))"

definition use_next_single_start ::
  "time_zones \<Rightarrow> search_input \<Rightarrow> schedule_world \<Rightarrow> schedule_use \<Rightarrow> time \<Rightarrow> time result \<times> schedule_world" where
  "use_next_single_start z x w use t =
     (case use_next_period z (x\<lparr>wss_of := {Wss_next_single_start}, before_of := never\<rparr>) w use t of
        (Inl e, w') \<Rightarrow> (Inl e, w')
      | (Inr p, w') \<Rightarrow>
          (Inr (if \<not> is_eternal (absolute_repeat p) then next_absolute_repeated p t else p_begin p), w'))"

definition use_next_any_start ::
  "time_zones \<Rightarrow> search_input \<Rightarrow> schedule_world \<Rightarrow> schedule_use \<Rightarrow> time \<Rightarrow> time result \<times> schedule_world" where
  "use_next_any_start z x w use t =
     (case use_next_period z (x\<lparr>wss_of := {Wss_next_any_start}, before_of := never\<rparr>) w use t of
        (Inl e, w') \<Rightarrow> (Inl e, w')
      | (Inr p, w') \<Rightarrow>
          (Inr (if \<not> is_eternal (absolute_repeat p) then next_repeated p t else p_begin p), w'))"

definition use_next_allowed_start ::
  "time_zones \<Rightarrow> search_input \<Rightarrow> schedule_world \<Rightarrow> schedule_use \<Rightarrow> time \<Rightarrow> time result \<times> schedule_world" where
  "use_next_allowed_start z x w use t =
     (if use_schedule use = None then (Inr never, w)
      else (case use_next_period z (x\<lparr>wss_of := {Wss_next_period}, before_of := never\<rparr>) w use t of
              (Inl e, w') \<Rightarrow> (Inl e, w')
            | (Inr p, w') \<Rightarrow> (Inr (max t (p_begin p)), w')))"

section \<open>Times as keys\<close>

definition clock_time :: "time \<Rightarrow> bool" where
  "clock_time t = (time_ok t \<and> 0 \<le> time_of t)"

lemma time_millis_exact:
  assumes "clock_time t"
  shows "of_int (time_millis t) = time_of t * 1000"
proof -
  obtain n where n: "time_of t * 1000 = of_int n"
    using assms by (auto simp: clock_time_def time_ok_def whole_ms_def Ints_def)
  have pos: "0 \<le> time_of t * 1000" using assms by (simp add: clock_time_def)
  hence "0 \<le> time_of t * 1000 + 1 / 2" by linarith
  hence "time_millis t = \<lfloor>time_of t * 1000 + 1 / 2\<rfloor>" by (simp add: time_millis_def trunc_def)
  also have "\<dots> = n" unfolding n by linarith
  finally show ?thesis using n by simp
qed

lemma time_millis_less: "clock_time t \<Longrightarrow> clock_time u \<Longrightarrow> time_millis t < time_millis u \<longleftrightarrow> t < u"
  using time_millis_exact[of t] time_millis_exact[of u]
  by (simp add: less_time_def flip: of_int_less_iff[where 'a = rat])

lemma time_millis_le: "clock_time t \<Longrightarrow> clock_time u \<Longrightarrow> time_millis t \<le> time_millis u \<longleftrightarrow> t \<le> u"
  using time_millis_less[of u t] by (auto simp: not_less[symmetric])

section \<open>The covering schedules do not overlap\<close>

definition covering_valid :: "schedule_world \<Rightarrow> nat \<Rightarrow> bool" where
  "covering_valid w c =
     (is_covering w c \<and> covers_from w c < covers_to w c
      \<and> clock_time (covers_from w c) \<and> clock_time (covers_to w c))"

definition ends_before :: "schedule_world \<Rightarrow> (int \<times> nat) \<Rightarrow> (int \<times> nat) \<Rightarrow> bool" where
  "ends_before w a b = (covers_to w (snd a) \<le> covers_from w (snd b))"

definition entry_ok :: "schedule_world \<Rightarrow> (int \<times> nat) \<Rightarrow> bool" where
  "entry_ok w e = (covering_valid w (snd e) \<and> fst e = time_millis (covers_from w (snd e)))"

definition covering_list_ok :: "schedule_world \<Rightarrow> (int \<times> nat) list \<Rightarrow> bool" where
  "covering_list_ok w m = (sorted_wrt (ends_before w) m \<and> (\<forall>e \<in> set m. entry_ok w e))"

definition covering_ok :: "schedule_world \<Rightarrow> nat \<Rightarrow> bool" where
  "covering_ok w i = covering_list_ok w (covering_schedules (schedules w i))"

lemma covering_list_split:
  assumes "covering_list_ok w (xs @ (k, c) # ys)"
  shows "k = time_millis (covers_from w c)" and "covering_valid w c"
    and "\<And>e. e \<in> set xs \<Longrightarrow> covers_to w (snd e) \<le> covers_from w c"
    and "\<And>e. e \<in> set ys \<Longrightarrow> covers_to w c \<le> covers_from w (snd e)"
    and "\<And>e. e \<in> set xs \<union> set ys \<Longrightarrow> entry_ok w e"
  using assms by (auto simp: covering_list_ok_def sorted_wrt_append ends_before_def entry_ok_def)

lemma before_key_take:
  assumes "\<And>e. e \<in> set xs \<Longrightarrow> P (fst e)" and "\<And>e. e \<in> set ys \<Longrightarrow> \<not> P (fst e)"
  shows "before_key P (xs @ ys) = (if xs = [] then None else Some (snd (last xs)))"
proof -
  have "takeWhile (\<lambda>e. P (fst e)) (xs @ ys) = xs"
    using assms by (cases ys) (auto simp: takeWhile_append2)
  thus ?thesis by (cases xs rule: rev_cases) (auto simp: before_key_def)
qed

lemma before_key_split:
  "before_key P m = Some c \<Longrightarrow> \<exists>xs k ys. m = xs @ (k, c) # ys \<and> P k \<and> takeWhile (\<lambda>e. P (fst e)) m = xs @ [(k, c)]"
  "before_key P m = None \<Longrightarrow> takeWhile (\<lambda>e. P (fst e)) m = []"
proof -
  let ?t = "takeWhile (\<lambda>e. P (fst e)) m"
  have m: "m = ?t @ dropWhile (\<lambda>e. P (fst e)) m" by simp
  show "before_key P m = None \<Longrightarrow> ?t = []" by (auto simp: before_key_def split: list.splits)
  assume "before_key P m = Some c"
  then obtain e es where r: "rev ?t = e # es" "snd e = c" by (auto simp: before_key_def split: list.splits)
  hence t: "?t = rev es @ [e]" by (metis rev.simps(2) rev_rev_ident)
  hence "P (fst e)" by (metis in_set_conv_decomp set_takeWhileD)
  thus "\<exists>xs k ys. m = xs @ (k, c) # ys \<and> P k \<and> ?t = xs @ [(k, c)]"
  proof (intro exI conjI)
    show "?t = rev es @ [(fst e, c)]" using t r(2) by (cases e) simp
    show "m = rev es @ (fst e, c) # dropWhile (\<lambda>e. P (fst e)) m"
      by (subst m, subst t) (use r(2) in \<open>cases e, simp\<close>)
  qed (simp add: \<open>P (fst e)\<close>)
qed

lemma entry_key_le:
  "entry_ok w e \<Longrightarrow> clock_time t \<Longrightarrow> fst e \<le> time_millis t \<longleftrightarrow> covers_from w (snd e) \<le> t"
  by (auto simp: entry_ok_def covering_valid_def time_millis_le)

lemma entry_key_less:
  "entry_ok w e \<Longrightarrow> clock_time t \<Longrightarrow> fst e < time_millis t \<longleftrightarrow> covers_from w (snd e) < t"
  by (auto simp: entry_ok_def covering_valid_def time_millis_less)

lemma before_key_covering:
  assumes ok: "covering_list_ok w m" and t: "clock_time t"
    and c: "(k, c) \<in> set m" "covers_from w c \<le> t" "t < covers_to w c"
  shows "before_key (\<lambda>k. k \<le> time_millis t) m = Some c"
proof -
  obtain xs ys where m: "m = xs @ (k, c) # ys" using c(1) by (auto simp: in_set_conv_decomp)
  note sp = covering_list_split[OF ok[unfolded m]]
  have lo: "fst e \<le> time_millis t" if "e \<in> set (xs @ [(k, c)])" for e
  proof (cases "e \<in> set xs")
    case True
    hence e: "entry_ok w e" "covers_to w (snd e) \<le> covers_from w c" using sp(3,5) by auto
    hence "covers_from w (snd e) < t" using c(2) by (auto simp: entry_ok_def covering_valid_def)
    thus ?thesis using entry_key_le[OF e(1) t] by simp
  next
    case False
    hence "e = (k, c)" using that by simp
    thus ?thesis using sp(1,2) c(2) t by (simp add: time_millis_le covering_valid_def)
  qed
  have hi: "\<not> fst e \<le> time_millis t" if "e \<in> set ys" for e
    using sp(4,5)[of e] that entry_key_le[of w e t] t c(3) by auto
  show ?thesis using before_key_take[of "xs @ [(k, c)]" "\<lambda>k. k \<le> time_millis t" ys] lo hi m by simp
qed

lemma covering_schedule_at_Some:
  assumes ok: "covering_ok w i" and t: "clock_time t"
  shows "covering_schedule_at w i t = Some c \<longleftrightarrow>
    c \<in> snd ` set (covering_schedules (schedules w i)) \<and> covers_from w c \<le> t \<and> t < covers_to w c"
proof
  assume "covering_schedule_at w i t = Some c"
  hence b: "before_key (\<lambda>k. k \<le> time_millis t) (covering_schedules (schedules w i)) = Some c"
    and at: "is_covering_at w c t" by (auto simp: covering_schedule_at_def split: option.splits if_splits)
  from before_key_split(1)[OF b] have "c \<in> snd ` set (covering_schedules (schedules w i))" by force
  with at show "c \<in> snd ` set (covering_schedules (schedules w i)) \<and> covers_from w c \<le> t \<and> t < covers_to w c"
    by (simp add: is_covering_at_def)
next
  assume r: "c \<in> snd ` set (covering_schedules (schedules w i)) \<and> covers_from w c \<le> t \<and> t < covers_to w c"
  then obtain k where k: "(k, c) \<in> set (covering_schedules (schedules w i))" by auto
  hence "entry_ok w (k, c)" using ok by (auto simp: covering_ok_def covering_list_ok_def)
  hence "is_covering_at w c t" using r by (simp add: is_covering_at_def entry_ok_def covering_valid_def)
  with before_key_covering[OF ok[unfolded covering_ok_def] t k] r
  show "covering_schedule_at w i t = Some c" by (simp add: covering_schedule_at_def)
qed

lemma covering_schedule_at_None:
  assumes "covering_ok w i" and "clock_time t"
    and "\<And>e. e \<in> set (covering_schedules (schedules w i)) \<Longrightarrow> covers_to w (snd e) \<le> t \<or> t < covers_from w (snd e)"
  shows "covering_schedule_at w i t = None"
  using covering_schedule_at_Some[OF assms(1,2)] assms(3)
  by (metis (no_types, lifting) image_iff linorder_not_less not_Some_eq)

section \<open>Entering a covering schedule\<close>

definition apart :: "schedule_world \<Rightarrow> nat \<Rightarrow> nat \<Rightarrow> bool" where
  "apart w c d = (covers_to w d \<le> covers_from w c \<or> covers_to w c \<le> covers_from w d)"

text \<open>The entries that begin before the end of the new schedule, and those after it.\<close>

lemma list_parts:
  assumes ok: "covering_list_ok w m" and c: "covering_valid w c"
  obtains xs ys where "m = xs @ ys"
    and "before_key (\<lambda>k. k < time_millis (covers_to w c)) m = (if xs = [] then None else Some (snd (last xs)))"
    and "\<And>e. e \<in> set xs \<Longrightarrow> covers_from w (snd e) < covers_to w c"
    and "\<And>e. e \<in> set ys \<Longrightarrow> covers_to w c \<le> covers_from w (snd e)"
proof -
  define xs where "xs = takeWhile (\<lambda>e. fst e < time_millis (covers_to w c)) m"
  define ys where "ys = dropWhile (\<lambda>e. fst e < time_millis (covers_to w c)) m"
  have m: "m = xs @ ys" by (simp add: xs_def ys_def)
  have t: "clock_time (covers_to w c)" using c by (simp add: covering_valid_def)
  have entry: "entry_ok w e" if "e \<in> set m" for e using that ok by (simp add: covering_list_ok_def)
  have lo: "fst e < time_millis (covers_to w c)" if "e \<in> set xs" for e
    using that by (auto simp: xs_def dest: set_takeWhileD)
  have hi: "\<not> fst e < time_millis (covers_to w c)" if e: "e \<in> set ys" for e
  proof (cases ys)
    case (Cons f fs)
    hence f: "\<not> fst f < time_millis (covers_to w c)"
      unfolding ys_def by (metis hd_dropWhile list.sel(1) neq_Nil_conv)
    show ?thesis
    proof (cases "e = f")
      case False
      with Cons e have "e \<in> set fs" by simp
      hence le: "covers_to w (snd f) \<le> covers_from w (snd e)"
        using ok m Cons by (auto simp: covering_list_ok_def sorted_wrt_append ends_before_def)
      have "f \<in> set m" "e \<in> set m" using m Cons e by auto
      hence "entry_ok w f" "entry_ok w e" using entry by blast+
      hence "fst f \<le> fst e" using le
        by (auto simp: entry_ok_def covering_valid_def time_millis_le)
      with f show ?thesis by simp
    qed (use f in simp)
  qed (use e in simp)
  show thesis
  proof (rule that[OF m])
    show "before_key (\<lambda>k. k < time_millis (covers_to w c)) m = (if xs = [] then None else Some (snd (last xs)))"
      using before_key_take[of xs "\<lambda>k. k < time_millis (covers_to w c)" ys] lo hi m by simp
    show "covers_from w (snd e) < covers_to w c" if "e \<in> set xs" for e
      using lo[OF that] entry_key_less[OF entry t, of e] that m by simp
    show "covers_to w c \<le> covers_from w (snd e)" if "e \<in> set ys" for e
      using hi[OF that] entry_key_less[OF entry t, of e] that m by auto
  qed
qed

lemma put_key_between:
  assumes "\<And>e. e \<in> set xs \<Longrightarrow> fst e < k" and "\<And>e. e \<in> set ys \<Longrightarrow> k < fst e"
  shows "put_key k c (xs @ ys) = xs @ (k, c) # ys"
  using assms(1)
proof (induction xs)
  case Nil
  thus ?case using assms(2) by (cases ys) auto
next
  case (Cons e xs)
  hence "fst e < k" by simp
  moreover have "put_key k c (xs @ ys) = xs @ (k, c) # ys" by (rule Cons(1)) (use Cons(2) in simp)
  ultimately show ?case by simp
qed

lemma sorted_ends:
  assumes "covering_list_ok w (xs @ [e])" and "d \<in> set xs"
  shows "covers_to w (snd d) \<le> covers_from w (snd e)" and "covers_from w (snd e) < covers_to w (snd e)"
  using assms by (auto simp: covering_list_ok_def sorted_wrt_append ends_before_def entry_ok_def covering_valid_def)

lemma no_overlap_iff:
  assumes ok: "covering_list_ok w (covering_schedules (schedules w i))" and c: "covering_valid w c"
  shows "assert_no_overlapped_covering w i c =
     (if \<forall>d \<in> snd ` set (covering_schedules (schedules w i)). apart w c d then Inr () else Inl (Xc ''SCHEDULER-465''))"
proof -
  let ?m = "covering_schedules (schedules w i)"
  obtain xs ys where p: "?m = xs @ ys"
      "before_key (\<lambda>k. k < time_millis (covers_to w c)) ?m = (if xs = [] then None else Some (snd (last xs)))"
      "\<And>e. e \<in> set xs \<Longrightarrow> covers_from w (snd e) < covers_to w c"
      "\<And>e. e \<in> set ys \<Longrightarrow> covers_to w c \<le> covers_from w (snd e)"
    using list_parts[OF ok c] by metis
  have later: "apart w c (snd e)" if "e \<in> set ys" for e using p(4)[OF that] by (simp add: apart_def)
  have earlier: "apart w c (snd e) \<longleftrightarrow> covers_to w (snd e) \<le> covers_from w c" if "e \<in> set xs" for e
    using p(3)[OF that] by (auto simp: apart_def)
  show ?thesis
  proof (cases xs rule: rev_cases)
    case Nil
    thus ?thesis using p(1,2) later by (auto simp: assert_no_overlapped_covering_def)
  next
    case (snoc zs z)
    have okz: "covering_list_ok w (zs @ [z])"
      using ok p(1) snoc by (auto simp: covering_list_ok_def sorted_wrt_append)
    have "(\<forall>e \<in> set xs. apart w c (snd e)) \<longleftrightarrow> covers_to w (snd z) \<le> covers_from w c"
    proof
      assume "covers_to w (snd z) \<le> covers_from w c"
      moreover have "covers_to w (snd e) \<le> covers_to w (snd z)" if "e \<in> set zs" for e
        using sorted_ends[OF okz that] by order
      ultimately show "\<forall>e \<in> set xs. apart w c (snd e)" using earlier snoc by (auto intro: order_trans)
    qed (use earlier snoc in auto)
    thus ?thesis using p(1,2) later snoc
      by (auto simp: assert_no_overlapped_covering_def not_less)
  qed
qed

lemma covers_set_schedule:
  "covers_from (set_schedule_of w i (schedules w i\<lparr>covering_schedules := m\<rparr>)) = covers_from w"
  "covers_to (set_schedule_of w i (schedules w i\<lparr>covering_schedules := m\<rparr>)) = covers_to w"
  "is_covering (set_schedule_of w i (schedules w i\<lparr>covering_schedules := m\<rparr>)) = is_covering w"
  by (auto simp: fun_eq_iff covers_from_def covers_to_def is_covering_def set_schedule_of_def)

lemma covers_modified [simp]:
  "covers_from (on_schedule_modified w i) = covers_from w" "covers_to (on_schedule_modified w i) = covers_to w"
  "is_covering (on_schedule_modified w i) = is_covering w" "schedules (on_schedule_modified w i) = schedules w"
  by (auto simp: fun_eq_iff covers_from_def covers_to_def is_covering_def on_schedule_modified_def)

lemma covering_list_ok_cong:
  "covers_from w' = covers_from w \<Longrightarrow> covers_to w' = covers_to w \<Longrightarrow> is_covering w' = is_covering w
   \<Longrightarrow> covering_list_ok w' m = covering_list_ok w m"
  by (simp add: covering_list_ok_def ends_before_def[abs_def] entry_ok_def covering_valid_def)

lemma cover_outcome:
  assumes ok: "covering_ok w i" and c: "covering_valid w c" and i: "\<not> is_covering w i"
    and fresh: "\<forall>d \<in> snd ` set (covering_schedules (schedules w i)). apart w c d"
  obtains w' where "cover_with_schedule w i c = Inr w'" and "covering_ok w' i"
    and "snd ` set (covering_schedules (schedules w' i)) = insert c (snd ` set (covering_schedules (schedules w i)))"
proof -
  let ?m = "covering_schedules (schedules w i)"
  let ?k = "time_millis (covers_from w c)"
  have okm: "covering_list_ok w ?m" using ok by (simp add: covering_ok_def)
  obtain xs ys where p: "?m = xs @ ys"
      "\<And>e. e \<in> set xs \<Longrightarrow> covers_from w (snd e) < covers_to w c"
      "\<And>e. e \<in> set ys \<Longrightarrow> covers_to w c \<le> covers_from w (snd e)"
    using list_parts[OF okm c] by metis
  have entry: "entry_ok w e" if "e \<in> set xs \<union> set ys" for e using that okm p(1) by (auto simp: covering_list_ok_def)
  have before: "covers_to w (snd e) \<le> covers_from w c" if "e \<in> set xs" for e
    using fresh p(1) p(2)[OF that] that by (auto simp: apart_def)
  have ct: "clock_time (covers_from w c)" "covers_from w c < covers_to w c" using c by (auto simp: covering_valid_def)
  have lo: "fst e < ?k" if "e \<in> set xs" for e
  proof -
    have "covers_from w (snd e) < covers_from w c"
      using before[OF that] entry[of e] that by (auto simp: entry_ok_def covering_valid_def intro: less_le_trans)
    thus ?thesis using entry[of e] that ct(1) by (auto simp: entry_ok_def covering_valid_def time_millis_less)
  qed
  have hi: "?k < fst e" if "e \<in> set ys" for e
  proof -
    have "covers_from w c < covers_from w (snd e)" using p(3)[OF that] ct(2) by (rule less_le_trans[rotated])
    thus ?thesis using entry[of e] that ct(1) by (auto simp: entry_ok_def covering_valid_def time_millis_less)
  qed
  have put: "put_key ?k c ?m = xs @ (?k, c) # ys" unfolding p(1) by (rule put_key_between[OF lo hi])
  have new: "covering_list_ok w (xs @ (?k, c) # ys)"
    using okm p before c unfolding p(1)
    by (auto simp: covering_list_ok_def sorted_wrt_append ends_before_def entry_ok_def)
  let ?w = "on_schedule_modified (set_schedule_of w i ((schedules w i)\<lparr>covering_schedules := xs @ (?k, c) # ys\<rparr>)) i"
  have "cover_with_schedule w i c = Inr ?w"
    using i no_overlap_iff[OF okm c] fresh by (simp add: cover_with_schedule_def put Let_def)
  moreover have "covering_schedules (schedules ?w i) = xs @ (?k, c) # ys" by (simp add: set_schedule_of_def)
  moreover have "covering_list_ok ?w (xs @ (?k, c) # ys)"
    using new by (subst covering_list_ok_cong[of _ w]) (auto simp: covers_set_schedule)
  ultimately show thesis using p(1) by (intro that[of ?w]) (auto simp: covering_ok_def)
qed

section \<open>The period found is one of the active schedule\<close>

text \<open>A search changes nothing but the error flags of the start time functions.\<close>

definition same_cover :: "schedule_world \<Rightarrow> schedule_world \<Rightarrow> bool" where
  "same_cover w w' =
     (covers_from w' = covers_from w \<and> covers_to w' = covers_to w \<and> is_covering w' = is_covering w
      \<and> (\<forall>c. path (schedules w' c) = path (schedules w c)
            \<and> covering_schedules (schedules w' c) = covering_schedules (schedules w c)))"

lemma same_cover_refl [simp]: "same_cover w w"
  by (simp add: same_cover_def)

lemma same_cover_trans: "same_cover w w1 \<Longrightarrow> same_cover w1 w2 \<Longrightarrow> same_cover w w2"
  by (auto simp: same_cover_def)

lemma inlay_next_keeps:
  assumes "inlay_next_local_period s script act t wss before = (r, s')"
  shows "covered_schedule_path s' = covered_schedule_path s" and "covered_schedule_begin s' = covered_schedule_begin s"
    and "covered_schedule_end s' = covered_schedule_end s"
  using assms by (auto simp: inlay_next_local_period_def split: if_splits prod.splits)

lemma inlay_search_same:
  assumes "inlay_search x w c t = (r, w')"
  shows "same_cover w w'"
proof -
  obtain inl where i: "inlay_next_local_period (the_inlay w c) (script_of x (start_time_function (the_inlay w c)))
      (script_active x) t (wss_of x) (before_of x) = (r, inl)"
    and w': "w' = set_schedule_of w c ((schedules w c)\<lparr>inlay_of := Some inl\<rparr>)"
    using assms by (auto simp: inlay_search_def split: prod.splits)
  show ?thesis using inlay_next_keeps[OF i]
    by (auto simp: same_cover_def w' set_schedule_of_def fun_eq_iff covers_from_def covers_to_def is_covering_def)
qed

lemma gap_search_same: "gap_search x w i ib ie t = (r, w') \<Longrightarrow> same_cover w w'"
  by (auto simp: gap_search_def split: if_splits prod.splits sum.splits dest: inlay_search_same)

lemma cover_search_same: "cover_search x w c t = (r, w') \<Longrightarrow> same_cover w w'"
  by (auto simp: cover_search_def split: prod.splits sum.splits dest: inlay_search_same)

lemma same_cover_ok:
  assumes "same_cover w w'"
  shows "covering_list_ok w' m = covering_list_ok w m" and "is_covering_at w' c t = is_covering_at w c t"
    and "covering_schedule_at w' i t = covering_schedule_at w i t"
    and "active_schedule_path_at w' i t = active_schedule_path_at w i t" and "gap_end w' m = gap_end w m"
proof -
  show l: "covering_list_ok w' m = covering_list_ok w m"
    using assms by (intro covering_list_ok_cong) (auto simp: same_cover_def)
  show a: "is_covering_at w' c t = is_covering_at w c t" for c t
    using assms by (simp add: same_cover_def is_covering_at_def)
  show c: "covering_schedule_at w' i t = covering_schedule_at w i t"
    using assms a by (simp add: same_cover_def covering_schedule_at_def cong: option.case_cong)
  show "active_schedule_path_at w' i t = active_schedule_path_at w i t"
    using assms c by (simp add: same_cover_def active_schedule_path_at_def cong: option.case_cong)
  show "gap_end w' m = gap_end w m" using assms by (simp add: same_cover_def gap_end_def cong: list.case_cong)
qed

text \<open>In the interval that comes with a period, its schedule is the active one.\<close>

definition in_region :: "schedule_world \<Rightarrow> nat \<Rightarrow> found \<Rightarrow> bool" where
  "in_region w i found =
     (case found of (p, ib, ie) \<Rightarrow>
        Time 0 \<le> ib \<and> ib \<le> never
        \<and> (period_empty p \<or> ib < ie \<and> p_begin p < ie
            \<and> (\<forall>u. clock_time u \<longrightarrow> ib \<le> u \<longrightarrow> u < ie \<longrightarrow> active_schedule_path_at w i u = schedule_path p)))"

lemma same_cover_region: "same_cover w w' \<Longrightarrow> in_region w' i f = in_region w i f"
  by (simp add: in_region_def same_cover_ok)

lemma clock_time_bounds: "clock_time t \<Longrightarrow> Time 0 \<le> t \<and> t \<le> never"
  by (simp add: clock_time_def time_ok_def less_eq_time_def never_def)

lemma cover_region:
  assumes "covering_ok w i" and "c \<in> snd ` set (covering_schedules (schedules w i))"
    and "cover_search x w c t = (Inr (Some found), w')"
  shows "in_region w i found"
proof -
  from assms(3) obtain p where f: "found = (p\<lparr>schedule_path := path (schedules w c)\<rparr>, covers_from w c, covers_to w c)"
    and p: "p_begin p < covers_to w c"
    by (auto simp: cover_search_def split: prod.splits sum.splits if_splits)
  have v: "covering_valid w c" using assms(1,2) by (auto simp: covering_ok_def covering_list_ok_def entry_ok_def)
  have "active_schedule_path_at w i u = path (schedules w c)"
    if "clock_time u" "covers_from w c \<le> u" "u < covers_to w c" for u
    using covering_schedule_at_Some[OF assms(1) that(1), of c] assms(2) that by (simp add: active_schedule_path_at_def)
  with p v clock_time_bounds[of "covers_from w c"] show ?thesis
    by (simp add: in_region_def f covering_valid_def)
qed

text \<open>\<open>done\<close> are the schedules up to the iterator.\<close>

definition gap_begin :: "schedule_world \<Rightarrow> nat option \<Rightarrow> time" where
  "gap_begin w prev = (case prev of Some c \<Rightarrow> covers_to w c | None \<Rightarrow> Time 0)"

definition prev_of :: "(int \<times> nat) list \<Rightarrow> nat option" where
  "prev_of xs = (if xs = [] then None else Some (snd (last xs)))"

lemma gap_begin_bounds:
  assumes "covering_ok w i" and "covering_schedules (schedules w i) = xs @ rest"
  shows "Time 0 \<le> gap_begin w (prev_of xs) \<and> gap_begin w (prev_of xs) \<le> never"
proof (cases xs rule: rev_cases)
  case Nil
  thus ?thesis by (simp add: gap_begin_def prev_of_def less_eq_time_def never_def never_seconds_def never_int_def)
next
  case (snoc zs z)
  hence "covering_valid w (snd z)" using assms by (auto simp: covering_ok_def covering_list_ok_def entry_ok_def)
  thus ?thesis using snoc clock_time_bounds by (auto simp: gap_begin_def prev_of_def covering_valid_def)
qed

lemma gap_not_covered:
  assumes ok: "covering_ok w i" and m: "covering_schedules (schedules w i) = xs @ rest"
    and u: "clock_time u" "gap_begin w (prev_of xs) \<le> u" "u < gap_end w rest"
  shows "covering_schedule_at w i u = None"
proof (rule covering_schedule_at_None[OF ok u(1)])
  fix e
  assume "e \<in> set (covering_schedules (schedules w i))"
  then consider "e \<in> set xs" | "e \<in> set rest" using m by auto
  thus "covers_to w (snd e) \<le> u \<or> u < covers_from w (snd e)"
  proof cases
    case 1
    then obtain zs z where z: "xs = zs @ [z]" by (cases xs rule: rev_cases) auto
    have "covering_list_ok w (zs @ [z])"
      using ok z m by (auto simp: covering_ok_def covering_list_ok_def sorted_wrt_append)
    hence "covers_to w (snd e) \<le> covers_to w (snd z)"
      using sorted_ends[of w zs z e] 1 z by (cases "e = z") auto
    thus ?thesis using u(2) z by (auto simp: gap_begin_def prev_of_def intro: order_trans)
  next
    case 2
    then obtain f fs where f: "rest = f # fs" by (cases rest) auto
    have "covering_list_ok w (f # fs)"
      using ok f m by (auto simp: covering_ok_def covering_list_ok_def sorted_wrt_append)
    hence "covers_from w (snd f) \<le> covers_from w (snd e)"
      using 2 f by (cases "e = f") (auto simp: covering_list_ok_def ends_before_def entry_ok_def covering_valid_def)
    thus ?thesis using u(3) f by (auto simp: gap_end_def intro: less_le_trans)
  qed
qed

lemma gap_region:
  assumes ok: "covering_ok w i" and m: "covering_schedules (schedules w i) = xs @ rest"
    and run: "gap_search x w i (gap_begin w (prev_of xs)) (gap_end w rest) t = (Inr (Some found), w')"
  shows "in_region w i found"
proof -
  from run obtain p where
    f: "found = (p\<lparr>schedule_path := path (schedules w i)\<rparr>, gap_begin w (prev_of xs), gap_end w rest)"
    and p: "p_begin p < gap_end w rest" "gap_begin w (prev_of xs) < gap_end w rest"
    by (auto simp: gap_search_def split: prod.splits sum.splits if_splits)
  have "active_schedule_path_at w i u = path (schedules w i)"
    if "clock_time u" "gap_begin w (prev_of xs) \<le> u" "u < gap_end w rest" for u
    using gap_not_covered[OF ok m that] by (simp add: active_schedule_path_at_def)
  with p gap_begin_bounds[OF ok m] show ?thesis by (simp add: in_region_def f)
qed

text \<open>One pass of the loop.\<close>

definition cover_part ::
  "search_input \<Rightarrow> schedule_world \<Rightarrow> nat option \<Rightarrow> time \<Rightarrow> found option result \<times> schedule_world" where
  "cover_part x w prev t =
     (case prev of Some c \<Rightarrow> if is_covering_at w c t then cover_search x w c t else (Inr None, w)
      | None \<Rightarrow> (Inr None, w))"

definition gap_start :: "schedule_world \<Rightarrow> nat option \<Rightarrow> time \<Rightarrow> time" where
  "gap_start w prev t = (case prev of Some c \<Rightarrow> if is_covering_at w c t then covers_to w c else t | None \<Rightarrow> t)"

lemma cover_loop_step:
  "cover_loop x w i prev rest t =
     (case cover_part x w prev t of
        (Inl e, w1) \<Rightarrow> (Inl e, w1)
      | (Inr (Some found), w1) \<Rightarrow> (Inr found, w1)
      | (Inr None, w1) \<Rightarrow>
          (case gap_search x w1 i (gap_begin w prev) (gap_end w rest) (gap_start w prev t) of
             (Inl e, w2) \<Rightarrow> (Inl e, w2)
           | (Inr (Some found), w2) \<Rightarrow> (Inr found, w2)
           | (Inr None, w2) \<Rightarrow>
               if is_never (gap_end w rest) then (Inr (empty_period, gap_begin w prev, gap_end w rest), w2)
               else (case rest of
                       [] \<Rightarrow> (Inr (empty_period, gap_begin w prev, gap_end w rest), w2)
                     | e # rest' \<Rightarrow> cover_loop x w2 i (Some (snd e)) rest' (gap_end w rest))))"
  by (subst cover_loop.simps) (simp only: cover_part_def gap_begin_def gap_start_def Let_def)

lemma cover_part_region:
  assumes "covering_ok w i" and "covering_schedules (schedules w i) = xs @ rest"
    and "cover_part x w (prev_of xs) t = (r, w1)"
  shows "same_cover w w1" and "r = Inr (Some found) \<Longrightarrow> in_region w i found"
proof -
  have c: "c \<in> snd ` set (covering_schedules (schedules w i))" if "prev_of xs = Some c" for c
    using that assms(2) by (auto simp: prev_of_def split: if_splits)
  show "same_cover w w1" using assms(3)
    by (auto simp: cover_part_def split: option.splits if_splits dest: cover_search_same)
  assume "r = Inr (Some found)"
  then obtain d where d: "prev_of xs = Some d" "cover_search x w d t = (Inr (Some found), w1)"
    using assms(3) by (auto simp: cover_part_def split: option.splits if_splits)
  show "in_region w i found" by (rule cover_region[OF assms(1) c[OF d(1)] d(2)])
qed

lemma cover_loop_region:
  "covering_ok w i \<Longrightarrow> covering_schedules (schedules w i) = xs @ rest \<Longrightarrow>
   cover_loop x w i (prev_of xs) rest t = (Inr found, w') \<Longrightarrow> in_region w i found"
proof (induction rest arbitrary: xs w t)
  case (Nil xs w t)
  obtain r w1 where c: "cover_part x w (prev_of xs) t = (r, w1)" by fastforce
  note cr = cover_part_region[OF Nil(1,2) c]
  have empty: "in_region w i (empty_period, gap_begin w (prev_of xs), never)"
    using gap_begin_bounds[OF Nil(1,2)] by (simp add: in_region_def)
  have gap: "in_region w i f" if "gap_search x w1 i (gap_begin w (prev_of xs)) (gap_end w []) u = (Inr (Some f), w2)" for f u w2
    using gap_region[of w1 i xs "[]" x u f w2] that Nil(1,2) cr(1) same_cover_ok[OF cr(1)] same_cover_region[OF cr(1)]
    by (auto simp: covering_ok_def same_cover_def gap_begin_def cong: option.case_cong)
  show ?case using Nil(3) cr(2) gap empty
    by (auto simp: cover_loop_step[of x w i "prev_of xs" "[]"] c gap_end_def is_never_def never_def
        split: sum.splits option.splits prod.splits)
next
  case (Cons e rest xs w t)
  obtain r w1 where c: "cover_part x w (prev_of xs) t = (r, w1)" by fastforce
  note cr = cover_part_region[OF Cons(2,3) c]
  let ?b = "gap_begin w (prev_of xs)" and ?n = "gap_end w (e # rest)" and ?u = "gap_start w (prev_of xs) t"
  obtain q w2 where g: "gap_search x w1 i ?b ?n ?u = (q, w2)" by fastforce
  have s2: "same_cover w w2" using cr(1) gap_search_same[OF g] by (rule same_cover_trans)
  have gap: "in_region w i f" if "q = Inr (Some f)" for f
    using gap_region[of w1 i xs "e # rest" x ?u f w2] that g Cons(2,3) cr(1) same_cover_ok[OF cr(1)]
      same_cover_region[OF cr(1)]
    by (auto simp: covering_ok_def same_cover_def gap_begin_def cong: option.case_cong)
  have empty: "in_region w i (empty_period, ?b, ?n)"
    using gap_begin_bounds[OF Cons(2,3)] by (simp add: in_region_def)
  have rec: "in_region w i found" if "cover_loop x w2 i (Some (snd e)) rest ?n = (Inr found, w')"
  proof -
    have "covering_ok w2 i" "covering_schedules (schedules w2 i) = (xs @ [e]) @ rest"
      using Cons(2,3) s2 same_cover_ok[OF s2] by (auto simp: covering_ok_def same_cover_def)
    moreover have "prev_of (xs @ [e]) = Some (snd e)" by (simp add: prev_of_def)
    ultimately have "in_region w2 i found" using Cons(1)[of w2 "xs @ [e]" ?n] that by simp
    thus ?thesis using same_cover_region[OF s2] by simp
  qed
  show ?case using Cons(4) cr(2) gap empty rec
    by (auto simp: cover_loop_step[of x w i "prev_of xs" "e # rest"] c g
        split: sum.splits option.splits if_splits)
qed

section \<open>Claims\<close>

text \<open> C28: entering a covering schedule succeeds exactly if its time does not overlap with that of any schedule
  entered before, and then the schedules entered are those of before and the new one, still ordered and
  apart; otherwise it fails with SCHEDULER-465 and enters nothing.\<close>

theorem cover_exactly_if_apart:
  assumes "covering_ok w i" and "covering_valid w c" and "\<not> is_covering w i"
  shows "if \<forall>d \<in> snd ` set (covering_schedules (schedules w i)). apart w c d
    then \<exists>w'. cover_with_schedule w i c = Inr w' \<and> covering_ok w' i
           \<and> snd ` set (covering_schedules (schedules w' i)) = insert c (snd ` set (covering_schedules (schedules w i)))
    else cover_with_schedule w i c = Inl (Xc ''SCHEDULER-465'')"
proof (cases "\<forall>d \<in> snd ` set (covering_schedules (schedules w i)). apart w c d")
  case True
  from cover_outcome[OF assms True] show ?thesis using True by metis
next
  case False
  thus ?thesis using no_overlap_iff[of w i c] assms
    by (simp only: if_False cover_with_schedule_def covering_ok_def) simp
qed

definition ex_cover_inlay :: inlay where
  "ex_cover_inlay = (new_inlay \<lparr>holiday_days = [], holiday_weekdays = replicate 7 False\<rparr>)
     \<lparr>covered_schedule_path := ''/base'', covered_schedule_begin := Time 864000, covered_schedule_end := Time 1728000\<rparr>"

definition ex_base_inlay :: inlay where
  "ex_base_inlay = (new_inlay \<lparr>holiday_days = [], holiday_weekdays = replicate 7 False\<rparr>)
     \<lparr>weekday_set := fill_with_default (new_day_set 0 6)
        [empty_period\<lparr>p_begin := Time 3600, p_end := Time 7200\<rparr>]\<rparr>"

definition ex_schedule :: "string \<Rightarrow> inlay \<Rightarrow> schedule" where
  "ex_schedule p s = \<lparr>path = p, file_based_state = S_active, inlay_of = Some s, use_set = [],
     covering_schedules = [], covered_schedule = None\<rparr>"

definition ex_schedules :: schedule_world where
  "ex_schedules = \<lparr>schedules = (\<lambda>c. if c = 0 then ex_schedule ''/base'' ex_base_inlay else ex_schedule ''/cover'' ex_cover_inlay),
     schedule_at_path = (\<lambda>p. if p = ''/base'' then Some 0 else if p = ''/cover'' then Some 1 else None),
     registered_requisites = (\<lambda>_. []), told_modified = []\<rparr>"

definition ex_covered :: schedule_world where
  "ex_covered = ex_schedules\<lparr>schedules := (schedules ex_schedules)
     (0 := (ex_schedule ''/base'' ex_base_inlay)\<lparr>covering_schedules := [(864000000, 1)]\<rparr>)\<rparr>"

lemma clock_time_numeral: "numeral k \<le> never_seconds \<Longrightarrow> clock_time (Time (numeral k))"
  by (simp add: clock_time_def time_ok_def)

lemma ex_valid: "covering_valid ex_schedules 1" "covering_valid ex_covered 1" "\<not> is_covering ex_schedules 0"
  by (simp_all add: covering_valid_def is_covering_def covers_from_def covers_to_def ex_schedules_def ex_covered_def
      ex_schedule_def ex_cover_inlay_def ex_base_inlay_def new_inlay_def less_time_def clock_time_numeral
      never_seconds_def never_int_def)

lemma ex_key: "time_millis (Time 864000) = 864000000"
proof -
  have "clock_time (Time 864000)" by (simp add: clock_time_numeral never_seconds_def never_int_def)
  from time_millis_exact[OF this] show ?thesis by simp
qed

lemma ex_from: "covers_from ex_covered 1 = Time 864000" "covers_from ex_schedules 1 = Time 864000"
  by (simp_all add: covers_from_def ex_covered_def ex_schedules_def ex_schedule_def ex_cover_inlay_def)

lemma ex_lists: "covering_schedules (schedules ex_schedules 0) = []"
  "covering_schedules (schedules ex_covered 0) = [(864000000, 1)]"
  by (simp_all add: ex_covered_def ex_schedules_def ex_schedule_def)

lemma ex_covered_ok: "covering_ok ex_schedules 0" "covering_ok ex_covered 0"
  using ex_valid(2) by (simp_all add: covering_ok_def covering_list_ok_def entry_ok_def ex_lists ex_key ex_from[simplified])

theorem cover_exactly_if_apart_witness:
  "if \<forall>d \<in> snd ` set (covering_schedules (schedules ex_schedules 0)). apart ex_schedules 1 d
    then \<exists>w'. cover_with_schedule ex_schedules 0 1 = Inr w' \<and> covering_ok w' 0
           \<and> snd ` set (covering_schedules (schedules w' 0)) = insert 1 (snd ` set (covering_schedules (schedules ex_schedules 0)))
    else cover_with_schedule ex_schedules 0 1 = Inl (Xc ''SCHEDULER-465'')"
  by (rule cover_exactly_if_apart[OF ex_covered_ok(1) ex_valid(1,3)])

text \<open> C26: at every time there is at most one covering schedule, and \<^verbatim>\<open>covering_schedule_at\<close> finds it by looking
  only at the entry before the time: it is the entered schedule in whose interval the time lies.\<close>

theorem covering_schedule_found:
  assumes "covering_ok w i" and "clock_time t"
  shows "covering_schedule_at w i t = Some c \<longleftrightarrow>
    c \<in> snd ` set (covering_schedules (schedules w i)) \<and> covers_from w c \<le> t \<and> t < covers_to w c"
  by (rule covering_schedule_at_Some[OF assms])

theorem covering_schedule_found_witness:
  "covering_schedule_at ex_covered 0 (Time 900000) = Some 1 \<longleftrightarrow>
    1 \<in> snd ` set (covering_schedules (schedules ex_covered 0))
    \<and> covers_from ex_covered 1 \<le> Time 900000 \<and> Time 900000 < covers_to ex_covered 1"
  by (rule covering_schedule_found[OF ex_covered_ok(2)])
    (simp add: clock_time_numeral never_seconds_def never_int_def)

text \<open> C27: a period that \<^verbatim>\<open>next_local_period\<close> finds, if it is neither empty nor a single start and begins at a time of the clock,
  begins when the schedule it comes from is the active one; so a covering schedule replaces the covered one in its time, and
  nowhere else.
\<close>

theorem period_of_active_schedule:
  assumes "covering_ok w i" and "next_local_period x w i t = (Inr p, w')"
    and "\<not> period_empty p" and "\<not> single_start p" and "clock_time (p_begin p)"
  shows "active_schedule_path_at w i (p_begin p) = schedule_path p"
proof -
  let ?m = "covering_schedules (schedules w i)"
  let ?P = "\<lambda>k. k \<le> time_millis t"
  have split: "?m = takeWhile (\<lambda>e. ?P (fst e)) ?m @ dropWhile (\<lambda>e. ?P (fst e)) ?m" by simp
  have prev: "before_key ?P ?m = prev_of (takeWhile (\<lambda>e. ?P (fst e)) ?m)"
    by (simp add: before_key_def prev_of_def split: list.splits)
  obtain q ib ie where run: "cover_loop x w i (before_key ?P ?m) (dropWhile (\<lambda>e. ?P (fst e)) ?m) t = (Inr (q, ib, ie), w')"
    and p: "p = cut_period (q, ib, ie)"
    using assms(2) by (auto simp: next_local_period_def Let_def split: prod.splits sum.splits)
  have reg: "in_region w i (q, ib, ie)" by (rule cover_loop_region[OF assms(1) split run[unfolded prev]])
  have q: "p_begin p = max ib (p_begin q)" "schedule_path p = schedule_path q" "\<not> single_start q"
    using p assms(4) by (auto simp: cut_period_def max_def split: if_splits)
  have "\<not> period_empty q"
  proof
    assume "period_empty q"
    hence "p_begin q = never" by (simp add: period_empty_def is_never_def never_def time.expand)
    with q(1) reg have "p_begin p = never" by (auto simp: in_region_def max_def)
    with assms(3) show False by (simp add: period_empty_def is_never_def never_def)
  qed
  with reg q assms(5) show ?thesis by (auto simp: in_region_def max_def split: if_splits)
qed

definition ex_search :: search_input where
  "ex_search = \<lparr>script_of = (\<lambda>_ _. Inr None), script_active = True, wss_of = {Wss_next_period}, before_of = never\<rparr>"

definition ex_found :: period where
  "ex_found = empty_period\<lparr>p_begin := Time 176400, p_end := Time 180000\<rparr>"

lemma ex_not_holiday: "\<not> is_holiday (holidays ex_base_inlay) t"
proof -
  have "nat (weekday_of_day_number n) < 7" for n :: int
  proof -
    have "\<bar>n + 4\<bar> mod 7 < 7" by simp
    moreover have "c_mod (n + 4) 7 = sgn (n + 4) * (\<bar>n + 4\<bar> mod 7)"
      by (simp add: c_mod_def c_div_def minus_div_mult_eq_mod[symmetric] algebra_simps abs_sgn)
    ultimately show ?thesis by (auto simp: weekday_of_day_number_def sgn_if)
  qed
  thus ?thesis by (simp add: is_holiday_def ex_base_inlay_def new_inlay_def Let_def)
qed

lemma ex_same_day: "next_period_of_same_day ex_base_inlay (Time 172800) {Wss_next_period} = Inr ex_found"
  by (simp add: ex_base_inlay_def new_inlay_def day_nr_def ex_found_def
      next_period_of_same_day_def general_days_def min_r_def fill_with_default_new
      ex_unfilled weekday_set_next_def weekday_of_day_number_def c_mod_def
      c_div_def time_of_day_def time_diff_def midnight_def set_time_above
      never_seconds_def never_int_def day_next_period_def is_coming_def empty_period_def
      time_order dated_def period_empty_def is_never_def period_plus_def has_date_def time_add_assign_def
      is_eternal_def never_def eternal_def period_min_def)

lemma ex_base_search:
  "inlay_next_local_period ex_base_inlay script act (Time 172800) {Wss_next_period} never = (Inr ex_found, ex_base_inlay)"
proof -
  have ne: "\<not> period_empty ex_found" "period_min empty_period ex_found = ex_found"
    by (simp_all add: ex_found_def empty_period_def period_empty_def is_never_def never_seconds_def never_int_def
        never_def period_min_def less_time_def)
  have plain: "start_time_function ex_base_inlay = []" "inlay_is_filled ex_base_inlay"
    by (simp_all add: ex_base_inlay_def new_inlay_def inlay_is_filled_def fill_with_default_new)
  have day: "search_day ex_base_inlay script act (Time 172800) {Wss_next_period} st = (Inr ex_found, st)" for st
    using plain(1) ne(2)
    by (simp add: search_day_def ex_not_holiday function_step_def ex_same_day earlier_holidays.simps later_holidays.simps)
  have lim: "Time 172800 < limited_before never (Time 172800)"
    by (simp add: limited_before_def time_plus_def is_never_def is_eternal_def days_def foresee_years_def
        never_seconds_def never_int_def never_def set_time_above less_time_def)
  show ?thesis using plain lim day ne(1)
    by (simp add: inlay_next_local_period_def is_never_def never_seconds_def never_int_def search_days.simps)
qed

lemma ex_next_local_period:
  "fst (next_local_period ex_search ex_covered 0 (Time 172800))
     = Inr (ex_found\<lparr>schedule_path := ''/base'', absolute_repeat_begin := Time 176400\<rparr>)"
proof -
  have k: "time_millis (Time 172800) = 172800000"
    using time_millis_exact[of "Time 172800"] clock_time_numeral[of "num.Bit0 num.One"]
    by (simp add: clock_time_def time_ok_def never_seconds_def never_int_def)
  have inl: "the_inlay ex_covered 0 = ex_base_inlay" and path0: "path (schedules ex_covered 0) = ''/base''"
    by (simp_all add: ex_covered_def ex_schedules_def ex_schedule_def)
  obtain w1 where "inlay_search ex_search ex_covered 0 (Time 172800) = (Inr ex_found, w1)"
    by (simp add: inlay_search_def inl ex_search_def ex_base_search)
  thus ?thesis
    by (simp add: next_local_period_def ex_lists k before_key_def cover_loop.simps gap_search_def gap_end_def
        ex_from[simplified] less_time_def path0 cut_period_def ex_found_def empty_period_def)
qed

theorem period_of_active_schedule_witness:
  "active_schedule_path_at ex_covered 0 (Time 176400) = ''/base''"
proof -
  let ?p = "ex_found\<lparr>schedule_path := ''/base'', absolute_repeat_begin := Time 176400\<rparr>"
  obtain w' where run: "next_local_period ex_search ex_covered 0 (Time 172800) = (Inr ?p, w')"
    using ex_next_local_period by (cases "next_local_period ex_search ex_covered 0 (Time 172800)") auto
  have "active_schedule_path_at ex_covered 0 (p_begin ?p) = schedule_path ?p"
    by (rule period_of_active_schedule[OF ex_covered_ok(2) run])
      (simp_all add: ex_found_def empty_period_def period_empty_def is_never_def clock_time_numeral
        never_seconds_def never_int_def)
  thus ?thesis by (simp add: ex_found_def)
qed

section \<open>A start that is lost\<close>

text \<open>
  Whether a period with \<^verbatim>\<open>absolute_repeat\<close> is coming is decided with the grid that starts at midnight, since
  \<^verbatim>\<open>_absolute_repeat_begin\<close> is not set yet; the start is then taken from the grid that starts at the begin of
  the period. Here the period is every day from 0:30 to 2:15 with a start each hour. At 1:45 the grid from
  midnight has 2:00, so today's period is taken; but its own grid, 0:30, 1:30, 2:30, has no start left.
\<close>

definition lost_inlay :: inlay where
  "lost_inlay = (new_inlay \<lparr>holiday_days = [], holiday_weekdays = replicate 7 False\<rparr>)
     \<lparr>weekday_set := fill_with_default (new_day_set 0 6)
        [empty_period\<lparr>p_begin := Time 1800, p_end := Time 8100, absolute_repeat := Duration 3600\<rparr>]\<rparr>"

definition lost_world :: schedule_world where
  "lost_world = ex_schedules\<lparr>schedules := (\<lambda>_. ex_schedule ''/lost'' lost_inlay)\<rparr>"

definition lost_use :: schedule_use where
  "lost_use = \<lparr>use_schedule_path = [], use_schedule = Some 0, use_active_schedule_path = [], time_zone_name = ''UTC''\<rparr>"

definition utc_only :: time_zones where
  "utc_only = \<lparr>to_local = (\<lambda>_ m. m), to_utc = (\<lambda>_ m. m)\<rparr>"

definition lost_period :: period where
  "lost_period = empty_period\<lparr>p_begin := Time 174600, p_end := Time 180900, absolute_repeat := Duration 3600\<rparr>"

lemma lost_floors: "\<lfloor>7 / (4 :: rat)\<rfloor> = 1" "\<lfloor>5 / (4 :: rat)\<rfloor> = 1"
    "\<lfloor>9 / (4 :: rat)\<rfloor> = 2" "\<lfloor>1 / (2 :: rat)\<rfloor> = 0"
  by (simp_all add: floor_eq_iff)

lemma lost_same_day: "next_period_of_same_day lost_inlay (Time 179100) {Wss_next_single_start} = Inr lost_period"
  by (simp add: lost_inlay_def new_inlay_def day_nr_def lost_period_def
      next_period_of_same_day_def general_days_def min_r_def fill_with_default_new
      ex_unfilled weekday_set_next_def weekday_of_day_number_def c_mod_def
      c_div_def time_of_day_def time_diff_def midnight_def set_time_above
      never_seconds_def never_int_def day_next_period_def is_coming_def empty_period_def
      time_order dated_def period_empty_def is_never_def period_plus_def has_date_def time_add_assign_def
      is_eternal_def never_def eternal_def period_min_def next_absolute_repeated_def to_int32_def int32_Suc_def trunc_def time_plus_def Let_def
      lost_floors)

lemma lost_not_holiday: "\<not> is_holiday (holidays lost_inlay) t"
  using ex_not_holiday[of t] by (simp add: lost_inlay_def ex_base_inlay_def)

lemma lost_inlay_search:
  "inlay_next_local_period lost_inlay script act (Time 179100) {Wss_next_single_start} never
     = (Inr lost_period, lost_inlay)"
proof -
  have ne: "\<not> period_empty lost_period" "period_min empty_period lost_period = lost_period"
    by (simp_all add: lost_period_def empty_period_def period_empty_def is_never_def never_seconds_def never_int_def
        never_def period_min_def less_time_def)
  have plain: "start_time_function lost_inlay = []" "inlay_is_filled lost_inlay"
    by (simp_all add: lost_inlay_def new_inlay_def inlay_is_filled_def fill_with_default_new)
  have day: "search_day lost_inlay script act (Time 179100) {Wss_next_single_start} st = (Inr lost_period, st)" for st
    using plain(1) ne(2)
    by (simp add: search_day_def lost_not_holiday function_step_def lost_same_day earlier_holidays.simps later_holidays.simps)
  have lim: "Time 179100 < limited_before never (Time 179100)"
    by (simp add: limited_before_def time_plus_def is_never_def is_eternal_def days_def foresee_years_def
        never_seconds_def never_int_def never_def set_time_above less_time_def)
  show ?thesis using plain lim day ne(1)
    by (simp add: inlay_next_local_period_def is_never_def never_seconds_def never_int_def search_days.simps)
qed

lemma lost_local_period:
  "fst (next_local_period (ex_search\<lparr>wss_of := {Wss_next_single_start}\<rparr>) lost_world 0 (Time 179100))
     = Inr (lost_period\<lparr>schedule_path := ''/lost'', absolute_repeat_begin := Time 174600\<rparr>)"
proof -
  have inl: "the_inlay lost_world 0 = lost_inlay" "path (schedules lost_world 0) = ''/lost''"
    "covering_schedules (schedules lost_world 0) = []"
    by (simp_all add: lost_world_def ex_schedules_def ex_schedule_def)
  have nv: "(Time 174600 < never) = True" "(never < Time 180900) = False" "(Time 174600 < Time 0) = False"
    "(Time 0 < never) = True"
    by (simp_all add: less_time_def never_def never_seconds_def never_int_def)
  obtain w1 where "inlay_search (ex_search\<lparr>wss_of := {Wss_next_single_start}\<rparr>) lost_world 0 (Time 179100) = (Inr lost_period, w1)"
    by (simp add: inlay_search_def inl ex_search_def lost_inlay_search)
  thus ?thesis
    by (simp add: next_local_period_def inl before_key_def cover_loop.simps gap_search_def gap_end_def
        nv cut_period_def lost_period_def empty_period_def)
qed

lemma utc_only_id: "time_ok t \<Longrightarrow> 0 \<le> time_of t \<Longrightarrow> local_time (\<lambda>_ m. m) z t = t"
  "time_ok t \<Longrightarrow> 0 \<le> time_of t \<Longrightarrow> utc_from_time_zone (\<lambda>_ m. m) z t = t"
  using time_millis_exact[of t]
  by (cases t; auto simp: local_time_def utc_from_time_zone_def zone_convert_def is_zero_def is_never_def
      clock_time_def time_ok_def set_time_above time_millis_def)+

lemma use_start:
  assumes "fst (next_local_period (ex_search\<lparr>wss_of := {Wss_next_single_start}\<rparr>) lost_world 0 t) = Inr p"
    and "clock_time t" "clock_time (p_begin p)" "clock_time (p_end p)" "clock_time (absolute_repeat_begin p)"
    and "absolute_repeat p = Duration 3600"
  shows "fst (use_next_single_start utc_only ex_search lost_world lost_use t) = Inr (next_absolute_repeated p t)"
proof -
  let ?x = "ex_search\<lparr>wss_of := {Wss_next_single_start}\<rparr>"
  have x: "ex_search\<lparr>wss_of := {Wss_next_single_start}, before_of := never\<rparr> = ?x"
    "?x\<lparr>before_of := never\<rparr> = ?x" "before_of ?x = never"
    by (simp_all add: ex_search_def)
  obtain w' where run: "next_local_period ?x lost_world 0 t = (Inr p, w')"
    using assms(1) by (cases "next_local_period ?x lost_world 0 t") auto
  have utc: "period_to_utc utc_only z p = p" for z
    using assms(3-5) by (simp add: period_to_utc_def utc_only_def utc_only_id clock_time_def)
  have loc: "local_time (to_local utc_only) z t = t" "local_time (to_local utc_only) z never = never" for z
    using assms(2) by (simp_all add: utc_only_def utc_only_id clock_time_def never_def never_seconds_def never_int_def
        time_ok_def)
  have "\<not> is_eternal (absolute_repeat p)" by (simp add: assms(6) is_eternal_def never_seconds_def never_int_def)
  thus ?thesis
    by (simp add: use_next_single_start_def x use_next_period_def use_the_schedule_def lost_use_def loc run utc)
qed

lemma lost_tomorrow_same_day:
  "next_period_of_same_day lost_inlay (Time 180900) {Wss_next_single_start} = Inr empty_period"
  "next_period_of_same_day lost_inlay (Time 259200) {Wss_next_single_start}
     = Inr (lost_period\<lparr>p_begin := Time 261000, p_end := Time 267300\<rparr>)"
  by (simp_all add: lost_inlay_def new_inlay_def day_nr_def lost_period_def
      next_period_of_same_day_def general_days_def min_r_def fill_with_default_new
      ex_unfilled weekday_set_next_def weekday_of_day_number_def c_mod_def
      c_div_def time_of_day_def time_diff_def midnight_def set_time_above
      never_seconds_def never_int_def day_next_period_def is_coming_def empty_period_def
      time_order dated_def period_empty_def is_never_def period_plus_def has_date_def time_add_assign_def
      is_eternal_def never_def eternal_def period_min_def next_absolute_repeated_def to_int32_def int32_Suc_def trunc_def time_plus_def Let_def
      lost_floors)

lemma lost_search_tomorrow:
  "inlay_next_local_period lost_inlay script act (Time 180900) {Wss_next_single_start} never
     = (Inr (lost_period\<lparr>p_begin := Time 261000, p_end := Time 267300\<rparr>), lost_inlay)"
proof -
  let ?p = "lost_period\<lparr>p_begin := Time 261000, p_end := Time 267300\<rparr>"
  have ne: "\<not> period_empty ?p" "period_min empty_period ?p = ?p" "period_min empty_period empty_period = empty_period"
    by (simp_all add: lost_period_def empty_period_def period_empty_def is_never_def never_seconds_def never_int_def
        never_def period_min_def less_time_def)
  have plain: "start_time_function lost_inlay = []" "inlay_is_filled lost_inlay"
    by (simp_all add: lost_inlay_def new_inlay_def inlay_is_filled_def fill_with_default_new)
  have day: "search_day lost_inlay script act (Time 180900) {Wss_next_single_start} st = (Inr empty_period, st)"
    "search_day lost_inlay script act (Time 259200) {Wss_next_single_start} st = (Inr ?p, st)" for st
    using plain(1) ne
    by (simp_all add: search_day_def lost_not_holiday function_step_def lost_tomorrow_same_day earlier_holidays.simps
        later_holidays.simps)
  have lim: "Time 180900 < limited_before never (Time 180900)" "Time 259200 < limited_before never (Time 180900)"
    by (simp_all add: limited_before_def time_plus_def is_never_def is_eternal_def days_def foresee_years_def
        never_seconds_def never_int_def never_def set_time_above less_time_def)
  have nd: "next_day (Time 180900) = Time 259200"
    by (simp add: next_day_value day_nr_def never_def never_seconds_def never_int_def less_time_def)
  show ?thesis using plain lim day ne(1)
    by (simp add: inlay_next_local_period_def is_never_def never_seconds_def never_int_def
        search_days.simps[of _ _ _ _ _ _ "Time 180900"] search_days.simps[of _ _ _ _ _ _ "Time 259200"] nd)
qed

lemma lost_local_period_tomorrow:
  "fst (next_local_period (ex_search\<lparr>wss_of := {Wss_next_single_start}\<rparr>) lost_world 0 (Time 180900))
     = Inr (lost_period\<lparr>p_begin := Time 261000, p_end := Time 267300, schedule_path := ''/lost'',
              absolute_repeat_begin := Time 261000\<rparr>)"
proof -
  let ?p = "lost_period\<lparr>p_begin := Time 261000, p_end := Time 267300\<rparr>"
  have inl: "the_inlay lost_world 0 = lost_inlay" "path (schedules lost_world 0) = ''/lost''"
    "covering_schedules (schedules lost_world 0) = []"
    by (simp_all add: lost_world_def ex_schedules_def ex_schedule_def)
  have nv: "(Time 261000 < never) = True" "(never < Time 267300) = False" "(Time 261000 < Time 0) = False"
    "(Time 0 < never) = True"
    by (simp_all add: less_time_def never_def never_seconds_def never_int_def)
  obtain w1 where "inlay_search (ex_search\<lparr>wss_of := {Wss_next_single_start}\<rparr>) lost_world 0 (Time 180900) = (Inr ?p, w1)"
    by (simp add: inlay_search_def inl ex_search_def lost_search_tomorrow)
  thus ?thesis
    by (simp add: next_local_period_def inl before_key_def cover_loop.simps gap_search_def gap_end_def
        nv cut_period_def lost_period_def empty_period_def)
qed

lemma lost_clock: "clock_time (Time 179100)" "clock_time (Time 174600)" "clock_time (Time 180900)"
  "clock_time (Time 261000)" "clock_time (Time 267300)"
  by (simp_all add: clock_time_numeral never_seconds_def never_int_def)

text \<open>a start is lost: with a period from 0:30 to 2:15 every day and \<^verbatim>\<open>absolute_repeat="1:00"\<close>, the next
  start asked for at 1:45 is never, although half an hour later the answer is 0:30 of the next day.\<close>

theorem start_lost:
  "fst (use_next_single_start utc_only ex_search lost_world lost_use (Time 179100)) = Inr never
   \<and> fst (use_next_single_start utc_only ex_search lost_world lost_use (Time 180900)) = Inr (Time 261000)"
proof
  have "fst (use_next_single_start utc_only ex_search lost_world lost_use (Time 179100))
      = Inr (next_absolute_repeated (lost_period\<lparr>schedule_path := ''/lost'', absolute_repeat_begin := Time 174600\<rparr>)
              (Time 179100))"
    by (rule use_start[OF lost_local_period]) (simp_all add: lost_period_def lost_clock)
  also have "\<dots> = Inr never"
    by (simp add: next_absolute_repeated_def to_int32_def int32_Suc_def lost_period_def empty_period_def time_diff_def trunc_def
        time_order lost_floors set_time_above time_plus_def is_never_def is_eternal_def
        never_seconds_def never_int_def never_def)
  finally show "fst (use_next_single_start utc_only ex_search lost_world lost_use (Time 179100)) = Inr never" .
  have "fst (use_next_single_start utc_only ex_search lost_world lost_use (Time 180900))
      = Inr (next_absolute_repeated (lost_period\<lparr>p_begin := Time 261000, p_end := Time 267300,
               schedule_path := ''/lost'', absolute_repeat_begin := Time 261000\<rparr>) (Time 180900))"
    by (rule use_start[OF lost_local_period_tomorrow]) (simp_all add: lost_period_def lost_clock)
  also have "\<dots> = Inr (Time 261000)"
    by (simp add: next_absolute_repeated_def to_int32_def int32_Suc_def lost_period_def empty_period_def time_diff_def trunc_def
        time_order set_time_above time_plus_def is_never_def is_eternal_def
        never_seconds_def never_int_def never_def)
  finally show "fst (use_next_single_start utc_only ex_search lost_world lost_use (Time 180900)) = Inr (Time 261000)" .
qed

end
