(* ===== verification/Order_Data.thy ===== *)
theory Order_Data
  imports Scheduler_Time File_Based_State
begin

text \<open>
  The data of orders, of the nodes of a job chain and of job chains (\<^verbatim>\<open>scheduler/spooler_order.h\<close>), and
  what can be asked of them without changing anything: whether an order may be processed, which node
  belongs to a state, and how many orders have been touched (\<^verbatim>\<open>Order.cxx\<close>, \<^verbatim>\<open>spooler_order.cxx\<close>).

  Objects refer to each other by number: \<open>orders\<close>, \<open>nodes\<close> and \<open>chains\<close> of \<open>order_world\<close> are the memory.
  The queue of an \<^verbatim>\<open>Order_queue_node\<close> is part of the node, since there is exactly one for each. What the
  operations tell the jobs, the journal of events and the database is written to \<open>signals\<close>. The fields of
  an order that only serve its XML answer, its payload and its history are left out.
\<close>

section \<open>States of orders\<close>

text \<open>
  \<^verbatim>\<open>Order::State\<close> is a \<^verbatim>\<open>Variant\<close> that holds a name, or nothing, or stands for a missing parameter. Two
  values of different kinds are compared as strings.
\<close>

datatype order_state = Missing_state | Empty_state | State_name string

fun state_as_string :: "order_state \<Rightarrow> string" where
  "state_as_string Missing_state = ''DISP_E_PARAMNOTFOUND (missing value)''"
| "state_as_string Empty_state = []"
| "state_as_string (State_name s) = s"

definition state_eq :: "order_state \<Rightarrow> order_state \<Rightarrow> bool" where
  "state_eq a b = (state_as_string a = state_as_string b)"

definition is_null_or_empty_state :: "order_state \<Rightarrow> bool" where
  "is_null_or_empty_state s = (s = Empty_state \<or> s = State_name [] \<or> s = Missing_state)"

definition normalized_state :: "order_state \<Rightarrow> order_state" where
  "normalized_state s = (if s = State_name [] then Missing_state else s)"

lemma state_eq_equiv: "state_eq s s" "state_eq s t \<Longrightarrow> state_eq t s" "state_eq s t \<Longrightarrow> state_eq t u \<Longrightarrow> state_eq s u"
  by (simp_all add: state_eq_def)

section \<open>Nodes\<close>

datatype node_type = N_none | N_order_queue | N_job | N_job_chain | N_end | N_file_order_sink

datatype node_state = Ns_none | Ns_initialized | Ns_active | Ns_closed

datatype node_action = Act_process | Act_stop | Act_next_state

fun action_from_string :: "string \<Rightarrow> node_action result" where
  "action_from_string str =
     (if str = ''process'' then Inr Act_process
      else if str = ''stop'' then Inr Act_stop
      else if str = ''next_state'' then Inr Act_next_state
      else Inl (Xc ''SCHEDULER-391''))"

fun string_from_action :: "node_action \<Rightarrow> string" where
  "string_from_action Act_process = ''process''"
| "string_from_action Act_stop = ''stop''"
| "string_from_action Act_next_state = ''next_state''"

fun node_state_from_string :: "string \<Rightarrow> node_state result" where
  "node_state_from_string str =
     (if str = ''initialized'' then Inr Ns_initialized
      else if str = ''active'' then Inr Ns_active
      else Inl (Xc ''SCHEDULER-391''))"

fun string_from_node_state :: "node_state \<Rightarrow> string" where
  "string_from_node_state Ns_none = ''none''"
| "string_from_node_state Ns_initialized = ''initialized''"
| "string_from_node_state Ns_active = ''active''"
| "string_from_node_state Ns_closed = ''closed''"

text \<open>
  \<open>n_path\<close> is the path of the job or of the nested job chain. \<open>n_job\<close> is \<^verbatim>\<open>_job\<close>, the job a \<^verbatim>\<open>Job_node\<close> is connected with; \<open>n_nested\<close> is \<^verbatim>\<open>_nested_job_chain\<close> of a
  \<^verbatim>\<open>Nested_job_chain_node\<close>. \<open>n_on_return_codes\<close> are the \<^verbatim>\<open><on_return_codes>\<close>: the ranges of return codes, and
  the state they lead to. \<open>n_queue\<close>, \<open>n_has_tip\<close>, \<open>n_announced\<close>, \<open>n_check_time\<close> and \<open>n_check_delay\<close> belong to the \<^verbatim>\<open>Order_queue\<close>.
\<close>

record node =
  n_type :: node_type
  n_state :: node_state
  n_order_state :: order_state
  n_next_state :: order_state
  n_error_state :: order_state
  n_action :: node_action
  n_is_suspending_order :: bool
  n_delay :: duration
  n_on_error_suspend :: bool
  n_on_error_setback :: bool
  n_on_return_codes :: "((int \<times> int) list \<times> order_state option) list"
  n_path :: string
  n_next_node :: "nat option"
  n_error_node :: "nat option"
  n_job :: "nat option"
  n_nested :: "nat option"
  n_job_chain :: nat
  n_queue :: "nat list"
  n_has_tip :: bool
  n_announced :: time
  n_check_time :: int
  n_check_delay :: int

text \<open>\<^verbatim>\<open>is_type\<close> of each class asks its base class; a \<^verbatim>\<open>Sink_node\<close> is a \<^verbatim>\<open>Job_node\<close>.\<close>

fun is_type :: "node_type \<Rightarrow> node_type \<Rightarrow> bool" where
  "is_type N_end t = (t = N_end)"
| "is_type N_job_chain t = (t = N_job_chain)"
| "is_type N_order_queue t = (t = N_order_queue)"
| "is_type N_job t = (t = N_job \<or> t = N_order_queue)"
| "is_type N_file_order_sink t = (t = N_file_order_sink \<or> t = N_job \<or> t = N_order_queue)"
| "is_type N_none t = False"

section \<open>Job chains and orders\<close>

datatype chain_state = Cs_under_construction | Cs_initialized | Cs_loaded | Cs_active | Cs_closed

fun chain_rank :: "chain_state \<Rightarrow> nat" where
  "chain_rank Cs_under_construction = 0"
| "chain_rank Cs_initialized = 1"
| "chain_rank Cs_loaded = 2"
| "chain_rank Cs_active = 3"
| "chain_rank Cs_closed = 4"

text \<open>
  \<open>c_file_state\<close>, \<open>c_to_be_removed\<close> and \<open>c_replacement_state\<close> come from the folder: \<^verbatim>\<open>file_based_state()\<close>, \<^verbatim>\<open>is_to_be_removed()\<close>, and the state of
  \<^verbatim>\<open>replacement()\<close> if there is one. \<open>c_order_id_space\<close> lists the job chains of \<^verbatim>\<open>_order_id_space\<close>.
\<close>

record job_chain =
  c_path :: string
  c_state :: chain_state
  c_is_stopped :: bool
  c_is_distributed :: bool
  c_max_orders :: int
  c_order_id_space :: "nat list option"
  c_node_list :: "nat list"
  c_order_map :: "(string \<times> nat) list"
  c_blacklist_map :: "(string \<times> nat) list"
  c_file_state :: file_based_state
  c_to_be_removed :: bool
  c_replacement_state :: "file_based_state option"

record order =
  o_id :: string
  o_id_locked :: bool
  o_state :: order_state
  o_initial_state :: order_state
  o_initial_state_set :: bool
  o_end_state :: order_state
  o_occupied_state :: order_state
  o_priority :: int
  o_setback :: time
  o_setback_count :: nat
  o_setback_called :: bool
  o_suspended :: bool
  o_is_touched :: bool
  o_is_nested_touched :: bool
  o_is_on_blacklist :: bool
  o_is_replacement :: bool
  o_replaced_by :: "nat option"
  o_replacement_for :: "nat option"
  o_is_distributed :: bool
  o_is_db_occupied :: bool
  o_ignore_max_orders :: bool
  o_is_in_order_queue :: bool
  o_is_success_state :: bool
  o_end_state_reached :: bool
  o_moved :: bool
  o_task :: "nat option"
  o_job_chain :: "nat option"
  o_job_chain_node :: "nat option"
  o_job_chain_path :: string
  o_removed_from_job_chain_path :: string
  o_outer_job_chain_path :: string
  o_outer_job_chain_state :: order_state
  o_is_file_based :: bool
  o_start_time :: time
  o_end_time :: time
  o_schedule_is_incomplete :: bool

text \<open>What the operations tell others: \<^verbatim>\<open>Job::signal_earlier_order\<close>,
  \<^verbatim>\<open>Job::on_order_possibly_available\<close>, the check of a job chain for replacing and removing, the reported
  events, the path that a node requires, and the writing of the order to the database.\<close>

datatype order_signal =
    Earlier_order nat time
  | Order_possibly_available nat
  | Check_chain nat
  | Check_order nat
  | Order_event string nat
  | Order_db string nat
  | Node_requisite nat string
  | Request_distributed_order
  | Wake_distributed_processing

text \<open>The settings of a job for orders that are set back, and which job a task belongs to.\<close>

record job_settings =
  max_order_setbacks :: nat
  delay_order_after_setback :: "(nat \<times> duration) list"

record order_world =
  orders :: "nat \<Rightarrow> order"
  nodes :: "nat \<Rightarrow> node"
  chains :: "nat \<Rightarrow> job_chain"
  chain_of_path :: "string \<rightharpoonup> nat"
  jobs :: "nat \<Rightarrow> job_settings"
  job_of_task :: "nat \<Rightarrow> nat"
  orders_are_distributed :: bool
  clock :: time
  signals :: "order_signal list"

definition set_order :: "nat \<Rightarrow> (order \<Rightarrow> order) \<Rightarrow> order_world \<Rightarrow> order_world" where
  "set_order i f w = w\<lparr>orders := (orders w)(i := f (orders w i))\<rparr>"

definition set_node :: "nat \<Rightarrow> (node \<Rightarrow> node) \<Rightarrow> order_world \<Rightarrow> order_world" where
  "set_node n f w = w\<lparr>nodes := (nodes w)(n := f (nodes w n))\<rparr>"

definition set_chain :: "nat \<Rightarrow> (job_chain \<Rightarrow> job_chain) \<Rightarrow> order_world \<Rightarrow> order_world" where
  "set_chain c f w = w\<lparr>chains := (chains w)(c := f (chains w c))\<rparr>"

definition signal :: "order_signal \<Rightarrow> order_world \<Rightarrow> order_world" where
  "signal s w = w\<lparr>signals := signals w @ [s]\<rparr>"

named_theorems world_simps \<open>reading the world after a change\<close>

lemma set_order_simps [world_simps]:
  "orders (set_order i f w) = (orders w)(i := f (orders w i))"
  "nodes (set_order i f w) = nodes w" "chains (set_order i f w) = chains w"
  "chain_of_path (set_order i f w) = chain_of_path w" "jobs (set_order i f w) = jobs w" "job_of_task (set_order i f w) = job_of_task w"
  "orders_are_distributed (set_order i f w) = orders_are_distributed w" "clock (set_order i f w) = clock w"
  "signals (set_order i f w) = signals w"
  by (simp_all add: set_order_def)

lemma set_node_simps [world_simps]:
  "nodes (set_node n g w) = (nodes w)(n := g (nodes w n))"
  "orders (set_node n g w) = orders w" "chains (set_node n g w) = chains w"
  "chain_of_path (set_node n g w) = chain_of_path w" "jobs (set_node n g w) = jobs w" "job_of_task (set_node n g w) = job_of_task w"
  "orders_are_distributed (set_node n g w) = orders_are_distributed w" "clock (set_node n g w) = clock w"
  "signals (set_node n g w) = signals w"
  by (simp_all add: set_node_def)

lemma set_chain_simps [world_simps]:
  "chains (set_chain c h w) = (chains w)(c := h (chains w c))"
  "orders (set_chain c h w) = orders w" "nodes (set_chain c h w) = nodes w"
  "chain_of_path (set_chain c h w) = chain_of_path w" "jobs (set_chain c h w) = jobs w" "job_of_task (set_chain c h w) = job_of_task w"
  "orders_are_distributed (set_chain c h w) = orders_are_distributed w" "clock (set_chain c h w) = clock w"
  "signals (set_chain c h w) = signals w"
  by (simp_all add: set_chain_def)

lemma signal_simps [world_simps]:
  "orders (signal s w) = orders w" "nodes (signal s w) = nodes w" "chains (signal s w) = chains w"
  "chain_of_path (signal s w) = chain_of_path w" "jobs (signal s w) = jobs w" "job_of_task (signal s w) = job_of_task w"
  "orders_are_distributed (signal s w) = orders_are_distributed w" "clock (signal s w) = clock w"
  "signals (signal s w) = signals w @ [s]"
  by (simp_all add: signal_def)

section \<open>Orders that may be processed\<close>

text \<open>\<^verbatim>\<open>Job_chain::is_ready_for_order_processing\<close>, and \<^verbatim>\<open>is_ready_for_order_processing\<close> of \<^verbatim>\<open>Node\<close> and
  of \<^verbatim>\<open>Order_queue_node\<close>, which are two functions, since it is not virtual.\<close>

definition chain_is_ready :: "job_chain \<Rightarrow> bool" where
  "chain_is_ready c =
     (if c_to_be_removed c then False
      else if c_replacement_state c = Some S_initialized then False
      else if c_state c \<noteq> Cs_active then False
      else \<not> c_is_stopped c)"

definition node_is_ready :: "node \<Rightarrow> bool" where
  "node_is_ready n = (n_action n = Act_process)"

definition queue_node_is_ready :: "order_world \<Rightarrow> nat \<Rightarrow> bool" where
  "queue_node_is_ready w n =
     (n_action (nodes w n) \<noteq> Act_stop \<and> chain_is_ready (chains w (n_job_chain (nodes w n))))"

definition is_self_processable :: "order \<Rightarrow> bool" where
  "is_self_processable x =
     (if o_is_on_blacklist x then False
      else if o_suspended x then False
      else if o_task x \<noteq> None then False
      else if o_is_replacement x then False
      else \<not> o_schedule_is_incomplete x)"

definition is_processable :: "order_world \<Rightarrow> nat \<Rightarrow> bool" where
  "is_processable w i =
     (is_self_processable (orders w i)
      \<and> (case o_job_chain (orders w i) of None \<Rightarrow> True | Some c \<Rightarrow> chain_is_ready (chains w c))
      \<and> (case o_job_chain_node (orders w i) of None \<Rightarrow> True | Some n \<Rightarrow> node_is_ready (nodes w n)))"

definition is_immediately_processable :: "order_world \<Rightarrow> nat \<Rightarrow> time \<Rightarrow> bool" where
  "is_immediately_processable w i t = (o_setback (orders w i) \<le> t \<and> is_processable w i)"

definition order_next_time :: "order_world \<Rightarrow> nat \<Rightarrow> time" where
  "order_next_time w i = (if is_processable w i then o_setback (orders w i) else never)"

definition is_touched_in_current_job_chain :: "order \<Rightarrow> bool" where
  "is_touched_in_current_job_chain x =
     (if o_outer_job_chain_path x = [] then o_is_touched x else o_is_nested_touched x)"

section \<open>Nodes of a job chain\<close>

definition node_from_state_or_null :: "order_world \<Rightarrow> nat \<Rightarrow> order_state \<Rightarrow> nat option" where
  "node_from_state_or_null w c s =
     (if s = Missing_state then None
      else List.find (\<lambda>n. state_eq (n_order_state (nodes w n)) s) (c_node_list (chains w c)))"

definition node_from_state :: "order_world \<Rightarrow> nat \<Rightarrow> order_state \<Rightarrow> nat result" where
  "node_from_state w c s =
     (case node_from_state_or_null w c s of None \<Rightarrow> Inl (Xc ''SCHEDULER-149'') | Some n \<Rightarrow> Inr n)"

definition first_node :: "order_world \<Rightarrow> nat \<Rightarrow> nat result" where
  "first_node w c = (case c_node_list (chains w c) of [] \<Rightarrow> Inl (Assertion ''first_node'') | n # _ \<Rightarrow> Inr n)"

text \<open>The loop of \<^verbatim>\<open>referenced_node_from_state\<close>: \<open>k\<close> is the counter that starts with 1000.\<close>

fun follow_next_state :: "order_world \<Rightarrow> nat \<Rightarrow> nat \<Rightarrow> nat \<Rightarrow> nat result" where
  "follow_next_state w c 0 n = Inl (Xc ''SCHEDULER-403'')"
| "follow_next_state w c (Suc k) n =
     (if n_action (nodes w n) = Act_next_state then
        bind_r (node_from_state w c (n_next_state (nodes w n))) (\<lambda>m.
          if k = 0 then Inl (Xc ''SCHEDULER-403'') else follow_next_state w c k m)
      else Inr n)"

definition referenced_node_from_state :: "order_world \<Rightarrow> nat \<Rightarrow> order_state \<Rightarrow> nat result" where
  "referenced_node_from_state w c s = bind_r (node_from_state w c s) (follow_next_state w c 1000)"

section \<open>Counting orders\<close>

definition queue_nodes :: "order_world \<Rightarrow> nat \<Rightarrow> nat list" where
  "queue_nodes w c = filter (\<lambda>n. is_type (n_type (nodes w n)) N_order_queue) (c_node_list (chains w c))"

definition touched_order_count :: "order_world \<Rightarrow> nat \<Rightarrow> int" where
  "touched_order_count w n = int (length (filter (\<lambda>i. o_is_touched (orders w i)) (n_queue (nodes w n))))"

definition queue_touched_obeying :: "order_world \<Rightarrow> bool \<Rightarrow> nat \<Rightarrow> int" where
  "queue_touched_obeying w in_current n =
     int (length (filter (\<lambda>i. \<not> o_ignore_max_orders (orders w i)
          \<and> (if in_current then is_touched_in_current_job_chain (orders w i) else o_is_touched (orders w i)))
        (n_queue (nodes w n))))"

definition chain_not_distributed :: "order_world \<Rightarrow> nat \<Rightarrow> unit result" where
  "chain_not_distributed w c = (if c_is_distributed (chains w c) then Inl (Xc ''SCHEDULER-376'') else Inr ())"

definition number_of_touched_orders :: "order_world \<Rightarrow> nat \<Rightarrow> int result" where
  "number_of_touched_orders w c =
     bind_r (chain_not_distributed w c) (\<lambda>_. Inr (sum_list (map (touched_order_count w) (queue_nodes w c))))"

definition chain_touched_obeying :: "order_world \<Rightarrow> bool \<Rightarrow> nat \<Rightarrow> int result" where
  "chain_touched_obeying w in_current c =
     bind_r (chain_not_distributed w c)
       (\<lambda>_. Inr (sum_list (map (queue_touched_obeying w in_current) (queue_nodes w c))))"

definition is_max_orders_set :: "job_chain \<Rightarrow> bool" where
  "is_max_orders_set c = (c_max_orders c < int_max)"

definition is_max_orders_reached :: "order_world \<Rightarrow> nat \<Rightarrow> bool result" where
  "is_max_orders_reached w c =
     (if c_max_orders (chains w c) < int_max
      then bind_r (chain_touched_obeying w True c) (\<lambda>n. Inr (c_max_orders (chains w c) \<le> n))
      else Inr False)"

definition untouched_is_allowed :: "order_world \<Rightarrow> nat \<Rightarrow> bool result" where
  "untouched_is_allowed w c = bind_r (is_max_orders_reached w c) (\<lambda>b. Inr (\<not> b))"

text \<open>The loop of \<^verbatim>\<open>is_below_this_outer_job_chain_max_orders\<close> over the nested job chains; \<^verbatim>\<open>None\<close> is the
  early return for a nested job chain that is not known.\<close>

fun count_nested :: "order_world \<Rightarrow> nat list \<Rightarrow> int option result" where
  "count_nested w [] = Inr (Some 0)"
| "count_nested w (n # ns) =
     (if is_type (n_type (nodes w n)) N_job_chain then
        (case n_nested (nodes w n) of
           None \<Rightarrow> Inr None
         | Some c \<Rightarrow> bind_r (chain_touched_obeying w False c) (\<lambda>k.
             bind_r (count_nested w ns) (\<lambda>r. Inr (map_option (\<lambda>m. k + m) r))))
      else count_nested w ns)"

definition is_below_this_outer_max :: "order_world \<Rightarrow> nat \<Rightarrow> bool result" where
  "is_below_this_outer_max w c =
     (if \<not> is_max_orders_set (chains w c) then Inr True
      else bind_r (count_nested w (c_node_list (chains w c)))
        (\<lambda>r. Inr (case r of None \<Rightarrow> False | Some count \<Rightarrow> count < c_max_orders (chains w c))))"

definition is_below_outer_max :: "order_world \<Rightarrow> string \<Rightarrow> bool result" where
  "is_below_outer_max w outer_path =
     (if outer_path = [] then Inr True
      else case chain_of_path w outer_path of
        Some c \<Rightarrow> is_below_this_outer_max w c
      | None \<Rightarrow> Inr False)"

end
