(* ===== verification/Order_Queue.thy ===== *)
theory Order_Queue
  imports Order_Data
begin

text \<open>
  \<^verbatim>\<open>Order_queue\<close> (\<^verbatim>\<open>scheduler/spooler_order.cxx\<close>): the orders that wait at a node of a job chain, in the order
  in which they are processed, and how a task fetches and occupies the next one. A queue is addressed by its
  node.
\<close>

section \<open>The queue\<close>

definition handle_changed_processable_state :: "nat \<Rightarrow> order_world \<Rightarrow> order_world" where
  "handle_changed_processable_state i w =
     (case o_job_chain_node (orders w i) of
        None \<Rightarrow> w
      | Some n \<Rightarrow>
          if is_type (n_type (nodes w n)) N_job then
            (case n_job (nodes w n) of
               None \<Rightarrow> w
             | Some j \<Rightarrow> signal (Earlier_order j (order_next_time w i)) w)
          else w)"

text \<open>\<open>queued_behind x y\<close>: the loop of \<^verbatim>\<open>add_order\<close> leaves when it comes to the order \<open>y\<close>, so that \<open>x\<close> is
  inserted before it.\<close>

definition queued_behind :: "order \<Rightarrow> order \<Rightarrow> bool" where
  "queued_behind x y =
     (if o_suspended y < o_suspended x then False
      else if o_suspended y > o_suspended x then True
      else if o_setback y < o_setback x then False
      else if o_setback y > o_setback x then True
      else if o_priority y > o_priority x then False
      else o_priority y < o_priority x)"

fun queue_insert :: "(nat \<Rightarrow> order) \<Rightarrow> nat \<Rightarrow> nat list \<Rightarrow> nat list" where
  "queue_insert os i [] = [i]"
| "queue_insert os i (j # q) = (if queued_behind (os i) (os j) then i # j # q else j # queue_insert os i q)"

text \<open>
  As in a release build: in a debug build (\<^verbatim>\<open>Z_DEBUG\<close>) the code then asserts that the priorities in the queue do not rise,
  which the insertion itself does not see to when suspensions or setbacks differ (\<open>debug_check_may_fail\<close> below).
\<close>

definition add_order :: "nat \<Rightarrow> nat \<Rightarrow> order_world \<Rightarrow> order_world" where
  "add_order n i w =
     handle_changed_processable_state i
       (set_order i (\<lambda>x. x\<lparr>o_is_in_order_queue := True\<rparr>)
         (set_node n (\<lambda>x. x\<lparr>n_queue := queue_insert (orders w) i (n_queue x)\<rparr>) w))"

definition debug_check :: "nat \<Rightarrow> order_world \<Rightarrow> bool" where
  "debug_check n w = successively (\<lambda>i j. o_priority (orders w j) \<le> o_priority (orders w i)) (n_queue (nodes w n))"

definition remove_order :: "nat \<Rightarrow> nat \<Rightarrow> (order_world, unit) operation" where
  "remove_order n i w =
     (if \<not> o_is_in_order_queue (orders w i) then throw (Assertion ''remove_order'') w
      else if i \<notin> set (n_queue (nodes w n)) then throw (Xc ''SCHEDULER-156'') w
      else ret () (set_node n (\<lambda>x. x\<lparr>n_queue := remove1 i (n_queue x)\<rparr>)
             (set_order i (\<lambda>x. x\<lparr>o_is_in_order_queue := False\<rparr>) w)))"

definition reinsert_order :: "nat \<Rightarrow> nat \<Rightarrow> (order_world, unit) operation" where
  "reinsert_order n i = bind_s (remove_order n i) (\<lambda>_ w. ret () (add_order n i w))"

text \<open>\<^verbatim>\<open>Order::order_queue\<close>: the queue of the order's node.\<close>

definition order_queue :: "order_world \<Rightarrow> nat \<Rightarrow> nat result" where
  "order_queue w i =
     (case o_job_chain_node (orders w i) of
        None \<Rightarrow> Inl (if o_is_in_order_queue (orders w i) then Assertion ''order_queue'' else Xc ''SCHEDULER-163'')
      | Some n \<Rightarrow> if is_type (n_type (nodes w n)) N_order_queue then Inr n else Inl (Xc ''SCHEDULER-163''))"

definition first_processable_order :: "order_world \<Rightarrow> nat \<Rightarrow> nat option result" where
  "first_processable_order w n =
     (case List.find (is_processable w) (n_queue (nodes w n)) of
        None \<Rightarrow> Inr None
      | Some i \<Rightarrow> if o_is_distributed (orders w i) then Inl (Assertion ''first_processable_order'') else Inr (Some i))"

definition order_queue_next_time :: "order_world \<Rightarrow> nat \<Rightarrow> time result" where
  "order_queue_next_time w n =
     (let announced = n_announced (nodes w n);
          earlier = (\<lambda>t. Inr (if announced < t then announced else t))
      in case List.find (is_processable w) (n_queue (nodes w n)) of
        None \<Rightarrow> earlier never
      | Some i \<Rightarrow> if o_is_distributed (orders w i) then Inl (Assertion ''order_next_time'') else earlier (order_next_time w i))"

text \<open>The limits of the job chain and of the outer job chain; what has been touched already may go on.\<close>

definition within_limits :: "order_world \<Rightarrow> bool \<Rightarrow> nat \<Rightarrow> bool result" where
  "within_limits w untouched_allowed i =
     (let x = orders w i in
      if o_ignore_max_orders x then Inr True
      else bind_r (if o_is_touched x then Inr True else is_below_outer_max w (o_outer_job_chain_path x))
        (\<lambda>below. Inr (below \<and> (is_touched_in_current_job_chain x \<or> untouched_allowed))))"

text \<open>The loop of \<^verbatim>\<open>first_immediately_processable_order\<close>, which leaves at the first order that is set back
  beyond \<open>now\<close>.\<close>

fun search_queue :: "order_world \<Rightarrow> bool \<Rightarrow> time \<Rightarrow> nat list \<Rightarrow> nat option result" where
  "search_queue w untouched_allowed now [] = Inr None"
| "search_queue w untouched_allowed now (i # q) =
     bind_r (if is_immediately_processable w i now then within_limits w untouched_allowed i else Inr False)
       (\<lambda>found.
          if found then Inr (Some i)
          else if now < o_setback (orders w i) then Inr None
          else search_queue w untouched_allowed now q)"

definition first_immediately_processable_order :: "nat \<Rightarrow> bool \<Rightarrow> time \<Rightarrow> (order_world, nat option) operation" where
  "first_immediately_processable_order n untouched_allowed now w =
     (case search_queue w untouched_allowed now (n_queue (nodes w n)) of
        Inl e \<Rightarrow> throw e w
      | Inr None \<Rightarrow> ret None w
      | Inr (Some i) \<Rightarrow>
          let w' = set_order i (\<lambda>x. x\<lparr>o_setback := Time 0\<rparr>) w in
          if o_is_distributed (orders w i) then throw (Assertion ''first_immediately_processable_order'') w'
          else ret (Some i) w')"

definition has_immediately_processable_order :: "nat \<Rightarrow> time \<Rightarrow> (order_world, bool) operation" where
  "has_immediately_processable_order n now w =
     (case untouched_is_allowed w (n_job_chain (nodes w n)) of
        Inl e \<Rightarrow> throw e w
      | Inr u \<Rightarrow> bind_s (first_immediately_processable_order n u now) (\<lambda>r. ret (r \<noteq> None)) w)"

section \<open>Requesting orders\<close>

definition time_max :: int where
  "time_max = int_max"

definition check_database_orders_period :: int where
  "check_database_orders_period = 15"

definition check_database_orders_period_minimum :: int where
  "check_database_orders_period_minimum = 1"

definition queue_request_order :: "nat \<Rightarrow> time \<Rightarrow> (order_world, bool) operation" where
  "queue_request_order n now w =
     (if n_has_tip (nodes w n) \<or> n_announced (nodes w n) \<le> now then ret True w
      else bind_s (has_immediately_processable_order n now) (\<lambda>found w1.
        if found then ret True w1
        else if n_check_time (nodes w1 n) = time_max
            \<and> c_is_distributed (chains w1 (n_job_chain (nodes w1 n))) then
          ret False (signal Request_distributed_order
            (set_node n (\<lambda>x. x\<lparr>n_check_time := 0, n_check_delay := check_database_orders_period_minimum\<rparr>) w1))
        else ret False w1) w)"

definition withdraw_distributed_order_request :: "nat \<Rightarrow> order_world \<Rightarrow> order_world" where
  "withdraw_distributed_order_request n =
     set_node n (\<lambda>x. x\<lparr>n_check_time := time_max, n_check_delay := check_database_orders_period\<rparr>)"

definition withdraw_order_request :: "nat \<Rightarrow> order_world \<Rightarrow> order_world" where
  "withdraw_order_request n w =
     withdraw_distributed_order_request n (set_node n (\<lambda>x. x\<lparr>n_has_tip := False\<rparr>) w)"

definition calculate_next_check_time :: "nat \<Rightarrow> int \<Rightarrow> order_world \<Rightarrow> order_world" where
  "calculate_next_check_time n now =
     set_node n (\<lambda>x.
       let d = n_check_delay x * 2;
           delay = (if check_database_orders_period < d then check_database_orders_period else d)
       in x\<lparr>n_check_delay := delay, n_check_time := min (now + delay) (as_time_t (n_announced x))\<rparr>)"

definition set_next_announced :: "nat \<Rightarrow> time \<Rightarrow> order_world \<Rightarrow> order_world" where
  "set_next_announced n t w =
     (let w1 = set_node n (\<lambda>x. x\<lparr>n_announced := t\<rparr>) w in
      if is_type (n_type (nodes w n)) N_job then
        (case n_job (nodes w n) of None \<Rightarrow> w1 | Some j \<Rightarrow> signal (Earlier_order j t) w1)
      else w1)"

definition tip_for_new_distributed_order :: "nat \<Rightarrow> order_world \<Rightarrow> order_world" where
  "tip_for_new_distributed_order n w =
     (if n_has_tip (nodes w n) then w
      else let w1 = set_node n (\<lambda>x. x\<lparr>n_has_tip := True\<rparr>) w in
        if is_type (n_type (nodes w n)) N_job then
          (case n_job (nodes w n) of None \<Rightarrow> w1 | Some j \<Rightarrow> signal (Order_possibly_available j) w1)
        else w1)"

section \<open>Occupying an order\<close>

definition touch :: "nat \<Rightarrow> order_world \<Rightarrow> order_world" where
  "touch i w =
     (let w1 = (if o_is_touched (orders w i) then w
                else signal (Order_event ''orderTouched'' i) (set_order i (\<lambda>x. x\<lparr>o_is_touched := True\<rparr>) w))
      in if o_outer_job_chain_path (orders w i) \<noteq> '''' \<and> \<not> o_is_nested_touched (orders w i)
         then signal (Order_event ''orderNestedTouched'' i) (set_order i (\<lambda>x. x\<lparr>o_is_nested_touched := True\<rparr>) w1)
         else w1)"

text \<open>Here and below, an order that is not in the database yet is written there first; this is not
  modelled.\<close>

definition occupy_for_task :: "nat \<Rightarrow> nat \<Rightarrow> time \<Rightarrow> (order_world, unit) operation" where
  "occupy_for_task i task now w =
     (if o_task (orders w i) \<noteq> None then throw (Xc ''SCHEDULER-217'') w
      else if o_moved (orders w i) then throw (Assertion ''SCHEDULER-0'') w
      else ret () (touch i
        (set_order i (\<lambda>x. x\<lparr>o_setback := Time 0, o_setback_called := False, o_moved := False, o_task := Some task,
            o_start_time := (if o_start_time x = Time 0 then now else o_start_time x)\<rparr>) w)))"

definition on_occupied :: "nat \<Rightarrow> order_world \<Rightarrow> order_world" where
  "on_occupied i = set_order i (\<lambda>x. x\<lparr>o_is_success_state := True, o_end_state_reached := False\<rparr>)"

text \<open>
  What \<^verbatim>\<open>fetch_and_occupy_order\<close> calls outside of the queue: the check of the file based orders for pending
  replacements, the reading of a distributed order from the database, and the order sources
  (\<^verbatim>\<open><file_order_source>\<close>) of the node and of the nodes that are skipped before it.
\<close>

record order_hooks =
  check_standing_orders :: "nat \<Rightarrow> order_world \<Rightarrow> order_world"
  load_distributed_order :: "nat \<Rightarrow> nat \<Rightarrow> bool \<Rightarrow> time \<Rightarrow> (order_world, nat option) operation"
  release_db_occupation :: "nat \<Rightarrow> order_world \<Rightarrow> order_world"
  fetch_from_sources :: "nat \<Rightarrow> nat \<Rightarrow> time \<Rightarrow> (order_world, nat option) operation"

definition unoccupy_order :: "order_hooks \<Rightarrow> nat \<Rightarrow> order_world \<Rightarrow> order_world" where
  "unoccupy_order h i w =
     (let w1 = set_order i (\<lambda>x. x\<lparr>o_task := None\<rparr>) w
      in if o_is_distributed (orders w i) then release_db_occupation h i w1 else w1)"

definition queue_fetch_and_occupy ::
  "order_hooks \<Rightarrow> nat \<Rightarrow> nat \<Rightarrow> bool \<Rightarrow> time \<Rightarrow> (order_world, nat option) operation" where
  "queue_fetch_and_occupy h n task untouched_allowed now w =
     bind_s (first_immediately_processable_order n untouched_allowed now)
       (\<lambda>found. case found of
          Some i \<Rightarrow> bind_s (occupy_for_task i task now) (\<lambda>_. ret (Some i))
        | None \<Rightarrow> (\<lambda>w1.
            if n_announced (nodes w1 n) \<le> now then
              bind_s (load_distributed_order h n task untouched_allowed now)
                (\<lambda>loaded w2. case loaded of
                   None \<Rightarrow> ret None w2
                 | Some i \<Rightarrow>
                     if \<not> o_is_distributed (orders w2 i) then throw (Assertion ''fetch_and_occupy_order'') w2
                     else if \<not> state_eq (o_state (orders w2 i)) (o_occupied_state (orders w2 i))
                       then ret None (unoccupy_order h i w2)
                     else ret (Some i) (withdraw_distributed_order_request n w2)) w1
            else ret None w1))
       (check_standing_orders h n (set_node n (\<lambda>x. x\<lparr>n_has_tip := False\<rparr>) w))"

definition node_fetch_and_occupy ::
  "order_hooks \<Rightarrow> bool \<Rightarrow> nat \<Rightarrow> nat \<Rightarrow> time \<Rightarrow> (order_world, nat option) operation" where
  "node_fetch_and_occupy h process_class_fits n task now w =
     (if process_class_fits \<and> queue_node_is_ready w n then
        (case untouched_is_allowed w (n_job_chain (nodes w n)) of
           Inl e \<Rightarrow> throw e w
         | Inr u \<Rightarrow>
             bind_s (bind_s (queue_fetch_and_occupy h n task u now)
                 (\<lambda>found w1.
                    if found = None \<and> u \<and> n_action (nodes w1 n) \<noteq> Act_next_state
                    then fetch_from_sources h n task now w1
                    else ret found w1))
               (\<lambda>found w2. case found of
                  None \<Rightarrow> ret None w2
                | Some i \<Rightarrow>
                    let w3 = signal (Order_db ''start_history'' i) w2 in
                    if o_task (orders w3 i) = None then throw (Assertion ''ORDER-HAS-NO-TASK'') w3
                    else ret (Some i) (on_occupied i w3)) w)
      else ret None w)"

section \<open>The discipline of a queue\<close>

text \<open>
  What \<open>add_order\<close> relies on: \<open>behind x y\<close> (\<open>x\<close> is to be placed before \<open>y\<close>) is a strict weak order. Then an
  order that is inserted before the first one it precedes keeps the queue sorted.
\<close>

locale queue_discipline =
  fixes behind :: "'a \<Rightarrow> 'a \<Rightarrow> bool"
  assumes asym: "behind x y \<Longrightarrow> \<not> behind y x"
    and split: "behind x y \<Longrightarrow> behind x z \<or> behind z y"
begin

lemma irrefl: "\<not> behind x x"
  using asym by blast

lemma not_behind_trans: "\<not> behind y x \<Longrightarrow> \<not> behind z y \<Longrightarrow> \<not> behind z x"
  using split by blast

lemma sorted_insert:
  assumes "sorted_wrt (\<lambda>x y. \<not> behind y x) (xs @ ys)" "\<And>x. x \<in> set xs \<Longrightarrow> \<not> behind a x"
    and "ys = [] \<or> \<not> behind (hd ys) a"
  shows "sorted_wrt (\<lambda>x y. \<not> behind y x) (xs @ a # ys)"
proof -
  have "\<not> behind y a" if "y \<in> set ys" for y
  proof (cases ys)
    case (Cons z zs)
    then have "\<not> behind z a" using assms(3) by simp
    moreover have "y = z \<or> \<not> behind y z" using assms(1) that Cons by (auto simp: sorted_wrt_append)
    ultimately show ?thesis using not_behind_trans by blast
  qed (use that in simp)
  then show ?thesis using assms(1,2) by (auto simp: sorted_wrt_append)
qed

lemma sorted_remove: "sorted_wrt (\<lambda>x y. \<not> behind y x) (xs @ a # ys) \<Longrightarrow> sorted_wrt (\<lambda>x y. \<not> behind y x) (xs @ ys)"
  by (auto simp: sorted_wrt_append)

text \<open>Everything after an element that may not go before \<open>y\<close> stays behind \<open>y\<close> as well.\<close>

lemma sorted_suffix:
  assumes "sorted_wrt (\<lambda>x y. \<not> behind y x) (x # xs)" "behind y x" "z \<in> set xs"
  shows "behind y z"
  using assms split [of y x z] by auto

end

text \<open>The comparison of \<open>add_order\<close>, and the coarser one in which all times that have come are the same.\<close>

definition clamped_behind :: "time \<Rightarrow> order \<Rightarrow> order \<Rightarrow> bool" where
  "clamped_behind now x y =
     (o_suspended x < o_suspended y
      \<or> o_suspended x = o_suspended y \<and> max now (o_setback x) < max now (o_setback y))"

interpretation queue_order: queue_discipline queued_behind
  by unfold_locales (auto simp: queued_behind_def split: if_splits)

interpretation clamped_order: queue_discipline "clamped_behind now"
  by unfold_locales (auto simp: clamped_behind_def max_def less_bool_def split: if_splits)

lemma clamped_behind_queued: "clamped_behind now x y \<Longrightarrow> queued_behind x y"
  by (auto simp: clamped_behind_def queued_behind_def max_def split: if_splits)

lemma queued_not_clamped: "queued_behind x y \<Longrightarrow> \<not> clamped_behind now y x"
  using clamped_behind_queued queue_order.asym by blast

lemma clamped_behind_later:
  "now \<le> later \<Longrightarrow> clamped_behind later x y \<Longrightarrow> clamped_behind now x y"
  by (auto simp: clamped_behind_def max_def split: if_splits)

text \<open>An order is placed behind all orders of its rank and before all orders of a higher one.\<close>

lemma queue_insert_split:
  obtains xs ys where "q = xs @ ys" "queue_insert os i q = xs @ i # ys"
    "\<And>j. j \<in> set xs \<Longrightarrow> \<not> queued_behind (os i) (os j)" "ys = [] \<or> queued_behind (os i) (os (hd ys))"
proof (induction q arbitrary: thesis)
  case Nil
  show ?case by (rule Nil.prems [of "[]" "[]"]) simp_all
next
  case (Cons j q)
  show ?case
  proof (cases "queued_behind (os i) (os j)")
    case True
    then show ?thesis by (intro Cons.prems [of "[]" "j # q"]) simp_all
  next
    case False
    obtain xs ys where "q = xs @ ys" "queue_insert os i q = xs @ i # ys"
      "\<And>j. j \<in> set xs \<Longrightarrow> \<not> queued_behind (os i) (os j)" "ys = [] \<or> queued_behind (os i) (os (hd ys))"
      using Cons.IH by blast
    then show ?thesis using False by (intro Cons.prems [of "j # xs" ys]) auto
  qed
qed

lemma set_queue_insert [simp]: "set (queue_insert os i q) = insert i (set q)"
  by (induction q) auto

lemma distinct_queue_insert: "distinct (queue_insert os i q) \<longleftrightarrow> distinct q \<and> i \<notin> set q"
  by (induction q) auto

lemma remove1_queue_insert: "i \<notin> set q \<Longrightarrow> remove1 i (queue_insert os i q) = q"
  by (induction q) auto

text \<open>A queue in processing order: suspended orders last, and orders whose time has not come sorted by their
  times, behind those whose time has come.\<close>

definition queue_sorted :: "(nat \<Rightarrow> order) \<Rightarrow> time \<Rightarrow> nat list \<Rightarrow> bool" where
  "queue_sorted os now q = sorted_wrt (\<lambda>x y. \<not> clamped_behind now y x) (map os q)"

definition strictly_sorted :: "(nat \<Rightarrow> order) \<Rightarrow> nat list \<Rightarrow> bool" where
  "strictly_sorted os q = sorted_wrt (\<lambda>x y. \<not> queued_behind y x) (map os q)"

lemma strictly_sorted_clamped: "strictly_sorted os q \<Longrightarrow> queue_sorted os now q"
  unfolding strictly_sorted_def queue_sorted_def
  by (erule sorted_wrt_mono_rel [rotated]) (blast dest: clamped_behind_queued)

lemma queue_sorted_insert:
  assumes "queue_sorted os now q"
  shows "queue_sorted os now (queue_insert os i q)"
proof -
  obtain xs ys where q: "q = xs @ ys" "queue_insert os i q = xs @ i # ys"
    "\<And>j. j \<in> set xs \<Longrightarrow> \<not> queued_behind (os i) (os j)" "ys = [] \<or> queued_behind (os i) (os (hd ys))"
    using queue_insert_split by metis
  have "sorted_wrt (\<lambda>x y. \<not> clamped_behind now y x) (map os xs @ os i # map os ys)"
  proof (rule clamped_order.sorted_insert)
    show "sorted_wrt (\<lambda>x y. \<not> clamped_behind now y x) (map os xs @ map os ys)"
      using assms q(1) by (simp add: queue_sorted_def)
    show "\<not> clamped_behind now (os i) x" if "x \<in> set (map os xs)" for x
      using that q(3) clamped_behind_queued by auto
    show "map os ys = [] \<or> \<not> clamped_behind now (hd (map os ys)) (os i)"
      using q(4) queued_not_clamped by (cases ys) auto
  qed
  then show ?thesis by (simp add: queue_sorted_def q(2))
qed

lemma strictly_sorted_insert:
  assumes "strictly_sorted os q"
  shows "strictly_sorted os (queue_insert os i q)"
proof -
  obtain xs ys where q: "q = xs @ ys" "queue_insert os i q = xs @ i # ys"
    "\<And>j. j \<in> set xs \<Longrightarrow> \<not> queued_behind (os i) (os j)" "ys = [] \<or> queued_behind (os i) (os (hd ys))"
    using queue_insert_split by metis
  have "sorted_wrt (\<lambda>x y. \<not> queued_behind y x) (map os xs @ os i # map os ys)"
  proof (rule queue_order.sorted_insert)
    show "sorted_wrt (\<lambda>x y. \<not> queued_behind y x) (map os xs @ map os ys)"
      using assms q(1) by (simp add: strictly_sorted_def)
    show "\<not> queued_behind (os i) x" if "x \<in> set (map os xs)" for x using that q(3) by auto
    show "map os ys = [] \<or> \<not> queued_behind (hd (map os ys)) (os i)"
      using q(4) queue_order.asym by (cases ys) auto
  qed
  then show ?thesis by (simp add: strictly_sorted_def q(2))
qed

lemma queue_sorted_remove: "queue_sorted os now q \<Longrightarrow> queue_sorted os now (remove1 i q)"
  unfolding queue_sorted_def
  by (induction q) (auto dest: set_remove1_subset [THEN subsetD])

lemma queue_sorted_later:
  assumes "queue_sorted os now q" "now \<le> later"
  shows "queue_sorted os later q"
  using assms(1) unfolding queue_sorted_def
  by (rule sorted_wrt_mono_rel [rotated]) (use assms(2) clamped_behind_later in blast)

lemma queue_sorted_cong:
  assumes "\<And>i. i \<in> set q \<Longrightarrow>
      o_suspended (os' i) = o_suspended (os i) \<and> max now (o_setback (os' i)) = max now (o_setback (os i))"
  shows "queue_sorted os' now q = queue_sorted os now q"
  unfolding queue_sorted_def sorted_wrt_map using assms
  by (intro iffI; elim sorted_wrt_mono_rel [rotated]) (auto simp: clamped_behind_def)

section \<open>The search for the next order\<close>

text \<open>The reference: ask every order of the queue in turn.\<close>

definition startable :: "order_world \<Rightarrow> bool \<Rightarrow> time \<Rightarrow> nat \<Rightarrow> bool result" where
  "startable w untouched_allowed now i =
     (if is_immediately_processable w i now then within_limits w untouched_allowed i else Inr False)"

fun find_first :: "('a \<Rightarrow> bool result) \<Rightarrow> 'a list \<Rightarrow> 'a option result" where
  "find_first f [] = Inr None"
| "find_first f (x # xs) = bind_r (f x) (\<lambda>b. if b then Inr (Some x) else find_first f xs)"

lemma find_first_None: "(\<And>x. x \<in> set xs \<Longrightarrow> f x = Inr False) \<Longrightarrow> find_first f xs = Inr None"
  by (induction xs) auto

lemma find_first_Some:
  assumes "find_first f xs = Inr (Some x)"
  obtains ys zs where "xs = ys @ x # zs" "f x = Inr True" "\<And>y. y \<in> set ys \<Longrightarrow> f y = Inr False"
  using assms
proof (induction xs arbitrary: thesis)
  case (Cons y xs)
  from Cons.prems(2) obtain b where b: "f y = Inr b" by (cases "f y") auto
  show ?case
  proof (cases b)
    case True
    then show ?thesis using Cons.prems b by (intro Cons.prems(1) [of "[]" xs]) auto
  next
    case False
    with Cons.prems(2) b obtain ys zs where "xs = ys @ x # zs" "f x = Inr True"
      "\<And>y. y \<in> set ys \<Longrightarrow> f y = Inr False"
      using Cons.IH by auto
    with b False show ?thesis by (intro Cons.prems(1) [of "y # ys" zs]) auto
  qed
qed simp

lemma find_first_InrNone: "find_first f xs = Inr None \<Longrightarrow> x \<in> set xs \<Longrightarrow> f x = Inr False"
  by (induction xs) (auto simp: bind_r_Inr_iff split: if_splits)

lemma behind_not_startable:
  assumes "queue_sorted (orders w) now (i # q)" "now < o_setback (orders w i)" "j \<in> set q"
  shows "startable w u now j = Inr False"
proof -
  have "\<not> clamped_behind now (orders w j) (orders w i)"
    using assms(1,3) by (simp add: queue_sorted_def)
  then have "o_suspended (orders w j) \<or> now < o_setback (orders w j)"
    using assms(2) by (auto simp: clamped_behind_def max_def split: if_splits)
  then show ?thesis
    by (auto simp: startable_def is_immediately_processable_def is_processable_def is_self_processable_def)
qed

lemma search_queue_complete:
  assumes "queue_sorted (orders w) now q"
  shows "search_queue w u now q = find_first (startable w u now) q"
  using assms
proof (induction q)
  case (Cons i q)
  have "queue_sorted (orders w) now q" using Cons.prems by (simp add: queue_sorted_def)
  moreover have "find_first (startable w u now) q = Inr None" if "now < o_setback (orders w i)"
    using behind_not_startable [OF Cons.prems that] by (rule find_first_None)
  moreover have "search_queue w u now (i # q) = bind_r (startable w u now i)
      (\<lambda>found. if found then Inr (Some i) else if now < o_setback (orders w i) then Inr None else search_queue w u now q)"
    by (simp add: startable_def)
  ultimately show ?case using Cons.IH by (cases "startable w u now i") auto
qed simp

section \<open>Fetching an order\<close>

lemma touch_simps [world_simps]:
  "nodes (touch i w) = nodes w" "chains (touch i w) = chains w" "clock (touch i w) = clock w"
  "chain_of_path (touch i w) = chain_of_path w" "jobs (touch i w) = jobs w" "job_of_task (touch i w) = job_of_task w"
  "j \<noteq> i \<Longrightarrow> orders (touch i w) j = orders w j"
  "orders (touch i w) i = (orders w i)\<lparr>o_is_touched := True,
     o_is_nested_touched := o_is_nested_touched (orders w i) \<or> o_outer_job_chain_path (orders w i) \<noteq> ''''\<rparr>"
  by (auto simp: touch_def Let_def world_simps)

text \<open>The order as it is after it has been occupied by a task.\<close>

definition occupied :: "nat \<Rightarrow> time \<Rightarrow> order \<Rightarrow> order" where
  "occupied task now x =
     x\<lparr>o_setback := Time 0, o_setback_called := False, o_moved := False, o_task := Some task,
       o_start_time := (if o_start_time x = Time 0 then now else o_start_time x), o_is_touched := True,
       o_is_nested_touched := o_is_nested_touched x \<or> o_outer_job_chain_path x \<noteq> ''''\<rparr>"

lemma occupy_result:
  assumes "occupy_for_task i task now w = (Inr r, w')"
  shows "o_task (orders w i) = None \<and> nodes w' = nodes w \<and> chains w' = chains w \<and> clock w' = clock w
    \<and> chain_of_path w' = chain_of_path w \<and> orders w' = (orders w)(i := occupied task now (orders w i))"
  using assms by (auto simp: occupy_for_task_def throw_def ret_def world_simps occupied_def fun_eq_iff split: if_splits)

lemma first_immediately_result:
  assumes "queue_sorted (orders w) now (n_queue (nodes w n))"
    and "first_immediately_processable_order n u now w = (Inr res, w')"
  shows "case res of
      None \<Rightarrow> w' = w \<and> (\<forall>i \<in> set (n_queue (nodes w n)). startable w u now i = Inr False)
    | Some i \<Rightarrow> w' = set_order i (\<lambda>x. x\<lparr>o_setback := Time 0\<rparr>) w \<and> startable w u now i = Inr True \<and>
        (\<exists>xs ys. n_queue (nodes w n) = xs @ i # ys \<and> (\<forall>j \<in> set xs. startable w u now j = Inr False))"
proof -
  have find: "find_first (startable w u now) (n_queue (nodes w n)) = Inr res"
    using assms by (auto simp: first_immediately_processable_order_def search_queue_complete throw_def ret_def Let_def
        split: sum.splits option.splits if_splits)
  show ?thesis
  proof (cases res)
    case None
    then show ?thesis using find find_first_InrNone assms
      by (auto simp: first_immediately_processable_order_def search_queue_complete ret_def)
  next
    case (Some i)
    obtain xs ys where "n_queue (nodes w n) = xs @ i # ys" "startable w u now i = Inr True"
      "\<And>j. j \<in> set xs \<Longrightarrow> startable w u now j = Inr False"
      using find find_first_Some Some by metis
    moreover have "w' = set_order i (\<lambda>x. x\<lparr>o_setback := Time 0\<rparr>) w"
      using assms find Some by (auto simp: first_immediately_processable_order_def search_queue_complete ret_def
          throw_def Let_def split: if_splits)
    ultimately show ?thesis using Some by auto
  qed
qed

lemma startable_task: "startable w u now i = Inr True \<Longrightarrow>
    o_task (orders w i) = None \<and> o_setback (orders w i) \<le> now \<and> \<not> o_suspended (orders w i)"
  by (auto simp: startable_def is_immediately_processable_def is_processable_def is_self_processable_def
      split: if_splits)

lemma fetch_result:
  assumes "check_standing_orders h n (set_node n (\<lambda>x. x\<lparr>n_has_tip := False\<rparr>) w) = w1"
    and "queue_sorted (orders w1) now (n_queue (nodes w1 n))" "now < n_announced (nodes w1 n)"
    and "queue_fetch_and_occupy h n task u now w = (Inr res, w')"
  shows "case res of
      None \<Rightarrow> w' = w1 \<and> (\<forall>i \<in> set (n_queue (nodes w1 n)). startable w1 u now i = Inr False)
    | Some i \<Rightarrow> startable w1 u now i = Inr True \<and>
        (\<exists>xs ys. n_queue (nodes w1 n) = xs @ i # ys \<and> (\<forall>j \<in> set xs. startable w1 u now j = Inr False)) \<and>
        nodes w' = nodes w1 \<and> chains w' = chains w1 \<and> clock w' = clock w1 \<and>
        orders w' = (orders w1)(i := occupied task now (orders w1 i))"
proof -
  obtain found w2 where first: "first_immediately_processable_order n u now w1 = (Inr found, w2)"
    using assms(1,4) bind_s_case unfolding queue_fetch_and_occupy_def by fastforce
  note result = first_immediately_result [OF assms(2) first]
  show ?thesis
  proof (cases found)
    case None
    have "\<not> n_announced (nodes w1 n) \<le> now" using assms(3) by simp
    with None show ?thesis using assms(1,4) first result
      by (auto simp: queue_fetch_and_occupy_def bind_s_Inr ret_def)
  next
    case (Some i)
    then have "bind_s (occupy_for_task i task now) (\<lambda>_. ret (Some i)) w2 = (Inr res, w')"
      using assms(1,4) first by (simp add: queue_fetch_and_occupy_def bind_s_Inr)
    then obtain w3 r where occ: "occupy_for_task i task now w2 = (Inr r, w3)" "res = Some i" "w' = w3"
      by (auto dest!: bind_s_case simp: ret_def)
    then show ?thesis using result Some occupy_result [OF occ(1)]
      by (auto simp: world_simps occupied_def fun_eq_iff)
  qed
qed

lemma occupied_keeps_sorted:
  assumes "queue_sorted os now q" "o_setback (os i) \<le> now" "Time 0 \<le> now"
  shows "queue_sorted (os(i := occupied task now (os i))) now q"
  using assms by (subst queue_sorted_cong [where os = os]) (auto simp: occupied_def max_def)

section \<open>Properties of the queue\<close>

text \<open> C14: \<^verbatim>\<open>add_order\<close> keeps the queue in processing order: not suspended before suspended, then earlier before
  later, then higher before lower priority; and among equals the new order comes last, so that orders are
  processed first come, first served. This is the function of a release build, without the assertion of \<open>debug_check\<close>.
\<close>

theorem add_order_keeps_discipline:
  assumes "strictly_sorted (orders w) (n_queue (nodes w n))" "i \<notin> set (n_queue (nodes w n))"
  shows "strictly_sorted (orders (add_order n i w)) (n_queue (nodes (add_order n i w) n))
    \<and> o_is_in_order_queue (orders (add_order n i w) i)
    \<and> (\<exists>xs ys. n_queue (nodes w n) = xs @ ys \<and> n_queue (nodes (add_order n i w) n) = xs @ i # ys
        \<and> (\<forall>j \<in> set xs. \<not> queued_behind (orders w i) (orders w j))
        \<and> (\<forall>j \<in> set ys. queued_behind (orders w i) (orders w j)))"
proof -
  let ?q = "n_queue (nodes w n)" and ?w = "add_order n i w"
  have new: "n_queue (nodes ?w n) = queue_insert (orders w) i ?q" "o_is_in_order_queue (orders ?w i)"
    "\<And>j. orders ?w j = (orders w j)\<lparr>o_is_in_order_queue := (if j = i then True else o_is_in_order_queue (orders w j))\<rparr>"
    by (auto simp: add_order_def handle_changed_processable_state_def world_simps split: option.splits)
  then have "strictly_sorted (orders ?w) (n_queue (nodes ?w n)) = strictly_sorted (orders w) (queue_insert (orders w) i ?q)"
    by (simp add: strictly_sorted_def sorted_wrt_map queued_behind_def)
  moreover obtain xs ys where q: "?q = xs @ ys" "queue_insert (orders w) i ?q = xs @ i # ys"
    "\<And>j. j \<in> set xs \<Longrightarrow> \<not> queued_behind (orders w i) (orders w j)" "ys = [] \<or> queued_behind (orders w i) (orders w (hd ys))"
    using queue_insert_split by metis
  moreover have "queued_behind (orders w i) (orders w j)" if "j \<in> set ys" for j
  proof (cases ys)
    case (Cons y zs)
    have "sorted_wrt (\<lambda>x y. \<not> queued_behind y x) (map (orders w) (y # zs))"
      using assms(1) q(1) Cons by (simp add: strictly_sorted_def sorted_wrt_append)
    then show ?thesis using queue_order.sorted_suffix [of "orders w y" "map (orders w) zs" "orders w i"] q(4) that Cons by auto
  qed (use that in simp)
  ultimately show ?thesis using strictly_sorted_insert [OF assms(1), of i] new(1,2) by auto
qed

text \<open>a task gets the first order of the queue, in processing order, that may start; it gets none only if no
  order of the queue may start, although the search leaves at the first order that is set back. The order was
  not occupied, it is afterwards, and nothing else changes.\<close>

theorem fetch_occupies_first:
  assumes "check_standing_orders h n (set_node n (\<lambda>x. x\<lparr>n_has_tip := False\<rparr>) w) = w1"
    and "queue_sorted (orders w1) now (n_queue (nodes w1 n))" "now < n_announced (nodes w1 n)"
    and "queue_fetch_and_occupy h n task u now w = (Inr res, w')"
  shows "(res = None \<longrightarrow> w' = w1 \<and> (\<forall>i \<in> set (n_queue (nodes w1 n)). startable w1 u now i = Inr False))
    \<and> (\<forall>i. res = Some i \<longrightarrow> startable w1 u now i = Inr True \<and> o_task (orders w1 i) = None
        \<and> (\<exists>xs ys. n_queue (nodes w1 n) = xs @ i # ys \<and> (\<forall>j \<in> set xs. startable w1 u now j = Inr False))
        \<and> nodes w' = nodes w1 \<and> orders w' = (orders w1)(i := occupied task now (orders w1 i)))"
  using fetch_result [OF assms] startable_task by (cases res) auto

section \<open>The limit on orders in a job chain\<close>

definition counted :: "order \<Rightarrow> bool" where
  "counted x = (\<not> o_ignore_max_orders x \<and> is_touched_in_current_job_chain x)"

definition chain_orders :: "order_world \<Rightarrow> nat \<Rightarrow> nat list" where
  "chain_orders w c = concat (map (\<lambda>n. n_queue (nodes w n)) (queue_nodes w c))"

lemma chain_touched_count:
  "chain_touched_obeying w True c = (if c_is_distributed (chains w c) then Inl (Xc ''SCHEDULER-376'')
     else Inr (int (length (filter (\<lambda>i. counted (orders w i)) (chain_orders w c)))))"
proof -
  have "sum_list (map (queue_touched_obeying w True) ns)
      = int (length (filter (\<lambda>i. counted (orders w i)) (concat (map (\<lambda>n. n_queue (nodes w n)) ns))))" for ns
    by (induction ns) (simp_all add: queue_touched_obeying_def counted_def)
  then show ?thesis
    by (simp add: chain_touched_obeying_def chain_not_distributed_def chain_orders_def)
qed

lemma filter_one_more:
  assumes "distinct xs" "\<And>x. x \<noteq> i \<Longrightarrow> Q x = P x"
  shows "length (filter Q xs) \<le> length (filter P xs) + (if P i \<or> \<not> Q i then 0 else 1)"
  using assms(1)
proof (induction xs)
  case (Cons x xs)
  show ?case
  proof (cases "x = i")
    case True
    then have "Q y = P y" if "y \<in> set xs" for y using that Cons.prems assms(2) [of y] by auto
    then have "filter Q xs = filter P xs" by (rule filter_cong [OF refl])
    then show ?thesis using True by auto
  qed (use Cons assms(2) in auto)
qed simp

lemma counted_occupied:
  "counted (occupied task now x) = (\<not> o_ignore_max_orders x)"
  by (auto simp: counted_def occupied_def is_touched_in_current_job_chain_def)

lemma startable_limit:
  "startable w u now i = Inr True \<Longrightarrow> o_ignore_max_orders (orders w i) \<or> counted (orders w i) \<or> u"
  by (auto simp: startable_def within_limits_def counted_def Let_def bind_r_Inr_iff split: if_splits)

lemma fetched_count:
  assumes "distinct (chain_orders w c)" "untouched_is_allowed w c = Inr u" "is_max_orders_set (chains w c)"
    and "startable w u now i = Inr True" "nodes w' = nodes w" "chains w' = chains w"
    and "orders w' = (orders w)(i := occupied task now (orders w i))"
  shows "\<exists>k k'. chain_touched_obeying w True c = Inr k \<and> chain_touched_obeying w' True c = Inr k'
    \<and> k' \<le> max k (c_max_orders (chains w c))"
proof -
  let ?n = "\<lambda>w. length (filter (\<lambda>i. counted (orders w i)) (chain_orders w c))"
  have nd: "\<not> c_is_distributed (chains w c)" and u: "u = (int (?n w) < c_max_orders (chains w c))"
    using assms(2,3) by (auto simp: untouched_is_allowed_def is_max_orders_reached_def is_max_orders_set_def
        chain_touched_count bind_r_Inr_iff split: if_splits)
  have same: "chain_orders w' c = chain_orders w c"
    using assms(5,6) by (simp add: chain_orders_def queue_nodes_def)
  have "?n w' \<le> ?n w + (if counted (orders w i) \<or> \<not> counted (orders w' i) then 0 else 1)"
    unfolding same by (rule filter_one_more) (use assms(1,7) in auto)
  moreover have "counted (orders w' i) = (\<not> o_ignore_max_orders (orders w i))"
    by (simp add: assms(7) counted_occupied)
  moreover have "o_ignore_max_orders (orders w i) \<or> counted (orders w i) \<or> int (?n w) < c_max_orders (chains w c)"
    using startable_limit [OF assms(4)] u by blast
  ultimately have "int (?n w') \<le> max (int (?n w)) (c_max_orders (chains w c))"
    by (simp split: if_splits)
  then show ?thesis using nd assms(6) by (simp add: chain_touched_count)
qed

text \<open>The hooks of a scheduler without pending replacements and without order sources at this node.\<close>

definition no_order_sources :: "order_hooks \<Rightarrow> nat \<Rightarrow> bool" where
  "no_order_sources h n =
     ((\<forall>w. check_standing_orders h n w = w) \<and> (\<forall>task now w. fetch_from_sources h n task now w = (Inr None, w)))"

text \<open> C13: a task that fetches an order from the queue of a node in a job chain with \<^verbatim>\<open>max_orders\<close> does not raise the number of orders
  that run in the job chain above the limit: if the limit is reached, only an order that runs in this chain already is taken, or one that
  ignores the limit and is not counted. This is meant for a node whose order sources deliver nothing and whose file based
  orders have no pending replacements (\<open>no_order_sources\<close>), with its queue in processing order, and before the time for which
  the database has announced a distributed order; \<^verbatim>\<open>max_orders\<close> is not allowed for distributed job chains.
\<close>

theorem max_orders_kept:
  assumes "no_order_sources h n" "n_job_chain (nodes w n) = c" "is_max_orders_set (chains w c)"
    and "distinct (chain_orders w c)" "queue_sorted (orders w) now (n_queue (nodes w n))" "now < n_announced (nodes w n)"
    and "node_fetch_and_occupy h fits n task now w = (Inr (Some i), w')"
  shows "\<exists>k k'. chain_touched_obeying w True c = Inr k \<and> chain_touched_obeying w' True c = Inr k'
    \<and> k' \<le> max k (c_max_orders (chains w c))"
proof -
  let ?w1 = "set_node n (\<lambda>x. x\<lparr>n_has_tip := False\<rparr>) w"
  have nodes1: "n_queue (nodes ?w1 m) = n_queue (nodes w m)" "n_announced (nodes ?w1 m) = n_announced (nodes w m)"
    "n_type (nodes ?w1 m) = n_type (nodes w m)" "orders ?w1 = orders w" "chains ?w1 = chains w" for m
    by (simp_all add: world_simps)
  then have touched1: "chain_touched_obeying ?w1 True c = chain_touched_obeying w True c"
    "chain_orders ?w1 c = chain_orders w c"
    by (simp_all add: chain_touched_count chain_orders_def queue_nodes_def)
  obtain u where u: "untouched_is_allowed w c = Inr u"
    using assms(2,7) by (auto simp: node_fetch_and_occupy_def ret_def throw_def split: if_splits sum.splits)
  have "untouched_is_allowed ?w1 c = untouched_is_allowed w c"
    unfolding untouched_is_allowed_def is_max_orders_reached_def touched1(1) nodes1(5) ..
  then have u1: "untouched_is_allowed ?w1 c = Inr u" using u by simp
  obtain found w2 where fetch: "queue_fetch_and_occupy h n task u now w = (Inr found, w2)" "found = Some i"
    and w': "orders w' i = orders (on_occupied i w2) i" "\<And>j. j \<noteq> i \<Longrightarrow> orders w' j = orders w2 j"
      "nodes w' = nodes w2" "chains w' = chains w2"
    using assms(1,2,7) u by (auto simp: node_fetch_and_occupy_def no_order_sources_def ret_def throw_def Let_def
        world_simps on_occupied_def dest!: bind_s_case split: if_splits option.splits)
  have check: "check_standing_orders h n ?w1 = ?w1" using assms(1) by (simp add: no_order_sources_def)
  have got: "startable ?w1 u now i = Inr True" "nodes w2 = nodes ?w1" "chains w2 = chains ?w1"
    "orders w2 = (orders ?w1)(i := occupied task now (orders ?w1 i))"
    using fetch_result [OF check _ _ fetch(1)] assms(5,6) nodes1 fetch(2) by auto
  obtain k k' where "chain_touched_obeying ?w1 True c = Inr k" "chain_touched_obeying w2 True c = Inr k'"
    "k' \<le> max k (c_max_orders (chains ?w1 c))"
    using fetched_count [OF _ u1 _ got] assms(3,4) touched1(2) nodes1(5) by auto
  moreover have "chain_touched_obeying w' True c = chain_touched_obeying w2 True c"
  proof -
    have "counted (orders w' j) = counted (orders w2 j)" for j
      using w'(1,2) by (cases "j = i") (auto simp: on_occupied_def world_simps counted_def
          is_touched_in_current_job_chain_def)
    then show ?thesis using w'(3,4) by (simp add: chain_touched_count chain_orders_def queue_nodes_def)
  qed
  ultimately show ?thesis using touched1(1) nodes1(5) by simp
qed

section \<open>An example\<close>

definition ex_order :: "string \<Rightarrow> time \<Rightarrow> int \<Rightarrow> order" where
  "ex_order i t p = \<lparr>o_id = i, o_id_locked = False, o_state = State_name ''A'', o_initial_state = State_name ''A'', o_initial_state_set = True,
     o_end_state = Empty_state, o_occupied_state = Empty_state, o_priority = p, o_setback = t, o_setback_count = 0,
     o_setback_called = False, o_suspended = False, o_is_touched = False, o_is_nested_touched = False,
     o_is_on_blacklist = False, o_is_replacement = False, o_replaced_by = None, o_replacement_for = None,
     o_is_distributed = False, o_is_db_occupied = False, o_ignore_max_orders = False, o_is_in_order_queue = True,
     o_is_success_state = True, o_end_state_reached = False, o_moved = False, o_task = None,
     o_job_chain = Some 0, o_job_chain_node = Some 0, o_job_chain_path = ''/chain'',
     o_removed_from_job_chain_path = [], o_outer_job_chain_path = [], o_outer_job_chain_state = Empty_state,
     o_is_file_based = False, o_start_time = Time 0, o_end_time = Time 0, o_schedule_is_incomplete = False\<rparr>"

definition ex_node :: "node_type \<Rightarrow> string \<Rightarrow> string \<Rightarrow> nat list \<Rightarrow> node" where
  "ex_node ty s next_s q = \<lparr>n_type = ty, n_state = Ns_active, n_order_state = State_name s,
     n_next_state = State_name next_s, n_error_state = State_name next_s, n_action = Act_process,
     n_is_suspending_order = False, n_delay = Duration 0, n_on_error_suspend = False, n_on_error_setback = False, n_on_return_codes = [],
     n_path = [], n_next_node = None, n_error_node = None, n_job = Some 5, n_nested = None, n_job_chain = 0, n_queue = q, n_has_tip = False, n_announced = never,
     n_check_time = time_max, n_check_delay = 1\<rparr>"

definition ex_chain_of :: "nat list \<Rightarrow> int \<Rightarrow> job_chain" where
  "ex_chain_of ns m = \<lparr>c_path = ''/chain'', c_state = Cs_active, c_is_stopped = False, c_is_distributed = False,
     c_max_orders = m, c_order_id_space = None, c_node_list = ns, c_order_map = [(''1'', 0), (''2'', 1)],
     c_blacklist_map = [], c_file_state = S_active, c_to_be_removed = False, c_replacement_state = None\<rparr>"

text \<open>Node 0 with the orders 0 (may start at once) and 1 (at 100), and the end node 1; order 2 is new.\<close>

definition ex_orders :: order_world where
  "ex_orders = \<lparr>orders = (\<lambda>i. if i = 0 then ex_order ''1'' (Time 0) 0
       else if i = 1 then ex_order ''2'' (Time 100) 0
       else (ex_order ''3'' (Time 0) 5)\<lparr>o_is_in_order_queue := False\<rparr>),
     nodes = (\<lambda>n. if n = 0 then ex_node N_job ''A'' ''B'' [0, 1] else ex_node N_end ''B'' '''' []),
     chains = (\<lambda>_. ex_chain_of [0, 1] 1), chain_of_path = (\<lambda>_. None),
     jobs = (\<lambda>_. \<lparr>max_order_setbacks = 1, delay_order_after_setback = [(1, Duration 60)]\<rparr>), job_of_task = (\<lambda>_. 5),
     orders_are_distributed = False, clock = Time 50, signals = []\<rparr>"

definition idle_hooks :: order_hooks where
  "idle_hooks = \<lparr>check_standing_orders = (\<lambda>_ w. w), load_distributed_order = (\<lambda>_ _ _ _ w. (Inr None, w)),
     release_db_occupation = (\<lambda>_ w. w), fetch_from_sources = (\<lambda>_ _ _ w. (Inr None, w))\<rparr>"

lemma ex_orders_simps:
  "orders ex_orders 0 = ex_order ''1'' (Time 0) 0" "orders ex_orders (Suc 0) = ex_order ''2'' (Time 100) 0"
  "nodes ex_orders 0 = ex_node N_job ''A'' ''B'' [0, 1]" "nodes ex_orders (Suc 0) = ex_node N_end ''B'' '''' []"
  "chains ex_orders c = ex_chain_of [0, 1] 1" "clock ex_orders = Time 50"
  by (simp_all add: ex_orders_def)

lemma ex_strictly_sorted: "strictly_sorted (orders ex_orders) [0, 1]"
  by (simp add: strictly_sorted_def ex_orders_simps ex_order_def queued_behind_def less_time_def)

theorem add_order_keeps_discipline_witness:
  "n_queue (nodes (add_order 0 2 ex_orders) 0) = [2, 0, 1]
   \<and> strictly_sorted (orders (add_order 0 2 ex_orders)) (n_queue (nodes (add_order 0 2 ex_orders) 0))"
proof
  show "n_queue (nodes (add_order 0 2 ex_orders) 0) = [2, 0, 1]"
    by (simp add: add_order_def handle_changed_processable_state_def world_simps ex_orders_def ex_node_def
        ex_order_def queued_behind_def less_time_def)
  show "strictly_sorted (orders (add_order 0 2 ex_orders)) (n_queue (nodes (add_order 0 2 ex_orders) 0))"
    using add_order_keeps_discipline [of ex_orders 0 2] ex_strictly_sorted
    by (simp add: ex_orders_simps ex_node_def)
qed

text \<open>
  The assertion of the debug build contradicts the order of the queue: with the order of priority 0 in the queue, adding one
  of priority 5 that has been set back puts it behind, as it must, and the assertion fails.
\<close>

definition ex_set_back :: order_world where
  "ex_set_back = set_order 1 (\<lambda>x. x\<lparr>o_priority := 5, o_is_in_order_queue := False\<rparr>) (set_node 0 (\<lambda>x. x\<lparr>n_queue := [0]\<rparr>) ex_orders)"

lemma debug_check_may_fail:
  "debug_check 0 ex_set_back \<and> n_queue (nodes (add_order 0 1 ex_set_back) 0) = [0, 1]
   \<and> strictly_sorted (orders (add_order 0 1 ex_set_back)) [0, 1] \<and> \<not> debug_check 0 (add_order 0 1 ex_set_back)"
proof (intro conjI)
  show "debug_check 0 ex_set_back" by (simp add: debug_check_def ex_set_back_def world_simps)
  show queue: "n_queue (nodes (add_order 0 1 ex_set_back) 0) = [0, 1]"
    by (simp add: ex_set_back_def add_order_def handle_changed_processable_state_def world_simps ex_orders_def ex_node_def
        ex_order_def queued_behind_def less_time_def)
  show "\<not> debug_check 0 (add_order 0 1 ex_set_back)"
    unfolding debug_check_def queue
    by (simp add: ex_set_back_def add_order_def handle_changed_processable_state_def world_simps ex_orders_def ex_node_def ex_order_def)
  have "strictly_sorted (orders ex_set_back) (n_queue (nodes ex_set_back 0))" "1 \<notin> set (n_queue (nodes ex_set_back 0))"
    by (simp_all add: strictly_sorted_def ex_set_back_def world_simps)
  then have "strictly_sorted (orders (add_order 0 1 ex_set_back)) (queue_insert (orders ex_set_back) 1 (n_queue (nodes ex_set_back 0)))"
    by (auto simp: strictly_sorted_def ex_set_back_def add_order_def handle_changed_processable_state_def world_simps ex_orders_def
        ex_node_def ex_order_def queued_behind_def less_time_def)
  then show "strictly_sorted (orders (add_order 0 1 ex_set_back)) [0, 1]"
    by (simp add: ex_set_back_def world_simps ex_orders_def ex_node_def ex_order_def queued_behind_def less_time_def)
qed

lemma ex_startable: "startable ex_orders u (Time 50) 0 = Inr u"
  by (simp add: startable_def is_immediately_processable_def is_processable_def is_self_processable_def
      within_limits_def Let_def ex_orders_simps ex_order_def ex_node_def ex_chain_of_def chain_is_ready_def
      node_is_ready_def is_below_outer_max_def less_eq_time_def is_touched_in_current_job_chain_def)

lemma ex_tip_off: "set_node 0 (\<lambda>x. x\<lparr>n_has_tip := False\<rparr>) ex_orders = ex_orders"
  by (simp add: set_node_def ex_orders_def fun_eq_iff ex_node_def)

lemma ex_fetch:
  obtains w' where "queue_fetch_and_occupy idle_hooks 0 7 True (Time 50) ex_orders = (Inr (Some 0), w')"
proof -
  have "search_queue ex_orders True (Time 50) [0, 1] = Inr (Some 0)"
    using search_queue_complete [of ex_orders "Time 50" "[0, 1]" True]
      strictly_sorted_clamped [OF ex_strictly_sorted] ex_startable [of True]
    by simp
  then show ?thesis
    by (intro that) (auto simp: queue_fetch_and_occupy_def idle_hooks_def ex_tip_off bind_s_def ret_def
        first_immediately_processable_order_def occupy_for_task_def ex_orders_simps ex_node_def ex_order_def
        Let_def world_simps)
qed

lemma ex_announced: "Time 50 < n_announced (nodes ex_orders 0)"
  by (simp add: ex_orders_simps ex_node_def never_def never_seconds_def never_int_def less_time_def)

theorem fetch_occupies_first_witness:
  "\<exists>w'. queue_fetch_and_occupy idle_hooks 0 7 True (Time 50) ex_orders = (Inr (Some 0), w')
     \<and> o_task (orders w' 0) = Some 7 \<and> o_task (orders w' 1) = None"
proof -
  obtain w' where run: "queue_fetch_and_occupy idle_hooks 0 7 True (Time 50) ex_orders = (Inr (Some 0), w')"
    using ex_fetch by blast
  have "orders w' = (orders ex_orders)(0 := occupied 7 (Time 50) (orders ex_orders 0))"
    using fetch_occupies_first [OF _ _ _ run, of ex_orders] ex_announced strictly_sorted_clamped [OF ex_strictly_sorted]
    by (simp add: ex_tip_off idle_hooks_def ex_orders_simps(3) ex_node_def)
  then show ?thesis using run by (simp add: occupied_def ex_orders_simps ex_order_def)
qed

theorem max_orders_kept_witness:
  "\<exists>w'. node_fetch_and_occupy idle_hooks True 0 7 (Time 50) ex_orders = (Inr (Some 0), w')
     \<and> chain_touched_obeying ex_orders True 0 = Inr 0
     \<and> (\<exists>k'. chain_touched_obeying w' True 0 = Inr k' \<and> k' \<le> 1)"
proof -
  obtain w' where fetch: "queue_fetch_and_occupy idle_hooks 0 7 True (Time 50) ex_orders = (Inr (Some 0), w')"
    using ex_fetch by blast
  have orders': "orders w' = (orders ex_orders)(0 := occupied 7 (Time 50) (orders ex_orders 0))"
    using fetch_result [OF _ _ _ fetch, of ex_orders] ex_announced strictly_sorted_clamped [OF ex_strictly_sorted]
    by (simp add: ex_tip_off idle_hooks_def ex_orders_simps(3) ex_node_def)
  have none: "chain_touched_obeying ex_orders True 0 = Inr 0" and one: "distinct (chain_orders ex_orders 0)"
    by (simp_all add: chain_touched_count chain_orders_def queue_nodes_def ex_orders_simps ex_chain_of_def ex_node_def
        counted_def is_touched_in_current_job_chain_def ex_order_def)
  have "untouched_is_allowed ex_orders 0 = Inr True"
    by (simp add: untouched_is_allowed_def is_max_orders_reached_def none ex_orders_simps ex_chain_of_def int_max_def)
  then have run: "\<exists>w2. node_fetch_and_occupy idle_hooks True 0 7 (Time 50) ex_orders = (Inr (Some 0), w2)"
    using fetch orders' by (simp add: node_fetch_and_occupy_def queue_node_is_ready_def ex_orders_simps ex_node_def
        ex_chain_of_def chain_is_ready_def bind_s_Inr ret_def bind_s_def Let_def world_simps occupied_def)
  then obtain w2 where w2: "node_fetch_and_occupy idle_hooks True 0 7 (Time 50) ex_orders = (Inr (Some 0), w2)" by blast
  have "\<exists>k k'. chain_touched_obeying ex_orders True 0 = Inr k \<and> chain_touched_obeying w2 True 0 = Inr k'
      \<and> k' \<le> max k (c_max_orders (chains ex_orders 0))"
    by (rule max_orders_kept [OF _ _ _ one _ ex_announced w2])
      (use strictly_sorted_clamped [OF ex_strictly_sorted] in \<open>simp_all add: no_order_sources_def idle_hooks_def
        ex_orders_simps ex_node_def is_max_orders_set_def ex_chain_of_def int_max_def\<close>)
  then show ?thesis using none w2 by (auto simp: ex_orders_simps ex_chain_of_def)
qed

end
