(* ===== verification/Order_Moves.thy ===== *)
theory Order_Moves
  imports Order_Queue
begin

text \<open>
  How an order enters and leaves a job chain and its queues, is set back, suspended, put on the blacklist and
  moved to another node (\<^verbatim>\<open>Order.cxx\<close>), with the part of \<^verbatim>\<open>Job_chain\<close> (\<^verbatim>\<open>spooler_order.cxx\<close>) that keeps the
  orders of a job chain. The current time is \<open>clock\<close> of the world.
\<close>

section \<open>Setting back\<close>

text \<open>An operation of the queue in which the order is.\<close>

definition in_own_queue :: "(nat \<Rightarrow> nat \<Rightarrow> (order_world, unit) operation) \<Rightarrow> nat \<Rightarrow> (order_world, unit) operation" where
  "in_own_queue f i = bind_s (try_s (\<lambda>w. order_queue w i)) (\<lambda>n. f n i)"

definition assert_no_task :: "nat \<Rightarrow> (order_world, unit) operation" where
  "assert_no_task i = when_s (\<lambda>w. o_task (orders w i) \<noteq> None) (throw (Xc ''SCHEDULER-217''))"

definition is_queued :: "nat \<Rightarrow> order_world \<Rightarrow> bool" where
  "is_queued i w = o_is_in_order_queue (orders w i)"

definition set_setback :: "nat \<Rightarrow> time \<Rightarrow> bool \<Rightarrow> (order_world, unit) operation" where
  "set_setback i t keep_count =
     bind_s (read_s (\<lambda>w. if clock w < t then t else Time 0)) (\<lambda>start_time.
       steps
         [when_s (\<lambda>w. o_setback (orders w i) \<noteq> start_time)
            (steps
              [apply_s (set_order i (\<lambda>x. x\<lparr>o_setback := start_time\<rparr>)),
               when_s (is_queued i) (in_own_queue reinsert_order i),
               apply_s (handle_changed_processable_state i)]),
          when_s (\<lambda>_. \<not> keep_count) (apply_s (set_order i (\<lambda>x. x\<lparr>o_setback_count := 0\<rparr>)))])"

definition clear_setback :: "nat \<Rightarrow> bool \<Rightarrow> (order_world, unit) operation" where
  "clear_setback i keep_count = when_s (\<lambda>w. 0 < o_setback_count (orders w i)) (set_setback i (Time 0) keep_count)"

definition set_at :: "nat \<Rightarrow> time \<Rightarrow> (order_world, unit) operation" where
  "set_at i t =
     steps
       [assert_no_task i,
        when_s (\<lambda>w. o_moved (orders w i)) (throw (Xc ''SCHEDULER-188'')),
        set_setback i t False]"

definition start_now :: "nat \<Rightarrow> (order_world, unit) operation" where
  "start_now i = set_at i (Time 0)"

definition set_at_after_delay :: "nat \<Rightarrow> time \<Rightarrow> (order_world, unit) operation" where
  "set_at_after_delay i t = set_setback i t True"

definition set_priority :: "nat \<Rightarrow> int \<Rightarrow> (order_world, unit) operation" where
  "set_priority i p =
     when_s (\<lambda>w. o_priority (orders w i) \<noteq> p)
       (steps
         [apply_s (set_order i (\<lambda>x. x\<lparr>o_priority := p\<rparr>)),
          when_s (\<lambda>w. is_queued i w \<and> o_task (orders w i) = None) (in_own_queue reinsert_order i)])"

text \<open>The delays are a map, which is read in the order of its keys: the last one that is not beyond the count.\<close>

definition get_delay_order_after_setback :: "job_settings \<Rightarrow> nat \<Rightarrow> duration" where
  "get_delay_order_after_setback j count =
     fold (\<lambda>e delay. if fst e \<le> count then snd e else delay) (delay_order_after_setback j) (Duration 0)"

text \<open>\<open>setback_task\<close>: the checks, with the job of the task. Then the count goes up, and the order waits for the
  delay of the job, or for ever if it has been set back too often.\<close>

definition setback_task :: "nat \<Rightarrow> order_world \<Rightarrow> nat result" where
  "setback_task i w =
     (case o_task (orders w i) of
        None \<Rightarrow> Inl (Xc ''SCHEDULER-187'')
      | Some task \<Rightarrow>
          if o_moved (orders w i) then Inl (Xc ''SCHEDULER-188'')
          else if o_job_chain (orders w i) = None then Inl (Xc ''SCHEDULER-157'')
          else bind_r (order_queue w i) (\<lambda>_. Inr (job_of_task w task)))"

definition setback_until :: "order_world \<Rightarrow> job_settings \<Rightarrow> nat \<Rightarrow> time" where
  "setback_until w j count =
     (if count \<le> max_order_setbacks j then
        (let delay = get_delay_order_after_setback j count in
         if duration_is_zero delay then Time 0 else time_plus (clock w) delay)
      else never)"

definition setback :: "nat \<Rightarrow> (order_world, bool) operation" where
  "setback i =
     bind_s (try_s (setback_task i)) (\<lambda>j.
     bind_s (read_s (\<lambda>w. (o_setback_count (orders w i) + 1, setback_until w (jobs w j) (o_setback_count (orders w i) + 1))))
       (\<lambda>(count, until).
     bind_s (read_s (\<lambda>w. count \<le> max_order_setbacks (jobs w j))) (\<lambda>allowed.
     bind_s
       (steps
         [apply_s (set_order i (\<lambda>x. x\<lparr>o_setback_count := count, o_setback_called := True, o_setback := until\<rparr>)),
          when_s (\<lambda>_. allowed) (apply_s (signal (Order_event ''orderSetBack'' i))),
          in_own_queue reinsert_order i])
       (\<lambda>_. ret allowed))))"

section \<open>Replacements and the blacklist\<close>

definition set_replacement_flag :: "nat \<Rightarrow> bool \<Rightarrow> order_world \<Rightarrow> order_world" where
  "set_replacement_flag i b w =
     (let w1 = (case o_replacement_for (orders w i) of
                  None \<Rightarrow> w
                | Some r \<Rightarrow> set_order i (\<lambda>x. x\<lparr>o_replacement_for := None\<rparr>) (set_order r (\<lambda>x. x\<lparr>o_replaced_by := None\<rparr>) w));
          w2 = set_order i (\<lambda>x. x\<lparr>o_is_replacement := b\<rparr>) w1
      in if o_is_replacement (orders w i) \<noteq> b then handle_changed_processable_state i w2 else w2)"

definition order_set_replacement :: "nat \<Rightarrow> nat \<Rightarrow> (order_world, unit) operation" where
  "order_set_replacement i replaced =
     steps
       [assert_s ''set_replacement'' (\<lambda>w. o_replaced_by (orders w replaced) = None),
        assert_s ''set_replacement'' (\<lambda>w. \<not> o_is_replacement (orders w replaced)),
        apply_s (set_replacement_flag i True),
        apply_s (set_order i (\<lambda>x. x\<lparr>o_replacement_for := Some replaced\<rparr>)),
        apply_s (set_order replaced (\<lambda>x. x\<lparr>o_replaced_by := Some i\<rparr>))]"

definition add_order_to_blacklist :: "nat \<Rightarrow> nat \<Rightarrow> order_world \<Rightarrow> order_world" where
  "add_order_to_blacklist c i w =
     set_chain c (\<lambda>x. x\<lparr>c_blacklist_map := AList.update (o_id (orders w i)) i (c_blacklist_map x)\<rparr>) w"

definition remove_order_from_blacklist :: "nat \<Rightarrow> nat \<Rightarrow> order_world \<Rightarrow> order_world" where
  "remove_order_from_blacklist c i w =
     set_chain c (\<lambda>x. x\<lparr>c_blacklist_map := AList.delete (o_id (orders w i)) (c_blacklist_map x)\<rparr>) w"

definition blacklisted_order_or_null :: "order_world \<Rightarrow> nat \<Rightarrow> string \<Rightarrow> nat option" where
  "blacklisted_order_or_null w c oid = map_of (c_blacklist_map (chains w c)) oid"

definition set_on_blacklist :: "nat \<Rightarrow> (order_world, unit) operation" where
  "set_on_blacklist i =
     bind_s (read_s (\<lambda>w. o_job_chain (orders w i))) (\<lambda>chain. case chain of
       None \<Rightarrow> throw (Assertion ''set_on_blacklist'')
     | Some c \<Rightarrow> steps
         [apply_s (add_order_to_blacklist c i),
          apply_s (set_order i (\<lambda>x. x\<lparr>o_is_on_blacklist := True\<rparr>)),
          apply_s (handle_changed_processable_state i)])"

definition remove_from_blacklist :: "nat \<Rightarrow> (order_world, unit) operation" where
  "remove_from_blacklist i =
     when_s (\<lambda>w. o_is_on_blacklist (orders w i))
       (bind_s (read_s (\<lambda>w. o_job_chain (orders w i))) (\<lambda>chain. case chain of
          None \<Rightarrow> throw (Assertion ''remove_from_blacklist'')
        | Some c \<Rightarrow> steps
            [apply_s (remove_order_from_blacklist c i),
             apply_s (set_order i (\<lambda>x. x\<lparr>o_is_on_blacklist := False\<rparr>)),
             apply_s (handle_changed_processable_state i)]))"

section \<open>Waking the orders of a job chain\<close>

text \<open>\<^verbatim>\<open>Order_queue_node::wake_orders\<close>, \<^verbatim>\<open>Job_node::wake_orders\<close>, and nothing for any other node.\<close>

definition wake_queue :: "nat \<Rightarrow> (order_world, unit) operation" where
  "wake_queue n =
     bind_s (try_s (\<lambda>w. first_processable_order w n)) (\<lambda>first. case first of
       None \<Rightarrow> ret ()
     | Some i \<Rightarrow> apply_s (handle_changed_processable_state i))"

definition tell_job_of_node :: "nat \<Rightarrow> order_world \<Rightarrow> order_world" where
  "tell_job_of_node n w =
     (case n_job (nodes w n) of None \<Rightarrow> w | Some j \<Rightarrow> signal (Order_possibly_available j) w)"

definition wake_node :: "nat \<Rightarrow> (order_world, unit) operation" where
  "wake_node n =
     if_s (\<lambda>w. is_type (n_type (nodes w n)) N_job)
       (steps [apply_s (tell_job_of_node n), wake_queue n])
       (when_s (\<lambda>w. is_type (n_type (nodes w n)) N_order_queue) (wake_queue n))"

definition chain_wake_orders :: "nat \<Rightarrow> (order_world, unit) operation" where
  "chain_wake_orders c =
     steps
       [when_s (\<lambda>w. c_state (chains w c) = Cs_active \<and> \<not> c_is_stopped (chains w c))
          (bind_s (read_s (\<lambda>w. c_node_list (chains w c))) (\<lambda>ns. steps (map wake_node ns))),
        when_s (\<lambda>w. orders_are_distributed w \<and> \<not> c_is_stopped (chains w c))
          (apply_s (signal Wake_distributed_processing))]"

definition chain_set_state :: "nat \<Rightarrow> chain_state \<Rightarrow> (order_world, unit) operation" where
  "chain_set_state c s =
     when_s (\<lambda>w. c_state (chains w c) \<noteq> s)
       (steps [apply_s (set_chain c (\<lambda>x. x\<lparr>c_state := s\<rparr>)), chain_wake_orders c])"

definition chain_set_stopped :: "nat \<Rightarrow> bool \<Rightarrow> (order_world, unit) operation" where
  "chain_set_stopped c b = steps [apply_s (set_chain c (\<lambda>x. x\<lparr>c_is_stopped := b\<rparr>)), chain_wake_orders c]"

section \<open>The orders of a job chain\<close>

definition chain_order_or_null :: "order_world \<Rightarrow> nat \<Rightarrow> string \<Rightarrow> nat option" where
  "chain_order_or_null w c oid = map_of (c_order_map (chains w c)) oid"

definition chain_order :: "order_world \<Rightarrow> nat \<Rightarrow> string \<Rightarrow> nat result" where
  "chain_order w c oid = (case chain_order_or_null w c oid of None \<Rightarrow> Inl (Xc ''SCHEDULER-162'') | Some i \<Rightarrow> Inr i)"

definition has_order_id :: "order_world \<Rightarrow> nat \<Rightarrow> string \<Rightarrow> bool" where
  "has_order_id w c oid = (chain_order_or_null w c oid \<noteq> None)"

definition has_order :: "order_world \<Rightarrow> nat \<Rightarrow> bool" where
  "has_order w c = list_ex (\<lambda>n. n_queue (nodes w n) \<noteq> []) (queue_nodes w c)"

definition has_order_in_task :: "order_world \<Rightarrow> nat \<Rightarrow> bool" where
  "has_order_in_task w c =
     list_ex (\<lambda>n. list_ex (\<lambda>i. o_task (orders w i) \<noteq> None) (n_queue (nodes w n))) (queue_nodes w c)"

definition order_count :: "order_world \<Rightarrow> nat \<Rightarrow> nat" where
  "order_count w c = sum_list (map (\<lambda>n. length (n_queue (nodes w n))) (queue_nodes w c))"

definition register_order :: "nat \<Rightarrow> nat \<Rightarrow> (order_world, unit) operation" where
  "register_order c i =
     steps
       [when_s (\<lambda>w. map_of (c_order_map (chains w c)) (o_id (orders w i)) \<noteq> None) (throw (Xc ''SCHEDULER-186'')),
        apply_s (\<lambda>w. set_chain c (\<lambda>x. x\<lparr>c_order_map := AList.update (o_id (orders w i)) i (c_order_map x)\<rparr>) w)]"

definition unregister_order :: "nat \<Rightarrow> nat \<Rightarrow> (order_world, unit) operation" where
  "unregister_order c i =
     steps
       [assert_s ''unregister_order'' (\<lambda>w. \<not> o_is_on_blacklist (orders w i)),
        apply_s (\<lambda>w. set_chain c (\<lambda>x. x\<lparr>c_order_map := AList.delete (o_id (orders w i)) (c_order_map x)\<rparr>) w)]"

text \<open>\<^verbatim>\<open>Order::job_chain\<close>: the job chain the order is in, also when the order is not in memory there.\<close>

definition job_chain_of :: "order_world \<Rightarrow> nat \<Rightarrow> nat option result" where
  "job_chain_of w i =
     (case o_job_chain (orders w i) of
        Some c \<Rightarrow> Inr (Some c)
      | None \<Rightarrow>
          if o_job_chain_path (orders w i) = [] then Inr None
          else case chain_of_path w (o_job_chain_path (orders w i)) of
            None \<Rightarrow> Inl (Xc ''SCHEDULER-161'')
          | Some c \<Rightarrow> Inr (Some c))"

text \<open>\<^verbatim>\<open>Order_id_space::order_or_null\<close> and \<^verbatim>\<open>job_chain_by_order_id_or_null\<close>; the space is the list of its job
  chains.\<close>

fun space_order_or_null :: "order_world \<Rightarrow> nat list \<Rightarrow> string \<Rightarrow> nat option" where
  "space_order_or_null w [] oid = None"
| "space_order_or_null w (c # cs) oid =
     (case chain_order_or_null w c oid of Some i \<Rightarrow> Some i | None \<Rightarrow> space_order_or_null w cs oid)"

definition job_chain_by_order_id :: "order_world \<Rightarrow> nat list \<Rightarrow> string \<Rightarrow> nat option result" where
  "job_chain_by_order_id w cs oid =
     (case space_order_or_null w cs oid of None \<Rightarrow> Inr None | Some i \<Rightarrow> job_chain_of w i)"

definition order_id_exists :: "order_world \<Rightarrow> nat \<Rightarrow> string \<Rightarrow> bool result" where
  "order_id_exists w c oid =
     (case c_order_id_space (chains w c) of
        Some cs \<Rightarrow> bind_r (job_chain_by_order_id w cs oid) (\<lambda>r. Inr (r \<noteq> None))
      | None \<Rightarrow> Inr (has_order_id w c oid))"

definition set_state2 :: "nat \<Rightarrow> order_state \<Rightarrow> order_world \<Rightarrow> order_world" where
  "set_state2 i s w =
     (let x = orders w i;
          w1 = (if state_eq s (o_state x) then w
                else let w' = set_order i (\<lambda>x. x\<lparr>o_state := s\<rparr>) w in
                  if o_job_chain_path x \<noteq> [] then signal (Order_event ''orderStateChanged'' i) w' else w')
      in if o_initial_state_set x then w1
         else set_order i (\<lambda>x. x\<lparr>o_initial_state := s, o_initial_state_set := True\<rparr>) w1)"

text \<open>\<open>enter_node\<close> is the part of \<^verbatim>\<open>Job_chain::add_order\<close> for the node that belongs to the state of the order.\<close>

definition enter_node :: "nat \<Rightarrow> nat \<Rightarrow> nat \<Rightarrow> (order_world, unit) operation" where
  "enter_node c i n =
     steps
       [when_s (\<lambda>w. node_from_state w c (o_state (orders w i)) \<noteq> Inr n)
          (apply_s (\<lambda>w. set_state2 i (n_order_state (nodes w n)) w)),
        when_s (\<lambda>w. (\<not> o_suspended (orders w i) \<or> \<not> o_is_on_blacklist (orders w i))
                    \<and> \<not> is_type (n_type (nodes w n)) N_job) (throw (Xc ''SCHEDULER-149'')),
        apply_s (\<lambda>w. set_order i (\<lambda>x. x\<lparr>o_job_chain := Some c, o_job_chain_path := c_path (chains w c),
                                    o_removed_from_job_chain_path := []\<rparr>) w),
        register_order c i,
        if_s (\<lambda>w. \<not> o_is_on_blacklist (orders w i) \<and> is_type (n_type (nodes w n)) N_job)
          (steps [apply_s (set_order i (\<lambda>x. x\<lparr>o_job_chain_node := Some n\<rparr>)), apply_s (add_order n i)])
          (set_on_blacklist i)]"

definition chain_add_order :: "nat \<Rightarrow> nat \<Rightarrow> (order_world, unit) operation" where
  "chain_add_order c i =
     steps
       [assert_s ''add_order'' (\<lambda>w. o_is_distributed (orders w i) = o_is_db_occupied (orders w i)),
        assert_s ''add_order'' (\<lambda>w. \<not> o_is_distributed (orders w i) \<or> c_is_distributed (chains w c)),
        bind_s (try_s (\<lambda>w. order_id_exists w c (o_id (orders w i))))
          (\<lambda>used. if used then throw (Xc ''SCHEDULER-186'') else ret ()),
        bind_s (try_s (\<lambda>w. referenced_node_from_state w c (o_state (orders w i)))) (enter_node c i)]"

definition leave_queue :: "nat \<Rightarrow> (order_world, unit) operation" where
  "leave_queue i =
     steps [when_s (is_queued i) (in_own_queue remove_order i),
            apply_s (set_order i (\<lambda>x. x\<lparr>o_job_chain_node := None\<rparr>))]"

definition chain_remove_order :: "nat \<Rightarrow> nat \<Rightarrow> (order_world, unit) operation" where
  "chain_remove_order c i =
     steps
       [assert_s ''remove_order'' (\<lambda>w. o_job_chain (orders w i) = Some c),
        assert_s ''remove_order'' (\<lambda>w. \<not> o_is_db_occupied (orders w i)),
        when_s (\<lambda>w. o_is_on_blacklist (orders w i)) (remove_from_blacklist i),
        when_s (\<lambda>w. o_job_chain_node (orders w i) \<noteq> None) (leave_queue i),
        apply_s (set_order i (\<lambda>x. x\<lparr>o_job_chain := None, o_job_chain_path := []\<rparr>)),
        unregister_order c i,
        when_s (\<lambda>w. o_task (orders w i) \<noteq> None)
          (apply_s (\<lambda>w. set_order i (\<lambda>x. x\<lparr>o_removed_from_job_chain_path := c_path (chains w c), o_moved := True\<rparr>) w)),
        bind_s (try_s (\<lambda>w. untouched_is_allowed w c)) (\<lambda>u. when_s (\<lambda>_. u) (chain_wake_orders c)),
        apply_s (signal (Check_chain c))]"

end
