(* ===== verification/Order_Transition.thy ===== *)
theory Order_Transition
  imports Scheduler_Prelude "HOL-Library.Word"
begin

text \<open>
  The result of a job step for the order that was processed (\<^verbatim>\<open>Order_state_transition\<close> in \<^verbatim>\<open>spooler_order.h\<close>).
\<close>

section \<open>The result of a job step\<close>

text \<open>
  \<^verbatim>\<open>Order_state_transition\<close> is a 64-bit number: the exit code of a process, or \<^verbatim>\<open>INT64_MAX\<close> for \<open>keep\<close>. In
  \<^verbatim>\<open>~0xFFFFFFFF\<close> the constant is unsigned with 32 bits.
\<close>

unbundle bit_operations_syntax

type_synonym transition = "64 word"

definition of_exit_code :: "32 word \<Rightarrow> transition" where
  "of_exit_code i = scast i"

definition keep :: transition where
  "keep = 0x7FFFFFFFFFFFFFFF"

definition success :: transition where
  "success = of_exit_code 0"

definition standard_error :: transition where
  "standard_error = of_exit_code 1"

definition of_bool :: "bool \<Rightarrow> transition" where
  "of_bool b = (if b then success else standard_error)"

definition transition_is_error :: "transition \<Rightarrow> bool" where
  "transition_is_error t = (t \<noteq> success \<and> t \<noteq> keep)"

definition return_code :: "transition \<Rightarrow> (32 word) result" where
  "return_code t =
     (if t AND ucast (NOT (0xFFFFFFFF :: 32 word)) = 0 then Inr (ucast t) else Inl (Assertion ''return_code''))"

end
