(* ===== verification/Order_Life.thy ===== *)
theory Order_Life
  imports Order_Moves Order_Transition
begin

text \<open>
  The way of an order through its job chain (\<^verbatim>\<open>Order.cxx\<close>): what happens to it after a job step, how it gets
  to the next node, and what happens in an end state. Nested job chains, the start times of a schedule and the
  file of a file order are asked of \<open>life_hooks\<close>.
\<close>

section \<open>The state after a job step\<close>

text \<open>
  \<^verbatim>\<open>JobChainNodeParserAndHandler.orderStateTransitionToState\<close>: the first \<^verbatim>\<open><on_return_code>\<close> whose ranges contain
  the code decides, if it names a state; otherwise the next state or the error state of the node.
\<close>

definition on_return_code :: "((int \<times> int) list \<times> order_state option) list \<Rightarrow> int \<Rightarrow> order_state option" where
  "on_return_code codes rc =
     (case List.find (\<lambda>e. list_ex (\<lambda>r. fst r \<le> rc \<and> rc \<le> snd r) (fst e)) codes of
        None \<Rightarrow> None
      | Some e \<Rightarrow> snd e)"

definition transition_to_state :: "node \<Rightarrow> transition \<Rightarrow> order_state" where
  "transition_to_state n t =
     (if t = keep then n_order_state n
      else case on_return_code (n_on_return_codes n) (sint t) of
        Some s \<Rightarrow> s
      | None \<Rightarrow> if t = success then n_next_state n else n_error_state n)"

text \<open>\<^verbatim>\<open>Job_node::order_state\<close>: the state goes through a Java string.\<close>

definition job_node_order_state :: "node \<Rightarrow> transition \<Rightarrow> order_state" where
  "job_node_order_state n t = normalized_state (State_name (state_as_string (transition_to_state n t)))"

section \<open>Leaving a job chain, and suspending\<close>

datatype stack_option = Jc_remove_from_job_chain_stack | Jc_leave_in_job_chain_stack

definition db_written :: "string \<Rightarrow> nat \<Rightarrow> order_world \<Rightarrow> order_world" where
  "db_written what i w =
     signal (Order_db what i) (set_order i (\<lambda>x. x\<lparr>o_is_db_occupied := False, o_occupied_state := Empty_state\<rparr>) w)"

definition release_replacement :: "nat \<Rightarrow> order_world \<Rightarrow> order_world" where
  "release_replacement i w =
     (case o_replaced_by (orders w i) of
        None \<Rightarrow> w
      | Some r \<Rightarrow> set_order i (\<lambda>x. x\<lparr>o_replaced_by := None\<rparr>) (set_replacement_flag r False w))"

text \<open>Removing the order from the job chain it is in, if any.\<close>

definition leave_chain :: "nat \<Rightarrow> (order_world, unit) operation" where
  "leave_chain i =
     bind_s (read_s (\<lambda>w. o_job_chain (orders w i))) (\<lambda>chain. case chain of
       None \<Rightarrow> ret ()
     | Some c \<Rightarrow> chain_remove_order c i)"

definition order_close :: "nat \<Rightarrow> (order_world, unit) operation" where
  "order_close i =
     steps
       [apply_s (set_order i (\<lambda>x. x\<lparr>o_task := None\<rparr>)),
        apply_s (set_replacement_flag i False),
        apply_s (release_replacement i),
        when_s (\<lambda>w. o_is_db_occupied (orders w i)) (apply_s (db_written ''release_occupation'' i)),
        leave_chain i,
        apply_s (signal (Check_order i))]"

definition remove_from_job_chain_stack :: "nat \<Rightarrow> order_world \<Rightarrow> order_world" where
  "remove_from_job_chain_stack i =
     set_order i (\<lambda>x. x\<lparr>o_outer_job_chain_path := [], o_outer_job_chain_state := Empty_state\<rparr>)"

definition remove_from_job_chain :: "nat \<Rightarrow> stack_option \<Rightarrow> (order_world, unit) operation" where
  "remove_from_job_chain i stack =
     steps
       [apply_s (\<lambda>w. set_order i (\<lambda>x. x\<lparr>o_end_time := (if o_end_time x = Time 0 then clock w else o_end_time x)\<rparr>) w),
        when_s (\<lambda>w. o_job_chain_path (orders w i) \<noteq> []) (apply_s (db_written ''delete'' i)),
        assert_s ''remove_from_job_chain'' (\<lambda>w. \<not> o_is_db_occupied (orders w i)),
        leave_chain i,
        apply_s (set_order i (\<lambda>x. x\<lparr>o_setback_count := 0, o_setback := Time 0\<rparr>)),
        apply_s (set_replacement_flag i False),
        apply_s (set_order i (\<lambda>x. x\<lparr>o_job_chain := None, o_job_chain_path := []\<rparr>)),
        when_s (\<lambda>_. stack = Jc_remove_from_job_chain_stack)
          (steps [apply_s (remove_from_job_chain_stack i),
                  when_s (\<lambda>w. o_task (orders w i) = None) (order_close i)])]"

definition set_suspended :: "nat \<Rightarrow> bool \<Rightarrow> (order_world, unit) operation" where
  "set_suspended i b =
     when_s (\<lambda>w. o_suspended (orders w i) \<noteq> b)
       (steps
         [apply_s (set_order i (\<lambda>x. x\<lparr>o_suspended := b\<rparr>)),
          when_s (\<lambda>w. o_job_chain (orders w i) \<noteq> None)
            (steps
              [apply_s (signal (Order_event (if b then ''orderSuspended'' else ''orderResumed'') i)),
               if_s (\<lambda>w. o_is_on_blacklist (orders w i) \<and> \<not> b)
                 (remove_from_job_chain i Jc_remove_from_job_chain_stack)
                 (when_s (is_queued i) (in_own_queue reinsert_order i))]),
          when_s (\<lambda>w. o_is_distributed (orders w i) \<and> \<not> o_suspended (orders w i))
            (apply_s (set_order i (\<lambda>x. x\<lparr>o_setback := Time 0\<rparr>))),
          apply_s (handle_changed_processable_state i)])"

section \<open>Moving to another node\<close>

definition set_job_chain_node :: "nat \<Rightarrow> nat option \<Rightarrow> (order_world, unit) operation" where
  "set_job_chain_node i node =
     steps
       [apply_s (set_order i (\<lambda>x. x\<lparr>o_job_chain_node := node\<rparr>)),
        (case node of
           None \<Rightarrow> ret ()
         | Some n \<Rightarrow> steps
             [when_s (\<lambda>w. n_is_suspending_order (nodes w n)) (set_suspended i True),
              when_s (\<lambda>w. \<not> duration_is_zero (n_delay (nodes w n)) \<and> is_zero (o_setback (orders w i)))
                (bind_s (read_s (\<lambda>w. time_plus (clock w) (n_delay (nodes w n)))) (set_at_after_delay i))]),
        apply_s (\<lambda>w. set_state2 i (case node of None \<Rightarrow> Empty_state | Some n \<Rightarrow> n_order_state (nodes w n)) w)]"

text \<open>\<open>enter_queue\<close> is the end of \<^verbatim>\<open>move_to_node\<close>, for a node that has a queue.\<close>

definition enter_queue :: "nat \<Rightarrow> nat option \<Rightarrow> (order_world, unit) operation" where
  "enter_queue i node =
     (case node of
        None \<Rightarrow> ret ()
      | Some n \<Rightarrow> when_s (\<lambda>w. is_type (n_type (nodes w n)) N_order_queue) (apply_s (add_order n i)))"

definition move_to_node :: "nat \<Rightarrow> nat option \<Rightarrow> (order_world, unit) operation" where
  "move_to_node i node =
     bind_s (steps [when_s (\<lambda>w. o_job_chain (orders w i) = None) (throw (Xc ''SCHEDULER-157''))]) (\<lambda>_.
     bind_s (read_s (\<lambda>w. node = o_job_chain_node (orders w i))) (\<lambda>is_same_node.
       steps
         [when_s (\<lambda>w. o_task (orders w i) \<noteq> None) (apply_s (set_order i (\<lambda>x. x\<lparr>o_moved := True\<rparr>))),
          when_s (\<lambda>w. \<not> is_same_node \<and> o_job_chain_node (orders w i) \<noteq> None \<and> is_queued i w) (leave_queue i),
          set_job_chain_node i node,
          when_s (\<lambda>w. \<not> is_same_node \<and> \<not> o_is_distributed (orders w i)) (enter_queue i node)]))"

text \<open>The node that belongs to a state, if there is a state.\<close>

definition node_of_state :: "order_world \<Rightarrow> nat \<Rightarrow> order_state \<Rightarrow> nat option result" where
  "node_of_state w c s =
     (if s = Empty_state \<or> s = Missing_state then Inr None
      else bind_r (referenced_node_from_state w c s) (\<lambda>n. Inr (Some n)))"

definition at_end :: "order_world \<Rightarrow> nat \<Rightarrow> bool" where
  "at_end w i =
     (case o_job_chain_node (orders w i) of None \<Rightarrow> True | Some n \<Rightarrow> is_type (n_type (nodes w n)) N_end)"

text \<open>\<^verbatim>\<open>set_state1\<close>, with the handling of the end state as an argument, since the two call each other.\<close>

definition set_state1 ::
  "(nat \<Rightarrow> (order_world, unit) operation) \<Rightarrow> nat \<Rightarrow> order_state \<Rightarrow> (order_world, unit) operation" where
  "set_state1 end_state_handler i s =
     bind_s (read_s (\<lambda>w. o_job_chain (orders w i))) (\<lambda>chain. case chain of
       None \<Rightarrow> apply_s (set_state2 i s)
     | Some c \<Rightarrow>
         bind_s (read_s (\<lambda>w. o_state (orders w i))) (\<lambda>previous_state.
         bind_s (try_s (\<lambda>w. node_of_state w c s)) (\<lambda>node.
           steps
             [move_to_node i node,
              when_s (\<lambda>w. \<not> state_eq previous_state (o_state (orders w i)) \<and> at_end w i) (end_state_handler i)])))"

definition set_state ::
  "(nat \<Rightarrow> (order_world, unit) operation) \<Rightarrow> nat \<Rightarrow> order_state \<Rightarrow> (order_world, unit) operation" where
  "set_state end_state_handler i s =
     steps
       [clear_setback i False,
        when_s (\<lambda>w. o_is_on_blacklist (orders w i)) (remove_from_blacklist i),
        set_state1 end_state_handler i s]"

definition set_state_at ::
  "(nat \<Rightarrow> (order_world, unit) operation) \<Rightarrow> nat \<Rightarrow> order_state \<Rightarrow> time \<Rightarrow> (order_world, unit) operation" where
  "set_state_at end_state_handler i s t = steps [set_state end_state_handler i s, set_setback i t False]"

section \<open>End states\<close>

definition end_state_reached :: "order_world \<Rightarrow> nat \<Rightarrow> bool result" where
  "end_state_reached w i =
     (if o_end_state_reached (orders w i) then Inr True
      else bind_r (job_chain_of w i) (\<lambda>c. Inr (case c of
        None \<Rightarrow> False
      | Some c \<Rightarrow> (case node_from_state_or_null w c (o_state (orders w i)) of
            None \<Rightarrow> True
          | Some n \<Rightarrow> is_type (n_type (nodes w n)) N_end))))"

definition finished :: "order_world \<Rightarrow> nat \<Rightarrow> bool result" where
  "finished w i = (if o_suspended (orders w i) then Inr False else end_state_reached w i)"

datatype file_order = No_file_order | Local_file_order | Agent_file_order

record life_hooks =
  next_start_time :: "nat \<Rightarrow> order_world \<Rightarrow> time"
  file_order_kind :: "nat \<Rightarrow> file_order"
  file_exists :: "nat \<Rightarrow> order_world \<Rightarrow> bool"
  end_state_of_nested :: "nat \<Rightarrow> (order_world, bool) operation"
  restart_nested :: "nat \<Rightarrow> time \<Rightarrow> (order_world, unit) operation"

text \<open>\<^verbatim>\<open>catch( exception& x )\<close> with a log message.\<close>

definition logged :: "(order_world, unit) operation \<Rightarrow> (order_world, unit) operation" where
  "logged m w = (case m w of (Inl (Xc e), w') \<Rightarrow> (Inr (), w') | r \<Rightarrow> r)"

definition repeat_order ::
  "(nat \<Rightarrow> (order_world, unit) operation) \<Rightarrow> life_hooks \<Rightarrow> nat \<Rightarrow> time \<Rightarrow> (order_world, unit) operation" where
  "repeat_order end_state_handler h i next_start =
     if_s (\<lambda>w. o_outer_job_chain_path (orders w i) \<noteq> []) (restart_nested h i next_start)
       (steps
         [apply_s (signal (Order_db ''history'' i)),
          apply_s (set_order i (\<lambda>x. x\<lparr>o_start_time := Time 0, o_end_time := Time 0\<rparr>)),
          bind_s (read_s (\<lambda>w. o_initial_state (orders w i)))
            (\<lambda>s. logged (set_state_at end_state_handler i s next_start))])"

text \<open>Whether an order starts again: it is file based or has a next start, and has not just begun.\<close>

definition is_repeated :: "nat \<Rightarrow> time \<Rightarrow> order_world \<Rightarrow> bool" where
  "is_repeated i next_start w =
     (let x = orders w i;
          s = (if o_outer_job_chain_path x \<noteq> [] then o_outer_job_chain_state x else o_state x)
      in (o_is_file_based x \<or> \<not> is_never next_start \<or> o_schedule_is_incomplete x)
         \<and> (\<not> state_eq s (o_initial_state x) \<or> state_eq (o_initial_state x) (o_end_state x)))"

text \<open>The end of an order that does not start again. It stays on the blacklist if the file of a file order is
  still there, or if it is suspended.\<close>

definition finish_order :: "life_hooks \<Rightarrow> nat \<Rightarrow> (order_world, unit) operation" where
  "finish_order h i =
     steps
       [when_s (\<lambda>w. o_job_chain (orders w i) \<noteq> None)
          (steps
            [when_s (\<lambda>w. file_order_kind h i = Agent_file_order
                     \<or> file_order_kind h i = Local_file_order \<and> file_exists h i w) (set_on_blacklist i),
             when_s (\<lambda>w. o_suspended (orders w i)) (set_on_blacklist i)]),
        apply_s (\<lambda>w. set_order i (\<lambda>x. x\<lparr>o_end_time := clock w\<rparr>) w),
        when_s (\<lambda>w. \<not> o_is_on_blacklist (orders w i))
          (steps [remove_from_job_chain i Jc_remove_from_job_chain_stack, order_close i])]"

definition is_real_end :: "life_hooks \<Rightarrow> nat \<Rightarrow> (order_world, bool) operation" where
  "is_real_end h i = if_s (\<lambda>w. o_outer_job_chain_path (orders w i) = []) (ret True) (end_state_of_nested h i)"

text \<open>\<^verbatim>\<open>handle_end_state\<close>, with the number of calls of itself that it may still need; it calls itself when the
  initial state of a repeated order is an end state, too.\<close>

fun handle_end_state :: "life_hooks \<Rightarrow> nat \<Rightarrow> nat \<Rightarrow> (order_world, unit) operation" where
  "handle_end_state h 0 i = throw (Assertion ''handle_end_state'')"
| "handle_end_state h (Suc k) i =
     bind_s (is_real_end h i) (\<lambda>is_real_end_state.
       if \<not> is_real_end_state then apply_s (set_order i (\<lambda>x. x\<lparr>o_end_state_reached := False\<rparr>))
       else
         bind_s (read_s (next_start_time h i)) (\<lambda>next_start.
           steps
             [apply_s (signal (Order_event ''orderFinished'' i)),
              if_s (is_repeated i next_start)
                (steps
                  [apply_s (set_order i (\<lambda>x. x\<lparr>o_is_touched := False\<rparr>)),
                   repeat_order (handle_end_state h k) h i next_start])
                (finish_order h i),
              apply_s (signal (Check_order i))]))"

text \<open>An order that is repeated is in its initial state after one more call at the latest.\<close>

definition end_state_calls :: nat where
  "end_state_calls = 3"

section \<open>After a job step\<close>

text \<open>The tip for a cluster member is left out: this is a scheduler that is not in a cluster.\<close>

definition chain_tip_for_new_distributed_order :: "nat \<Rightarrow> order_state \<Rightarrow> time \<Rightarrow> order_world \<Rightarrow> order_world" where
  "chain_tip_for_new_distributed_order c s t w =
     (case node_from_state_or_null w c s of
        None \<Rightarrow> w
      | Some n \<Rightarrow>
          if is_type (n_type (nodes w n)) N_order_queue \<and> n_check_time (nodes w n) \<le> time_max - 1
             \<and> t < n_announced (nodes w n)
          then set_next_announced n t w else w)"

definition tip_next_node :: "nat \<Rightarrow> (order_world, unit) operation" where
  "tip_next_node i =
     when_s (\<lambda>w. is_processable w i)
       (bind_s (try_s (\<lambda>w. job_chain_of w i)) (\<lambda>chain. case chain of
          None \<Rightarrow> throw (Assertion ''job_chain'')
        | Some c \<Rightarrow> apply_s (\<lambda>w. chain_tip_for_new_distributed_order c (o_state (orders w i)) (o_setback (orders w i)) w)))"

text \<open>The node of an order says that orders are to be moved on.\<close>

definition node_skips :: "nat \<Rightarrow> order_world \<Rightarrow> bool" where
  "node_skips i w =
     (case o_job_chain_node (orders w i) of None \<Rightarrow> False | Some n \<Rightarrow> n_action (nodes w n) = Act_next_state)"

definition postprocessing2 :: "life_hooks \<Rightarrow> nat \<Rightarrow> (order_world, unit) operation" where
  "postprocessing2 h i =
     steps
       [apply_s (set_order i (\<lambda>x. x\<lparr>o_moved := False\<rparr>)),
        apply_s (handle_changed_processable_state i),
        when_s (\<lambda>w. o_job_chain (orders w i) \<noteq> None \<and> node_skips i w)
          (bind_s (read_s (\<lambda>w. o_state (orders w i))) (set_state1 (handle_end_state h end_state_calls) i)),
        when_s (\<lambda>w. o_job_chain (orders w i) \<noteq> None) (steps [apply_s (db_written ''update'' i), tip_next_node i]),
        when_s (\<lambda>w. o_is_distributed (orders w i) \<and> o_job_chain (orders w i) \<noteq> None)
          (steps [leave_chain i, order_close i]),
        when_s (\<lambda>w. o_removed_from_job_chain_path (orders w i) \<noteq> []) (order_close i),
        apply_s (\<lambda>w. case o_job_chain (orders w i) of None \<Rightarrow> w | Some c \<Rightarrow> signal (Check_chain c) w)]"

text \<open>
  \<open>judge_step\<close> is the part of \<^verbatim>\<open>postprocessing\<close> before the task leaves the order; the result is \<^verbatim>\<open>force_error_state\<close>. The
  functions of plugins that \<^verbatim>\<open>onOrderStepEnded\<close> calls are not modelled. An order in process without a task
  would be a null pointer; it is an assertion here.
\<close>

definition set_back_on_error :: "nat \<Rightarrow> transition \<Rightarrow> nat option \<Rightarrow> (order_world, unit) operation" where
  "set_back_on_error i t job_node =
     (case job_node of
        None \<Rightarrow> ret ()
      | Some n \<Rightarrow>
          bind_s (try_s (\<lambda>_. return_code t)) (\<lambda>_.
            when_s (\<lambda>w. \<not> o_is_success_state (orders w i) \<and> n_on_error_setback (nodes w n))
              (bind_s (setback i) (\<lambda>_. ret ()))))"

definition set_back_too_often :: "nat \<Rightarrow> order_world \<Rightarrow> bool result" where
  "set_back_too_often i w =
     (if o_suspended (orders w i) \<or> \<not> is_never (o_setback (orders w i)) then Inr False
      else case o_task (orders w i) of
        None \<Rightarrow> Inl (Assertion ''_task'')
      | Some task \<Rightarrow> Inr (max_order_setbacks (jobs w (job_of_task w task)) < o_setback_count (orders w i)))"

definition judge_step :: "nat \<Rightarrow> nat option \<Rightarrow> transition \<Rightarrow> (order_world, bool) operation" where
  "judge_step i job_node t =
     bind_s
       (steps
         [apply_s (set_order i (\<lambda>x. x\<lparr>o_is_success_state := (t = success)\<rparr>)),
          set_back_on_error i t job_node,
          when_s (\<lambda>w. \<not> o_setback_called (orders w i)) (apply_s (set_order i (\<lambda>x. x\<lparr>o_setback_count := 0\<rparr>)))])
       (\<lambda>_. bind_s (try_s (set_back_too_often i)) (\<lambda>force_error_state.
          bind_s (when_s (\<lambda>_. force_error_state)
              (apply_s (set_order i (\<lambda>x. x\<lparr>o_is_success_state := False, o_setback := Time 0, o_setback_count := 0\<rparr>))))
            (\<lambda>_. ret force_error_state)))"

text \<open>\<open>proceed\<close> is the part for an order whose step is done; \<open>stay\<close> the one for an order that keeps its state.\<close>

definition proceed ::
  "(nat \<Rightarrow> (order_world, unit) operation) \<Rightarrow> nat \<Rightarrow> nat \<Rightarrow> transition \<Rightarrow> (order_world, unit) operation" where
  "proceed handler i n t =
     steps
       [assert_s ''postprocessing'' (\<lambda>w. o_job_chain (orders w i) \<noteq> None),
        if_s (\<lambda>w. \<not> o_is_success_state (orders w i) \<and> n_on_error_suspend (nodes w n))
          (set_suspended i True)
          (if_s (\<lambda>w. o_is_success_state (orders w i) \<and> o_outer_job_chain_path (orders w i) = []
                     \<and> state_eq (o_state (orders w i)) (o_end_state (orders w i)))
            (steps [apply_s (set_order i (\<lambda>x. x\<lparr>o_end_state_reached := True\<rparr>)), handler i])
            (bind_s (read_s (\<lambda>w. job_node_order_state (nodes w n) t)) (set_state1 handler i)))]"

definition stay :: "(nat \<Rightarrow> (order_world, unit) operation) \<Rightarrow> nat \<Rightarrow> (order_world, unit) operation" where
  "stay handler i =
     if_s (\<lambda>w. o_end_state_reached (orders w i)) (handler i)
       (if_s (\<lambda>w. o_is_distributed (orders w i) \<and> is_queued i w) (in_own_queue remove_order i)
         (when_s (\<lambda>w. \<not> o_moved (orders w i))
           (steps
             [when_s (node_skips i) (clear_setback i False),
              bind_s (read_s (\<lambda>w. o_state (orders w i))) (set_state1 handler i)])))"

definition goes_on :: "nat \<Rightarrow> transition \<Rightarrow> order_world \<Rightarrow> bool" where
  "goes_on i t w =
     (t \<noteq> keep \<and> o_setback_count (orders w i) = 0 \<and> \<not> o_moved (orders w i) \<and> \<not> o_end_state_reached (orders w i))"

text \<open>\<^verbatim>\<open>Job_node::cast( _job_chain_node )\<close>, which fails for a node of another type.\<close>

definition job_node_of :: "nat \<Rightarrow> order_world \<Rightarrow> nat option result" where
  "job_node_of i w =
     (case o_job_chain_node (orders w i) of
        None \<Rightarrow> Inr None
      | Some n \<Rightarrow> if is_type (n_type (nodes w n)) N_job then Inr (Some n) else Inl (Assertion ''Job_node::cast''))"

definition postprocessing :: "life_hooks \<Rightarrow> nat \<Rightarrow> transition \<Rightarrow> (order_world, unit) operation" where
  "postprocessing h i t =
     bind_s (try_s (job_node_of i)) (\<lambda>job_node.
     bind_s (judge_step i job_node t) (\<lambda>force_error_state.
       steps
         [apply_s (set_order i (\<lambda>x. x\<lparr>o_task := None\<rparr>)),
          if_s (\<lambda>w. goes_on i t w \<or> force_error_state)
            (case job_node of None \<Rightarrow> ret () | Some n \<Rightarrow> proceed (handle_end_state h end_state_calls) i n t)
            (stay (handle_end_state h end_state_calls) i),
          postprocessing2 h i]))"

definition processing_error :: "life_hooks \<Rightarrow> bool \<Rightarrow> nat \<Rightarrow> (order_world, unit) operation" where
  "processing_error h has_http_operation i =
     steps
       [bind_s (try_s (job_node_of i)) (\<lambda>job_node. case job_node of
          None \<Rightarrow> ret ()
        | Some n \<Rightarrow> when_s (\<lambda>w. n_on_error_suspend (nodes w n)) (set_suspended i True)),
        apply_s (set_order i (\<lambda>x. x\<lparr>o_task := None\<rparr>)),
        when_s (\<lambda>_. has_http_operation) (apply_s (set_order i (\<lambda>x. x\<lparr>o_job_chain_node := None\<rparr>))),
        postprocessing2 h i]"

end
