(* ===== verification/Order_Invariant.thy ===== *)
theory Order_Invariant
  imports Order_Life
begin

text \<open>
  The invariant of the order queues: every order that is marked as being in a queue is in the queue of its
  node, once, and in no other one; and every queue is in processing order at the current time. It is proved for
  each operation, also when the operation throws, with the rules for operations of the prelude.
\<close>

section \<open>The invariant\<close>

definition members_agree :: "order_world \<Rightarrow> bool" where
  "members_agree w =
     ((\<forall>n. distinct (n_queue (nodes w n)))
      \<and> (\<forall>n i. i \<in> set (n_queue (nodes w n)) \<longleftrightarrow>
           o_is_in_order_queue (orders w i) \<and> o_job_chain_node (orders w i) = Some n)
      \<and> (\<forall>i. o_is_in_order_queue (orders w i) \<longrightarrow>
           o_job_chain_node (orders w i) \<noteq> None \<and> o_job_chain (orders w i) \<noteq> None)
      \<and> (\<forall>n. n_queue (nodes w n) \<noteq> [] \<longrightarrow> is_type (n_type (nodes w n)) N_order_queue))"

text \<open>The queues are in order when the orders of a set are left out.\<close>

definition sorted_but :: "nat set \<Rightarrow> order_world \<Rightarrow> bool" where
  "sorted_but S w = (Time 0 \<le> clock w \<and> (\<forall>n. queue_sorted (orders w) (clock w) (filter (\<lambda>j. j \<notin> S) (n_queue (nodes w n)))))"

text \<open>\<open>srt\<close>: whether the invariant includes the processing order.\<close>

definition queues_ok :: "bool \<Rightarrow> order_world \<Rightarrow> bool" where
  "queues_ok srt w = (members_agree w \<and> (srt \<longrightarrow> sorted_but {} w))"

definition queues_ok_but :: "bool \<Rightarrow> nat \<Rightarrow> order_world \<Rightarrow> bool" where
  "queues_ok_but srt i w = (members_agree w \<and> (srt \<longrightarrow> sorted_but {i} w))"

text \<open>Where an order is: nothing of this changes when the queues stay the same.\<close>

type_synonym order_place = "bool \<times> nat option \<times> nat option \<times> bool"

definition place_of :: "order \<Rightarrow> order_place" where
  "place_of x = (o_is_in_order_queue x, o_job_chain_node x, o_job_chain x, o_is_distributed x)"

definition place :: "order_world \<Rightarrow> nat \<Rightarrow> order_place" where
  "place w i = place_of (orders w i)"

definition same_queues :: "order_world \<Rightarrow> order_world \<Rightarrow> bool" where
  "same_queues w w' =
     ((\<forall>n. n_queue (nodes w' n) = n_queue (nodes w n) \<and> n_type (nodes w' n) = n_type (nodes w n))
      \<and> place w' = place w
      \<and> (\<forall>i. o_suspended (orders w' i) = o_suspended (orders w i) \<and> o_setback (orders w' i) = o_setback (orders w i))
      \<and> clock w' = clock w)"

lemma place_eq_iff: "place w' = place w \<longleftrightarrow> (\<forall>i. o_is_in_order_queue (orders w' i) = o_is_in_order_queue (orders w i)
    \<and> o_job_chain_node (orders w' i) = o_job_chain_node (orders w i) \<and> o_job_chain (orders w' i) = o_job_chain (orders w i)
    \<and> o_is_distributed (orders w' i) = o_is_distributed (orders w i))"
  by (auto simp: fun_eq_iff place_def place_of_def)

lemma same_queues_members: "same_queues w w' \<Longrightarrow> members_agree w' = members_agree w"
  by (simp add: members_agree_def same_queues_def place_eq_iff)

lemma same_queues_sorted: "same_queues w w' \<Longrightarrow> sorted_but S w' = sorted_but S w"
  by (simp add: sorted_but_def same_queues_def queue_sorted_def sorted_wrt_map clamped_behind_def)

lemma same_queues_ok:
  assumes "same_queues w w'"
  shows "queues_ok srt w' = queues_ok srt w" "queues_ok_but srt i w' = queues_ok_but srt i w" "place w' = place w"
  using same_queues_members [OF assms] same_queues_sorted [OF assms] assms
  by (simp_all add: queues_ok_def queues_ok_but_def) (simp add: same_queues_def)

lemma same_queues_trans: "same_queues w w1 \<Longrightarrow> same_queues w1 w2 \<Longrightarrow> same_queues w w2"
  by (simp add: same_queues_def)

named_theorems quiet \<open>changes that do not concern the queues\<close>

lemma same_queues_refl [quiet]: "same_queues w w"
  by (simp add: same_queues_def)

lemma same_queues_signal [quiet]: "same_queues w (signal s w)"
  by (simp add: same_queues_def world_simps place_eq_iff)

lemma same_queues_chain [quiet]: "same_queues w (set_chain c f w)"
  by (simp add: same_queues_def world_simps place_eq_iff)

lemma same_queues_order [quiet]:
  assumes "\<And>x. place_of (f x) = place_of x" "\<And>x. o_suspended (f x) = o_suspended x" "\<And>x. o_setback (f x) = o_setback x"
  shows "same_queues w (set_order i f w)"
  using assms by (simp add: same_queues_def world_simps place_def fun_eq_iff)

lemma same_queues_node [quiet]:
  assumes "\<And>x. n_queue (f x) = n_queue x" "\<And>x. n_type (f x) = n_type x"
  shows "same_queues w (set_node n f w)"
  using assms by (simp add: same_queues_def world_simps place_eq_iff)

lemma same_queues_handle [quiet]: "same_queues w (handle_changed_processable_state i w)"
  by (auto simp: handle_changed_processable_state_def intro: quiet split: option.splits)

lemma same_queues_state2 [quiet]: "same_queues w (set_state2 i s w)"
  by (auto simp: set_state2_def Let_def same_queues_def world_simps place_eq_iff)

lemma same_queues_replacement [quiet]: "same_queues w (set_replacement_flag i b w)"
proof -
  define w1 where "w1 = (case o_replacement_for (orders w i) of None \<Rightarrow> w | Some r \<Rightarrow>
      set_order i (\<lambda>x. x\<lparr>o_replacement_for := None\<rparr>) (set_order r (\<lambda>x. x\<lparr>o_replaced_by := None\<rparr>) w))"
  have "same_queues w (set_order i (\<lambda>x. x\<lparr>o_is_replacement := b\<rparr>) w1)"
    by (auto simp: w1_def same_queues_def world_simps place_eq_iff split: option.splits)
  then show ?thesis using same_queues_trans same_queues_handle
    by (simp add: set_replacement_flag_def Let_def w1_def [symmetric])
qed

lemma same_queues_db [quiet]: "same_queues w (db_written s i w)"
  by (simp add: db_written_def same_queues_def world_simps place_eq_iff)

text \<open>The invariant, with the orders staying where they are.\<close>

definition queues_ok_at :: "bool \<Rightarrow> (nat \<Rightarrow> order_place) \<Rightarrow> order_world \<Rightarrow> bool" where
  "queues_ok_at srt p w = (queues_ok srt w \<and> place w = p)"

lemma keeps_quiet:
  assumes "\<And>w. same_queues w (f w)"
  shows "keeps (queues_ok srt) (apply_s f)" "keeps (queues_ok_at srt p) (apply_s f)"
  using same_queues_ok [OF assms] by (auto intro!: keeps_apply_s simp: queues_ok_at_def)

text \<open>What keeps the places keeps the invariant.\<close>

lemma keeps_places: "(\<And>p. keeps (queues_ok_at srt p) m) \<Longrightarrow> keeps (queues_ok srt) m"
  by (intro keepsI) (metis keepsD queues_ok_at_def)

section \<open>Changing the queues\<close>

lemma sorted_but_insert: "sorted_but {} w \<Longrightarrow> sorted_but {i} w"
proof -
  have "queue_sorted os now (filter P q)" if "queue_sorted os now q" for os now P and q :: "nat list"
    using that by (simp add: queue_sorted_def sorted_wrt_map sorted_wrt_filter)
  then show "sorted_but {} w \<Longrightarrow> sorted_but {i} w" by (simp add: sorted_but_def)
qed

lemma queues_ok_but_weaken: "queues_ok srt w \<Longrightarrow> queues_ok_but srt i w"
  using sorted_but_insert by (auto simp: queues_ok_def queues_ok_but_def)

lemma not_queued_ok: "queues_ok_but srt i w \<Longrightarrow> \<not> is_queued i w \<Longrightarrow> queues_ok srt w"
proof -
  assume a: "queues_ok_but srt i w" "\<not> is_queued i w"
  have "i \<notin> set (n_queue (nodes w n))" for n
    using a by (auto simp: queues_ok_but_def members_agree_def is_queued_def)
  then have "filter (\<lambda>j. j \<notin> {i}) (n_queue (nodes w n)) = n_queue (nodes w n)" for n
    by (auto simp: filter_id_conv)
  then show ?thesis using a(1) by (simp add: queues_ok_but_def queues_ok_def sorted_but_def)
qed

lemma members_queued: "members_agree w \<Longrightarrow> is_queued i w \<Longrightarrow>
    o_job_chain_node (orders w i) \<noteq> None \<and> o_job_chain (orders w i) \<noteq> None"
  by (simp add: members_agree_def is_queued_def)

text \<open>Only the order itself is out of order after its setback or its suspension has been changed.\<close>

lemma place_set_order: "(\<And>x. place_of (f x) = place_of x) \<Longrightarrow> place (set_order i f w) = place w"
  by (auto simp: place_def world_simps fun_eq_iff)

lemma queues_ok_set_order:
  assumes "queues_ok_but srt i w" "\<And>x. place_of (f x) = place_of x"
  shows "queues_ok_but srt i (set_order i f w)"
proof -
  have "queue_sorted (orders (set_order i f w)) now (filter (\<lambda>j. j \<notin> {i}) q)
      = queue_sorted (orders w) now (filter (\<lambda>j. j \<notin> {i}) q)" for now q
    by (rule queue_sorted_cong) (auto simp: world_simps)
  then show "queues_ok_but srt i (set_order i f w)"
    using assms by (auto simp: queues_ok_but_def sorted_but_def members_agree_def world_simps place_of_def)
qed

lemma queue_member_type: "members_agree w \<Longrightarrow> is_queued i w \<Longrightarrow> \<exists>n. order_queue w i = Inr n \<and> i \<in> set (n_queue (nodes w n))
    \<and> o_job_chain_node (orders w i) = Some n"
proof -
  assume a: "members_agree w" "is_queued i w"
  then obtain n where n: "o_job_chain_node (orders w i) = Some n"
    by (auto simp: members_agree_def is_queued_def)
  then have "i \<in> set (n_queue (nodes w n))" using a by (auto simp: members_agree_def is_queued_def)
  moreover from this have "n_queue (nodes w n) \<noteq> []" by auto
  then have "is_type (n_type (nodes w n)) N_order_queue" using a(1) by (simp add: members_agree_def)
  ultimately show ?thesis using n by (simp add: order_queue_def)
qed

lemma filter_remove1_same: "filter (\<lambda>j. j \<noteq> i) (remove1 i q) = filter (\<lambda>j. j \<noteq> i) q"
  by (induction q) auto

lemma remove_order_ok:
  assumes "queues_ok_but srt i w" "i \<in> set (n_queue (nodes w n))"
  shows "\<exists>w'. remove_order n i w = (Inr (), w') \<and> queues_ok srt w' \<and> \<not> is_queued i w'
    \<and> orders w' = (orders w)(i := (orders w i)\<lparr>o_is_in_order_queue := False\<rparr>) \<and> clock w' = clock w
    \<and> (\<forall>m. n_queue (nodes w' m) = (if m = n then remove1 i (n_queue (nodes w n)) else n_queue (nodes w m)) \<and> n_type (nodes w' m) = n_type (nodes w m))
    \<and> chains w' = chains w"
proof -
  have agree: "members_agree w" using assms(1) by (simp add: queues_ok_but_def)
  then have q: "o_is_in_order_queue (orders w i)" "o_job_chain_node (orders w i) = Some n" "distinct (n_queue (nodes w n))"
    using assms(2) by (auto simp: members_agree_def)
  let ?w = "set_node n (\<lambda>x. x\<lparr>n_queue := remove1 i (n_queue x)\<rparr>) (set_order i (\<lambda>x. x\<lparr>o_is_in_order_queue := False\<rparr>) w)"
  have run: "remove_order n i w = (Inr (), ?w)" using q assms(2) by (simp add: remove_order_def ret_def)
  have "members_agree ?w"
    using agree q by (auto simp: members_agree_def world_simps dest: in_set_remove1 split: if_splits)
      (metis remove1.simps(1))
  moreover have "queue_sorted (orders ?w) now (filter (\<lambda>j. j \<notin> {i}) p) = queue_sorted (orders w) now (filter (\<lambda>j. j \<notin> {i}) p)" for now p
    by (rule queue_sorted_cong) (auto simp: world_simps)
  then have "srt \<longrightarrow> sorted_but {i} ?w"
    using assms(1) q(3) by (auto simp: queues_ok_but_def sorted_but_def world_simps filter_remove1_same)
  ultimately have "queues_ok srt ?w"
    by (intro not_queued_ok [of srt i]) (simp_all add: queues_ok_but_def is_queued_def world_simps)
  then show ?thesis using run by (auto simp: world_simps is_queued_def)
qed

lemma add_order_ok:
  assumes "queues_ok srt w" "\<not> is_queued i w" "o_job_chain_node (orders w i) = Some n" "o_job_chain (orders w i) \<noteq> None"
    and "is_type (n_type (nodes w n)) N_order_queue"
  shows "queues_ok srt (add_order n i w)"
    "place (add_order n i w) = (place w)(i := (True, Some n, o_job_chain (orders w i), o_is_distributed (orders w i)))"
proof -
  let ?w1 = "set_node n (\<lambda>x. x\<lparr>n_queue := queue_insert (orders w) i (n_queue x)\<rparr>) w"
  let ?w2 = "set_order i (\<lambda>x. x\<lparr>o_is_in_order_queue := True\<rparr>) ?w1"
  have new: "add_order n i w = handle_changed_processable_state i ?w2" by (simp add: add_order_def)
  have agree: "members_agree w" using assms(1) by (simp add: queues_ok_def)
  have absent: "i \<notin> set (n_queue (nodes w m))" for m
    using agree assms(2) by (auto simp: members_agree_def is_queued_def)
  have "members_agree ?w2"
    using agree assms(3-5) absent by (auto simp: members_agree_def world_simps distinct_queue_insert)
  moreover have "queue_sorted (orders ?w2) (clock w) (n_queue (nodes ?w2 m))" if srt for m
  proof -
    have "queue_sorted (orders w) (clock w) (n_queue (nodes w m))" for m
      using assms(1) that by (simp add: queues_ok_def sorted_but_def)
    then have "queue_sorted (orders w) (clock w) (n_queue (nodes ?w2 m))"
      by (simp add: world_simps queue_sorted_insert)
    then show ?thesis by (subst queue_sorted_cong [where os = "orders w"]) (auto simp: world_simps)
  qed
  then have "srt \<longrightarrow> sorted_but {} ?w2" using assms(1) by (simp add: queues_ok_def sorted_but_def world_simps)
  ultimately have "queues_ok srt ?w2" by (simp add: queues_ok_def)
  then show "queues_ok srt (add_order n i w)" using new same_queues_ok [OF same_queues_handle] by simp
  have p: "place (add_order n i w) = place ?w2" using new same_queues_ok [OF same_queues_handle] by simp
  then show "place (add_order n i w) = (place w)(i := (True, Some n, o_job_chain (orders w i), o_is_distributed (orders w i)))"
    using assms(3) by (simp add: place_def place_of_def world_simps fun_eq_iff)
qed

lemma reinsert_ok:
  assumes "queues_ok_but srt i w" "is_queued i w" "order_queue w i = Inr n"
  obtains w' where "reinsert_order n i w = (Inr (), w')" "queues_ok srt w'" "place w' = place w"
proof -
  have agree: "members_agree w" using assms(1) by (simp add: queues_ok_but_def)
  obtain m where m: "order_queue w i = Inr m" "i \<in> set (n_queue (nodes w m))" "o_job_chain_node (orders w i) = Some m"
    using queue_member_type [OF agree assms(2)] by blast
  with assms(3) have n: "m = n" by simp
  have ty: "is_type (n_type (nodes w n)) N_order_queue"
    using m(1,3) n by (simp add: order_queue_def split: if_splits)
  obtain w1 where w1: "remove_order n i w = (Inr (), w1)" "queues_ok srt w1" "\<not> is_queued i w1"
    "orders w1 = (orders w)(i := (orders w i)\<lparr>o_is_in_order_queue := False\<rparr>)"
    "\<And>m. n_type (nodes w1 m) = n_type (nodes w m)"
    using remove_order_ok [OF assms(1)] m(2) n by blast
  have there: "o_job_chain_node (orders w1 i) = Some n" "o_job_chain (orders w1 i) \<noteq> None"
    "is_type (n_type (nodes w1 n)) N_order_queue"
    using agree m n w1(4,5) ty assms(2) by (auto simp: members_agree_def is_queued_def)
  note added = add_order_ok [OF w1(2,3) there]
  have run: "reinsert_order n i w = (Inr (), add_order n i w1)"
    by (simp add: reinsert_order_def bind_s_def w1(1) ret_def)
  have "place (add_order n i w1) = place w"
    using added(2) m(3) n assms(2) w1(4) by (auto simp: place_def place_of_def is_queued_def fun_eq_iff)
  then show ?thesis using that run added(1) by blast
qed

lemma reinsert_run:
  assumes "queues_ok_but srt i w" "is_queued i w"
  obtains w' where "in_own_queue reinsert_order i w = (Inr (), w')" "queues_ok srt w'" "place w' = place w"
proof -
  obtain n where n: "order_queue w i = Inr n"
    using queue_member_type [of w i] assms by (auto simp: queues_ok_but_def)
  obtain w' where "reinsert_order n i w = (Inr (), w')" "queues_ok srt w'" "place w' = place w"
    using reinsert_ok [OF assms n] by blast
  with n that show ?thesis by (simp add: in_own_queue_def bind_s_def try_s_def)
qed

text \<open>A change of the order itself, after which it is sorted in again if it is in a queue.\<close>

definition place_kept :: "(order \<Rightarrow> order) \<Rightarrow> bool" where
  "place_kept f = (\<forall>x. place_of (f x) = place_of x)"

definition queues_ok_but_at :: "bool \<Rightarrow> nat \<Rightarrow> (nat \<Rightarrow> order_place) \<Rightarrow> order_world \<Rightarrow> bool" where
  "queues_ok_but_at srt i p w = (queues_ok_but srt i w \<and> place w = p)"

lemma queues_ok_but_at_weaken: "queues_ok_at srt p w \<Longrightarrow> queues_ok_but_at srt i p w"
  by (simp add: queues_ok_at_def queues_ok_but_at_def queues_ok_but_weaken)

lemma hoare_reinsert:
  "hoare (queues_ok_but_at srt i p) (in_own_queue reinsert_order i) (\<lambda>_. queues_ok_at srt p) (queues_ok_at srt p)"
proof -
  have "queues_ok_at srt p (snd (in_own_queue reinsert_order i w))" if w: "queues_ok_but_at srt i p w" for w
  proof (cases "is_queued i w")
    case True
    then obtain w' where "in_own_queue reinsert_order i w = (Inr (), w')" "queues_ok srt w'" "place w' = p"
      using reinsert_run w by (metis queues_ok_but_at_def)
    then show ?thesis by (simp add: queues_ok_at_def)
  next
    case False
    then have "snd (in_own_queue reinsert_order i w) = w"
      by (auto simp: in_own_queue_def bind_s_def try_s_def reinsert_order_def remove_order_def throw_def is_queued_def
          split: sum.splits)
    then show ?thesis using not_queued_ok [OF _ False] w by (simp add: queues_ok_but_at_def queues_ok_at_def)
  qed
  then show ?thesis by (intro hoareI) force+
qed

lemma hoare_reinsert_queued:
  "hoare (queues_ok_but_at srt i p) (when_s (is_queued i) (in_own_queue reinsert_order i)) (\<lambda>_. queues_ok_at srt p) (queues_ok_at srt p)"
proof (rule hoare_when_s)
  show "hoare (\<lambda>w. queues_ok_but_at srt i p w \<and> is_queued i w) (in_own_queue reinsert_order i) (\<lambda>_. queues_ok_at srt p) (queues_ok_at srt p)"
    by (rule hoare_weaken [OF hoare_reinsert]) simp
qed (auto simp: queues_ok_but_at_def queues_ok_at_def not_queued_ok)

lemma hoare_change:
  assumes "place_kept f"
  shows "hoare (queues_ok_at srt p) (apply_s (set_order i f)) (\<lambda>_. queues_ok_but_at srt i p) R"
  using assms queues_ok_set_order place_set_order queues_ok_but_weaken
  by (intro hoare_apply_s) (simp add: queues_ok_at_def queues_ok_but_at_def place_kept_def)

section \<open>Each operation\<close>

lemma keeps_reinsert [keep_rules]: "keeps (queues_ok_at srt p) (in_own_queue reinsert_order i)"
  unfolding keeps_def by (rule hoare_weaken [OF hoare_reinsert]) (rule queues_ok_but_at_weaken)

lemma keeps_change_reinsert [keep_rules]:
  assumes "place_kept f" "keeps (queues_ok_at srt p) (steps ms)"
  shows "keeps (queues_ok_at srt p) (steps (apply_s (set_order i f) # when_s (is_queued i) (in_own_queue reinsert_order i) # ms))"
  unfolding keeps_def using assms(2)
  by (intro hoare_steps_Cons [OF hoare_change hoare_steps_Cons [OF hoare_reinsert_queued]] assms(1)) (simp add: keeps_def)

lemma place_keptI [keep_rules]:
  "place_kept (\<lambda>x. x\<lparr>o_setback := t\<rparr>)" "place_kept (\<lambda>x. x\<lparr>o_priority := k\<rparr>)" "place_kept (\<lambda>x. x\<lparr>o_suspended := b\<rparr>)"
  by (simp_all add: place_kept_def place_of_def)

lemma keeps_set_setback [keep_rules]: "keeps (queues_ok_at srt p) (set_setback i t b)"
  unfolding set_setback_def by (auto intro!: keep_rules keeps_quiet quiet simp: place_of_def)

lemma keeps_clear_setback [keep_rules]: "keeps (queues_ok_at srt p) (clear_setback i b)"
  unfolding clear_setback_def by (intro keep_rules)

lemma keeps_set_at [keep_rules]: "keeps (queues_ok_at srt p) (set_at i t)"
  unfolding set_at_def assert_no_task_def by (intro keep_rules)

lemma keeps_set_priority [keep_rules]: "keeps (queues_ok_at srt p) (set_priority i k)"
  unfolding set_priority_def by (auto intro!: keeps_quiet keep_rules quiet simp: place_of_def)

lemma keeps_blacklist [keep_rules]:
  "keeps (queues_ok_at srt p) (set_on_blacklist i)" "keeps (queues_ok_at srt p) (remove_from_blacklist i)"
  unfolding set_on_blacklist_def remove_from_blacklist_def add_order_to_blacklist_def remove_order_from_blacklist_def
  by (auto intro!: keep_rules keeps_quiet quiet simp: place_of_def)

lemma same_queues_tell [quiet]: "same_queues w (tell_job_of_node n w)"
  by (auto simp: tell_job_of_node_def intro: quiet split: option.splits)

lemma keeps_wake [keep_rules]: "keeps (queues_ok_at srt p) (wake_node n)"
  unfolding wake_node_def wake_queue_def by (auto intro!: keep_rules keeps_quiet quiet)

lemma keeps_wake_orders [keep_rules]: "keeps (queues_ok_at srt p) (chain_wake_orders c)"
  unfolding chain_wake_orders_def by (auto intro!: keep_rules keeps_quiet quiet)

lemma keeps_chain_state [keep_rules]:
  "keeps (queues_ok_at srt p) (chain_set_state c s)" "keeps (queues_ok_at srt p) (chain_set_stopped c b)"
  unfolding chain_set_state_def chain_set_stopped_def by (auto intro!: keep_rules keeps_quiet quiet)

lemma keeps_registering [keep_rules]:
  "keeps (queues_ok_at srt p) (register_order c i)" "keeps (queues_ok_at srt p) (unregister_order c i)"
  unfolding register_order_def unregister_order_def by (auto intro!: keep_rules keeps_quiet quiet)

lemma keeps_setback [keep_rules]: "keeps (queues_ok_at srt p) (setback i)"
proof -
  have "keeps (queues_ok_at srt p) (steps
      [apply_s (set_order i (\<lambda>x. x\<lparr>o_setback_count := count, o_setback_called := True, o_setback := until\<rparr>)),
       when_s (\<lambda>_. allowed) (apply_s (signal (Order_event ''orderSetBack'' i))),
       in_own_queue reinsert_order i])" for count until allowed
    unfolding keeps_def
  proof (intro hoare_steps_Cons)
    show "hoare (queues_ok_at srt p) (apply_s (set_order i
        (\<lambda>x. x\<lparr>o_setback_count := count, o_setback_called := True, o_setback := until\<rparr>)))
      (\<lambda>_. queues_ok_but_at srt i p) (queues_ok_at srt p)"
      by (rule hoare_change) (simp add: place_kept_def place_of_def)
    show "hoare (queues_ok_but_at srt i p) (when_s (\<lambda>_. allowed) (apply_s (signal (Order_event ''orderSetBack'' i))))
      (\<lambda>_. queues_ok_but_at srt i p) (queues_ok_at srt p)"
      using same_queues_ok [OF same_queues_signal]
      by (intro hoare_when_s hoare_apply_s) (auto simp: queues_ok_but_at_def)
    show "hoare (queues_ok_but_at srt i p) (in_own_queue reinsert_order i) (\<lambda>_. queues_ok_at srt p) (queues_ok_at srt p)"
      by (rule hoare_reinsert)
  qed (simp add: hoare_steps_Nil)
  then show ?thesis unfolding setback_def
    by (intro keeps_bind_s keeps_read_s) (auto split: prod.splits intro!: keeps_bind_s keeps_ret keeps_read_s)
qed

text \<open>Suspending: \<open>Q\<close> is what is to be kept, and it may be lost only when a blacklisted order is released.\<close>

lemma hoare_quiet_but:
  assumes "\<And>w. same_queues w (f w)"
  shows "hoare (queues_ok_but_at srt i p) (apply_s f) (\<lambda>_. queues_ok_but_at srt i p) R"
  using same_queues_ok [OF assms] by (intro hoare_apply_s) (simp add: queues_ok_but_at_def)

definition distributed_starts :: "nat \<Rightarrow> (order_world, unit) operation" where
  "distributed_starts i =
     when_s (\<lambda>w. o_is_distributed (orders w i) \<and> \<not> o_suspended (orders w i))
       (apply_s (set_order i (\<lambda>x. x\<lparr>o_setback := Time 0\<rparr>)))"

text \<open>
  The setback of a distributed order that is resumed is cleared after the order has been sorted in: the processing
  order may be lost then, the places are kept.
\<close>

lemma distributed_starts_agree: "keeps (queues_ok False) (distributed_starts i)"
  unfolding distributed_starts_def
  using queues_ok_set_order [of False i _ "\<lambda>x. x\<lparr>o_setback := Time 0\<rparr>"]
  by (intro keeps_when_s keeps_apply_s) (simp add: queues_ok_def queues_ok_but_def place_of_def)

lemma distributed_starts_ok:
  assumes "\<not> b \<longrightarrow> \<not> (fst (p i) \<and> snd (snd (snd (p i))))"
  shows "hoare (\<lambda>w. queues_ok_at srt p w \<and> (b \<longrightarrow> o_suspended (orders w i))) (distributed_starts i)
    (\<lambda>_. queues_ok_at srt p) (queues_ok_at srt p)"
  unfolding distributed_starts_def
proof (rule hoare_when_s [OF hoare_apply_s])
  fix w assume w: "(queues_ok_at srt p w \<and> (b \<longrightarrow> o_suspended (orders w i))) \<and> o_is_distributed (orders w i) \<and> \<not> o_suspended (orders w i)"
  let ?w = "set_order i (\<lambda>x. x\<lparr>o_setback := Time 0\<rparr>) w"
  have ok: "queues_ok_but srt i ?w" "place ?w = p"
    using queues_ok_set_order place_set_order queues_ok_but_weaken w by (simp_all add: queues_ok_at_def place_of_def)
  moreover have "\<not> is_queued i ?w"
    using assms w by (auto simp: queues_ok_at_def place_def place_of_def is_queued_def world_simps)
  ultimately show "queues_ok_at srt p ?w" using not_queued_ok [of srt i ?w] by (simp add: queues_ok_at_def)
qed simp

lemma hoare_conj:
  "hoare P m (\<lambda>_. Q) R \<Longrightarrow> keeps I m \<Longrightarrow> hoare (\<lambda>w. P w \<and> I w) m (\<lambda>_ w. Q w \<and> I w) R"
  unfolding keeps_def hoare_def by blast

lemma keeps_suspension: "keeps (\<lambda>w. b \<longrightarrow> o_suspended (orders w i)) (when_s (is_queued i) (in_own_queue reinsert_order i))"
  by (intro keepsI) (auto simp: when_s_def in_own_queue_def bind_s_def try_s_def reinsert_order_def remove_order_def throw_def ret_def
      add_order_def handle_changed_processable_state_def world_simps split: sum.splits option.splits if_splits)

text \<open>The order is out of order; \<open>listed\<close> says whether it may be on the blacklist.\<close>

definition released_at :: "bool \<Rightarrow> bool \<Rightarrow> nat \<Rightarrow> (nat \<Rightarrow> order_place) \<Rightarrow> order_world \<Rightarrow> bool" where
  "released_at listed srt i p w = (queues_ok_but_at srt i p w \<and> (o_is_on_blacklist (orders w i) \<longrightarrow> listed))"

lemma hoare_set_suspended:
  assumes at: "\<And>w. queues_ok_at srt p w \<Longrightarrow> Q w"
    and starts: "hoare (\<lambda>w. Q w \<and> (b \<longrightarrow> o_suspended (orders w i))) (distributed_starts i) (\<lambda>_. Q) Q"
    and kept: "keeps Q (apply_s (handle_changed_processable_state i))"
    and released: "hoare (\<lambda>w. released_at listed srt i p w \<and> o_is_on_blacklist (orders w i) \<and> \<not> b)
      (remove_from_job_chain i Jc_remove_from_job_chain_stack) (\<lambda>_. Q) Q"
  shows "hoare (\<lambda>w. queues_ok_at srt p w \<and> (\<not> b \<and> o_is_on_blacklist (orders w i) \<longrightarrow> listed)) (set_suspended i b) (\<lambda>_. Q) Q"
proof -
  let ?at = "\<lambda>w. released_at (b \<or> listed) srt i p w \<and> (b \<longrightarrow> o_suspended (orders w i))"
  let ?Q = "\<lambda>w. Q w \<and> (b \<longrightarrow> o_suspended (orders w i))"
  have reinsert: "hoare (\<lambda>w. ?at w \<and> \<not> (o_is_on_blacklist (orders w i) \<and> \<not> b)) (when_s (is_queued i) (in_own_queue reinsert_order i))
      (\<lambda>_. ?Q) Q"
    by (rule hoare_strengthen [OF hoare_weaken [OF hoare_conj [OF hoare_reinsert_queued [of srt i p] keeps_suspension [of b]]]])
      (auto simp: at released_at_def)
  have gone: "hoare (\<lambda>w. ?at w \<and> o_is_on_blacklist (orders w i) \<and> \<not> b) (remove_from_job_chain i Jc_remove_from_job_chain_stack)
      (\<lambda>_. ?Q) Q"
    by (cases b, simp add: hoare_def) (rule hoare_strengthen [OF hoare_weaken [OF released]], auto)
  have inner: "hoare ?at
      (if_s (\<lambda>w. o_is_on_blacklist (orders w i) \<and> \<not> b) (remove_from_job_chain i Jc_remove_from_job_chain_stack)
        (when_s (is_queued i) (in_own_queue reinsert_order i))) (\<lambda>_. ?Q) Q"
    by (rule hoare_if_s [OF gone reinsert])
  have told: "hoare (\<lambda>w. ?at w \<and> o_job_chain (orders w i) \<noteq> None) (apply_s (signal s)) (\<lambda>_. ?at) Q" for s
    using same_queues_ok [OF same_queues_signal]
    by (intro hoare_apply_s) (simp add: released_at_def queues_ok_but_at_def world_simps)
  have chain: "hoare ?at (when_s (\<lambda>w. o_job_chain (orders w i) \<noteq> None)
      (steps [apply_s (signal (Order_event (if b then ''orderSuspended'' else ''orderResumed'') i)),
        if_s (\<lambda>w. o_is_on_blacklist (orders w i) \<and> \<not> b) (remove_from_job_chain i Jc_remove_from_job_chain_stack)
          (when_s (is_queued i) (in_own_queue reinsert_order i))])) (\<lambda>_. ?Q) Q"
  proof (rule hoare_when_s [OF hoare_steps_Cons [OF told hoare_steps_Cons [OF inner hoare_steps_Nil]]])
    show "?Q w" if "?at w" "\<not> o_job_chain (orders w i) \<noteq> None" for w
      using that not_queued_ok [of srt i w] members_queued [of w i] at
      by (auto simp: released_at_def queues_ok_but_at_def queues_ok_at_def queues_ok_but_def)
  qed
  have change: "hoare (\<lambda>w. queues_ok_at srt p w \<and> (\<not> b \<and> o_is_on_blacklist (orders w i) \<longrightarrow> listed))
      (apply_s (set_order i (\<lambda>x. x\<lparr>o_suspended := b\<rparr>))) (\<lambda>_. ?at) Q"
    using queues_ok_set_order place_set_order queues_ok_but_weaken
    by (intro hoare_apply_s) (auto simp: released_at_def queues_ok_at_def queues_ok_but_at_def place_of_def world_simps)
  have "hoare (\<lambda>w. queues_ok_at srt p w \<and> (\<not> b \<and> o_is_on_blacklist (orders w i) \<longrightarrow> listed)) (steps
         [apply_s (set_order i (\<lambda>x. x\<lparr>o_suspended := b\<rparr>)),
          when_s (\<lambda>w. o_job_chain (orders w i) \<noteq> None)
            (steps
              [apply_s (signal (Order_event (if b then ''orderSuspended'' else ''orderResumed'') i)),
               if_s (\<lambda>w. o_is_on_blacklist (orders w i) \<and> \<not> b)
                 (remove_from_job_chain i Jc_remove_from_job_chain_stack)
                 (when_s (is_queued i) (in_own_queue reinsert_order i))]),
          distributed_starts i,
          apply_s (handle_changed_processable_state i)]) (\<lambda>_. Q) Q"
    by (rule hoare_steps_Cons [OF change hoare_steps_Cons [OF chain]])
      (auto intro!: hoare_steps_Cons [OF starts] hoare_steps_Cons [OF keeps_hoare] hoare_steps_Nil kept)
  then show ?thesis unfolding set_suspended_def distributed_starts_def
    by (intro hoare_when_s) (auto intro: at elim: hoare_weaken)
qed

lemma keeps_set_suspended_True [keep_rules]: "keeps (queues_ok_at srt p) (set_suspended i True)"
  unfolding keeps_def
  by (rule hoare_weaken [OF hoare_set_suspended [where listed = True]])
    (use distributed_starts_ok [of True p i srt] in \<open>auto intro: keeps_quiet quiet hoareI\<close>)

end
