(* ===== verification/Order_Steps.thy ===== *)
theory Order_Steps
  imports Order_Invariant
begin

text \<open>
  The invariant of the order queues for the operations that move orders: entering and leaving a job chain,
  going to another node, the end states, the end of a job step, and fetching.
\<close>

section \<open>Orders that are in no queue\<close>

definition queues_ok_out :: "bool \<Rightarrow> nat \<Rightarrow> order_world \<Rightarrow> bool" where
  "queues_ok_out srt i w = (queues_ok srt w \<and> \<not> is_queued i w)"

lemma out_set_order:
  assumes "queues_ok_out srt i w" "\<And>x. o_is_in_order_queue (f x) = o_is_in_order_queue x"
  shows "queues_ok_out srt i (set_order i f w)"
proof -
  have agree: "members_agree w" and out: "\<not> o_is_in_order_queue (orders w i)"
    using assms(1) by (simp_all add: queues_ok_out_def queues_ok_def is_queued_def)
  have absent: "i \<notin> set (n_queue (nodes w n))" for n
    using agree out by (simp add: members_agree_def)
  have "members_agree (set_order i f w)"
    using agree out assms(2) absent by (auto simp: members_agree_def world_simps)
  moreover have "queue_sorted (orders (set_order i f w)) now (n_queue (nodes w n)) = queue_sorted (orders w) now (n_queue (nodes w n))"
    for n now by (rule queue_sorted_cong) (use absent in \<open>auto simp: world_simps\<close>)
  then have "srt \<longrightarrow> sorted_but {} (set_order i f w)"
    using assms(1) by (simp add: queues_ok_out_def queues_ok_def sorted_but_def world_simps)
  ultimately show ?thesis using out assms(2) by (simp add: queues_ok_out_def queues_ok_def is_queued_def world_simps)
qed

lemma keeps_out_order [keep_rules]:
  "(\<And>w x. o_is_in_order_queue (f w x) = o_is_in_order_queue x) \<Longrightarrow>
    keeps (queues_ok_out srt i) (apply_s (\<lambda>w. set_order i (f w) w))"
  by (rule keeps_apply_s) (rule out_set_order)

lemma place_queued: "place w' = place w \<Longrightarrow> is_queued i w' = is_queued i w"
  by (simp add: place_eq_iff is_queued_def)

lemma keeps_out: "(\<And>p. keeps (queues_ok_at srt p) m) \<Longrightarrow> keeps (queues_ok_out srt i) m"
  by (intro keepsI) (metis keepsD place_queued queues_ok_at_def queues_ok_out_def)

lemma out_ok: "queues_ok_out srt i w \<Longrightarrow> queues_ok srt w"
  by (simp add: queues_ok_out_def)

lemma keeps_out_quiet [keep_rules]: "(\<And>w. same_queues w (f w)) \<Longrightarrow> keeps (queues_ok_out srt i) (apply_s f)"
  by (rule keeps_out) (rule keeps_quiet)

lemma no_node_out: "queues_ok srt w \<Longrightarrow> o_job_chain_node (orders w i) = None \<or> o_job_chain (orders w i) = None
    \<Longrightarrow> queues_ok_out srt i w"
  using members_queued [of w i] by (auto simp: queues_ok_out_def queues_ok_def)

section \<open>Leaving\<close>

lemma hoare_remove: "hoare (queues_ok srt) (in_own_queue remove_order i) (\<lambda>_. queues_ok_out srt i) (queues_ok srt)"
proof (rule hoareI)
  fix w r w' assume w: "queues_ok srt w" "in_own_queue remove_order i w = (Inr r, w')"
  then obtain n where n: "order_queue w i = Inr n" "remove_order n i w = (Inr r, w')"
    by (auto simp: in_own_queue_def bind_s_def try_s_def split: sum.splits)
  then have "i \<in> set (n_queue (nodes w n))" by (auto simp: remove_order_def throw_def split: if_splits)
  then show "queues_ok_out srt i w'" using remove_order_ok [OF queues_ok_but_weaken [OF w(1)]] n
    by (fastforce simp: queues_ok_out_def)
next
  fix w e w' assume w: "queues_ok srt w" "in_own_queue remove_order i w = (Inl e, w')"
  then have "w' = w"
    by (auto simp: in_own_queue_def bind_s_def try_s_def remove_order_def throw_def ret_def split: sum.splits if_splits)
  then show "queues_ok srt w'" using w by simp
qed

lemma hoare_leave_queue: "hoare (queues_ok srt) (leave_queue i) (\<lambda>_. queues_ok_out srt i) (queues_ok srt)"
  unfolding leave_queue_def
proof (intro hoare_steps_Cons hoare_steps_Nil)
  show "hoare (queues_ok srt) (when_s (is_queued i) (in_own_queue remove_order i)) (\<lambda>_. queues_ok_out srt i) (queues_ok srt)"
    by (intro hoare_when_s hoare_weaken [OF hoare_remove]) (auto simp: queues_ok_out_def)
  show "hoare (queues_ok_out srt i) (apply_s (set_order i (\<lambda>x. x\<lparr>o_job_chain_node := None\<rparr>)))
      (\<lambda>_. queues_ok_out srt i) (queues_ok srt)"
    by (intro hoare_apply_s out_set_order) auto
qed

lemma keeps_places_out [keep_rules]:
  "keeps (queues_ok_out srt j) (remove_from_blacklist i)" "keeps (queues_ok_out srt j) (chain_wake_orders c)"
  "keeps (queues_ok_out srt j) (unregister_order c i)" "keeps (queues_ok_out srt j) (set_on_blacklist i)"
  by (rule keeps_out, rule keep_rules)+

text \<open>Once an order is in no queue, the rest of an operation may do with it what it likes.\<close>

lemma hoare_out: "keeps (queues_ok_out srt i) m \<Longrightarrow> hoare (queues_ok_out srt i) m (\<lambda>_. queues_ok_out srt i) (queues_ok srt)"
  unfolding keeps_def by (erule hoare_strengthen) (auto simp: out_ok)

lemma hoare_remove_from_chain: "hoare (queues_ok srt) (chain_remove_order c i) (\<lambda>_. queues_ok_out srt i) (queues_ok srt)"
proof -
  have kept: "keeps (queues_ok srt) (assert_s h g)" "keeps (queues_ok srt) (remove_from_blacklist i)" for h g
    by (auto intro: keep_rules keeps_places)
  have left: "hoare (queues_ok srt) (when_s (\<lambda>w. o_job_chain_node (orders w i) \<noteq> None) (leave_queue i))
      (\<lambda>_. queues_ok_out srt i) (queues_ok srt)"
    by (intro hoare_when_s hoare_weaken [OF hoare_leave_queue]) (auto intro: no_node_out)
  have rest: "hoare (queues_ok_out srt i) (steps
       [apply_s (set_order i (\<lambda>x. x\<lparr>o_job_chain := None, o_job_chain_path := []\<rparr>)),
        unregister_order c i,
        when_s (\<lambda>w. o_task (orders w i) \<noteq> None)
          (apply_s (\<lambda>w. set_order i (\<lambda>x. x\<lparr>o_removed_from_job_chain_path := c_path (chains w c), o_moved := True\<rparr>) w)),
        bind_s (try_s (\<lambda>w. untouched_is_allowed w c)) (\<lambda>u. when_s (\<lambda>_. u) (chain_wake_orders c)),
        apply_s (signal (Check_chain c))]) (\<lambda>_. queues_ok_out srt i) (queues_ok srt)"
    by (rule hoare_out) (intro keep_rules; auto intro: quiet)
  show ?thesis unfolding chain_remove_order_def
    by (intro hoare_steps_Cons [OF keeps_hoare [OF kept(1)]] hoare_steps_Cons [OF left rest]
        hoare_steps_Cons [OF keeps_hoare [OF keeps_when_s [OF kept(2)]]])
qed

lemma keeps_ok_quiet [keep_rules]: "(\<And>w. same_queues w (f w)) \<Longrightarrow> keeps (queues_ok srt) (apply_s f)"
  by (rule keeps_quiet)

lemma keeps_ok_places [keep_rules]:
  "keeps (queues_ok srt) (set_setback i t b)" "keeps (queues_ok srt) (clear_setback i b)"
  "keeps (queues_ok srt) (set_at i t)" "keeps (queues_ok srt) (set_priority i k)" "keeps (queues_ok srt) (setback i)"
  "keeps (queues_ok srt) (set_on_blacklist i)" "keeps (queues_ok srt) (remove_from_blacklist i)"
  "keeps (queues_ok srt) (chain_set_state c s)" "keeps (queues_ok srt) (chain_set_stopped c b)"
  "keeps (queues_ok srt) (chain_wake_orders c)"
  by (rule keeps_places, rule keep_rules)+

text \<open>An operation after which the order is in no queue keeps the invariant.\<close>

lemma hoare_keeps: "hoare (queues_ok srt) m (\<lambda>_. queues_ok_out srt i) (queues_ok srt) \<Longrightarrow> keeps (queues_ok srt) m"
  unfolding keeps_def by (erule hoare_strengthen) (auto simp: out_ok)

lemma hoare_leave_chain: "hoare (queues_ok srt) (leave_chain i) (\<lambda>_. queues_ok_out srt i) (queues_ok srt)"
  unfolding leave_chain_def
proof (rule hoare_bind_s)
  show "hoare (queues_ok srt) (read_s (\<lambda>w. o_job_chain (orders w i)))
      (\<lambda>chain w. queues_ok srt w \<and> o_job_chain (orders w i) = chain) (queues_ok srt)"
    by (intro hoareI) (auto simp: read_s_def)
  show "hoare (\<lambda>w. queues_ok srt w \<and> o_job_chain (orders w i) = chain)
      (case chain of None \<Rightarrow> ret () | Some c \<Rightarrow> chain_remove_order c i) (\<lambda>_. queues_ok_out srt i) (queues_ok srt)" for chain
    by (cases chain) (auto intro!: hoare_ret hoare_weaken [OF hoare_remove_from_chain] dest: no_node_out)
qed

lemma same_queues_release [quiet]: "same_queues w (release_replacement i w)"
proof (cases "o_replaced_by (orders w i)")
  case (Some r)
  have "same_queues (set_replacement_flag r False w) (set_order i (\<lambda>x. x\<lparr>o_replaced_by := None\<rparr>) (set_replacement_flag r False w))"
    by (rule quiet) (simp_all add: place_of_def)
  then show ?thesis using Some same_queues_trans [OF same_queues_replacement] by (simp add: release_replacement_def)
qed (simp add: release_replacement_def same_queues_refl)

lemma same_queues_field [quiet]:
  "same_queues w (set_order i (\<lambda>x. x\<lparr>o_task := t\<rparr>) w)" "same_queues w (set_order i (\<lambda>x. x\<lparr>o_moved := b\<rparr>) w)"
  "same_queues w (set_order i (\<lambda>x. x\<lparr>o_end_time := g x\<rparr>) w)" "same_queues w (set_order i (\<lambda>x. x\<lparr>o_is_touched := b\<rparr>) w)"
  "same_queues w (set_order i (\<lambda>x. x\<lparr>o_end_state_reached := b\<rparr>) w)"
  "same_queues w (set_order i (\<lambda>x. x\<lparr>o_setback_count := k\<rparr>) w)"
  "same_queues w (set_order i (\<lambda>x. x\<lparr>o_is_success_state := b\<rparr>) w)"
  "same_queues w (set_order i (\<lambda>x. x\<lparr>o_start_time := s, o_end_time := s\<rparr>) w)"
  by (rule quiet; simp add: place_of_def)+

lemma same_queues_stack [quiet]: "same_queues w (remove_from_job_chain_stack i w)"
  unfolding remove_from_job_chain_stack_def by (rule quiet) (simp_all add: place_of_def)

lemma hoare_close: "hoare (queues_ok srt) (order_close i) (\<lambda>_. queues_ok_out srt i) (queues_ok srt)"
  unfolding order_close_def
  by (intro hoare_steps_Cons [OF hoare_leave_chain] hoare_steps_Cons [OF keeps_hoare] hoare_out)
    (auto intro!: keep_rules quiet)

lemma hoare_when_out:
  assumes "hoare (queues_ok_out srt i) m (\<lambda>_. queues_ok_out srt i) (queues_ok srt)"
  shows "hoare (queues_ok_out srt i) (when_s c m) (\<lambda>_. queues_ok_out srt i) (queues_ok srt)"
  by (intro hoare_when_s hoare_weaken [OF assms]) auto

lemma hoare_remove_from_job_chain:
  "hoare (queues_ok srt) (remove_from_job_chain i stack) (\<lambda>_. queues_ok_out srt i) (queues_ok srt)"
proof -
  have close: "hoare (queues_ok_out srt i) (order_close i) (\<lambda>_. queues_ok_out srt i) (queues_ok srt)"
    by (rule hoare_weaken [OF hoare_close]) (rule out_ok)
  have stack: "hoare (queues_ok_out srt i) (when_s (\<lambda>_. stack = Jc_remove_from_job_chain_stack)
          (steps [apply_s (remove_from_job_chain_stack i),
                  when_s (\<lambda>w. o_task (orders w i) = None) (order_close i)])) (\<lambda>_. queues_ok_out srt i) (queues_ok srt)"
    by (rule hoare_when_out, rule hoare_steps_Cons [OF hoare_out], rule keeps_out_quiet, rule quiet)
      (rule hoare_steps_Cons [OF hoare_when_out [OF close]], simp add: hoare_steps_Nil)
  show ?thesis unfolding remove_from_job_chain_def
    by ((rule hoare_steps_Cons [OF keeps_hoare], force intro: keep_rules quiet)+,
        rule hoare_steps_Cons [OF hoare_leave_chain], (rule hoare_steps_Cons [OF hoare_out], force intro: keep_rules quiet)+)
      (rule hoare_steps_Cons [OF stack], simp add: hoare_steps_Nil)
qed

lemma keeps_leaving [keep_rules]:
  "keeps (queues_ok srt) (leave_chain i)" "keeps (queues_ok srt) (order_close i)"
  "keeps (queues_ok srt) (remove_from_job_chain i stack)" "keeps (queues_ok srt) (in_own_queue remove_order i)"
  by (rule hoare_keeps, rule hoare_leave_chain hoare_close hoare_remove_from_job_chain hoare_remove)+

section \<open>Suspending and resuming\<close>

lemma hoare_places:
  assumes "\<And>p. hoare (\<lambda>w. queues_ok_at srt p w \<and> c w) m Q R"
  shows "hoare (\<lambda>w. queues_ok srt w \<and> c w) m Q R"
  using assms by (intro hoareI) (auto simp: queues_ok_at_def dest: hoareD)

text \<open>
  Resuming an order of the blacklist takes it out of its job chain, which may throw half way; and resuming a distributed
  order in a queue may leave it out of order there. Otherwise the order of the queue is kept, too.
\<close>

definition resumed_in_order :: "nat \<Rightarrow> order_world \<Rightarrow> bool" where
  "resumed_in_order i w = (\<not> o_is_on_blacklist (orders w i) \<and> \<not> (is_queued i w \<and> o_is_distributed (orders w i)))"

lemma hoare_none: "(\<And>w. \<not> P w) \<Longrightarrow> hoare P m Q R"
  by (simp add: hoare_def)

lemma hoare_resume:
  "hoare (\<lambda>w. queues_ok srt w \<and> (srt \<and> \<not> b \<longrightarrow> resumed_in_order i w)) (set_suspended i b) (\<lambda>_. queues_ok srt) (queues_ok srt)"
proof (rule hoare_places)
  fix p
  have starts: "hoare (\<lambda>w. queues_ok False w \<and> (b \<longrightarrow> o_suspended (orders w i))) (distributed_starts i)
      (\<lambda>_. queues_ok False) (queues_ok False)"
    by (rule hoare_weaken [OF keeps_hoare [OF distributed_starts_agree]]) simp
  have released: "hoare (\<lambda>w. released_at True False i p w \<and> o_is_on_blacklist (orders w i) \<and> \<not> b)
      (remove_from_job_chain i Jc_remove_from_job_chain_stack) (\<lambda>_. queues_ok False) (queues_ok False)"
    by (rule hoare_weaken [OF keeps_hoare [OF keeps_leaving(3)]])
      (auto simp: released_at_def queues_ok_but_at_def queues_ok_but_def queues_ok_def)
  have agree: "hoare (\<lambda>w. queues_ok_at False p w \<and> (\<not> b \<and> o_is_on_blacklist (orders w i) \<longrightarrow> True)) (set_suspended i b)
      (\<lambda>_. queues_ok False) (queues_ok False)"
    by (rule hoare_set_suspended [OF _ starts _ released]) (auto intro: keeps_quiet quiet simp: queues_ok_at_def)
  have sorted: "hoare (\<lambda>w. queues_ok_at True p w \<and> (\<not> b \<and> o_is_on_blacklist (orders w i) \<longrightarrow> False)) (set_suspended i b)
      (\<lambda>_. queues_ok_at True p) (queues_ok_at True p)" if "\<not> b \<longrightarrow> \<not> (fst (p i) \<and> snd (snd (snd (p i))))"
    by (rule hoare_set_suspended [OF _ distributed_starts_ok [where p = p and b = b and i = i, OF that]])
      (auto intro: keeps_quiet quiet hoareI simp: released_at_def)
  show "hoare (\<lambda>w. queues_ok_at srt p w \<and> (srt \<and> \<not> b \<longrightarrow> resumed_in_order i w)) (set_suspended i b) (\<lambda>_. queues_ok srt) (queues_ok srt)"
  proof (cases srt)
    case False
    then show ?thesis using agree by simp
  next
    case True
    show ?thesis
    proof (cases "\<not> b \<longrightarrow> \<not> (fst (p i) \<and> snd (snd (snd (p i))))")
      case order: True
      show ?thesis using True
        by (simp, intro hoare_weaken [OF hoare_strengthen [OF sorted [OF order]]])
          (auto simp: queues_ok_at_def resumed_in_order_def)
    next
      case False
      then have "\<not> (queues_ok_at srt p w \<and> (srt \<and> \<not> b \<longrightarrow> resumed_in_order i w))" for w
        using True by (auto simp: queues_ok_at_def resumed_in_order_def place_def place_of_def is_queued_def)
      then show ?thesis by (rule hoare_none)
    qed
  qed
qed

lemma keeps_suspend [keep_rules]: "keeps (queues_ok srt) (set_suspended i True)"
  by (rule keeps_places) (rule keep_rules)

section \<open>Going to another node\<close>

abbreviation with_node :: "(nat \<Rightarrow> order_place) \<Rightarrow> nat \<Rightarrow> bool \<Rightarrow> nat option \<Rightarrow> nat \<Rightarrow> order_place" where
  "with_node p i queued node \<equiv> p(i := (queued, node, snd (snd (p i))))"

lemma hoare_leave_at:
  "hoare (queues_ok_at srt p) (leave_queue i) (\<lambda>_. queues_ok_at srt (with_node p i False None)) (queues_ok srt)"
proof (rule hoareI)
  fix w r w' assume w: "queues_ok_at srt p w" "leave_queue i w = (Inr r, w')"
  then have ok: "queues_ok srt w" and p: "place w = p" by (simp_all add: queues_ok_at_def)
  have out: "queues_ok srt w'" using hoareD(1) [OF hoare_leave_queue ok w(2)] by (rule out_ok)
  have "place w' = with_node p i False None"
  proof (cases "is_queued i w")
    case True
    obtain n where n: "order_queue w i = Inr n" "i \<in> set (n_queue (nodes w n))"
      using queue_member_type [of w i] True ok by (auto simp: queues_ok_def)
    obtain w1 where w1: "remove_order n i w = (Inr (), w1)"
      "orders w1 = (orders w)(i := (orders w i)\<lparr>o_is_in_order_queue := False\<rparr>)"
      using remove_order_ok [OF queues_ok_but_weaken [OF ok] n(2)] by blast
    have "in_own_queue remove_order i w = (Inr (), w1)"
      using n w1 by (simp add: in_own_queue_def bind_s_def try_s_def)
    then have "w' = set_order i (\<lambda>x. x\<lparr>o_job_chain_node := None\<rparr>) w1"
      using w(2) True by (simp add: leave_queue_def when_s_def apply_s_def)
    then show ?thesis unfolding p [symmetric] by (auto simp: w1(2) place_def place_of_def world_simps)
  next
    case False
    then have "w' = set_order i (\<lambda>x. x\<lparr>o_job_chain_node := None\<rparr>) w"
      using w(2) by (simp add: leave_queue_def when_s_def apply_s_def)
    then show ?thesis using False unfolding p [symmetric] by (auto simp: place_def place_of_def world_simps is_queued_def)
  qed
  with out show "queues_ok_at srt (with_node p i False None) w'" by (simp add: queues_ok_at_def)
qed (use hoareD(2) [OF hoare_leave_queue] in \<open>auto simp: queues_ok_at_def\<close>)

lemma hoare_set_node:
  "hoare (\<lambda>w. queues_ok_at srt p w \<and> (fst (p i) \<longrightarrow> fst (snd (p i)) = node)) (set_job_chain_node i node)
     (\<lambda>_. queues_ok_at srt (with_node p i (fst (p i)) node)) (queues_ok srt)"
proof -
  let ?p = "with_node p i (fst (p i)) node"
  have first: "hoare (\<lambda>w. queues_ok_at srt p w \<and> (fst (p i) \<longrightarrow> fst (snd (p i)) = node))
      (apply_s (set_order i (\<lambda>x. x\<lparr>o_job_chain_node := node\<rparr>))) (\<lambda>_. queues_ok_at srt ?p) (queues_ok srt)"
  proof (rule hoare_apply_s)
    fix w assume w: "queues_ok_at srt p w \<and> (fst (p i) \<longrightarrow> fst (snd (p i)) = node)"
    let ?w = "set_order i (\<lambda>x. x\<lparr>o_job_chain_node := node\<rparr>) w"
    have "queues_ok srt ?w"
    proof (cases "is_queued i w")
      case True
      then have "o_job_chain_node (orders w i) = node"
        using w by (auto simp: queues_ok_at_def place_def place_of_def is_queued_def)
      then have "?w = w" by (auto simp: set_order_def fun_eq_iff)
      then show ?thesis using w by (simp add: queues_ok_at_def)
    next
      case False
      then have "queues_ok_out srt i w" using w by (simp add: queues_ok_at_def queues_ok_out_def)
      then show ?thesis by (intro out_ok [of srt i] out_set_order) auto
    qed
    then show "queues_ok_at srt ?p ?w"
      using w by (auto simp: queues_ok_at_def place_def place_of_def world_simps)
  qed
  have "keeps (queues_ok_at srt ?p) (steps
       [(case node of
           None \<Rightarrow> ret ()
         | Some n \<Rightarrow> steps
             [when_s (\<lambda>w. n_is_suspending_order (nodes w n)) (set_suspended i True),
              when_s (\<lambda>w. \<not> duration_is_zero (n_delay (nodes w n)) \<and> is_zero (o_setback (orders w i)))
                (bind_s (read_s (\<lambda>w. time_plus (clock w) (n_delay (nodes w n)))) (set_at_after_delay i))]),
        apply_s (\<lambda>w. set_state2 i (case node of None \<Rightarrow> Empty_state | Some n \<Rightarrow> n_order_state (nodes w n)) w)])"
    unfolding set_at_after_delay_def by (auto intro!: keep_rules keeps_quiet quiet)
  then show ?thesis unfolding set_job_chain_node_def
    by (intro hoare_steps_Cons [OF first] hoare_strengthen [OF keeps_hoare]) (auto simp: queues_ok_at_def)
qed

lemma hoare_enter:
  "hoare (\<lambda>w. queues_ok_at srt p w \<and> \<not> fst (p i) \<and> fst (snd (p i)) = node \<and> fst (snd (snd (p i))) \<noteq> None)
     (when_s (\<lambda>w. \<not> o_is_distributed (orders w i)) (enter_queue i node)) (\<lambda>_. queues_ok srt) (queues_ok srt)"
proof (cases node)
  case (Some n)
  have "queues_ok srt (add_order n i w)"
    if "queues_ok srt w" "\<not> o_is_in_order_queue (orders w i)" "o_job_chain_node (orders w i) = Some n"
      "o_job_chain (orders w i) \<noteq> None" "is_type (n_type (nodes w n)) N_order_queue" for w
    using add_order_ok(1) [OF that(1) _ that(3-5)] that(2) by (simp add: is_queued_def)
  then show ?thesis using Some
    by (intro hoareI) (auto simp: enter_queue_def when_s_def apply_s_def queues_ok_at_def place_def place_of_def split: if_splits)
qed (auto simp: enter_queue_def ret_def when_s_def queues_ok_at_def intro!: hoareI split: if_splits)

lemma place_cases: "place w = p \<Longrightarrow> fst (p i) = o_is_in_order_queue (orders w i)
    \<and> fst (snd (p i)) = o_job_chain_node (orders w i) \<and> fst (snd (snd (p i))) = o_job_chain (orders w i)"
  by (auto simp: place_def place_of_def)

text \<open>The order is in no queue, and still in its job chain.\<close>

definition on_the_way :: "bool \<Rightarrow> nat \<Rightarrow> order_world \<Rightarrow> bool" where
  "on_the_way srt i w = (\<exists>q. queues_ok_at srt q w \<and> \<not> fst (q i) \<and> fst (snd (snd (q i))) \<noteq> None)"

definition arrived :: "bool \<Rightarrow> nat \<Rightarrow> nat option \<Rightarrow> order_world \<Rightarrow> bool" where
  "arrived srt i node w =
     (\<exists>q. queues_ok_at srt q w \<and> \<not> fst (q i) \<and> fst (snd (q i)) = node \<and> fst (snd (snd (q i))) \<noteq> None)"

text \<open>The steps of \<open>move_to_node\<close>, for an order whose node is known.\<close>

definition walk_to_node :: "bool \<Rightarrow> nat \<Rightarrow> nat option \<Rightarrow> (order_world, unit) operation" where
  "walk_to_node same i node =
     steps
       [when_s (\<lambda>w. o_task (orders w i) \<noteq> None) (apply_s (set_order i (\<lambda>x. x\<lparr>o_moved := True\<rparr>))),
        when_s (\<lambda>w. \<not> same \<and> o_job_chain_node (orders w i) \<noteq> None \<and> is_queued i w) (leave_queue i),
        set_job_chain_node i node,
        when_s (\<lambda>w. \<not> same \<and> \<not> o_is_distributed (orders w i)) (enter_queue i node)]"

lemma hoare_moved:
  "hoare (queues_ok_at srt p) (when_s (\<lambda>w. o_task (orders w i) \<noteq> None) (apply_s (set_order i (\<lambda>x. x\<lparr>o_moved := True\<rparr>))))
     (\<lambda>_. queues_ok_at srt p) (queues_ok srt)"
  by (rule hoare_strengthen [OF keeps_hoare]) (auto intro!: keeps_when_s keeps_quiet quiet simp: queues_ok_at_def)

lemma hoare_walk_same:
  assumes "fst (snd (p i)) = node"
  shows "hoare (queues_ok_at srt p) (walk_to_node True i node) (\<lambda>_. queues_ok srt) (queues_ok srt)"
  unfolding walk_to_node_def using assms
  by (intro hoare_steps_Cons [OF hoare_moved] hoare_steps_Cons [OF hoare_when_s [where Q = "\<lambda>_. queues_ok_at srt p"]]
      hoare_steps_Cons [OF hoare_weaken [OF hoare_set_node [of srt p i node]]] hoare_steps_Cons [OF hoare_when_s] hoare_steps_Nil)
    (auto intro: hoareI simp: queues_ok_at_def)

lemma hoare_depart:
  assumes "fst (snd (snd (p i))) \<noteq> None"
  shows "hoare (queues_ok_at srt p) (when_s (\<lambda>w. \<not> False \<and> o_job_chain_node (orders w i) \<noteq> None \<and> is_queued i w) (leave_queue i))
    (\<lambda>_. on_the_way srt i) (queues_ok srt)"
proof (rule hoare_when_s)
  show "hoare (\<lambda>w. queues_ok_at srt p w \<and> (\<not> False \<and> o_job_chain_node (orders w i) \<noteq> None \<and> is_queued i w)) (leave_queue i)
      (\<lambda>_. on_the_way srt i) (queues_ok srt)"
    by (rule hoare_weaken [OF hoare_strengthen [OF hoare_leave_at]])
      (use assms in \<open>auto simp: on_the_way_def intro!: exI [of _ "with_node p i False None"]\<close>)
  show "on_the_way srt i w"
    if "queues_ok_at srt p w" "\<not> (\<not> False \<and> o_job_chain_node (orders w i) \<noteq> None \<and> is_queued i w)" for w
    using that assms members_queued [of w i] place_cases [of w p i] unfolding on_the_way_def
    by (intro exI [of _ p]) (auto simp: queues_ok_at_def queues_ok_def is_queued_def)
qed

lemma hoare_arrive: "hoare (on_the_way srt i) (set_job_chain_node i node) (\<lambda>_. arrived srt i node) (queues_ok srt)"
proof (rule hoareI)
  fix w r w' assume "on_the_way srt i w" and run: "set_job_chain_node i node w = (Inr r, w')"
  then obtain q where "queues_ok_at srt q w" "\<not> fst (q i)" "fst (snd (snd (q i))) \<noteq> None"
    unfolding on_the_way_def by blast
  then show "arrived srt i node w'"
    using hoareD(1) [OF hoare_set_node _ run, of srt q] unfolding arrived_def
    by (intro exI [of _ "with_node q i (fst (q i)) node"]) auto
qed (use hoareD(2) [OF hoare_set_node] in \<open>unfold on_the_way_def, blast\<close>)

lemma hoare_walk_other:
  assumes "fst (snd (snd (p i))) \<noteq> None"
  shows "hoare (queues_ok_at srt p) (walk_to_node False i node) (\<lambda>_. queues_ok srt) (queues_ok srt)"
proof -
  have "hoare (arrived srt i node) (when_s (\<lambda>w. \<not> False \<and> \<not> o_is_distributed (orders w i)) (enter_queue i node))
      (\<lambda>_. queues_ok srt) (queues_ok srt)"
    using hoareD [OF hoare_enter] unfolding arrived_def by (intro hoareI) (simp; blast)+
  then show ?thesis unfolding walk_to_node_def
    by (intro hoare_steps_Cons [OF hoare_moved] hoare_steps_Cons [OF hoare_depart] hoare_steps_Cons [OF hoare_arrive]
        hoare_steps_Cons [where P' = "queues_ok srt"] hoare_steps_Nil assms)
qed

lemma keeps_move [keep_rules]: "keeps (queues_ok srt) (move_to_node i node)"
proof (rule keepsI)
  fix w assume w: "queues_ok srt w"
  show "queues_ok srt (snd (move_to_node i node w))"
  proof (cases "o_job_chain (orders w i)")
    case None
    then show ?thesis using w by (simp add: move_to_node_def bind_s_def when_s_def throw_def)
  next
    case (Some c)
    let ?same = "node = o_job_chain_node (orders w i)"
    have run: "move_to_node i node w = walk_to_node ?same i node w"
      using Some by (simp add: move_to_node_def walk_to_node_def bind_s_def read_s_def when_s_def)
    have "hoare (queues_ok_at srt (place w)) (walk_to_node ?same i node) (\<lambda>_. queues_ok srt) (queues_ok srt)"
      using hoare_walk_same [of "place w" i node srt] hoare_walk_other [of "place w" i srt node] Some place_cases [of w "place w" i]
      by (cases ?same) auto
    then show ?thesis using run hoare_snd w by (fastforce simp: queues_ok_at_def)
  qed
qed

section \<open>After a job step\<close>

text \<open>The hooks for nested job chains keep the invariant.\<close>

definition life_hooks_keep :: "(order_world \<Rightarrow> bool) \<Rightarrow> life_hooks \<Rightarrow> bool" where
  "life_hooks_keep I h = ((\<forall>i. keeps I (end_state_of_nested h i)) \<and> (\<forall>i t. keeps I (restart_nested h i t)))"

lemma keeps_set_state1 [keep_rules]: "(\<And>i. keeps (queues_ok srt) (handler i)) \<Longrightarrow> keeps (queues_ok srt) (set_state1 handler i s)"
  unfolding set_state1_def by (auto intro!: keep_rules quiet)

lemma keeps_set_state [keep_rules]: "(\<And>i. keeps (queues_ok srt) (handler i)) \<Longrightarrow> keeps (queues_ok srt) (set_state handler i s)"
  unfolding set_state_def by (auto intro!: keep_rules)

lemma keeps_set_state_at [keep_rules]: "(\<And>i. keeps (queues_ok srt) (handler i)) \<Longrightarrow> keeps (queues_ok srt) (set_state_at handler i s t)"
  unfolding set_state_at_def by (auto intro!: keep_rules)

lemma keeps_logged [keep_rules]: "keeps I m \<Longrightarrow> keeps I (logged m)"
  by (intro keepsI) (auto simp: logged_def dest: keepsD split: prod.splits sum.splits xc.splits)

lemma keeps_finish [keep_rules]: "keeps (queues_ok srt) (finish_order h i)"
  unfolding finish_order_def by (auto intro!: keep_rules quiet)

lemma keeps_handle_end_state [keep_rules]:
  assumes "life_hooks_keep (queues_ok srt) h"
  shows "keeps (queues_ok srt) (handle_end_state h k i)"
proof (induction k arbitrary: i)
  case (Suc k)
  then have repeated: "keeps (queues_ok srt) (repeat_order (handle_end_state h k) h i t)" for i t
    using assms unfolding repeat_order_def life_hooks_keep_def by (auto intro!: keep_rules quiet)
  have "keeps (queues_ok srt) (is_real_end h i)" for i
    using assms unfolding is_real_end_def life_hooks_keep_def by (auto intro!: keep_rules)
  then show ?case using repeated by (simp, intro keep_rules; auto intro!: keep_rules quiet)
qed (simp add: keep_rules)

lemma same_queues_tip [quiet]: "same_queues w (chain_tip_for_new_distributed_order c s t w)"
proof -
  have "same_queues w (set_next_announced n t w)" for n
  proof -
    have "same_queues w (set_node n (\<lambda>x. x\<lparr>n_announced := t\<rparr>) w)" by (rule quiet) simp_all
    then show ?thesis by (auto simp: set_next_announced_def Let_def intro: same_queues_trans [OF _ same_queues_signal] split: option.splits)
  qed
  then show ?thesis by (auto simp: chain_tip_for_new_distributed_order_def same_queues_refl split: option.splits)
qed

lemma keeps_postprocessing2 [keep_rules]:
  "life_hooks_keep (queues_ok srt) h \<Longrightarrow> keeps (queues_ok srt) (postprocessing2 h i)"
  unfolding postprocessing2_def tip_next_node_def by (auto intro!: keep_rules quiet simp: quiet split: option.splits)

lemma keeps_proceed [keep_rules]:
  "(\<And>i. keeps (queues_ok srt) (handler i)) \<Longrightarrow> keeps (queues_ok srt) (proceed handler i n t)"
  unfolding proceed_def by (auto intro!: keep_rules quiet)

lemma keeps_stay [keep_rules]: "(\<And>i. keeps (queues_ok srt) (handler i)) \<Longrightarrow> keeps (queues_ok srt) (stay handler i)"
  unfolding stay_def by (auto intro!: keep_rules)

text \<open>The setback that is cleared when the error state is forced does not move the order in its queue. This is
  why the processing order is kept only without it.\<close>

lemma keeps_agree_order: "(\<And>x. place_of (f x) = place_of x) \<Longrightarrow> keeps (queues_ok False) (apply_s (set_order i f))"
  using queues_ok_set_order [of False i _ f] by (intro keeps_apply_s) (simp add: queues_ok_def queues_ok_but_def)

definition forces_error_state :: "nat \<Rightarrow> transition \<Rightarrow> order_world \<Rightarrow> bool" where
  "forces_error_state i t w =
     (case job_node_of i w of Inl e \<Rightarrow> False | Inr node \<Rightarrow> fst (judge_step i node t w) = Inr True)"

lemma hoare_judge:
  "hoare (\<lambda>w. queues_ok srt w \<and> (srt \<longrightarrow> fst (judge_step i node t w) \<noteq> Inr True)) (judge_step i node t)
     (\<lambda>_. queues_ok srt) (queues_ok srt)"
proof -
  let ?pre = "steps [apply_s (set_order i (\<lambda>x. x\<lparr>o_is_success_state := (t = success)\<rparr>)), set_back_on_error i t node,
      when_s (\<lambda>w. \<not> o_setback_called (orders w i)) (apply_s (set_order i (\<lambda>x. x\<lparr>o_setback_count := 0\<rparr>)))]"
  let ?clear = "apply_s (set_order i (\<lambda>x. x\<lparr>o_is_success_state := False, o_setback := Time 0, o_setback_count := 0\<rparr>))"
  have "keeps (queues_ok srt) (set_back_on_error i t node)"
    unfolding set_back_on_error_def by (auto intro!: keep_rules split: option.splits)
  then have pre: "keeps (queues_ok srt) ?pre" by (auto intro!: keep_rules quiet)
  have clear: "keeps (queues_ok False) ?clear" by (rule keeps_agree_order) (simp add: place_of_def)
  show ?thesis
  proof (cases srt)
    case False
    then have "keeps (queues_ok srt) (judge_step i node t)"
      using pre clear unfolding judge_step_def by (auto intro!: keeps_bind_s keeps_read_s keeps_when_s keeps_ret)
    then show ?thesis using False keeps_hoare by simp
  next
    case True
    have "queues_ok srt (snd (judge_step i node t w))"
      if w: "queues_ok srt w" and no: "fst (judge_step i node t w) \<noteq> Inr True" for w
    proof (cases "?pre w")
      case (Pair r w1)
      then have ok: "queues_ok srt w1" using keepsD [OF pre w] by simp
      show ?thesis
      proof (cases r)
        case (Inr u)
        with Pair no ok show ?thesis
          by (cases "set_back_too_often i w1") (auto simp: judge_step_def bind_s_def try_s_def when_s_def apply_s_def ret_def)
      qed (use Pair ok in \<open>simp add: judge_step_def bind_s_Inl\<close>)
    qed
    then show ?thesis using True by (intro hoareI) (metis snd_conv)+
  qed
qed

lemma hoare_postprocessing:
  assumes "life_hooks_keep (queues_ok srt) h"
  shows "hoare (\<lambda>w. queues_ok srt w \<and> (srt \<longrightarrow> \<not> forces_error_state i t w)) (postprocessing h i t)
    (\<lambda>_. queues_ok srt) (queues_ok srt)"
  unfolding postprocessing_def
proof (intro hoare_bind_s)
  show "hoare (\<lambda>w. queues_ok srt w \<and> (srt \<longrightarrow> \<not> forces_error_state i t w)) (try_s (job_node_of i))
      (\<lambda>node w. queues_ok srt w \<and> (srt \<longrightarrow> fst (judge_step i node t w) \<noteq> Inr True)) (queues_ok srt)"
    by (rule hoareI) (auto simp: try_s_def forces_error_state_def)
  show "hoare (queues_ok srt) (steps
         [apply_s (set_order i (\<lambda>x. x\<lparr>o_task := None\<rparr>)),
          if_s (\<lambda>w. goes_on i t w \<or> force_error_state)
            (case node of None \<Rightarrow> ret () | Some n \<Rightarrow> proceed (handle_end_state h end_state_calls) i n t)
            (stay (handle_end_state h end_state_calls) i),
          postprocessing2 h i]) (\<lambda>_. queues_ok srt) (queues_ok srt)" for node force_error_state
    by (rule keeps_hoare) (auto intro!: keep_rules quiet assms)
qed (rule hoare_judge)

text \<open>
  An order with an operation of the web service is parted from its node when its step fails. That is harmless for the
  queues only if it is in none.
\<close>

lemma keeps_place_pred:
  "(\<And>p. keeps (queues_ok_at srt p) m) \<Longrightarrow> keeps (\<lambda>w. queues_ok srt w \<and> F (place w)) m"
  by (intro keepsI) (metis keepsD queues_ok_at_def)

lemma hoare_processing_error:
  assumes "life_hooks_keep (queues_ok srt) h"
  shows "hoare (\<lambda>w. queues_ok srt w \<and> (http \<longrightarrow> \<not> is_queued i w)) (processing_error h http i) (\<lambda>_. queues_ok srt) (queues_ok srt)"
proof -
  let ?P = "\<lambda>w. queues_ok srt w \<and> (\<lambda>p. http \<longrightarrow> \<not> fst (p i)) (place w)"
  have suspend: "keeps ?P (bind_s (try_s (job_node_of i)) (\<lambda>job_node. case job_node of
          None \<Rightarrow> ret ()
        | Some n \<Rightarrow> when_s (\<lambda>w. n_on_error_suspend (nodes w n)) (set_suspended i True)))"
    and task: "keeps ?P (apply_s (set_order i (\<lambda>x. x\<lparr>o_task := None\<rparr>)))"
    by (rule keeps_place_pred, auto intro!: keep_rules keeps_quiet quiet split: option.splits)+
  have part: "hoare ?P (when_s (\<lambda>_. http) (apply_s (set_order i (\<lambda>x. x\<lparr>o_job_chain_node := None\<rparr>)))) (\<lambda>_. queues_ok srt) (queues_ok srt)"
  proof (rule hoare_when_s [OF hoare_apply_s])
    fix w assume "?P w \<and> http"
    then have "queues_ok_out srt i w" by (simp add: queues_ok_out_def place_def place_of_def is_queued_def)
    then show "queues_ok srt (set_order i (\<lambda>x. x\<lparr>o_job_chain_node := None\<rparr>) w)" by (intro out_ok [of srt i] out_set_order) auto
  qed simp
  have weak: "hoare ?P m (\<lambda>_. ?P) (queues_ok srt)" if "keeps ?P m" for m :: "(order_world, unit) operation"
    by (rule hoare_strengthen [OF keeps_hoare [OF that]]) simp_all
  have "hoare ?P (processing_error h http i) (\<lambda>_. queues_ok srt) (queues_ok srt)"
    unfolding processing_error_def
    by (intro hoare_steps_Cons [OF weak [OF suspend]] hoare_steps_Cons [OF weak [OF task]] hoare_steps_Cons [OF part]
        hoare_steps_Cons [OF keeps_hoare [OF keeps_postprocessing2 [OF assms]]] hoare_steps_Nil)
  then show ?thesis by (rule hoare_weaken) (auto simp: place_def place_of_def is_queued_def)
qed

section \<open>Entering a job chain\<close>

abbreviation outside :: "bool \<Rightarrow> nat \<Rightarrow> order_world \<Rightarrow> bool" where
  "outside srt i \<equiv> \<lambda>w. queues_ok srt w \<and> (\<lambda>p. \<not> fst (p i)) (place w)"

abbreviation listed :: "bool \<Rightarrow> nat \<Rightarrow> order_world \<Rightarrow> bool" where
  "listed srt i \<equiv> \<lambda>w. queues_ok srt w \<and> (\<lambda>p. \<not> fst (p i) \<and> fst (snd (snd (p i))) \<noteq> None) (place w)"

lemma is_type_job: "is_type t N_job \<Longrightarrow> is_type t N_order_queue"
  by (cases t) auto

lemma hoare_enter_queue_node:
  "hoare (\<lambda>w. listed srt i w \<and> is_type (n_type (nodes w n)) N_job)
     (steps [apply_s (set_order i (\<lambda>x. x\<lparr>o_job_chain_node := Some n\<rparr>)), apply_s (add_order n i)])
     (\<lambda>_. queues_ok srt) (queues_ok srt)"
proof -
  have "queues_ok srt (add_order n i (set_order i (\<lambda>x. x\<lparr>o_job_chain_node := Some n\<rparr>) w))"
    if w: "listed srt i w" "is_type (n_type (nodes w n)) N_job" for w
  proof -
    let ?w = "set_order i (\<lambda>x. x\<lparr>o_job_chain_node := Some n\<rparr>) w"
    have "queues_ok_out srt i ?w" using w
      by (intro out_set_order) (auto simp: queues_ok_out_def is_queued_def place_def place_of_def)
    then show ?thesis using w is_type_job
      by (intro add_order_ok(1)) (auto simp: queues_ok_out_def place_def place_of_def world_simps)
  qed
  then show ?thesis by (intro hoareI) (auto simp: apply_s_def)
qed

lemma hoare_enter_node: "hoare (outside srt i) (enter_node c i n) (\<lambda>_. queues_ok srt) (queues_ok srt)"
proof -
  have kept: "keeps (outside srt i) m" if "\<And>p. keeps (queues_ok_at srt p) m" for m :: "(order_world, unit) operation"
    using that by (rule keeps_place_pred)
  have first: "keeps (outside srt i) (when_s (\<lambda>w. node_from_state w c (o_state (orders w i)) \<noteq> Inr n)
      (apply_s (\<lambda>w. set_state2 i (n_order_state (nodes w n)) w)))"
    "keeps (outside srt i) (when_s (\<lambda>w. (\<not> o_suspended (orders w i) \<or> \<not> o_is_on_blacklist (orders w i))
                    \<and> \<not> is_type (n_type (nodes w n)) N_job) (throw (Xc ''SCHEDULER-149'')))"
    by (rule kept, auto intro!: keep_rules keeps_quiet quiet)+
  have chain: "hoare (outside srt i) (apply_s (\<lambda>w. set_order i (\<lambda>x. x\<lparr>o_job_chain := Some c,
      o_job_chain_path := c_path (chains w c), o_removed_from_job_chain_path := []\<rparr>) w)) (\<lambda>_. listed srt i) (queues_ok srt)"
  proof (rule hoare_apply_s)
    fix w assume w: "outside srt i w"
    have "queues_ok_out srt i (set_order i (\<lambda>x. x\<lparr>o_job_chain := Some c, o_job_chain_path := c_path (chains w c),
        o_removed_from_job_chain_path := []\<rparr>) w)"
      using w by (intro out_set_order) (auto simp: queues_ok_out_def is_queued_def place_def place_of_def)
    then show "listed srt i (set_order i (\<lambda>x. x\<lparr>o_job_chain := Some c, o_job_chain_path := c_path (chains w c),
        o_removed_from_job_chain_path := []\<rparr>) w)"
      using w by (auto simp: queues_ok_out_def is_queued_def place_def place_of_def world_simps)
  qed
  have register: "keeps (listed srt i) (register_order c i)" by (rule keeps_place_pred) (rule keep_rules)
  have last: "hoare (listed srt i) (if_s (\<lambda>w. \<not> o_is_on_blacklist (orders w i) \<and> is_type (n_type (nodes w n)) N_job)
          (steps [apply_s (set_order i (\<lambda>x. x\<lparr>o_job_chain_node := Some n\<rparr>)), apply_s (add_order n i)])
          (set_on_blacklist i)) (\<lambda>_. queues_ok srt) (queues_ok srt)"
    by (rule hoare_if_s [OF hoare_weaken [OF hoare_enter_queue_node]
        hoare_weaken [OF keeps_hoare [OF keeps_ok_places(6)]]]) auto
  have weak: "hoare (\<lambda>w. queues_ok srt w \<and> F (place w)) m (\<lambda>_ w. queues_ok srt w \<and> F (place w)) (queues_ok srt)"
    if "keeps (\<lambda>w. queues_ok srt w \<and> F (place w)) m" for F and m :: "(order_world, unit) operation"
    by (rule hoare_strengthen [OF keeps_hoare [OF that]]) simp_all
  show ?thesis unfolding enter_node_def
    by (intro hoare_steps_Cons [OF weak [OF first(1)]] hoare_steps_Cons [OF weak [OF first(2)]] hoare_steps_Cons [OF chain]
        hoare_steps_Cons [OF weak [OF register]] hoare_steps_Cons [OF last] hoare_steps_Nil)
qed

lemma hoare_add_to_chain: "hoare (outside srt i) (chain_add_order c i) (\<lambda>_. queues_ok srt) (queues_ok srt)"
proof -
  have "hoare (outside srt i) (assert_s s f) (\<lambda>_. outside srt i) (queues_ok srt)" for s f
    by (rule hoare_assert_s) simp_all
  moreover have "hoare (outside srt i) (bind_s (try_s g) (\<lambda>used. if used then throw e else ret ()))
      (\<lambda>_. outside srt i) (queues_ok srt)" for g e
    by (intro hoareI) (auto simp: bind_s_def try_s_def throw_def ret_def split: sum.splits if_splits)
  moreover have "hoare (outside srt i) (bind_s (try_s g) (enter_node c i)) (\<lambda>_. queues_ok srt) (queues_ok srt)" for g
    by (rule hoare_bind_s [OF _ hoare_enter_node]) (auto intro!: hoareI simp: try_s_def)
  ultimately show ?thesis unfolding chain_add_order_def
    by (intro hoare_steps_Cons) (auto intro: hoare_steps_Nil)
qed

end
