(* ===== verification/Order_Placing.thy ===== *)
theory Order_Placing
  imports Order_Steps
begin

text \<open>
  How an order is placed in a job chain, or replaces another one there (\<^verbatim>\<open>Order.cxx\<close>), with the choice of the
  nested job chain and the first start time; and how the orders of a job chain go over to its replacement
  (\<^verbatim>\<open>spooler_order.cxx\<close>).
\<close>

section \<open>The start time\<close>

text \<open>
  What placing an order needs to know: the schedule of the order (whether it is loaded or missing, whether there is
  one, the first start it gives), and the database: the next order identifier and how long one may be, whether an identifier is taken, whether
  the order is written there now, and the writing, which says whether the identifier was new.
\<close>

record place_hooks =
  schedule_loads :: "nat \<Rightarrow> order_world \<Rightarrow> bool"
  schedule_is_defined :: "nat \<Rightarrow> order_world \<Rightarrow> bool"
  first_start :: "nat \<Rightarrow> order_world \<Rightarrow> time"
  new_order_id :: "order_world \<Rightarrow> string"
  id_length_max :: "order_world \<Rightarrow> nat"
  id_in_database :: "nat \<Rightarrow> string \<Rightarrow> order_world \<Rightarrow> bool"
  is_inhibited :: "nat \<Rightarrow> bool"
  is_stored_now :: "nat \<Rightarrow> nat \<Rightarrow> order_world \<Rightarrow> bool"
  store_order :: "nat \<Rightarrow> bool \<Rightarrow> (order_world, bool) operation"

definition set_next_start_time :: "place_hooks \<Rightarrow> nat \<Rightarrow> (order_world, unit) operation" where
  "set_next_start_time h i =
     if_s (\<lambda>w. \<not> o_is_touched (orders w i))
       (if_s (schedule_is_defined h i)
         (bind_s (read_s (first_start h i)) (\<lambda>t. set_setback i t False))
         (set_setback i never False))
       (bind_s (read_s (\<lambda>w. o_setback (orders w i))) (\<lambda>t. set_setback i t False))"

definition activate_schedule :: "place_hooks \<Rightarrow> nat \<Rightarrow> (order_world, unit) operation" where
  "activate_schedule h i =
     when_s (schedule_loads h i)
       (if_s (\<lambda>w. o_setback (orders w i) \<noteq> Time 0)
         (bind_s (read_s (\<lambda>w. o_setback (orders w i))) (\<lambda>t. set_setback i t False))
         (set_next_start_time h i))"

section \<open>Nested job chains\<close>

text \<open>
  The loop of \<^verbatim>\<open>nested_job_chain\<close> over the nodes of the outer job chain, with the state it has come to; an order
  that finds no place in a nested job chain takes the next one. \<open>k\<close> counts the rounds of the loop.
\<close>

fun find_nested :: "order_world \<Rightarrow> nat \<Rightarrow> bool \<Rightarrow> nat \<Rightarrow> order_state \<Rightarrow> order_state \<times> nat option result" where
  "find_nested w outer succeeds 0 s = (s, Inr None)"
| "find_nested w outer succeeds (Suc k) s =
     (case node_from_state_or_null w outer s of
        None \<Rightarrow> (s, Inr None)
      | Some n \<Rightarrow>
          if \<not> is_type (n_type (nodes w n)) N_job_chain then (s, Inr None)
          else case n_nested (nodes w n) of
            None \<Rightarrow> (s, Inr None)
          | Some c \<Rightarrow>
              (case bind_r (first_node w c) (\<lambda>f. referenced_node_from_state w c (n_order_state (nodes w f))) of
                 Inl e \<Rightarrow> (s, Inl e)
               | Inr m \<Rightarrow>
                   if is_type (n_type (nodes w m)) N_order_queue then (s, Inr (Some c))
                   else find_nested w outer succeeds k (if succeeds then n_next_state (nodes w n) else n_error_state (nodes w n))))"

definition nested_rounds :: nat where
  "nested_rounds = 99999"

definition nested_job_chain :: "nat \<Rightarrow> order_state \<Rightarrow> bool \<Rightarrow> (order_world, nat option) operation" where
  "nested_job_chain i outer_state succeeds =
     bind_s (try_s (\<lambda>w. case chain_of_path w (o_outer_job_chain_path (orders w i)) of
         None \<Rightarrow> Inl (Xc ''SCHEDULER-161'') | Some outer \<Rightarrow> Inr outer)) (\<lambda>outer.
     bind_s (read_s (\<lambda>w. find_nested w outer succeeds nested_rounds outer_state)) (\<lambda>(s, found).
     bind_s (apply_s (set_order i (\<lambda>x. x\<lparr>o_outer_job_chain_state := s\<rparr>))) (\<lambda>_. try_s (\<lambda>_. found))))"

section \<open>Placing\<close>

definition assert_chain_loaded :: "nat \<Rightarrow> (order_world, unit) operation" where
  "assert_chain_loaded c =
     when_s (\<lambda>w. c_file_state (chains w c) < S_loaded \<or> S_active < c_file_state (chains w c)) (throw (Xc ''SCHEDULER-153''))"

text \<open>The identifier is new, or it is the one of the order itself, which is in another job chain of the space.\<close>

definition id_is_new :: "place_hooks \<Rightarrow> nat \<Rightarrow> nat \<Rightarrow> order_world \<Rightarrow> bool" where
  "id_is_new h i c w =
     (case c_order_id_space (chains w c) of
        Some cs \<Rightarrow>
          (case space_order_or_null w cs (o_id (orders w i)) of
             None \<Rightarrow> True
           | Some j \<Rightarrow> j = i \<and> o_job_chain_path (orders w i) \<noteq> c_path (chains w c))
      | None \<Rightarrow> \<not> has_order_id w c (o_id (orders w i)) \<and> \<not> id_in_database h c (o_id (orders w i)) w)"

definition check_end_state :: "nat \<Rightarrow> nat \<Rightarrow> order_world \<Rightarrow> unit result" where
  "check_end_state i c w =
     (if o_outer_job_chain_path (orders w i) = [] \<and> \<not> is_null_or_empty_state (o_end_state (orders w i))
      then bind_r (referenced_node_from_state w c (o_end_state (orders w i))) (\<lambda>_. Inr ()) else Inr ())"

text \<open>The order goes into the nested job chain that its node stands for.\<close>

definition enter_nested :: "nat \<Rightarrow> nat \<Rightarrow> nat \<Rightarrow> (order_world, nat \<times> nat) operation" where
  "enter_nested i c n =
     bind_s
       (steps
         [when_s (\<lambda>w. o_outer_job_chain_path (orders w i) \<noteq> []) (throw (Xc ''SCHEDULER-412'')),
          apply_s (\<lambda>w. set_order i (\<lambda>x. x\<lparr>o_outer_job_chain_path := c_path (chains w c), o_outer_job_chain_state := o_state x\<rparr>) w)])
       (\<lambda>_. bind_s (bind_s (read_s (\<lambda>w. n_order_state (nodes w n))) (\<lambda>s. nested_job_chain i s True)) (\<lambda>nested. case nested of
          None \<Rightarrow> throw (Xc ''SCHEDULER-438'')
        | Some d \<Rightarrow> bind_s (try_s (\<lambda>w. first_node w d)) (\<lambda>m.
            bind_s (apply_s (\<lambda>w. set_order i (\<lambda>x. x\<lparr>o_state := n_order_state (nodes w m)\<rparr>) w)) (\<lambda>_. ret (d, m)))))"

text \<open>\<open>start_state\<close>: the order leaves its old job chain, and takes the first state of the new one if it has none.\<close>

definition start_state :: "nat \<Rightarrow> nat \<Rightarrow> stack_option \<Rightarrow> (order_world, unit) operation" where
  "start_state i c stack =
     steps
       [when_s (\<lambda>w. o_job_chain_path (orders w i) \<noteq> []) (remove_from_job_chain i stack),
        assert_s ''try_place_in_job_chain'' (\<lambda>w. o_job_chain (orders w i) = None),
        when_s (\<lambda>w. o_state (orders w i) = Empty_state)
          (bind_s (try_s (\<lambda>w. first_node w c)) (\<lambda>n. apply_s (\<lambda>w. set_state2 i (n_order_state (nodes w n)) w)))]"

definition check_queue_node :: "nat \<Rightarrow> nat \<Rightarrow> order_world \<Rightarrow> unit result" where
  "check_queue_node i c w =
     bind_r (node_from_state w c (o_state (orders w i)))
       (\<lambda>n. if is_type (n_type (nodes w n)) N_order_queue then Inr () else Inl (Xc ''SCHEDULER-438''))"

text \<open>\<open>settle\<close>: the last steps before the order is added to the queues or to the database.\<close>

definition settle :: "place_hooks \<Rightarrow> nat \<Rightarrow> nat \<Rightarrow> bool \<Rightarrow> (order_world, unit) operation" where
  "settle h i c suspend =
     steps
       [when_s (\<lambda>_. suspend)
          (steps [apply_s (set_order i (\<lambda>x. x\<lparr>o_suspended := True\<rparr>)), apply_s (signal (Order_event ''orderSuspended'' i))]),
        when_s (\<lambda>w. \<not> is_inhibited h i \<and> c_is_distributed (chains w c)) (apply_s (set_order i (\<lambda>x. x\<lparr>o_is_distributed := True\<rparr>))),
        apply_s (\<lambda>w. set_order i (\<lambda>x. x\<lparr>o_job_chain_path := c_path (chains w c), o_removed_from_job_chain_path := []\<rparr>) w),
        activate_schedule h i]"

definition store_placed :: "place_hooks \<Rightarrow> nat \<Rightarrow> nat \<Rightarrow> bool \<Rightarrow> (order_world, bool) operation" where
  "store_placed h i c exists_exception =
     if_s (is_stored_now h i c)
       (bind_s (store_order h i exists_exception) (\<lambda>is_new. bind_s (tip_next_node i) (\<lambda>_. ret is_new)))
       (ret True)"

definition suspends_at :: "nat \<Rightarrow> order_world \<Rightarrow> bool" where
  "suspends_at n w = n_is_suspending_order (nodes w n)"

definition place_new :: "place_hooks \<Rightarrow> nat \<Rightarrow> nat \<Rightarrow> stack_option \<Rightarrow> bool \<Rightarrow> (order_world, bool) operation" where
  "place_new h i c stack exists_exception =
     bind_s (start_state i c stack) (\<lambda>_.
     bind_s (try_s (\<lambda>w. node_from_state w c (o_state (orders w i)))) (\<lambda>n.
     bind_s (read_s (suspends_at n)) (\<lambda>suspend.
     bind_s (when_s (\<lambda>_. stack = Jc_remove_from_job_chain_stack) (apply_s (remove_from_job_chain_stack i))) (\<lambda>_.
     bind_s (if_s (\<lambda>w. is_type (n_type (nodes w n)) N_job_chain) (enter_nested i c n) (ret (c, n))) (\<lambda>(d, m).
     bind_s (try_s (\<lambda>w. referenced_node_from_state w d (o_state (orders w i)))) (\<lambda>r.
     bind_s (read_s (\<lambda>w. suspend \<or> (r \<noteq> m \<and> suspends_at r w))) (\<lambda>suspend2.
     bind_s (steps
       [when_s (\<lambda>_. r \<noteq> m) (apply_s (\<lambda>w. set_state2 i (n_order_state (nodes w r)) w)),
        try_s (check_queue_node i d),
        settle h i d suspend2]) (\<lambda>_.
     bind_s (store_placed h i d exists_exception) (\<lambda>is_new.
     bind_s (when_s (\<lambda>w. is_new \<and> \<not> o_is_distributed (orders w i)) (chain_add_order d i)) (\<lambda>_. ret is_new))))))))))"

text \<open>\<^verbatim>\<open>set_id\<close>: once locked, an identifier does not change. \<^verbatim>\<open>set_default_id\<close> takes the next one of the database.\<close>

definition const_order_id_length_max :: nat where
  "const_order_id_length_max = 250"

definition order_set_id :: "place_hooks \<Rightarrow> nat \<Rightarrow> string \<Rightarrow> (order_world, unit) operation" where
  "order_set_id h i new_id =
     if_s (\<lambda>w. o_id_locked (orders w i) \<and> o_id (orders w i) = new_id) (ret ())
       (steps
         [when_s (\<lambda>w. o_id_locked (orders w i)) (throw (Xc ''SCHEDULER-159'')),
          when_s (\<lambda>w. id_length_max h w < length new_id) (throw (Xc ''SCHEDULER-345'')),
          when_s (\<lambda>w. const_order_id_length_max < length new_id) (throw (Xc ''SCHEDULER-344'')),
          apply_s (set_order i (\<lambda>x. x\<lparr>o_id := new_id\<rparr>))])"

definition set_default_id :: "place_hooks \<Rightarrow> nat \<Rightarrow> (order_world, unit) operation" where
  "set_default_id h i = bind_s (read_s (new_order_id h)) (order_set_id h i)"

definition prepare_placing :: "place_hooks \<Rightarrow> nat \<Rightarrow> nat \<Rightarrow> (order_world, unit) operation" where
  "prepare_placing h i c =
     steps
       [assert_chain_loaded c,
        when_s (\<lambda>w. c_state (chains w c) \<noteq> Cs_loaded \<and> c_state (chains w c) \<noteq> Cs_active) (throw (Xc ''SCHEDULER-151'')),
        try_s (check_end_state i c),
        when_s (\<lambda>w. o_id (orders w i) = []) (set_default_id h i),
        apply_s (set_order i (\<lambda>x. x\<lparr>o_id_locked := True\<rparr>))]"

definition try_place_in_job_chain ::
  "place_hooks \<Rightarrow> nat \<Rightarrow> nat \<Rightarrow> stack_option \<Rightarrow> bool \<Rightarrow> (order_world, bool) operation" where
  "try_place_in_job_chain h i c stack exists_exception =
     bind_s (prepare_placing h i c) (\<lambda>_.
     bind_s (read_s (\<lambda>w. o_is_replacement (orders w i) \<and> c_is_distributed (chains w c) \<or> id_is_new h i c w)) (\<lambda>is_new.
       if is_new then place_new h i c stack exists_exception
       else if exists_exception then throw (Xc ''SCHEDULER-186'')
       else ret False))"

definition place_in_job_chain :: "place_hooks \<Rightarrow> nat \<Rightarrow> nat \<Rightarrow> stack_option \<Rightarrow> (order_world, unit) operation" where
  "place_in_job_chain h i c stack =
     bind_s (try_place_in_job_chain h i c stack True) (\<lambda>ok. assert_s ''place_in_job_chain'' (\<lambda>_. ok))"

text \<open>The order of the same identifier in the space or in the job chain.\<close>

definition other_order :: "nat \<Rightarrow> nat \<Rightarrow> order_world \<Rightarrow> nat option" where
  "other_order i c w =
     (case c_order_id_space (chains w c) of
        Some cs \<Rightarrow> space_order_or_null w cs (o_id (orders w i))
      | None \<Rightarrow> chain_order_or_null w c (o_id (orders w i)))"

definition place_or_replace_in_job_chain :: "place_hooks \<Rightarrow> nat \<Rightarrow> nat \<Rightarrow> (order_world, unit) operation" where
  "place_or_replace_in_job_chain h i c =
     if_s (\<lambda>w. c_is_distributed (chains w c))
       (steps [apply_s (set_replacement_flag i True), place_in_job_chain h i c Jc_remove_from_job_chain_stack])
       (bind_s (read_s (other_order i c)) (\<lambda>other. case other of
          None \<Rightarrow> place_in_job_chain h i c Jc_remove_from_job_chain_stack
        | Some j \<Rightarrow> steps
            [if j \<noteq> i then
               steps [remove_from_job_chain j Jc_remove_from_job_chain_stack, place_in_job_chain h i c Jc_remove_from_job_chain_stack]
             else activate_schedule h i,
             when_s (\<lambda>w. o_task (orders w j) \<noteq> None) (order_set_replacement i j)]))"

section \<open>Placing keeps the queues\<close>

text \<open>What the database does to the world leaves the queues alone.\<close>

definition place_hooks_keep :: "bool \<Rightarrow> place_hooks \<Rightarrow> bool" where
  "place_hooks_keep srt h = (\<forall>i b. keeps (queues_ok_out srt i) (store_order h i b))"

lemma keeps_activate [keep_rules]: "keeps (queues_ok_at srt p) (activate_schedule h i)"
  unfolding activate_schedule_def set_next_start_time_def by (intro keep_rules)

lemma keeps_ok_activate [keep_rules]: "keeps (queues_ok srt) (activate_schedule h i)" "keeps (queues_ok srt) (set_next_start_time h i)"
  unfolding activate_schedule_def set_next_start_time_def by (intro keep_rules)+

lemma hoare_start_state: "hoare (queues_ok srt) (start_state i c stack) (\<lambda>_. queues_ok_out srt i) (queues_ok srt)"
proof -
  have leave: "keeps (queues_ok srt) (when_s (\<lambda>w. o_job_chain_path (orders w i) \<noteq> []) (remove_from_job_chain i stack))"
    by (intro keep_rules)
  have gone: "hoare (queues_ok srt) (assert_s ''try_place_in_job_chain'' (\<lambda>w. o_job_chain (orders w i) = None))
      (\<lambda>_. queues_ok_out srt i) (queues_ok srt)"
    by (rule hoare_assert_s) (simp_all add: no_node_out)
  have first: "keeps (queues_ok_out srt i) (when_s (\<lambda>w. o_state (orders w i) = Empty_state)
          (bind_s (try_s (\<lambda>w. first_node w c)) (\<lambda>n. apply_s (\<lambda>w. set_state2 i (n_order_state (nodes w n)) w))))"
    by (auto intro!: keep_rules quiet)
  show ?thesis unfolding start_state_def
    by (intro hoare_steps_Cons [OF keeps_hoare [OF leave]] hoare_steps_Cons [OF gone] hoare_steps_Cons [OF hoare_out [OF first]] hoare_steps_Nil)
qed

lemma keeps_out_parts [keep_rules]:
  "keeps (queues_ok_out srt i) (enter_nested i c n)" "keeps (queues_ok_out srt i) (nested_job_chain i s b)"
  "keeps (queues_ok_out srt i) (activate_schedule h i)" "keeps (queues_ok_out srt i) (settle h i c b)"
  "keeps (queues_ok_out srt i) (tip_next_node i)"
proof -
  show nested: "keeps (queues_ok_out srt i) (nested_job_chain i s b)" for s b
    unfolding nested_job_chain_def case_prod_beta by (intro keep_rules) simp
  show "keeps (queues_ok_out srt i) (enter_nested i c n)"
    unfolding enter_nested_def by (intro keep_rules nested) auto
  show activate: "keeps (queues_ok_out srt i) (activate_schedule h i)"
    by (rule keeps_out) (rule keep_rules)
  show "keeps (queues_ok_out srt i) (settle h i c b)"
    unfolding settle_def by (intro keep_rules activate) (auto intro: quiet)
  show "keeps (queues_ok_out srt i) (tip_next_node i)"
    unfolding tip_next_node_def by (intro keep_rules) (auto intro: quiet)
qed

lemma hoare_add_placed:
  "hoare (queues_ok_out srt i) (when_s (\<lambda>w. b \<and> \<not> o_is_distributed (orders w i)) (chain_add_order c i)) (\<lambda>_. queues_ok srt) (queues_ok srt)"
  by (rule hoare_when_s [OF hoare_weaken [OF hoare_add_to_chain]])
    (auto simp: queues_ok_out_def is_queued_def place_def place_of_def)

lemma keeps_place_new [keep_rules]:
  assumes "place_hooks_keep srt h"
  shows "keeps (queues_ok srt) (place_new h i c stack b)"
proof -
  have stored: "keeps (queues_ok_out srt i) (store_placed h i d b)" for d
    using assms unfolding store_placed_def place_hooks_keep_def by (intro keep_rules) auto
  have last: "hoare (queues_ok_out srt i) (bind_s (store_placed h i d b) (\<lambda>is_new.
     bind_s (when_s (\<lambda>w. is_new \<and> \<not> o_is_distributed (orders w i)) (chain_add_order d i)) (\<lambda>_. ret is_new)))
     (\<lambda>_. queues_ok srt) (queues_ok srt)" for d
    by (rule hoare_bind_s [OF hoare_out [OF stored] hoare_bind_s [OF hoare_add_placed]]) (simp add: hoare_ret)
  show ?thesis
    unfolding place_new_def keeps_def
    by (rule hoare_bind_s [OF hoare_start_state])
      ((rule hoare_bind_s [OF hoare_out], (intro keep_rules; auto intro: quiet)[1])+, simp only: case_prod_beta,
       (rule hoare_bind_s [OF hoare_out], (intro keep_rules; auto intro: quiet)[1])+, rule last)
qed

lemma keeps_set_replacement [keep_rules]: "keeps (queues_ok srt) (order_set_replacement i r)"
  unfolding order_set_replacement_def by (auto intro!: keep_rules quiet simp: place_of_def)

lemma keeps_placing [keep_rules]:
  assumes "place_hooks_keep srt h"
  shows "keeps (queues_ok srt) (try_place_in_job_chain h i c stack b)" "keeps (queues_ok srt) (place_in_job_chain h i c stack)"
    "keeps (queues_ok srt) (place_or_replace_in_job_chain h i c)"
proof -
  have prepare: "keeps (queues_ok srt) (prepare_placing h i c)"
    unfolding prepare_placing_def assert_chain_loaded_def set_default_id_def order_set_id_def by (intro keep_rules) (auto intro: quiet simp: place_of_def)
  show tries: "keeps (queues_ok srt) (try_place_in_job_chain h i c stack b)" for stack b
    unfolding try_place_in_job_chain_def using assms by (intro keep_rules prepare)
  show place: "keeps (queues_ok srt) (place_in_job_chain h i c stack)" for stack
    unfolding place_in_job_chain_def using tries by (intro keep_rules)
  show "keeps (queues_ok srt) (place_or_replace_in_job_chain h i c)"
    unfolding place_or_replace_in_job_chain_def using place by (intro keep_rules) (auto intro: quiet)
qed

end
