(* ===== verification/Order_Nested.thy ===== *)
theory Order_Nested
  imports Order_Placing
begin

text \<open>
  Orders in nested job chains (\<^verbatim>\<open>Order.cxx\<close>): at the end of a nested job chain the order goes on to the next node of the
  outer job chain, or starts again with the first one. The end of an order, its states and nested job chains call
  each other; \<open>nested_life\<close> closes the circle, with a number of turns.
\<close>

text \<open>\<^verbatim>\<open>try\<close> with a handler for exceptions, but not for failed assertions.\<close>

definition caught :: "('s, 'a) operation \<Rightarrow> ('s, 'a) operation \<Rightarrow> ('s, 'a) operation" where
  "caught m handler w = (case m w of (Inl (Xc e), w') \<Rightarrow> handler w' | r \<Rightarrow> r)"

type_synonym end_handler = "nat \<Rightarrow> (order_world, unit) operation"

section \<open>From one nested job chain to the next\<close>

definition chain_at :: "string \<Rightarrow> order_world \<Rightarrow> nat result" where
  "chain_at path w = (case chain_of_path w path of None \<Rightarrow> Inl (Xc ''SCHEDULER-161'') | Some c \<Rightarrow> Inr c)"

definition first_state :: "nat \<Rightarrow> order_world \<Rightarrow> order_state result" where
  "first_state c w = bind_r (first_node w c) (\<lambda>n. Inr (n_order_state (nodes w n)))"

definition begin_history :: "nat \<Rightarrow> (order_world, unit) operation" where
  "begin_history i =
     steps [apply_s (signal (Order_db ''history'' i)), apply_s (set_order i (\<lambda>x. x\<lparr>o_start_time := Time 0, o_end_time := Time 0\<rparr>))]"

text \<open>The order keeps the path of the outer job chain, whatever placing does with it.\<close>

definition move_into :: "end_handler \<Rightarrow> place_hooks \<Rightarrow> nat \<Rightarrow> nat \<Rightarrow> (order_world, unit) operation" where
  "move_into handler h i c =
     bind_s (begin_history i) (\<lambda>_.
     bind_s (read_s (\<lambda>w. o_outer_job_chain_path (orders w i))) (\<lambda>outer.
       steps
         [apply_s (set_order i (\<lambda>x. x\<lparr>o_state := Empty_state\<rparr>)),
          if_s (\<lambda>w. c_path (chains w c) = o_job_chain_path (orders w i))
            (bind_s (try_s (first_state c)) (set_state handler i))
            (place_in_job_chain h i c Jc_leave_in_job_chain_stack),
          apply_s (set_order i (\<lambda>x. x\<lparr>o_outer_job_chain_path := outer\<rparr>))]))"

definition move_to_nested_job_chain ::
  "end_handler \<Rightarrow> place_hooks \<Rightarrow> nat \<Rightarrow> order_state \<Rightarrow> bool \<Rightarrow> (order_world, bool) operation" where
  "move_to_nested_job_chain handler h i outer_state succeeds =
     bind_s (nested_job_chain i outer_state succeeds) (\<lambda>nested. case nested of
       None \<Rightarrow> ret False
     | Some c \<Rightarrow> bind_s (move_into handler h i c) (\<lambda>_. ret True))"

definition next_outer_state :: "nat \<Rightarrow> order_world \<Rightarrow> order_state result" where
  "next_outer_state i w =
     bind_r (chain_at (o_outer_job_chain_path (orders w i)) w) (\<lambda>outer.
     bind_r (node_from_state w outer (o_outer_job_chain_state (orders w i))) (\<lambda>n.
       Inr (if o_is_success_state (orders w i) then n_next_state (nodes w n) else n_error_state (nodes w n))))"

definition handle_end_state_of_nested_job_chain :: "end_handler \<Rightarrow> place_hooks \<Rightarrow> nat \<Rightarrow> (order_world, bool) operation" where
  "handle_end_state_of_nested_job_chain handler h i =
     bind_s
       (steps
         [apply_s (set_order i (\<lambda>x. x\<lparr>o_is_nested_touched := False\<rparr>)),
          apply_s (signal (Order_event ''orderNestedFinished'' i))])
       (\<lambda>_. caught
         (if_s (\<lambda>w. state_eq (o_outer_job_chain_state (orders w i)) (o_end_state (orders w i)))
           (ret True)
           (bind_s (try_s (next_outer_state i)) (\<lambda>s.
            bind_s (read_s (\<lambda>w. o_is_success_state (orders w i))) (\<lambda>succeeds.
            bind_s (move_to_nested_job_chain handler h i s succeeds) (\<lambda>moved. ret (\<not> moved))))))
         (bind_s
           (steps [remove_from_job_chain i Jc_remove_from_job_chain_stack, order_close i])
           (\<lambda>_. ret False)))"

section \<open>Repeating an order of nested job chains\<close>

definition active_job_chain :: "string \<Rightarrow> order_world \<Rightarrow> nat result" where
  "active_job_chain path w =
     bind_r (chain_at path w) (\<lambda>c. if c_file_state (chains w c) \<noteq> S_active then Inl (Xc ''SCHEDULER-153'') else Inr c)"

text \<open>The state of the outer job chain to start with, if the initial state belongs to it.\<close>

definition restart_state :: "nat \<Rightarrow> order_world \<Rightarrow> order_state option result" where
  "restart_state i w =
     bind_r (active_job_chain (o_outer_job_chain_path (orders w i)) w) (\<lambda>outer.
     bind_r (node_from_state w outer (o_initial_state (orders w i))) (\<lambda>n.
       Inr (if is_type (n_type (nodes w n)) N_job_chain \<and> o_initial_state (orders w i) \<noteq> Empty_state
            then Some (o_initial_state (orders w i)) else None)))"

text \<open>A null pointer, if there is no nested job chain to start with, is an assertion here.\<close>

definition restart_in :: "end_handler \<Rightarrow> place_hooks \<Rightarrow> nat \<Rightarrow> order_state \<Rightarrow> time \<Rightarrow> (order_world, unit) operation" where
  "restart_in handler h i outer_state next_start =
     bind_s (apply_s (set_order i (\<lambda>x. x\<lparr>o_outer_job_chain_state := o_initial_state x\<rparr>))) (\<lambda>_.
     bind_s (nested_job_chain i outer_state True) (\<lambda>nested. case nested of
       None \<Rightarrow> throw (Assertion ''nested_job_chain'')
     | Some c \<Rightarrow> bind_s (try_s (first_state c)) (\<lambda>s.
         steps [set_state_at handler i s next_start, place_in_job_chain h i c Jc_leave_in_job_chain_stack])))"

definition restart_nested_order :: "end_handler \<Rightarrow> place_hooks \<Rightarrow> nat \<Rightarrow> time \<Rightarrow> (order_world, unit) operation" where
  "restart_nested_order handler h i next_start =
     bind_s (try_s (restart_state i)) (\<lambda>outer_state.
       steps
         [remove_from_job_chain i Jc_leave_in_job_chain_stack,
          begin_history i,
          logged (case outer_state of
             Some s \<Rightarrow> restart_in handler h i s next_start
           | None \<Rightarrow> bind_s (read_s (\<lambda>w. o_initial_state (orders w i))) (\<lambda>s. set_state_at handler i s next_start))])"

section \<open>The circle of calls\<close>

text \<open>The functions of an order whose nested job chains are handled by the functions with one turn less.\<close>

definition with_nested :: "place_hooks \<Rightarrow> end_handler \<Rightarrow> life_hooks \<Rightarrow> life_hooks" where
  "with_nested h handler l =
     l\<lparr>end_state_of_nested := handle_end_state_of_nested_job_chain handler h,
       restart_nested := restart_nested_order handler h\<rparr>"

fun nested_life :: "place_hooks \<Rightarrow> life_hooks \<Rightarrow> nat \<Rightarrow> life_hooks" where
  "nested_life h l 0 = l\<lparr>end_state_of_nested := (\<lambda>_. throw (Assertion ''nested_life'')),
     restart_nested := (\<lambda>_ _. throw (Assertion ''nested_life''))\<rparr>"
| "nested_life h l (Suc k) = with_nested h (handle_end_state (nested_life h l k) end_state_calls) l"

section \<open>Reset\<close>

text \<open>The node of the outer job chain for the initial state; \<^verbatim>\<open>cast\<close> fails for a node of another type.\<close>

definition first_outer_node :: "nat \<Rightarrow> order_world \<Rightarrow> nat option result" where
  "first_outer_node i w =
     (if o_outer_job_chain_path (orders w i) = [] then Inr None
      else bind_r (chain_at (o_outer_job_chain_path (orders w i)) w) (\<lambda>outer.
        case node_from_state_or_null w outer (o_initial_state (orders w i)) of
          None \<Rightarrow> Inr None
        | Some n \<Rightarrow> if is_type (n_type (nodes w n)) N_job_chain then Inr (Some n) else Inl (Assertion ''Nested_job_chain_node::cast'')))"

definition reset_state :: "end_handler \<Rightarrow> place_hooks \<Rightarrow> nat \<Rightarrow> (order_world, unit) operation" where
  "reset_state handler h i =
     bind_s (try_s (first_outer_node i)) (\<lambda>node. case node of
       None \<Rightarrow> bind_s (read_s (\<lambda>w. o_initial_state (orders w i))) (set_state handler i)
     | Some n \<Rightarrow>
         bind_s (read_s (\<lambda>w. (n_nested (nodes w n), o_job_chain (orders w i)))) (\<lambda>(nested, chain).
           if nested = chain then
             (case chain of
                None \<Rightarrow> throw (Assertion ''reset'')
              | Some c \<Rightarrow> bind_s (try_s (first_state c)) (set_state handler i))
           else
             bind_s (bind_s (read_s (\<lambda>w. n_order_state (nodes w n))) (\<lambda>s. move_to_nested_job_chain handler h i s True))
               (\<lambda>_. apply_s (set_order i (\<lambda>x. x\<lparr>o_outer_job_chain_state := o_initial_state x\<rparr>)))))"

definition reset_order :: "end_handler \<Rightarrow> place_hooks \<Rightarrow> nat \<Rightarrow> (order_world, unit) operation" where
  "reset_order handler h i =
     steps
       [assert_no_task i,
        set_suspended i False,
        clear_setback i False,
        reset_state handler h i,
        apply_s (set_order i (\<lambda>x. x\<lparr>o_is_nested_touched := False, o_is_touched := False\<rparr>)),
        set_next_start_time h i]"

section \<open>The queues\<close>

lemma keeps_caught [keep_rules]: "keeps I m \<Longrightarrow> keeps I handler \<Longrightarrow> keeps I (caught m handler)"
  by (intro keepsI) (auto simp: caught_def dest: keepsD split: prod.splits sum.splits xc.splits)

lemma keeps_nested_parts [keep_rules]:
  "keeps (queues_ok srt) (nested_job_chain i s b)" "keeps (queues_ok srt) (begin_history i)"
  unfolding nested_job_chain_def case_prod_beta begin_history_def by (intro keep_rules; auto intro: quiet simp: place_of_def)+

lemma keeps_move_to_nested [keep_rules]:
  assumes "place_hooks_keep srt h" "\<And>i. keeps (queues_ok srt) (handler i)"
  shows "keeps (queues_ok srt) (move_into handler h i c)" "keeps (queues_ok srt) (move_to_nested_job_chain handler h i s b)"
proof -
  show into: "keeps (queues_ok srt) (move_into handler h i c)" for c
    unfolding move_into_def by (intro keep_rules assms; auto intro: quiet simp: place_of_def)
  show "keeps (queues_ok srt) (move_to_nested_job_chain handler h i s b)"
    unfolding move_to_nested_job_chain_def by (intro keep_rules into)
qed

lemma keeps_nested_end [keep_rules]:
  assumes "place_hooks_keep srt h" "\<And>i. keeps (queues_ok srt) (handler i)"
  shows "keeps (queues_ok srt) (handle_end_state_of_nested_job_chain handler h i)"
    "keeps (queues_ok srt) (restart_nested_order handler h i t)"
  unfolding handle_end_state_of_nested_job_chain_def restart_nested_order_def restart_in_def
  by (intro keep_rules assms; auto intro: quiet simp: place_of_def)+

lemma nested_life_keeps:
  assumes "place_hooks_keep srt h"
  shows "life_hooks_keep (queues_ok srt) (nested_life h l k)"
proof (induction k)
  case (Suc k)
  have "keeps (queues_ok srt) (handle_end_state (nested_life h l k) end_state_calls i)" for i
    by (rule keeps_handle_end_state [OF Suc])
  then show ?case by (simp add: life_hooks_keep_def with_nested_def keeps_nested_end [OF assms])
qed (simp add: life_hooks_keep_def keep_rules)

end
