(* ===== verification/Chain_Setup.thy ===== *)
theory Chain_Setup
  imports Order_Life Scheduler_Path
begin

text \<open>
  How a job chain is built, initialized and activated (\<^verbatim>\<open>spooler_order.cxx\<close>): its nodes, their next states and
  error states, the check that skipped nodes lead somewhere, and the change of the action of a node while orders
  wait. The numbers of new nodes are arguments.
\<close>

section \<open>Building\<close>

definition new_node :: "node_type \<Rightarrow> nat \<Rightarrow> order_state \<Rightarrow> node" where
  "new_node ty c s = \<lparr>n_type = ty, n_state = Ns_none, n_order_state = s, n_next_state = Missing_state,
     n_error_state = Missing_state, n_action = Act_process, n_is_suspending_order = False, n_delay = Duration 0,
     n_on_error_suspend = False, n_on_error_setback = False, n_on_return_codes = [], n_path = [], n_next_node = None,
     n_error_node = None, n_job = None, n_nested = None, n_job_chain = c, n_queue = [], n_has_tip = False,
     n_announced = never, n_check_time = time_max, n_check_delay = check_database_orders_period_minimum\<rparr>"

definition create_node :: "nat \<Rightarrow> nat \<Rightarrow> node_type \<Rightarrow> order_state \<Rightarrow> (order_world, unit) operation" where
  "create_node c n ty s =
     steps
       [when_s (\<lambda>w. node_from_state_or_null w c s \<noteq> None) (throw (Xc ''SCHEDULER-150'')),
        apply_s (set_node n (\<lambda>_. new_node ty c s))]"

definition node_set_next_state :: "nat \<Rightarrow> order_state \<Rightarrow> order_world \<Rightarrow> order_world" where
  "node_set_next_state n s = set_node n (\<lambda>x. x\<lparr>n_next_state := normalized_state s\<rparr>)"

definition node_set_error_state :: "nat \<Rightarrow> order_state \<Rightarrow> order_world \<Rightarrow> order_world" where
  "node_set_error_state n s = set_node n (\<lambda>x. x\<lparr>n_error_state := normalized_state s\<rparr>)"

definition assert_chain_not_initialized :: "nat \<Rightarrow> (order_world, unit) operation" where
  "assert_chain_not_initialized c =
     when_s (\<lambda>w. S_initialized \<le> c_file_state (chains w c)) (throw (Xc ''SCHEDULER-148''))"

definition append_node :: "nat \<Rightarrow> nat \<Rightarrow> order_world \<Rightarrow> order_world" where
  "append_node c n = set_chain c (\<lambda>x. x\<lparr>c_node_list := c_node_list x @ [n]\<rparr>)"

definition absolute_job_path :: "order_world \<Rightarrow> nat \<Rightarrow> string \<Rightarrow> string result" where
  "absolute_job_path w c job_path =
     bind_r (folder_path (c_path (chains w c))) (\<lambda>folder.
     bind_r (absolute_path folder job_path) (absolute_path folder))"

definition add_job_node ::
  "nat \<Rightarrow> nat \<Rightarrow> string \<Rightarrow> order_state \<Rightarrow> order_state \<Rightarrow> order_state \<Rightarrow> string \<Rightarrow> (order_world, unit) operation" where
  "add_job_node c n job_path s next_s error_s on_error =
     steps
       [assert_chain_not_initialized c,
        when_s (\<lambda>_. job_path = []) (throw (Xc ''add_job_node'')),
        bind_s (try_s (\<lambda>w. absolute_job_path w c job_path)) (\<lambda>path.
          steps
            [create_node c n N_job (if s = Missing_state then State_name job_path else s),
             apply_s (set_node n (\<lambda>x. x\<lparr>n_path := path\<rparr>)),
             apply_s (node_set_next_state n next_s),
             apply_s (node_set_error_state n error_s),
             apply_s (set_node n (\<lambda>x. x\<lparr>n_on_error_suspend := (on_error = ''suspend''),
                                        n_on_error_setback := (on_error = ''setback'')\<rparr>)),
             apply_s (append_node c n)])]"

text \<open>A node that has the state already is appended once more.\<close>

definition add_end_node :: "nat \<Rightarrow> nat \<Rightarrow> order_state \<Rightarrow> (order_world, unit) operation" where
  "add_end_node c n s =
     steps
       [assert_chain_not_initialized c,
        bind_s (read_s (\<lambda>w. node_from_state_or_null w c s)) (\<lambda>old. case old of
          Some m \<Rightarrow> apply_s (append_node c m)
        | None \<Rightarrow> steps
            [create_node c n N_end s,
             apply_s (node_set_next_state n (normalized_state (State_name []))),
             apply_s (node_set_error_state n (normalized_state (State_name []))),
             apply_s (append_node c n)])]"

section \<open>Next states\<close>

definition default_end_state_name :: string where
  "default_end_state_name = ''<END_STATE>''"

text \<open>The end node that is missing, then the loop over the nodes; \<open>next\<close> is the node that follows in the list.\<close>

definition add_missing_end :: "nat \<Rightarrow> nat \<Rightarrow> (order_world, unit) operation" where
  "add_missing_end c e =
     when_s (\<lambda>w. c_node_list (chains w c) \<noteq> [] \<and>
         (let l = nodes w (last (c_node_list (chains w c)))
          in \<not> is_type (n_type l) N_end \<and> n_next_state l = Missing_state))
       (add_end_node c e (State_name default_end_state_name))"

definition fill_next_state :: "nat option \<Rightarrow> nat \<Rightarrow> order_world \<Rightarrow> order_world" where
  "fill_next_state next_node n w =
     (case next_node of
        None \<Rightarrow> w
      | Some m \<Rightarrow>
          if n_next_state (nodes w n) = Missing_state
             \<and> (is_type (n_type (nodes w n)) N_order_queue \<or> is_type (n_type (nodes w n)) N_job_chain)
          then set_node n (\<lambda>x. x\<lparr>n_next_state := n_order_state (nodes w m)\<rparr>) w else w)"

definition find_next_node :: "nat \<Rightarrow> nat \<Rightarrow> (order_world, unit) operation" where
  "find_next_node c n =
     if_s (\<lambda>w. is_null_or_empty_state (n_next_state (nodes w n)))
       (apply_s (set_node n (\<lambda>x. x\<lparr>n_next_state := Empty_state\<rparr>)))
       (bind_s (try_s (\<lambda>w. node_from_state w c (n_next_state (nodes w n))))
          (\<lambda>m. apply_s (set_node n (\<lambda>x. x\<lparr>n_next_node := Some m\<rparr>))))"

definition find_error_node :: "nat \<Rightarrow> nat \<Rightarrow> (order_world, unit) operation" where
  "find_error_node c n =
     if_s (\<lambda>w. is_null_or_empty_state (n_error_state (nodes w n)))
       (apply_s (set_node n (\<lambda>x. x\<lparr>n_error_state := Empty_state\<rparr>)))
       (bind_s (try_s (\<lambda>w. node_from_state w c (n_error_state (nodes w n))))
          (\<lambda>m. apply_s (set_node n (\<lambda>x. x\<lparr>n_error_node := Some m\<rparr>))))"

definition fill_node :: "nat \<Rightarrow> nat option \<Rightarrow> nat \<Rightarrow> (order_world, unit) operation" where
  "fill_node c next_node n =
     when_s (\<lambda>w. \<not> is_type (n_type (nodes w n)) N_file_order_sink)
       (steps [apply_s (fill_next_state next_node n), find_next_node c n, find_error_node c n])"

fun fill_nodes :: "nat \<Rightarrow> nat list \<Rightarrow> (order_world, unit) operation" where
  "fill_nodes c [] = ret ()"
| "fill_nodes c (n # ns) = steps [fill_node c (case ns of [] \<Rightarrow> None | m # _ \<Rightarrow> Some m) n, fill_nodes c ns]"

definition fill_holes :: "nat \<Rightarrow> nat \<Rightarrow> (order_world, unit) operation" where
  "fill_holes c e =
     steps [add_missing_end c e, bind_s (read_s (\<lambda>w. c_node_list (chains w c))) (fill_nodes c)]"

section \<open>The check of skipped nodes\<close>

text \<open>The loop of \<^verbatim>\<open>check_job_chain_node\<close>, with the nodes that it has seen. \<open>None\<close> would be a loop without an end.\<close>

partial_function (option) follow_checked :: "order_world \<Rightarrow> nat \<Rightarrow> nat list \<Rightarrow> nat \<Rightarrow> unit result option" where
  "follow_checked w c node_set n =
     (if n_action (nodes w n) = Act_next_state then
        (case node_from_state w c (n_next_state (nodes w n)) of
           Inl e \<Rightarrow> Some (Inl e)
         | Inr m \<Rightarrow>
             if m \<in> set (n # node_set) then Some (Inl (Xc ''SCHEDULER-403''))
             else follow_checked w c (n # node_set) m)
      else Some (Inr ()))"

definition check_job_chain_node :: "order_world \<Rightarrow> nat \<Rightarrow> nat \<Rightarrow> unit result option" where
  "check_job_chain_node w c n =
     map_option (case_sum (\<lambda>_. Inl (Xc ''SCHEDULER-406'')) Inr) (follow_checked w c [] n)"

definition check_node :: "nat \<Rightarrow> nat \<Rightarrow> (order_world, unit) operation" where
  "check_node c n =
     try_s (\<lambda>w. case check_job_chain_node w c n of None \<Rightarrow> Inl (Assertion ''check_job_chain_node'') | Some r \<Rightarrow> r)"

section \<open>Initializing and activating\<close>

text \<open>The jobs by their paths, if they are loaded, whether a job accepts a node, the order sources of the job
  chain, and the file based orders of a job chain.\<close>

record chain_hooks =
  loaded_job :: "string \<Rightarrow> nat option"
  connect_job_node :: "nat \<Rightarrow> nat \<Rightarrow> bool result"
  initialize_sources :: "nat \<Rightarrow> (order_world, unit) operation"
  activate_sources :: "nat \<Rightarrow> (order_world, unit) operation"
  standing_orders :: "nat \<Rightarrow> nat list"

definition node_base_initialize :: "nat \<Rightarrow> (order_world, unit) operation" where
  "node_base_initialize n =
     when_s (\<lambda>w. n_state (nodes w n) \<noteq> Ns_initialized)
       (steps
         [assert_s ''Node::initialize'' (\<lambda>w. n_state (nodes w n) = Ns_none),
          apply_s (set_node n (\<lambda>x. x\<lparr>n_state := Ns_initialized\<rparr>))])"

text \<open>A nested job chain must be another one, not distributed, and without nested job chains itself.\<close>

definition check_nested :: "nat \<Rightarrow> order_world \<Rightarrow> bool result" where
  "check_nested n w =
     (case chain_of_path w (n_path (nodes w n)) of
        None \<Rightarrow> Inr False
      | Some c \<Rightarrow>
          if c = n_job_chain (nodes w n) then Inl (Xc ''SCHEDULER-414'')
          else if c_is_distributed (chains w c) then Inl (Xc ''SCHEDULER-413'')
          else if list_ex (\<lambda>m. is_type (n_type (nodes w m)) N_job_chain) (c_node_list (chains w c))
            then Inl (Xc ''SCHEDULER-412'')
          else Inr True)"

definition node_initialize :: "nat \<Rightarrow> (order_world, bool) operation" where
  "node_initialize n =
     bind_s
       (steps
         [node_base_initialize n,
          when_s (\<lambda>w. is_type (n_type (nodes w n)) N_job \<or> is_type (n_type (nodes w n)) N_job_chain)
            (apply_s (\<lambda>w. signal (Node_requisite n (n_path (nodes w n))) w))])
       (\<lambda>_. if_s (\<lambda>w. is_type (n_type (nodes w n)) N_job_chain) (try_s (check_nested n)) (ret True))"

fun initialize_nodes :: "nat list \<Rightarrow> (order_world, bool) operation" where
  "initialize_nodes [] = ret True"
| "initialize_nodes (n # ns) = bind_s (node_initialize n) (\<lambda>ok. if ok then initialize_nodes ns else ret False)"

definition chain_on_initialize :: "chain_hooks \<Rightarrow> nat \<Rightarrow> nat \<Rightarrow> (order_world, bool) operation" where
  "chain_on_initialize h c e =
     if_s (\<lambda>w. c_state (chains w c) \<noteq> Cs_under_construction) (ret False)
       (bind_s (fill_holes c e) (\<lambda>_.
        bind_s (bind_s (read_s (\<lambda>w. c_node_list (chains w c))) initialize_nodes) (\<lambda>ok.
          if \<not> ok then ret False
          else bind_s
            (steps
              [bind_s (read_s (\<lambda>w. c_node_list (chains w c))) (\<lambda>ns. steps (map (check_node c) ns)),
               initialize_sources h c,
               chain_set_state c Cs_initialized])
            (\<lambda>_. ret True))))"

definition connect_job :: "chain_hooks \<Rightarrow> nat \<Rightarrow> nat \<Rightarrow> (order_world, unit) operation" where
  "connect_job h n j =
     when_s (\<lambda>w. n_state (nodes w n) \<noteq> Ns_none)
       (bind_s (try_s (\<lambda>_. connect_job_node h j n))
         (\<lambda>ok. when_s (\<lambda>_. ok) (apply_s (set_node n (\<lambda>x. x\<lparr>n_job := Some j\<rparr>)))))"

definition disconnect_job :: "nat \<Rightarrow> order_world \<Rightarrow> order_world" where
  "disconnect_job n = set_node n (\<lambda>x. x\<lparr>n_job := None\<rparr>)"

definition node_activate :: "chain_hooks \<Rightarrow> nat \<Rightarrow> (order_world, unit) operation" where
  "node_activate h n =
     steps
       [when_s (\<lambda>w. is_type (n_type (nodes w n)) N_job)
          (bind_s (read_s (\<lambda>w. loaded_job h (n_path (nodes w n)))) (\<lambda>job. case job of
             None \<Rightarrow> ret ()
           | Some j \<Rightarrow> logged (connect_job h n j))),
        when_s (\<lambda>w. n_state (nodes w n) \<noteq> Ns_active)
          (steps
            [assert_s ''Node::activate'' (\<lambda>w. n_state (nodes w n) = Ns_initialized),
             apply_s (set_node n (\<lambda>x. x\<lparr>n_state := Ns_active\<rparr>))])]"

definition chain_on_activate :: "chain_hooks \<Rightarrow> nat \<Rightarrow> (order_world, bool) operation" where
  "chain_on_activate h c =
     if_s (\<lambda>w. \<not> c_to_be_removed (chains w c) \<and> chain_rank (c_state (chains w c)) < chain_rank Cs_active)
       (bind_s
         (steps
           [chain_set_state c Cs_active,
            bind_s (read_s (\<lambda>w. c_node_list (chains w c))) (\<lambda>ns. steps (map (node_activate h) ns)),
            activate_sources h c])
         (\<lambda>_. ret True))
       (ret False)"

section \<open>The action of a node\<close>

definition chain_of_node :: "order_world \<Rightarrow> nat \<Rightarrow> nat" where
  "chain_of_node w n = n_job_chain (nodes w n)"

definition chain_is_running :: "nat \<Rightarrow> order_world \<Rightarrow> bool" where
  "chain_is_running n w = (chain_rank Cs_active \<le> chain_rank (c_state (chains w (chain_of_node w n))))"

text \<open>\<^verbatim>\<open>Node::set_action\<close>: the action is changed before it is checked.\<close>

definition base_set_action :: "nat \<Rightarrow> node_action \<Rightarrow> (order_world, bool) operation" where
  "base_set_action n a =
     if_s (\<lambda>w. n_action (nodes w n) \<noteq> a)
       (bind_s
         (steps
           [apply_s (set_node n (\<lambda>x. x\<lparr>n_action := a\<rparr>)),
            when_s (chain_is_running n) (bind_s (read_s (\<lambda>w. chain_of_node w n)) (\<lambda>c. check_node c n))])
         (\<lambda>_. ret True))
       (ret False)"

text \<open>An order of a file whose initial state was skipped to an end is in no queue; it gets its place back.\<close>

definition home_state :: "order_world \<Rightarrow> nat \<Rightarrow> nat \<Rightarrow> order_state option" where
  "home_state w c i =
     (case referenced_node_from_state w c (o_initial_state (orders w i)) of
        Inl e \<Rightarrow> None
      | Inr m \<Rightarrow> if is_type (n_type (nodes w m)) N_order_queue then Some (n_order_state (nodes w m)) else None)"

definition return_home :: "life_hooks \<Rightarrow> nat \<Rightarrow> nat \<Rightarrow> (order_world, unit) operation" where
  "return_home l c i =
     when_s (\<lambda>w. \<not> o_is_touched (orders w i) \<and> \<not> is_queued i w)
       (steps
         [apply_s (set_order i (\<lambda>x. x\<lparr>o_is_success_state := True\<rparr>)),
          bind_s (read_s (\<lambda>w. home_state w c i)) (\<lambda>home. case home of
            None \<Rightarrow> ret ()
          | Some s \<Rightarrow> set_state (handle_end_state l end_state_calls) i s)])"

definition waiting_orders :: "order_world \<Rightarrow> nat \<Rightarrow> nat list" where
  "waiting_orders w n =
     filter (\<lambda>i. state_eq (o_state (orders w i)) (n_order_state (nodes w n)) \<and> o_task (orders w i) = None)
       (n_queue (nodes w n))"

definition skip_order :: "life_hooks \<Rightarrow> order_state \<Rightarrow> nat \<Rightarrow> (order_world, unit) operation" where
  "skip_order l s i =
     steps
       [apply_s (set_order i (\<lambda>x. x\<lparr>o_is_success_state := True\<rparr>)),
        set_state1 (handle_end_state l end_state_calls) i s]"

definition skip_node :: "life_hooks \<Rightarrow> nat \<Rightarrow> (order_world, unit) operation" where
  "skip_node l n =
     bind_s (try_s (\<lambda>w. referenced_node_from_state w (chain_of_node w n) (n_order_state (nodes w n)))) (\<lambda>m.
     bind_s (read_s (\<lambda>w. (n_order_state (nodes w m), waiting_orders w n))) (\<lambda>(s, waiting).
       steps
         [steps (map (skip_order l s) waiting),
          when_s (\<lambda>w. is_type (n_type (nodes w m)) N_job) (apply_s (tell_job_of_node m))]))"

definition queue_set_action :: "chain_hooks \<Rightarrow> life_hooks \<Rightarrow> nat \<Rightarrow> node_action \<Rightarrow> (order_world, bool) operation" where
  "queue_set_action h l n a =
     bind_s (read_s (\<lambda>w. n_action (nodes w n))) (\<lambda>previous_action.
     bind_s (base_set_action n a) (\<lambda>ok.
     bind_s
       (when_s (\<lambda>w. ok \<and> chain_is_running n w)
         (steps
           [when_s (\<lambda>_. previous_action = Act_next_state)
              (bind_s (read_s (\<lambda>w. chain_of_node w n)) (\<lambda>c. steps (map (return_home l c) (standing_orders h c)))),
            when_s (\<lambda>_. a = Act_next_state) (skip_node l n)]))
       (\<lambda>_. ret ok)))"

definition job_set_action :: "chain_hooks \<Rightarrow> life_hooks \<Rightarrow> nat \<Rightarrow> node_action \<Rightarrow> (order_world, bool) operation" where
  "job_set_action h l n a =
     bind_s (queue_set_action h l n a) (\<lambda>ok.
     bind_s (when_s (\<lambda>w. ok \<and> chain_is_running n w \<and> a = Act_process) (wake_node n)) (\<lambda>_. ret ok))"

definition node_set_action :: "chain_hooks \<Rightarrow> life_hooks \<Rightarrow> nat \<Rightarrow> node_action \<Rightarrow> (order_world, bool) operation" where
  "node_set_action h l n a =
     if_s (\<lambda>w. is_type (n_type (nodes w n)) N_job) (job_set_action h l n a)
       (if_s (\<lambda>w. is_type (n_type (nodes w n)) N_order_queue) (queue_set_action h l n a) (base_set_action n a))"

section \<open>Where skipping leads\<close>

definition skips :: "order_world \<Rightarrow> nat \<Rightarrow> nat \<Rightarrow> nat \<Rightarrow> bool" where
  "skips w c n m = (n_action (nodes w n) = Act_next_state \<and> node_from_state w c (n_next_state (nodes w n)) = Inr m)"

text \<open>Skipping from \<open>n\<close> ends at the node \<open>m\<close>, which is not skipped itself.\<close>

definition leads_to :: "order_world \<Rightarrow> nat \<Rightarrow> nat \<Rightarrow> nat \<Rightarrow> bool" where
  "leads_to w c n m = ((skips w c)\<^sup>*\<^sup>* n m \<and> n_action (nodes w m) \<noteq> Act_next_state)"

lemma node_from_state_in_chain: "node_from_state w c s = Inr n \<Longrightarrow> n \<in> set (c_node_list (chains w c))"
  by (auto simp: node_from_state_def node_from_state_or_null_def find_Some_iff split: option.splits if_splits)

lemma skips_target: "skips w c n m \<Longrightarrow> m \<in> set (c_node_list (chains w c))"
  by (auto simp: skips_def dest: node_from_state_in_chain)

lemma skips_unique: "skips w c n m \<Longrightarrow> skips w c n m' \<Longrightarrow> m = m'"
  by (simp add: skips_def)

text \<open>From a node on a cycle, nothing but the cycle is reached.\<close>

lemma cycle_returns:
  assumes "(skips w c)\<^sup>+\<^sup>+ n n" "(skips w c)\<^sup>*\<^sup>* n m"
  shows "(skips w c)\<^sup>+\<^sup>+ m n"
  using assms(2)
proof induction
  case (step m m')
  from step.IH obtain x where x: "skips w c m x" "(skips w c)\<^sup>*\<^sup>* x n"
    by (auto dest: tranclpD)
  then have "(skips w c)\<^sup>*\<^sup>* m' n" using skips_unique step.hyps(2) by metis
  then show ?case using assms(1) by (metis rtranclpD)
qed (rule assms(1))

lemma cycle_has_no_end: "(skips w c)\<^sup>+\<^sup>+ n n \<Longrightarrow> \<not> leads_to w c n m"
proof
  assume "(skips w c)\<^sup>+\<^sup>+ n n" "leads_to w c n m"
  then have "(skips w c)\<^sup>+\<^sup>+ m n" "n_action (nodes w m) \<noteq> Act_next_state"
    using cycle_returns by (simp_all add: leads_to_def)
  then show False using tranclpD [of "skips w c" m n] by (auto simp: skips_def)
qed

lemma leads_to_step: "skips w c n m \<Longrightarrow> leads_to w c n e \<longleftrightarrow> leads_to w c m e"
proof
  assume skip: "skips w c n m" and "leads_to w c n e"
  then have "(skips w c)\<^sup>*\<^sup>* n e" "n \<noteq> e" by (auto simp: leads_to_def skips_def)
  then obtain x where "skips w c n x" "(skips w c)\<^sup>*\<^sup>* x e" by (blast elim: converse_rtranclpE)
  then show "leads_to w c m e" using skip skips_unique \<open>leads_to w c n e\<close> unfolding leads_to_def by metis
qed (auto simp: leads_to_def intro: converse_rtranclp_into_rtranclp)

lemma leads_to_stop: "n_action (nodes w n) \<noteq> Act_next_state \<Longrightarrow> leads_to w c n n"
  by (simp add: leads_to_def)

text \<open>Induction along the loop: it comes to a node that it has not seen, as long as there is one.\<close>

lemma follow_checked_induct [consumes 1, case_names stop missing cycle walk]:
  assumes "n \<notin> set seen"
    and stop: "\<And>seen n. n_action (nodes w n) \<noteq> Act_next_state \<Longrightarrow> P seen n (Inr ())"
    and missing: "\<And>seen n e. n_action (nodes w n) = Act_next_state \<Longrightarrow> node_from_state w c (n_next_state (nodes w n)) = Inl e
      \<Longrightarrow> P seen n (Inl e)"
    and cycle: "\<And>seen n m. skips w c n m \<Longrightarrow> m \<in> set (n # seen) \<Longrightarrow> P seen n (Inl (Xc ''SCHEDULER-403''))"
    and walk: "\<And>seen n m r. skips w c n m \<Longrightarrow> m \<notin> set (n # seen) \<Longrightarrow> P (n # seen) m r \<Longrightarrow> P seen n r"
  obtains r where "follow_checked w c seen n = Some r" "P seen n r"
proof -
  have "\<exists>r. follow_checked w c seen n = Some r \<and> P seen n r"
    if "set seen \<union> {n} \<subseteq> S" "finite S" "set (c_node_list (chains w c)) \<subseteq> S" "n \<notin> set seen" for S
    using that
  proof (induction "card (S - set seen)" arbitrary: seen n rule: less_induct)
    case less
    show ?case
    proof (cases "n_action (nodes w n) = Act_next_state")
      case False
      then show ?thesis using stop by (subst follow_checked.simps) simp
    next
      case next_state: True
      show ?thesis
      proof (cases "node_from_state w c (n_next_state (nodes w n))")
        case (Inl e)
        then show ?thesis using next_state missing by (subst follow_checked.simps) simp
      next
        case (Inr m)
        then have skip: "skips w c n m" using next_state by (simp add: skips_def)
        show ?thesis
        proof (cases "m \<in> set (n # seen)")
          case True
          then show ?thesis using Inr next_state cycle [OF skip True] by (subst follow_checked.simps) simp
        next
          case new: False
          have "S - set (n # seen) \<subset> S - set seen" using less.prems by auto
          then have "card (S - set (n # seen)) < card (S - set seen)"
            using less.prems(2) by (simp add: psubset_card_mono)
          then have "\<exists>r. follow_checked w c (n # seen) m = Some r \<and> P (n # seen) m r"
            using less.prems new node_from_state_in_chain [OF Inr] by (intro less.hyps) auto
          then show ?thesis using Inr next_state new walk [OF skip new] by (subst follow_checked.simps) auto
        qed
      qed
    qed
  qed
  from this [of "insert n (set seen \<union> set (c_node_list (chains w c)))"] assms(1) that show ?thesis by auto
qed

text \<open>The check is passed exactly where skipping leads to a node.\<close>

lemma follow_checked_iff:
  assumes "n \<notin> set seen" "\<forall>s \<in> set seen. (skips w c)\<^sup>*\<^sup>* s n"
  obtains r where "follow_checked w c seen n = Some r" "r = Inr () \<longleftrightarrow> (\<exists>m. leads_to w c n m)"
proof -
  have "\<exists>r. follow_checked w c seen n = Some r \<and>
      ((\<forall>s \<in> set seen. (skips w c)\<^sup>*\<^sup>* s n) \<longrightarrow> (r = Inr () \<longleftrightarrow> (\<exists>m. leads_to w c n m)))"
    using assms(1)
  proof (induction rule: follow_checked_induct [where
        P = "\<lambda>seen n r. (\<forall>s \<in> set seen. (skips w c)\<^sup>*\<^sup>* s n) \<longrightarrow> (r = Inr () \<longleftrightarrow> (\<exists>m. leads_to w c n m))" and w = w and c = c])
    case (missing seen n e)
    then have "\<not> skips w c n m" for m by (simp add: skips_def)
    then have "\<not> leads_to w c n m" for m
      using missing(1) unfolding leads_to_def by (auto elim: converse_rtranclpE)
    then show ?case by simp
  next
    case (cycle seen n m)
    show ?case
    proof
      assume "\<forall>s \<in> set seen. (skips w c)\<^sup>*\<^sup>* s n"
      then have "(skips w c)\<^sup>*\<^sup>* m n" using cycle(2) by auto
      then have "(skips w c)\<^sup>+\<^sup>+ n n" using cycle(1) by (rule rtranclp_into_tranclp2 [rotated])
      then show "(Inl (Xc ''SCHEDULER-403'') :: unit result) = Inr () \<longleftrightarrow> (\<exists>m. leads_to w c n m)"
        using cycle_has_no_end by simp
    qed
  next
    case (walk seen n m r)
    then show ?case using leads_to_step [OF walk(1)] by (auto intro: rtranclp.rtrancl_into_rtrancl)
  qed (auto intro: leads_to_stop)
  then show ?thesis using that assms(2) by blast
qed

text \<open>The loop of \<^verbatim>\<open>referenced_node_from_state\<close> comes to the same node, if its counter lasts.\<close>

lemma follow_checked_target:
  assumes "follow_checked w c seen n = Some (Inr ())" "distinct (n # seen)" "set (n # seen) \<subseteq> set (c_node_list (chains w c))"
    and "card (set (c_node_list (chains w c))) \<le> k"
  shows "\<exists>m. follow_next_state w c (k - length seen) n = Inr m \<and> leads_to w c n m"
proof -
  have "\<exists>r. follow_checked w c seen n = Some r \<and>
      (r = Inr () \<longrightarrow> distinct (n # seen) \<longrightarrow> set (n # seen) \<subseteq> set (c_node_list (chains w c)) \<longrightarrow>
       (\<exists>m. follow_next_state w c (k - length seen) n = Inr m \<and> leads_to w c n m))"
    (is "\<exists>r. _ \<and> ?P seen n r")
  proof (rule follow_checked_induct [where P = ?P and w = w and c = c])
    show "n \<notin> set seen" using assms(2) by simp
    have enough: "length (n # seen) \<le> k" if "distinct (n # seen)" "set (n # seen) \<subseteq> set (c_node_list (chains w c))" for seen n
      using that assms(4) card_mono [of "set (c_node_list (chains w c))" "set (n # seen)"] distinct_card [of "n # seen"] by simp
    show "?P seen n (Inr ())" if "n_action (nodes w n) \<noteq> Act_next_state" for seen n
    proof (intro impI)
      assume "distinct (n # seen)" "set (n # seen) \<subseteq> set (c_node_list (chains w c))"
      then have "0 < k - length seen" using enough [of n seen] by simp
      then obtain j where "k - length seen = Suc j" by (cases "k - length seen") auto
      then show "\<exists>m. follow_next_state w c (k - length seen) n = Inr m \<and> leads_to w c n m"
        using that leads_to_stop by auto
    qed
    show "?P seen n r" if walk: "skips w c n m" "m \<notin> set (n # seen)" "?P (n # seen) m r" for seen n m r
    proof (intro impI)
      assume r: "r = Inr ()" and d: "distinct (n # seen)" "set (n # seen) \<subseteq> set (c_node_list (chains w c))"
      have d': "distinct (m # n # seen)" "set (m # n # seen) \<subseteq> set (c_node_list (chains w c))"
        using d walk(1,2) skips_target by auto
      then obtain e where e: "follow_next_state w c (k - length (n # seen)) m = Inr e" "leads_to w c m e"
        using walk(3) r by blast
      have "length (n # seen) < k" using enough [OF d'] by simp
      then obtain j where "k = Suc (length (n # seen) + j)" by (auto dest: less_imp_Suc_add)
      then have "follow_next_state w c (k - length seen) n = Inr e"
        using e(1) walk(1) by (simp add: skips_def)
      then show "\<exists>m. follow_next_state w c (k - length seen) n = Inr m \<and> leads_to w c n m"
        using e(2) leads_to_step [OF walk(1)] by blast
    qed
  qed simp_all
  then show ?thesis using assms(1-3) by auto
qed

section \<open>A job chain that has been initialized\<close>

text \<open>The next state and the error state of a node are empty, or its links lead to the nodes of these states.\<close>

definition node_linked :: "order_world \<Rightarrow> nat \<Rightarrow> nat \<Rightarrow> bool" where
  "node_linked w c n =
     ((n_next_state (nodes w n) = Empty_state \<or>
        (\<exists>m. n_next_node (nodes w n) = Some m \<and> node_from_state w c (n_next_state (nodes w n)) = Inr m))
      \<and> (n_error_state (nodes w n) = Empty_state \<or>
        (\<exists>m. n_error_node (nodes w n) = Some m \<and> node_from_state w c (n_error_state (nodes w n)) = Inr m)))"

definition nodes_linked :: "order_world \<Rightarrow> nat \<Rightarrow> nat list \<Rightarrow> bool" where
  "nodes_linked w c ns = (\<forall>n \<in> set ns. \<not> is_type (n_type (nodes w n)) N_file_order_sink \<longrightarrow> node_linked w c n)"

text \<open>The states, the types and the order of the nodes stay as they are.\<close>

definition same_layout :: "order_world \<Rightarrow> order_world \<Rightarrow> bool" where
  "same_layout w w' =
     ((\<forall>n. n_order_state (nodes w' n) = n_order_state (nodes w n) \<and> n_type (nodes w' n) = n_type (nodes w n))
      \<and> (\<forall>c. c_node_list (chains w' c) = c_node_list (chains w c)))"

lemma same_layout_refl: "same_layout w w"
  by (simp add: same_layout_def)

lemma same_layout_trans: "same_layout w w1 \<Longrightarrow> same_layout w1 w2 \<Longrightarrow> same_layout w w2"
  by (simp add: same_layout_def)

lemma same_layout_from_state: "same_layout w w' \<Longrightarrow> node_from_state w' c s = node_from_state w c s"
  by (simp add: same_layout_def node_from_state_def node_from_state_or_null_def)

lemma same_layout_set_node: "(\<And>x. n_order_state (f x) = n_order_state x \<and> n_type (f x) = n_type x) \<Longrightarrow> same_layout w (set_node n f w)"
  by (simp add: same_layout_def world_simps)

text \<open>What the node says of its next nodes is the same.\<close>

definition same_links :: "node \<Rightarrow> node \<Rightarrow> bool" where
  "same_links x y = (n_next_state x = n_next_state y \<and> n_error_state x = n_error_state y
     \<and> n_next_node x = n_next_node y \<and> n_error_node x = n_error_node y)"

lemma linked_cong: "same_layout w w' \<Longrightarrow> same_links (nodes w' n) (nodes w n) \<Longrightarrow> node_linked w' c n = node_linked w c n"
  by (simp add: node_linked_def same_links_def same_layout_from_state)

lemma find_next_ok:
  assumes "find_next_node c n w = (Inr (), w')"
  shows "same_layout w w' \<and> (\<forall>m. m \<noteq> n \<longrightarrow> nodes w' m = nodes w m)
    \<and> n_error_state (nodes w' n) = n_error_state (nodes w n) \<and> n_error_node (nodes w' n) = n_error_node (nodes w n)
    \<and> (n_next_state (nodes w' n) = Empty_state \<or>
        (\<exists>m. n_next_node (nodes w' n) = Some m \<and> node_from_state w' c (n_next_state (nodes w' n)) = Inr m))"
proof (cases "is_null_or_empty_state (n_next_state (nodes w n))")
  case True
  then have "w' = set_node n (\<lambda>x. x\<lparr>n_next_state := Empty_state\<rparr>) w"
    using assms by (simp add: find_next_node_def if_s_def apply_s_def)
  then show ?thesis by (auto simp: world_simps intro: same_layout_set_node)
next
  case False
  then obtain m where m: "node_from_state w c (n_next_state (nodes w n)) = Inr m"
    and w': "w' = set_node n (\<lambda>x. x\<lparr>n_next_node := Some m\<rparr>) w"
    using assms by (auto simp: find_next_node_def if_s_def bind_s_def try_s_def apply_s_def split: sum.splits)
  have "same_layout w w'" unfolding w' by (rule same_layout_set_node) simp
  then show ?thesis using m w' by (auto simp: world_simps same_layout_from_state)
qed

lemma find_error_ok:
  assumes "find_error_node c n w = (Inr (), w')"
  shows "same_layout w w' \<and> (\<forall>m. m \<noteq> n \<longrightarrow> nodes w' m = nodes w m)
    \<and> n_next_state (nodes w' n) = n_next_state (nodes w n) \<and> n_next_node (nodes w' n) = n_next_node (nodes w n)
    \<and> (n_error_state (nodes w' n) = Empty_state \<or>
        (\<exists>m. n_error_node (nodes w' n) = Some m \<and> node_from_state w' c (n_error_state (nodes w' n)) = Inr m))"
proof (cases "is_null_or_empty_state (n_error_state (nodes w n))")
  case True
  then have "w' = set_node n (\<lambda>x. x\<lparr>n_error_state := Empty_state\<rparr>) w"
    using assms by (simp add: find_error_node_def if_s_def apply_s_def)
  then show ?thesis by (auto simp: world_simps intro: same_layout_set_node)
next
  case False
  then obtain m where m: "node_from_state w c (n_error_state (nodes w n)) = Inr m"
    and w': "w' = set_node n (\<lambda>x. x\<lparr>n_error_node := Some m\<rparr>) w"
    using assms by (auto simp: find_error_node_def if_s_def bind_s_def try_s_def apply_s_def split: sum.splits)
  have "same_layout w w'" unfolding w' by (rule same_layout_set_node) simp
  then show ?thesis using m w' by (auto simp: world_simps same_layout_from_state)
qed

lemma fill_node_ok:
  assumes "fill_node c next_node n w = (Inr (), w')"
  shows "same_layout w w' \<and> (\<forall>m. m \<noteq> n \<longrightarrow> nodes w' m = nodes w m) \<and> nodes_linked w' c [n]"
proof (cases "is_type (n_type (nodes w n)) N_file_order_sink")
  case True
  then show ?thesis using assms by (simp add: fill_node_def when_s_def same_layout_refl nodes_linked_def)
next
  case False
  let ?w1 = "fill_next_state next_node n w"
  have filled: "same_layout w ?w1" "\<And>m. m \<noteq> n \<Longrightarrow> nodes ?w1 m = nodes w m"
    by (auto simp: fill_next_state_def world_simps same_layout_refl intro: same_layout_set_node split: option.splits)
  obtain w2 where w2: "find_next_node c n ?w1 = (Inr (), w2)" "find_error_node c n w2 = (Inr (), w')"
    using assms False by (auto simp: fill_node_def when_s_def apply_s_def split: prod.splits sum.splits)
  note next_ok = find_next_ok [OF w2(1)] and error_ok = find_error_ok [OF w2(2)]
  have "same_layout w w'" using filled(1) next_ok error_ok same_layout_trans by metis
  moreover have "node_from_state w' c (n_next_state (nodes w2 n)) = node_from_state w2 c (n_next_state (nodes w2 n))"
    using error_ok same_layout_from_state by metis
  then have "node_linked w' c n" using next_ok error_ok by (auto simp: node_linked_def)
  ultimately show ?thesis using filled(2) next_ok error_ok by (auto simp: nodes_linked_def)
qed

lemma fill_nodes_ok:
  "fill_nodes c ns w = (Inr (), w') \<Longrightarrow> same_layout w w' \<and> (\<forall>m. m \<notin> set ns \<longrightarrow> nodes w' m = nodes w m) \<and> nodes_linked w' c ns"
proof (induction ns arbitrary: w)
  case (Cons n ns)
  obtain w1 where w1: "fill_node c (case ns of [] \<Rightarrow> None | m # _ \<Rightarrow> Some m) n w = (Inr (), w1)" "fill_nodes c ns w1 = (Inr (), w')"
    using Cons.prems by (auto split: prod.splits sum.splits)
  note first = fill_node_ok [OF w1(1)] and rest = Cons.IH [OF w1(2)]
  have "nodes_linked w' c [n]"
  proof (cases "n \<in> set ns")
    case True
    then show ?thesis using rest by (simp add: nodes_linked_def)
  next
    case False
    then have same: "nodes w' n = nodes w1 n" "same_layout w1 w'" using rest by simp_all
    then have "node_linked w' c n = node_linked w1 c n" by (intro linked_cong) (simp_all add: same_links_def)
    then show ?thesis using first same by (simp add: nodes_linked_def)
  qed
  then show ?case using first rest same_layout_trans by (auto simp: nodes_linked_def)
qed (simp add: ret_def same_layout_refl nodes_linked_def)

end
