(* ===== verification/Order_System.thy ===== *)
theory Order_System
  imports Order_Nested Chain_Setup
begin

text \<open>
  The calls by which jobs, tasks and commands change orders and job chains, as one step relation, and what
  holds in all worlds that are reached by such steps.
\<close>

section \<open>Fetching keeps the invariant\<close>

lemma search_queue_Some: "search_queue w u now q = Inr (Some i) \<Longrightarrow> startable w u now i = Inr True"
  by (induction q) (auto simp: startable_def bind_r_Inr_iff split: if_splits)

lemma same_queues_started:
  "o_setback (orders w i) = Time 0 \<Longrightarrow> same_queues w (set_order i (\<lambda>x. x\<lparr>o_setback := Time 0\<rparr>) w)"
  by (simp add: same_queues_def world_simps place_def place_of_def fun_eq_iff)

lemma setback_over_ok:
  assumes "queues_ok srt w" "o_setback (orders w i) \<le> clock w"
  shows "queues_ok srt (set_order i (\<lambda>x. x\<lparr>o_setback := Time 0\<rparr>) w)"
proof -
  let ?w = "set_order i (\<lambda>x. x\<lparr>o_setback := Time 0\<rparr>) w"
  have "members_agree ?w" using assms(1) by (auto simp: queues_ok_def members_agree_def world_simps)
  moreover have "sorted_but {} ?w" if srt
  proof -
    have clock: "Time 0 \<le> clock w" using assms(1) that by (simp add: queues_ok_def sorted_but_def)
    have "queue_sorted (orders ?w) (clock w) q = queue_sorted (orders w) (clock w) q" for q
      by (rule queue_sorted_cong) (use assms(2) clock in \<open>auto simp: world_simps max_def\<close>)
    then show ?thesis using assms(1) that by (simp add: queues_ok_def sorted_but_def world_simps)
  qed
  ultimately show ?thesis by (simp add: queues_ok_def)
qed

lemma hoare_search:
  "hoare (\<lambda>w. queues_ok srt w \<and> now \<le> clock w) (first_immediately_processable_order n u now)
     (\<lambda>res w. queues_ok srt w \<and> (\<forall>i. res = Some i \<longrightarrow> o_setback (orders w i) = Time 0)) (queues_ok srt)"
proof -
  have ok: "queues_ok srt (set_order i (\<lambda>x. x\<lparr>o_setback := Time 0\<rparr>) w)"
    if "queues_ok srt w" "now \<le> clock w" "search_queue w u now (n_queue (nodes w n)) = Inr (Some i)" for w i
    using that setback_over_ok startable_task [OF search_queue_Some] by (meson order_trans)
  show ?thesis
    by (intro hoareI) (auto simp: first_immediately_processable_order_def throw_def ret_def Let_def ok world_simps
        split: sum.splits option.splits if_splits)
qed

lemma hoare_occupy:
  "hoare (\<lambda>w. queues_ok srt w \<and> o_setback (orders w i) = Time 0) (occupy_for_task i task now) (\<lambda>_. queues_ok srt) (queues_ok srt)"
proof -
  have same: "same_queues w (touch i (set_order i (\<lambda>x. x\<lparr>o_setback := Time 0, o_setback_called := False, o_moved := False,
      o_task := Some task, o_start_time := (if o_start_time x = Time 0 then now else o_start_time x)\<rparr>) w))"
    if "o_setback (orders w i) = Time 0" for w
    using that by (auto simp: touch_def Let_def same_queues_def world_simps place_eq_iff)
  show ?thesis
    by (intro hoareI) (auto simp: occupy_for_task_def throw_def ret_def same_queues_ok(1) [OF same] split: if_splits)
qed

text \<open>The hooks of a fetch keep the invariant, and take no time.\<close>

definition order_hooks_keep :: "(order_world \<Rightarrow> bool) \<Rightarrow> order_hooks \<Rightarrow> bool" where
  "order_hooks_keep I h =
     ((\<forall>n w. I w \<longrightarrow> I (check_standing_orders h n w) \<and> clock (check_standing_orders h n w) = clock w)
      \<and> (\<forall>n task u now. keeps I (load_distributed_order h n task u now))
      \<and> (\<forall>i w. I w \<longrightarrow> I (release_db_occupation h i w))
      \<and> (\<forall>n task now. keeps I (fetch_from_sources h n task now)))"

lemma hoare_queue_fetch:
  assumes "order_hooks_keep (queues_ok srt) h"
  shows "hoare (\<lambda>w. queues_ok srt w \<and> now \<le> clock w) (queue_fetch_and_occupy h n task u now) (\<lambda>_. queues_ok srt) (queues_ok srt)"
proof -
  have unoccupied: "queues_ok srt (unoccupy_order h i w)" if "queues_ok srt w" for i w
    using assms that same_queues_ok(1) [OF same_queues_field(1), of srt i None w]
    by (auto simp: unoccupy_order_def Let_def order_hooks_keep_def)
  have "same_queues w (withdraw_distributed_order_request n w)" for w
    unfolding withdraw_distributed_order_request_def by (rule quiet) simp_all
  note withdrawn = same_queues_ok(1) [OF this]
  let ?rest = "\<lambda>loaded w2. case loaded of
                   None \<Rightarrow> ret None w2
                 | Some i \<Rightarrow>
                     if \<not> o_is_distributed (orders w2 i) then throw (Assertion ''fetch_and_occupy_order'') w2
                     else if \<not> state_eq (o_state (orders w2 i)) (o_occupied_state (orders w2 i))
                       then ret None (unoccupy_order h i w2)
                     else ret (Some i) (withdraw_distributed_order_request n w2)"
  have rest: "hoare (queues_ok srt) (?rest loaded) (\<lambda>_. queues_ok srt) (queues_ok srt)" for loaded
    by (intro hoareI) (auto simp: ret_def throw_def unoccupied withdrawn split: option.splits if_splits)
  have loaded: "hoare (queues_ok srt) (bind_s (load_distributed_order h n task u now) ?rest) (\<lambda>_. queues_ok srt) (queues_ok srt)"
    using assms by (intro hoare_bind_s [OF keeps_hoare rest]) (simp add: order_hooks_keep_def)
  let ?found = "\<lambda>found. case found of
          Some i \<Rightarrow> bind_s (occupy_for_task i task now) (\<lambda>_. ret (Some i))
        | None \<Rightarrow> (\<lambda>w1. if n_announced (nodes w1 n) \<le> now then bind_s (load_distributed_order h n task u now) ?rest w1
            else ret None w1)"
  have "hoare (\<lambda>w. queues_ok srt w \<and> (\<forall>i. found = Some i \<longrightarrow> o_setback (orders w i) = Time 0)) (?found found)
      (\<lambda>_. queues_ok srt) (queues_ok srt)" for found
  proof (cases found)
    case None
    have "hoare (queues_ok srt) (if_s (\<lambda>w1. n_announced (nodes w1 n) \<le> now)
        (bind_s (load_distributed_order h n task u now) ?rest) (ret None)) (\<lambda>_. queues_ok srt) (queues_ok srt)"
      by (intro hoare_if_s hoare_weaken [OF loaded] hoare_ret) simp_all
    then show ?thesis using None by (simp add: if_s_def [abs_def])
  next
    case (Some i)
    have "hoare (\<lambda>w. queues_ok srt w \<and> o_setback (orders w i) = Time 0) (bind_s (occupy_for_task i task now) (\<lambda>_. ret (Some i)))
        (\<lambda>_. queues_ok srt) (queues_ok srt)"
      by (rule hoare_bind_s [OF hoare_occupy]) (rule hoare_ret)
    then show ?thesis using Some by simp
  qed
  then have main: "hoare (\<lambda>w. queues_ok srt w \<and> now \<le> clock w) (bind_s (first_immediately_processable_order n u now) ?found)
      (\<lambda>_. queues_ok srt) (queues_ok srt)"
    by (rule hoare_bind_s [OF hoare_search])
  have start: "queues_ok srt (check_standing_orders h n (set_node n (\<lambda>x. x\<lparr>n_has_tip := False\<rparr>) w))
      \<and> now \<le> clock (check_standing_orders h n (set_node n (\<lambda>x. x\<lparr>n_has_tip := False\<rparr>) w))"
    if "queues_ok srt w" "now \<le> clock w" for w
  proof -
    have "same_queues w (set_node n (\<lambda>x. x\<lparr>n_has_tip := False\<rparr>) w)" by (rule quiet) simp_all
    then show ?thesis using assms that same_queues_ok(1) by (simp add: order_hooks_keep_def world_simps)
  qed
  show ?thesis using start hoareD [OF main] unfolding queue_fetch_and_occupy_def by (intro hoareI) blast+
qed

lemma hoare_node_fetch:
  assumes "order_hooks_keep (queues_ok srt) h"
  shows "hoare (\<lambda>w. queues_ok srt w \<and> now \<le> clock w) (node_fetch_and_occupy h fits n task now) (\<lambda>_. queues_ok srt) (queues_ok srt)"
proof -
  let ?sources = "\<lambda>u found w1. if found = None \<and> u \<and> n_action (nodes w1 n) \<noteq> Act_next_state
        then fetch_from_sources h n task now w1 else ret found w1"
  let ?finish = "\<lambda>found w2. case found of
                  None \<Rightarrow> ret None w2
                | Some i \<Rightarrow>
                    let w3 = signal (Order_db ''start_history'' i) w2 in
                    if o_task (orders w3 i) = None then throw (Assertion ''ORDER-HAS-NO-TASK'') w3
                    else ret (Some i) (on_occupied i w3)"
  have sources: "hoare (queues_ok srt) (?sources u found) (\<lambda>_. queues_ok srt) (queues_ok srt)" for u found
  proof -
    have "hoare (queues_ok srt) (if_s (\<lambda>w1. found = None \<and> u \<and> n_action (nodes w1 n) \<noteq> Act_next_state)
        (fetch_from_sources h n task now) (ret found)) (\<lambda>_. queues_ok srt) (queues_ok srt)"
      using assms by (intro hoare_if_s hoare_weaken [OF keeps_hoare] hoare_ret) (auto simp: order_hooks_keep_def)
    then show ?thesis by (simp add: if_s_def [abs_def])
  qed
  have occupied: "same_queues w (on_occupied i w)" for w i
    unfolding on_occupied_def by (rule quiet) (simp_all add: place_of_def)
  have last: "hoare (queues_ok srt) (?finish found) (\<lambda>_. queues_ok srt) (queues_ok srt)" for found
    by (intro hoareI) (auto simp: ret_def throw_def Let_def same_queues_ok(1) [OF occupied]
        same_queues_ok(1) [OF same_queues_signal] split: option.splits if_splits)
  have main: "hoare (\<lambda>w. queues_ok srt w \<and> now \<le> clock w)
      (bind_s (bind_s (queue_fetch_and_occupy h n task u now) (?sources u)) ?finish) (\<lambda>_. queues_ok srt) (queues_ok srt)" for u
    by (rule hoare_bind_s [OF hoare_bind_s [OF hoare_queue_fetch [OF assms] sources] last])
  show ?thesis
  proof (rule hoareI)
    fix w r w' assume w: "queues_ok srt w \<and> now \<le> clock w" "node_fetch_and_occupy h fits n task now w = (Inr r, w')"
    then show "queues_ok srt w'" using hoareD(1) [OF main w(1)]
      by (auto simp: node_fetch_and_occupy_def throw_def ret_def split: if_splits sum.splits)
  next
    fix w e w' assume w: "queues_ok srt w \<and> now \<le> clock w" "node_fetch_and_occupy h fits n task now w = (Inl e, w')"
    then show "queues_ok srt w'" using hoareD(2) [OF main w(1)]
      by (auto simp: node_fetch_and_occupy_def throw_def ret_def split: if_splits sum.splits)
  qed
qed

lemma hoare_request:
  "hoare (\<lambda>w. queues_ok srt w \<and> now \<le> clock w) (queue_request_order n now) (\<lambda>_. queues_ok srt) (queues_ok srt)"
proof -
  have asked: "same_queues w (signal s (set_node n (\<lambda>x. x\<lparr>n_check_time := t, n_check_delay := d\<rparr>) w))" for s t d w
    by (simp add: same_queues_def world_simps place_eq_iff)
  have search: "hoare (\<lambda>w. queues_ok srt w \<and> now \<le> clock w) (bind_s (first_immediately_processable_order n u now) (\<lambda>r. ret (r \<noteq> None)))
      (\<lambda>_. queues_ok srt) (queues_ok srt)" for u
    by (rule hoare_bind_s [OF hoare_search hoare_ret]) simp
  have has: "hoare (\<lambda>w. queues_ok srt w \<and> now \<le> clock w) (has_immediately_processable_order n now) (\<lambda>_. queues_ok srt) (queues_ok srt)"
  proof (rule hoareI)
    fix w r w' assume w: "queues_ok srt w \<and> now \<le> clock w" "has_immediately_processable_order n now w = (Inr r, w')"
    then show "queues_ok srt w'" using hoareD(1) [OF search w(1)]
      by (auto simp: has_immediately_processable_order_def throw_def split: sum.splits)
  next
    fix w e w' assume w: "queues_ok srt w \<and> now \<le> clock w" "has_immediately_processable_order n now w = (Inl e, w')"
    then show "queues_ok srt w'" using hoareD(2) [OF search w(1)]
      by (auto simp: has_immediately_processable_order_def throw_def split: sum.splits)
  qed
  show ?thesis
  proof (rule hoareI)
    fix w r w' assume w: "queues_ok srt w \<and> now \<le> clock w" "queue_request_order n now w = (Inr r, w')"
    then show "queues_ok srt w'" using hoareD(1) [OF has w(1)]
      by (auto simp: queue_request_order_def ret_def same_queues_ok(1) [OF asked] dest!: bind_s_case split: if_splits)
  next
    fix w e w' assume w: "queues_ok srt w \<and> now \<le> clock w" "queue_request_order n now w = (Inl e, w')"
    then show "queues_ok srt w'" using hoareD(2) [OF has w(1)]
      by (auto simp: queue_request_order_def ret_def dest!: bind_s_case split: if_splits)
  qed
qed

lemma later_ok: "queues_ok srt w \<Longrightarrow> clock w \<le> t \<Longrightarrow> queues_ok srt (w\<lparr>clock := t\<rparr>)"
  by (auto simp: queues_ok_def members_agree_def sorted_but_def intro: queue_sorted_later)

section \<open>The calls\<close>

text \<open>
  The calls of the tasks, of the commands and of the folders. \<open>Fetch_order\<close> and \<open>Request_order\<close> are made by the
  tasks of the job of a node with the current time; \<open>Step_ended\<close> and \<open>Step_failed\<close> when a task is done with its order;
  \<open>Time_goes_on\<close> is the clock.
\<close>

datatype order_call =
    Add_order nat nat
  | Remove_order nat stack_option
  | Close_order nat
  | Set_order_state nat order_state
  | Set_order_state_at nat order_state time
  | Set_order_setback nat time bool
  | Set_order_at nat time
  | Set_order_priority nat int
  | Set_order_suspended nat bool
  | Set_order_back nat
  | Replace_order nat nat
  | Set_order_on_blacklist nat
  | Request_order nat
  | Withdraw_request nat
  | Fetch_order bool nat nat
  | Step_ended nat transition
  | Step_failed nat bool
  | Place_order nat nat
  | Place_or_replace nat nat
  | Reset_order nat
  | Set_node_action nat node_action
  | Set_chain_state nat chain_state
  | Stop_chain nat bool
  | Time_goes_on time

text \<open>What the calls rely on outside of the model. \<open>turns\<close> is the number of turns of the circle of calls at an end state.\<close>

record environment =
  fetching :: order_hooks
  ending :: life_hooks
  placing :: place_hooks
  setting_up :: chain_hooks
  turns :: nat

definition life_of :: "environment \<Rightarrow> life_hooks" where
  "life_of e = nested_life (placing e) (ending e) (turns e)"

definition at_end_state :: "environment \<Rightarrow> nat \<Rightarrow> (order_world, unit) operation" where
  "at_end_state e = handle_end_state (life_of e) end_state_calls"

definition no_result :: "(order_world, 'a) operation \<Rightarrow> (order_world, unit) operation" where
  "no_result m = bind_s m (\<lambda>_. ret ())"

fun run_call :: "environment \<Rightarrow> order_call \<Rightarrow> (order_world, unit) operation" where
  "run_call e (Add_order c i) = chain_add_order c i"
| "run_call e (Remove_order i stack) = remove_from_job_chain i stack"
| "run_call e (Close_order i) = order_close i"
| "run_call e (Set_order_state i s) = set_state (at_end_state e) i s"
| "run_call e (Set_order_state_at i s t) = set_state_at (at_end_state e) i s t"
| "run_call e (Set_order_setback i t b) = set_setback i t b"
| "run_call e (Set_order_at i t) = set_at i t"
| "run_call e (Set_order_priority i k) = set_priority i k"
| "run_call e (Set_order_suspended i b) = set_suspended i b"
| "run_call e (Set_order_back i) = no_result (setback i)"
| "run_call e (Replace_order i r) = order_set_replacement i r"
| "run_call e (Set_order_on_blacklist i) = set_on_blacklist i"
| "run_call e (Request_order n) = bind_s (read_s clock) (\<lambda>now. no_result (queue_request_order n now))"
| "run_call e (Withdraw_request n) = apply_s (withdraw_order_request n)"
| "run_call e (Fetch_order fits n task) =
     bind_s (read_s clock) (\<lambda>now. no_result (node_fetch_and_occupy (fetching e) fits n task now))"
| "run_call e (Step_ended i t) = postprocessing (life_of e) i t"
| "run_call e (Step_failed i http) = processing_error (life_of e) http i"
| "run_call e (Place_order c i) = place_in_job_chain (placing e) i c Jc_remove_from_job_chain_stack"
| "run_call e (Place_or_replace c i) = place_or_replace_in_job_chain (placing e) i c"
| "run_call e (Reset_order i) = reset_order (at_end_state e) (placing e) i"
| "run_call e (Set_node_action n a) = no_result (node_set_action (setting_up e) (life_of e) n a)"
| "run_call e (Set_chain_state c s) = chain_set_state c s"
| "run_call e (Stop_chain c b) = chain_set_stopped c b"
| "run_call e (Time_goes_on t) = apply_s (\<lambda>w. w\<lparr>clock := t\<rparr>)"

text \<open>
  What the callers see to: an order that is added is in no queue, and the clock is not put back. Left out is the failed
  step of an order that is in a queue and has an operation of the web service, which parts it from the node whose queue it stays in.
  With \<open>srt\<close>, left out are also resuming and resetting an order of the blacklist, which may throw half way, or a
  distributed order in a queue, and the end of a step that forces the error state.
\<close>

fun call_allowed :: "bool \<Rightarrow> order_call \<Rightarrow> order_world \<Rightarrow> bool" where
  "call_allowed srt (Add_order c i) w = (\<not> is_queued i w)"
| "call_allowed srt (Set_order_suspended i b) w = (srt \<and> \<not> b \<longrightarrow> resumed_in_order i w)"
| "call_allowed srt (Reset_order i) w = (srt \<longrightarrow> resumed_in_order i w)"
| "call_allowed srt (Step_failed i http) w = (http \<longrightarrow> \<not> is_queued i w)"
| "call_allowed srt (Step_ended i t) w = (srt \<longrightarrow> \<not> forces_error_state i t w)"
| "call_allowed srt (Time_goes_on t) w = (clock w \<le> t)"
| "call_allowed srt call w = True"

inductive order_step :: "environment \<Rightarrow> bool \<Rightarrow> order_world \<Rightarrow> order_world \<Rightarrow> bool"
  for e srt where
  call: "call_allowed srt c w \<Longrightarrow> run_call e c w = (r, w') \<Longrightarrow> order_step e srt w w'"

inductive_cases order_stepE: "order_step e srt w w'"

abbreviation order_steps :: "environment \<Rightarrow> bool \<Rightarrow> order_world \<Rightarrow> order_world \<Rightarrow> bool" where
  "order_steps e srt \<equiv> (order_step e srt)\<^sup>*\<^sup>*"

lemma hoare_no_result: "hoare P m (\<lambda>_. I) I \<Longrightarrow> hoare P (no_result m) (\<lambda>_. I) I"
  unfolding no_result_def by (erule hoare_bind_s) (simp add: hoare_ret)

lemma hoare_at_clock:
  assumes "\<And>now. hoare (\<lambda>w. I w \<and> now \<le> clock w) (m now) (\<lambda>_. I) I"
  shows "hoare I (bind_s (read_s clock) (\<lambda>now. no_result (m now))) (\<lambda>_. I) I"
  by (rule hoare_bind_s [OF _ hoare_no_result [OF assms]]) (auto intro: hoareI simp: read_s_def)

lemma same_queues_withdraw [quiet]: "same_queues w (withdraw_order_request n w)"
  by (simp add: withdraw_order_request_def withdraw_distributed_order_request_def same_queues_def world_simps place_eq_iff)

definition environment_keeps :: "bool \<Rightarrow> environment \<Rightarrow> bool" where
  "environment_keeps srt e = (order_hooks_keep (queues_ok srt) (fetching e) \<and> place_hooks_keep srt (placing e))"

lemma keeps_set_action [keep_rules]:
  assumes "life_hooks_keep (queues_ok srt) l"
  shows "keeps (queues_ok srt) (node_set_action h l n a)"
proof -
  have base: "keeps (queues_ok srt) (base_set_action n a)"
    unfolding base_set_action_def check_node_def by (intro keep_rules; auto intro: quiet)
  have home: "keeps (queues_ok srt) (return_home l c i)" for c i
    unfolding return_home_def using assms by (intro keep_rules; auto intro: quiet)
  have skip: "keeps (queues_ok srt) (skip_node l n)"
    unfolding skip_node_def skip_order_def case_prod_beta using assms by (intro keep_rules; auto intro: quiet)
  have "keeps (queues_ok srt) (queue_set_action h l n a)"
    unfolding queue_set_action_def by (intro keep_rules base home skip)
  moreover have "keeps (queues_ok srt) (wake_node n)" by (rule keeps_places) (rule keep_rules)
  ultimately show ?thesis unfolding node_set_action_def job_set_action_def by (intro keep_rules base)
qed

lemma hoare_reset:
  assumes "place_hooks_keep srt h" "\<And>i. keeps (queues_ok srt) (handler i)"
  shows "hoare (\<lambda>w. queues_ok srt w \<and> (srt \<longrightarrow> resumed_in_order i w)) (reset_order handler h i) (\<lambda>_. queues_ok srt) (queues_ok srt)"
proof -
  have free: "hoare (\<lambda>w. queues_ok srt w \<and> (srt \<and> \<not> False \<longrightarrow> resumed_in_order i w)) (assert_no_task i)
      (\<lambda>_ w. queues_ok srt w \<and> (srt \<and> \<not> False \<longrightarrow> resumed_in_order i w)) (queues_ok srt)"
    by (auto intro!: hoareI simp: assert_no_task_def when_s_def throw_def split: if_splits)
  have "keeps (queues_ok srt) (reset_state handler h i)"
    unfolding reset_state_def case_prod_beta by (intro keep_rules assms; auto intro: quiet simp: place_of_def)
  then have "keeps (queues_ok srt) (steps [clear_setback i False, reset_state handler h i,
        apply_s (set_order i (\<lambda>x. x\<lparr>o_is_nested_touched := False, o_is_touched := False\<rparr>)), set_next_start_time h i])"
    by (intro keep_rules; auto intro: quiet simp: place_of_def)
  then show ?thesis unfolding reset_order_def
    using hoare_steps_Cons [OF free hoare_steps_Cons [OF hoare_resume keeps_hoare]] by simp
qed

lemma call_keeps_queues:
  assumes "environment_keeps srt e"
  shows "hoare (\<lambda>w. queues_ok srt w \<and> call_allowed srt c w) (run_call e c) (\<lambda>_. queues_ok srt) (queues_ok srt)"
proof -
  have fetch: "order_hooks_keep (queues_ok srt) (fetching e)" and place: "place_hooks_keep srt (placing e)"
    using assms by (simp_all add: environment_keeps_def)
  have life: "life_hooks_keep (queues_ok srt) (life_of e)" unfolding life_of_def by (rule nested_life_keeps [OF place])
  have ended: "keeps (queues_ok srt) (at_end_state e i)" for i
    unfolding at_end_state_def by (rule keeps_handle_end_state [OF life])
  have kept: "hoare (\<lambda>w. queues_ok srt w \<and> a w) m (\<lambda>_. queues_ok srt) (queues_ok srt)"
    if "keeps (queues_ok srt) m" for m :: "(order_world, unit) operation" and a
    by (rule hoare_weaken [OF keeps_hoare [OF that]]) simp
  show ?thesis
  proof (cases c)
    case (Add_order ch i)
    then show ?thesis by (auto intro: hoare_weaken [OF hoare_add_to_chain] simp: place_def place_of_def is_queued_def)
  next
    case (Set_order_suspended i b)
    then show ?thesis using hoare_resume [of srt b i] by simp
  next
    case (Step_failed i http)
    then show ?thesis using hoare_processing_error [OF life] by simp
  next
    case (Step_ended i t)
    then show ?thesis using hoare_postprocessing [OF life] by simp
  next
    case (Reset_order i)
    then show ?thesis using hoare_reset [OF place ended] by simp
  next
    case (Request_order n)
    then show ?thesis using hoare_at_clock [OF hoare_request] by simp
  next
    case (Fetch_order fits n task)
    then show ?thesis using hoare_at_clock [OF hoare_node_fetch [OF fetch]] by simp
  next
    case (Time_goes_on t)
    then show ?thesis by (auto intro!: hoare_apply_s later_ok)
  qed (simp_all only: run_call.simps no_result_def, (rule kept, intro keep_rules; intro keep_rules quiet life place ended)+)
qed

lemma reachable_ok:
  assumes "environment_keeps srt e" "queues_ok srt w" "order_steps e srt w w'"
  shows "queues_ok srt w'"
  using assms(3)
proof induction
  case (step w1 w2)
  from step(2) obtain c r where "call_allowed srt c w1" "run_call e c w1 = (r, w2)" by (rule order_stepE)
  then show ?case using hoare_snd [OF call_keeps_queues [OF assms(1)], of w1 c] step(3) by simp
qed (rule assms(2))

section \<open>What holds in every world that is reached\<close>

text \<open> C4: in every world that the calls lead to, also when they throw, each order that is marked as being in a
  queue, distributed or not, is in the queue of its own node, exactly once, and in no other queue; and no other order is in
  a queue. So no order is lost and none is processed twice at a time. The calls are all of \<open>order_call\<close>, with
  three exceptions (\<open>call_allowed\<close>): \<open>add_order\<close> is not called for an order that is in a queue, the clock is not put
  back, and a step does not fail for an order that is in a queue and has an operation of the web service, since
  \<^verbatim>\<open>processing_error\<close> then parts the order from its node and leaves it in the queue. The database, the order sources and
  the standing orders, which are no part of the model, keep the property by hypothesis.
\<close>

theorem orders_in_one_queue:
  assumes "environment_keeps False e" "members_agree w" "order_steps e False w w'"
  shows "distinct (n_queue (nodes w' n))
    \<and> (i \<in> set (n_queue (nodes w' n)) \<longleftrightarrow> o_is_in_order_queue (orders w' i) \<and> o_job_chain_node (orders w' i) = Some n)
    \<and> (i \<in> set (n_queue (nodes w' n)) \<and> i \<in> set (n_queue (nodes w' m)) \<longrightarrow> m = n)"
proof -
  have "queues_ok False w" using assms(2) by (simp add: queues_ok_def)
  then have "members_agree w'" using reachable_ok [OF assms(1) _ assms(3)] by (simp add: queues_ok_def)
  then show ?thesis by (auto simp: members_agree_def)
qed

text \<open> C9: in every world that the calls lead to, the queues are in processing order at the current time, and a task that asks for an
  order gets the first one in processing order that may start, and it gets none only if no order of the queue may start:
  leaving the search at the first order that is set back never hides an order, whatever has happened before. Apart from
  the exceptions of \<open>orders_in_one_queue\<close>, three calls are left out (\<open>call_allowed True\<close>): resuming or resetting an order of
  the blacklist or a distributed order in a queue, and the end of a step that forces the error state. The task asks for the
  order before the time for which the database has announced a distributed order.
\<close>

theorem reachable_fetch_complete:
  assumes "environment_keeps True e" "queues_ok True w" "order_steps e True w w1"
    and "check_standing_orders (fetching e) n (set_node n (\<lambda>x. x\<lparr>n_has_tip := False\<rparr>) w1) = w2" "clock w1 < n_announced (nodes w2 n)"
    and "queue_fetch_and_occupy (fetching e) n task u (clock w1) w1 = (Inr res, w3)"
  shows "queue_sorted (orders w1) (clock w1) (n_queue (nodes w1 n))
    \<and> (res = None \<longrightarrow> (\<forall>i \<in> set (n_queue (nodes w2 n)). startable w2 u (clock w1) i = Inr False))
    \<and> (\<forall>i. res = Some i \<longrightarrow> startable w2 u (clock w1) i = Inr True
        \<and> (\<exists>xs ys. n_queue (nodes w2 n) = xs @ i # ys \<and> (\<forall>j \<in> set xs. startable w2 u (clock w1) j = Inr False)))"
proof -
  have "same_queues w1 (set_node n (\<lambda>x. x\<lparr>n_has_tip := False\<rparr>) w1)" by (rule quiet) simp_all
  then have "queues_ok True (set_node n (\<lambda>x. x\<lparr>n_has_tip := False\<rparr>) w1)"
    using reachable_ok [OF assms(1,2,3)] by (simp add: same_queues_ok(1))
  then have "queues_ok True w2" "clock w1 = clock w2"
    using assms(1,4) by (auto simp: environment_keeps_def order_hooks_keep_def world_simps)
  then have "queue_sorted (orders w2) (clock w1) (n_queue (nodes w2 n))"
    by (simp add: queues_ok_def sorted_but_def)
  moreover have "queue_sorted (orders w1) (clock w1) (n_queue (nodes w1 n))"
    using reachable_ok [OF assms(1,2,3)] by (simp add: queues_ok_def sorted_but_def)
  ultimately show ?thesis using fetch_result [OF assms(4) _ assms(5,6)] by (cases res) auto
qed

section \<open>Examples\<close>

definition idle_life :: life_hooks where
  "idle_life = \<lparr>next_start_time = (\<lambda>_ _. never), file_order_kind = (\<lambda>_. No_file_order), file_exists = (\<lambda>_ _. False),
     end_state_of_nested = (\<lambda>_. ret True), restart_nested = (\<lambda>_ _. ret ())\<rparr>"

lemma idle_hooks_keep: "order_hooks_keep I idle_hooks" "life_hooks_keep I idle_life"
  by (auto simp: order_hooks_keep_def life_hooks_keep_def idle_hooks_def idle_life_def keeps_def hoare_def ret_def)

text \<open>A database without orders, orders without schedules, and jobs that are not there.\<close>

definition idle_placing :: place_hooks where
  "idle_placing = \<lparr>schedule_loads = (\<lambda>_ _. False), schedule_is_defined = (\<lambda>_ _. False), first_start = (\<lambda>_ _. never),
     new_order_id = (\<lambda>_. ''1''), id_length_max = (\<lambda>_. 250), id_in_database = (\<lambda>_ _ _. False), is_inhibited = (\<lambda>_. False), is_stored_now = (\<lambda>_ _ _. False),
     store_order = (\<lambda>_ _. ret True)\<rparr>"

definition idle_setup :: chain_hooks where
  "idle_setup = \<lparr>loaded_job = (\<lambda>_. None), connect_job_node = (\<lambda>_ _. Inr True), initialize_sources = (\<lambda>_. ret ()),
     activate_sources = (\<lambda>_. ret ()), standing_orders = (\<lambda>_. [])\<rparr>"

definition idle_environment :: environment where
  "idle_environment = \<lparr>fetching = idle_hooks, ending = idle_life, placing = idle_placing, setting_up = idle_setup, turns = 0\<rparr>"

lemma idle_environment_keeps: "environment_keeps srt idle_environment"
  by (simp add: environment_keeps_def idle_environment_def idle_hooks_keep place_hooks_keep_def idle_placing_def keep_rules)

lemma idle_fetching: "fetching idle_environment = idle_hooks"
  by (simp add: idle_environment_def)

lemma ex_orders_agree: "members_agree ex_orders"
proof -
  have "i \<in> set (n_queue (nodes ex_orders n)) \<longleftrightarrow> o_is_in_order_queue (orders ex_orders i) \<and> o_job_chain_node (orders ex_orders i) = Some n"
    "distinct (n_queue (nodes ex_orders n))" "n_queue (nodes ex_orders n) \<noteq> [] \<Longrightarrow> is_type (n_type (nodes ex_orders n)) N_order_queue"
    "o_job_chain_node (orders ex_orders i) \<noteq> None \<and> o_job_chain (orders ex_orders i) \<noteq> None" for i n
    by (auto simp: ex_orders_def ex_order_def ex_node_def split: if_splits)
  then show ?thesis by (simp add: members_agree_def)
qed

lemma ex_orders_ok: "queues_ok srt ex_orders"
proof -
  have "queue_sorted (orders ex_orders) (Time 50) (n_queue (nodes ex_orders n))" for n
    using strictly_sorted_clamped [OF ex_strictly_sorted]
    by (simp add: ex_orders_def ex_node_def queue_sorted_def)
  then show ?thesis using ex_orders_agree
    by (simp add: queues_ok_def sorted_but_def ex_orders_simps less_eq_time_def)
qed

text \<open>The third order is added to the job chain.\<close>

lemma ex_added:
  obtains w' where "chain_add_order 0 2 ex_orders = (Inr (), w')" "n_queue (nodes w' 0) = [2, 0, 1]"
proof -
  have "n_queue (nodes (snd (chain_add_order 0 2 ex_orders)) 0) = [2, 0, 1] \<and> fst (chain_add_order 0 2 ex_orders) = Inr ()"
    by (simp add: chain_add_order_def enter_node_def assert_s_def bind_s_def try_s_def order_id_exists_def has_order_id_def
        chain_order_or_null_def referenced_node_from_state_def node_from_state_def node_from_state_or_null_def
        when_s_def if_s_def apply_s_def ret_def register_order_def world_simps ex_orders_def ex_node_def ex_chain_of_def ex_order_def
        state_eq_def eval_nat_numeral add_order_def handle_changed_processable_state_def queued_behind_def less_time_def)
  then show ?thesis by (intro that [of "snd (chain_add_order 0 2 ex_orders)"]) (auto simp: prod_eq_iff)
qed

theorem orders_in_one_queue_witness:
  "\<exists>w'. order_steps idle_environment False ex_orders w' \<and> n_queue (nodes w' 0) = [2, 0, 1]
     \<and> o_is_in_order_queue (orders w' 2) \<and> o_job_chain_node (orders w' 2) = Some 0"
proof -
  obtain w' where added: "chain_add_order 0 2 ex_orders = (Inr (), w')" "n_queue (nodes w' 0) = [2, 0, 1]"
    by (rule ex_added)
  have "order_step idle_environment False ex_orders w'"
    using added(1) by (intro order_step.call [of _ "Add_order 0 2"]) (auto simp: ex_orders_def ex_order_def is_queued_def)
  then have steps: "order_steps idle_environment False ex_orders w'" by (rule r_into_rtranclp)
  then show ?thesis
    using orders_in_one_queue [OF idle_environment_keeps ex_orders_agree steps, of 0 2 1] added(2) by (intro exI [of _ w']) simp
qed

theorem reachable_fetch_complete_witness:
  "\<exists>w w3. order_steps idle_environment True ex_orders w \<and> clock w = Time 50
     \<and> queue_fetch_and_occupy (fetching idle_environment) 0 7 True (Time 50) w = (Inr (Some 0), w3)
     \<and> startable w True (Time 50) 0 = Inr True \<and> queue_sorted (orders w) (Time 50) (n_queue (nodes w 0))"
proof -
  obtain w3 where run: "queue_fetch_and_occupy (fetching idle_environment) 0 7 True (Time 50) ex_orders = (Inr (Some 0), w3)"
    using ex_fetch idle_fetching by auto
  have "startable ex_orders True (Time 50) 0 = Inr True \<and> queue_sorted (orders ex_orders) (Time 50) (n_queue (nodes ex_orders 0))"
    using reachable_fetch_complete [OF idle_environment_keeps ex_orders_ok rtranclp.rtrancl_refl, of 0 ex_orders 7 True "Some 0" w3] run ex_announced
    by (simp add: ex_tip_off idle_hooks_def idle_fetching ex_orders_simps(6))
  then show ?thesis using run by (intro exI [of _ ex_orders] exI [of _ w3]) (simp add: ex_orders_simps(6))
qed

end
