(* ===== verification/Chain_Linked.thy ===== *)
theory Chain_Linked
  imports Chain_Setup Order_System
begin

text \<open>
  What the initialization of a job chain promises: the check of skipped nodes decides exactly whether the processing
  finds a node for each state, and a job chain that has been initialized has its links and its nodes to go on.
\<close>

section \<open>The check is exact\<close>


lemma check_result:
  obtains r where "follow_checked w c [] n = Some r" "check_job_chain_node w c n = Some (case_sum (\<lambda>_. Inl (Xc ''SCHEDULER-406'')) Inr r)"
    "r = Inr () \<longleftrightarrow> (\<exists>m. leads_to w c n m)"
proof -
  obtain r where "follow_checked w c [] n = Some r" "r = Inr () \<longleftrightarrow> (\<exists>m. leads_to w c n m)"
    by (rule follow_checked_iff [of n "[]" w c]) simp_all
  then show ?thesis by (intro that) (simp_all add: check_job_chain_node_def)
qed

lemma check_refused: "\<nexists>m. leads_to w c n m \<Longrightarrow> check_job_chain_node w c n = Some (Inl (Xc ''SCHEDULER-406''))"
proof (rule check_result)
  fix r :: "unit result"
  assume "check_job_chain_node w c n = Some (case_sum (\<lambda>_. Inl (Xc ''SCHEDULER-406'')) Inr r)"
    "r = Inr () \<longleftrightarrow> (\<exists>m. leads_to w c n m)" "\<nexists>m. leads_to w c n m"
  then show ?thesis by (cases r) auto
qed

lemma check_passed_iff: "check_job_chain_node w c n = Some (Inr ()) \<longleftrightarrow> (\<exists>m. leads_to w c n m)"
proof (rule check_result)
  fix r :: "unit result"
  assume "check_job_chain_node w c n = Some (case_sum (\<lambda>_. Inl (Xc ''SCHEDULER-406'')) Inr r)"
    "r = Inr () \<longleftrightarrow> (\<exists>m. leads_to w c n m)"
  then show ?thesis by (cases r) auto
qed


section \<open>What stays through the initialization\<close>

definition same_setup :: "order_world \<Rightarrow> order_world \<Rightarrow> bool" where
  "same_setup w w' =
     (same_layout w w' \<and> (\<forall>n. same_links (nodes w' n) (nodes w n) \<and> n_action (nodes w' n) = n_action (nodes w n)))"

lemma same_setup_refl: "same_setup w w"
  by (simp add: same_setup_def same_layout_refl same_links_def)

lemma same_setup_linked: "same_setup w w' \<Longrightarrow> nodes_linked w' c ns \<longleftrightarrow> nodes_linked w c ns"
  using linked_cong [of w w'] by (simp add: nodes_linked_def same_setup_def) (simp add: same_layout_def)

lemma same_setup_leads:
  assumes "same_setup w w'"
  shows "leads_to w' c n m \<longleftrightarrow> leads_to w c n m"
proof -
  have "skips w' c = skips w c"
    using assms by (auto simp: skips_def fun_eq_iff same_setup_def same_links_def same_layout_from_state)
  then show ?thesis using assms by (simp add: leads_to_def same_setup_def)
qed

lemma same_setup_trans: "same_setup w w1 \<Longrightarrow> same_setup w1 w2 \<Longrightarrow> same_setup w w2"
  by (simp add: same_setup_def same_layout_def same_links_def)

lemma same_setup_list: "same_setup w w' \<Longrightarrow> c_node_list (chains w' c) = c_node_list (chains w c)"
  by (simp add: same_setup_def same_layout_def)

lemma keeps_same_setup: "keeps (same_setup w) m \<Longrightarrow> m w = (r, w') \<Longrightarrow> same_setup w w'"
  using keepsD [of "same_setup w" m w] same_setup_refl by simp

text \<open>The states of the nodes and of job chains, and what is told to others.\<close>

lemma same_setup_node: "(\<And>x. n_order_state (f x) = n_order_state x \<and> n_type (f x) = n_type x \<and> same_links (f x) x
    \<and> n_action (f x) = n_action x) \<Longrightarrow> same_setup w w' \<Longrightarrow> same_setup w (set_node n f w')"
  by (simp add: same_setup_def same_layout_def world_simps same_links_def)

lemma same_setup_signal: "same_setup w w' \<Longrightarrow> same_setup w (signal s w')"
  by (simp add: same_setup_def same_layout_def world_simps)

lemma same_setup_chain: "(\<And>x. c_node_list (f x) = c_node_list x) \<Longrightarrow> same_setup w w' \<Longrightarrow> same_setup w (set_chain c f w')"
  by (simp add: same_setup_def same_layout_def world_simps)

text \<open>Waking orders tells the jobs something, and changes nothing else.\<close>

lemma same_world_wake:
  assumes "I w" "\<And>s w. I w \<Longrightarrow> I (signal s w)"
  shows "I (handle_changed_processable_state i w)" "I (tell_job_of_node n w)"
  using assms by (auto simp: handle_changed_processable_state_def tell_job_of_node_def split: option.splits)

lemma keeps_chain_wake:
  assumes "\<And>s w. I w \<Longrightarrow> I (signal s w)"
  shows "keeps I (chain_wake_orders c)"
  unfolding chain_wake_orders_def wake_node_def wake_queue_def
  by (intro keep_rules keeps_apply_s; auto intro: keep_rules assms same_world_wake)

lemma keeps_chain_set_state: "keeps (same_setup w0) (chain_set_state c s)"
  unfolding chain_set_state_def
  by (intro keep_rules keeps_apply_s keeps_chain_wake same_setup_signal same_setup_chain) simp_all

lemma keeps_initialize_nodes: "keeps (same_setup w0) (initialize_nodes ns)"
proof (induction ns)
  case (Cons n ns)
  have "keeps (same_setup w0) (node_initialize n)"
    unfolding node_initialize_def node_base_initialize_def
    by (intro keep_rules keeps_apply_s same_setup_node same_setup_signal) (simp_all add: same_links_def)
  then show ?case using Cons by (simp add: keep_rules)
qed (simp add: keep_rules)

text \<open>Without an exception, each of a list of operations that only look at the world has found nothing.\<close>

lemma checks_passed:
  "steps (map (check_node c) ns) w = (Inr (), w') \<Longrightarrow> w' = w \<and> (\<forall>n \<in> set ns. \<exists>m. leads_to w c n m)"
proof (induction ns)
  case (Cons n ns)
  obtain r where r: "check_job_chain_node w c n = Some r" by (rule check_result [of w c n]) blast
  then have "r = Inr ()" and rest: "steps (map (check_node c) ns) w = (Inr (), w')"
    using Cons.prems by (auto simp: check_node_def [of c n] try_s_def split: sum.splits prod.splits)
  then show ?case using Cons.IH r check_passed_iff by auto
qed simp

lemma chain_state_set: "chain_set_state c s w = (res, w') \<Longrightarrow> c_state (chains w' c) = s"
proof -
  assume run: "chain_set_state c s w = (res, w')"
  show ?thesis
  proof (cases "c_state (chains w c) = s")
    case True
    then show ?thesis using run by (simp add: chain_set_state_def when_s_def)
  next
    case False
    let ?w = "set_chain c (\<lambda>x. x\<lparr>c_state := s\<rparr>) w"
    have "keeps (\<lambda>w. c_state (chains w c) = s) (chain_wake_orders c)"
      by (rule keeps_chain_wake) (simp add: world_simps)
    then have "c_state (chains (snd (chain_wake_orders c ?w)) c) = s" by (rule keepsD) (simp add: world_simps)
    then show ?thesis using run False
      by (auto simp: chain_set_state_def when_s_def apply_s_def split: prod.splits sum.splits)
  qed
qed

text \<open> C15: a job chain whose initialization has succeeded is linked: each of its nodes (file order sinks, which have no next nodes, apart)
  has an empty next state or error state or is linked to the node of the job chain with that state, skipping leads from each of its
  nodes to a node that is not skipped itself (which may be an end node or a stopped node), and the job chain is
  initialized. The order sources, when they are initialized, leave the nodes and the job chain as they are.
\<close>

theorem initialized_chain:
  assumes "\<And>w0. keeps (same_setup w0) (initialize_sources h c)"
    and "chain_on_initialize h c e w = (Inr True, w')"
  shows "nodes_linked w' c (c_node_list (chains w' c))
    \<and> (\<forall>n \<in> set (c_node_list (chains w' c)). \<exists>m. leads_to w' c n m)
    \<and> c_state (chains w' c) = Cs_initialized"
proof -
  obtain w0 w1 w2 w3 w4 where fill: "fill_nodes c (c_node_list (chains w0 c)) w0 = (Inr (), w1)"
    and init: "initialize_nodes (c_node_list (chains w1 c)) w1 = (Inr True, w2)"
    and checks: "steps (map (check_node c) (c_node_list (chains w2 c))) w2 = (Inr (), w4)"
    and sources: "initialize_sources h c w4 = (Inr (), w3)" and state: "chain_set_state c Cs_initialized w3 = (Inr (), w')"
    using assms(2) by (auto simp: chain_on_initialize_def fill_holes_def run_simps simp del: steps.simps split: if_splits)
  have [simp]: "w4 = w2" using checks_passed [OF checks] by simp
  note linked = fill_nodes_ok [OF fill]
  have "same_setup w1 w2" "same_setup w2 w3" "same_setup w3 w'"
    using keeps_same_setup [OF keeps_initialize_nodes init] keeps_same_setup [OF assms(1) sources]
      keeps_same_setup [OF keeps_chain_set_state state] by simp_all
  then have same: "same_setup w1 w'" "same_setup w2 w'" using same_setup_trans by blast+
  then have "c_node_list (chains w' c) = c_node_list (chains w0 c)" "c_node_list (chains w' c) = c_node_list (chains w2 c)"
    using linked same_setup_list [OF same(1), of c] same_setup_list [OF same(2), of c] by (simp_all add: same_layout_def)
  then show ?thesis
    using linked checks_passed [OF checks] same_setup_linked [OF same(1)] same_setup_leads [OF same(2)] chain_state_set [OF state]
    by simp
qed

text \<open>the change of the action of a node of a running job chain is refused with SCHEDULER-406 if skipping would lead
  nowhere, whatever the type of the node; but the new action stays, nothing else has changed.\<close>

theorem refused_action_stays:
  assumes "n_action (nodes w n) \<noteq> a" "chain_is_running n w"
    and "\<nexists>m. leads_to (set_node n (\<lambda>x. x\<lparr>n_action := a\<rparr>) w) (chain_of_node w n) n m"
  shows "node_set_action h l n a w = (Inl (Xc ''SCHEDULER-406''), set_node n (\<lambda>x. x\<lparr>n_action := a\<rparr>) w)"
proof -
  let ?w = "set_node n (\<lambda>x. x\<lparr>n_action := a\<rparr>) w"
  have "check_job_chain_node ?w (chain_of_node w n) n = Some (Inl (Xc ''SCHEDULER-406''))"
    using assms(3) by (rule check_refused)
  then have "base_set_action n a w = (Inl (Xc ''SCHEDULER-406''), ?w)"
    using assms(1,2) by (simp add: base_set_action_def if_s_def bind_s_def apply_s_def when_s_def chain_is_running_def
        chain_of_node_def check_node_def read_s_def try_s_def world_simps)
  then show ?thesis
    by (simp add: node_set_action_def job_set_action_def queue_set_action_def if_s_def bind_s_def read_s_def)
qed

section \<open>Examples\<close>

text \<open>A job chain under construction with a skipped node and an end node, and without order sources.\<close>

definition ex_chain_world :: order_world where
  "ex_chain_world = ex_orders\<lparr>
     nodes := (\<lambda>n. if n = 0 then (new_node N_job 0 (State_name ''A''))\<lparr>n_next_state := State_name ''B'', n_action := Act_next_state\<rparr>
       else new_node N_end 0 (State_name ''B'')),
     chains := (\<lambda>_. (ex_chain_of [0, 1] 1)\<lparr>c_state := Cs_under_construction\<rparr>)\<rparr>"

lemma ex_chain_simps:
  "nodes ex_chain_world 0 = (new_node N_job 0 (State_name ''A''))\<lparr>n_next_state := State_name ''B'', n_action := Act_next_state\<rparr>"
  "nodes ex_chain_world (Suc 0) = new_node N_end 0 (State_name ''B'')"
  "chains ex_chain_world c = (ex_chain_of [0, 1] 1)\<lparr>c_state := Cs_under_construction\<rparr>"
  "orders_are_distributed ex_chain_world = False"
  by (simp_all add: ex_chain_world_def ex_orders_def)


theorem initialized_chain_witness:
  "\<exists>w'. chain_on_initialize idle_setup 0 2 ex_chain_world = (Inr True, w')
     \<and> n_next_node (nodes w' 0) = Some 1 \<and> nodes_linked w' 0 (c_node_list (chains w' 0))"
proof -
  let ?r = "chain_on_initialize idle_setup 0 2 ex_chain_world"
  have checked: "check_job_chain_node w c n = Some (Inr ())"
    if "n_action (nodes w n) = Act_next_state \<longrightarrow> (\<exists>m. node_from_state w c (n_next_state (nodes w n)) = Inr m
          \<and> n_action (nodes w m) \<noteq> Act_next_state)" for w c n
    using that leads_to_stop leads_to_step [of w c n] unfolding check_passed_iff skips_def by metis
  have "fst ?r = Inr True \<and> n_next_node (nodes (snd ?r) 0) = Some 1"
    by (simp add: chain_on_initialize_def fill_holes_def add_missing_end_def fill_node_def fill_next_state_def find_next_node_def
        find_error_node_def node_initialize_def node_base_initialize_def check_node_def checked chain_set_state_def
        chain_wake_orders_def idle_setup_def if_s_def bind_s_def read_s_def try_s_def apply_s_def when_s_def assert_s_def
        ret_def ex_chain_simps ex_chain_of_def new_node_def world_simps is_null_or_empty_state_def state_eq_def
        node_from_state_def node_from_state_or_null_def)
  then obtain w' where w': "?r = (Inr True, w')" "n_next_node (nodes w' 0) = Some 1" by (metis prod.collapse)
  have "keeps (same_setup w0) (initialize_sources idle_setup 0)" for w0
    by (simp add: idle_setup_def keep_rules)
  from initialized_chain [OF this w'(1)] show ?thesis using w' by blast
qed

text \<open>In the running job chain, the end node would be skipped, too.\<close>

definition ex_running_world :: order_world where
  "ex_running_world = set_chain 0 (\<lambda>x. x\<lparr>c_state := Cs_active\<rparr>) ex_chain_world"

theorem refused_action_stays_witness:
  "n_action (nodes ex_running_world 1) = Act_process
   \<and> node_set_action idle_setup idle_life 1 Act_next_state ex_running_world
     = (Inl (Xc ''SCHEDULER-406''), set_node 1 (\<lambda>x. x\<lparr>n_action := Act_next_state\<rparr>) ex_running_world)"
proof
  show other: "n_action (nodes ex_running_world 1) = Act_process"
    by (simp add: ex_running_world_def world_simps ex_chain_simps new_node_def)
  let ?w = "set_node 1 (\<lambda>x. x\<lparr>n_action := Act_next_state\<rparr>) ex_running_world"
  have "\<not> skips ?w 0 1 m" "n_action (nodes ?w 1) = Act_next_state" for m
    by (simp_all add: skips_def node_from_state_def node_from_state_or_null_def ex_running_world_def world_simps ex_chain_simps new_node_def)
  then have "\<not> leads_to ?w 0 1 m" for m unfolding leads_to_def by (auto elim: converse_rtranclpE)
  then show "node_set_action idle_setup idle_life 1 Act_next_state ex_running_world
     = (Inl (Xc ''SCHEDULER-406''), set_node 1 (\<lambda>x. x\<lparr>n_action := Act_next_state\<rparr>) ex_running_world)"
    using other by (intro refused_action_stays) (simp_all add: chain_is_running_def chain_of_node_def ex_running_world_def world_simps
        ex_chain_simps new_node_def)
qed

end
