(* ===== verification/Order_Progress.thy ===== *)
theory Order_Progress
  imports Order_System
begin

text \<open>
  How an order gets on: a step that succeeds moves it to the queue of the next node, and an order whose steps
  succeed comes to the end of its job chain and leaves it.
\<close>

section \<open>What the steps of an order never change\<close>

text \<open>What a node says about the way of its orders.\<close>

definition same_way :: "node \<Rightarrow> node \<Rightarrow> bool" where
  "same_way x y = (n_type x = n_type y \<and> n_order_state x = n_order_state y \<and> n_next_state x = n_next_state y
     \<and> n_action x = n_action y \<and> n_is_suspending_order x = n_is_suspending_order y \<and> n_delay x = n_delay y
     \<and> n_on_return_codes x = n_on_return_codes y)"

lemma same_way_refl: "same_way x x"
  by (simp add: same_way_def)

definition same_plan :: "order_world \<Rightarrow> order_world \<Rightarrow> bool" where
  "same_plan w w' =
     ((\<forall>n. same_way (nodes w' n) (nodes w n)) \<and> clock w' = clock w
      \<and> (\<forall>c. c_node_list (chains w' c) = c_node_list (chains w c)
             \<and> c_is_distributed (chains w' c) = c_is_distributed (chains w c)))"

lemma same_plan_refl: "same_plan w w"
  by (simp add: same_plan_def same_way_def)

lemma same_plan_trans: "same_plan w w1 \<Longrightarrow> same_plan w1 w2 \<Longrightarrow> same_plan w w2"
  by (simp add: same_plan_def same_way_def)

lemma handle_simps [world_simps]:
  "orders (handle_changed_processable_state i w) = orders w" "nodes (handle_changed_processable_state i w) = nodes w"
  "chains (handle_changed_processable_state i w) = chains w" "clock (handle_changed_processable_state i w) = clock w"
  "chain_of_path (handle_changed_processable_state i w) = chain_of_path w"
  by (simp_all add: handle_changed_processable_state_def world_simps split: option.splits)

lemma add_order_simps [world_simps]:
  "orders (add_order n i w) = (orders w)(i := (orders w i)\<lparr>o_is_in_order_queue := True\<rparr>)"
  "nodes (add_order n i w) = (nodes w)(n := (nodes w n)\<lparr>n_queue := queue_insert (orders w) i (n_queue (nodes w n))\<rparr>)"
  "chains (add_order n i w) = chains w" "clock (add_order n i w) = clock w" "chain_of_path (add_order n i w) = chain_of_path w"
  by (simp_all add: add_order_def world_simps)

lemma set_state2_simps [world_simps]:
  "nodes (set_state2 i s w) = nodes w" "chains (set_state2 i s w) = chains w" "clock (set_state2 i s w) = clock w"
  "chain_of_path (set_state2 i s w) = chain_of_path w"
  "o_initial_state_set (orders w i) \<Longrightarrow> orders (set_state2 i s w) =
     (if state_eq s (o_state (orders w i)) then orders w else (orders w)(i := (orders w i)\<lparr>o_state := s\<rparr>))"
  by (simp_all add: set_state2_def Let_def world_simps)

lemma set_next_announced_simps [world_simps]:
  "orders (set_next_announced n t w) = orders w" "chains (set_next_announced n t w) = chains w"
  "clock (set_next_announced n t w) = clock w" "n_queue (nodes (set_next_announced n t w) k) = n_queue (nodes w k)"
  "same_way (nodes (set_next_announced n t w) k) (nodes w k)"
  by (auto simp: set_next_announced_def tip_for_new_distributed_order_def Let_def world_simps same_way_def split: option.splits)

lemma chain_tip_simps [world_simps]:
  "orders (chain_tip_for_new_distributed_order c s t w) = orders w"
  "chains (chain_tip_for_new_distributed_order c s t w) = chains w"
  "clock (chain_tip_for_new_distributed_order c s t w) = clock w"
  "n_queue (nodes (chain_tip_for_new_distributed_order c s t w) k) = n_queue (nodes w k)"
  "same_way (nodes (chain_tip_for_new_distributed_order c s t w) k) (nodes w k)"
  by (auto simp: chain_tip_for_new_distributed_order_def world_simps same_way_refl split: option.splits)

lemma same_way_trans: "same_way x y \<Longrightarrow> same_way x z \<longleftrightarrow> same_way y z"
  by (auto simp: same_way_def)

lemmas same_way_tip [world_simps] = same_way_trans [OF chain_tip_simps(5)]

lemma queue_is_no_end: "is_type t N_order_queue \<Longrightarrow> \<not> is_type t N_end"
  by (cases t) simp_all

lemma end_is_no_queue: "is_type t N_end \<Longrightarrow> \<not> is_type t N_order_queue"
  by (cases t) simp_all

lemma referenced_simps [world_simps]:
  "referenced_node_from_state (set_order i f w) c s = referenced_node_from_state w c s"
proof -
  have from_state: "node_from_state (set_order i f w) c s = node_from_state w c s" for s
    by (simp add: node_from_state_def node_from_state_or_null_def world_simps)
  have "follow_next_state (set_order i f w) c k n = follow_next_state w c k n" for k n
    by (induction k arbitrary: n) (simp_all add: from_state world_simps cong: if_cong)
  then have "follow_next_state (set_order i f w) c 1000 = follow_next_state w c 1000" by (simp add: fun_eq_iff)
  then show ?thesis unfolding referenced_node_from_state_def by (simp add: from_state)
qed

section \<open>A step that succeeds\<close>

text \<open>An order in process at node \<open>n\<close> of the job chain \<open>c\<close>: nothing but the success of its step decides where it goes.\<close>

definition in_process :: "order_world \<Rightarrow> nat \<Rightarrow> nat \<Rightarrow> nat \<Rightarrow> bool" where
  "in_process w i c n =
     (let x = orders w i in
      o_job_chain x = Some c \<and> o_job_chain_node x = Some n \<and> o_is_in_order_queue x \<and> i \<in> set (n_queue (nodes w n))
      \<and> distinct (n_queue (nodes w n)) \<and> is_type (n_type (nodes w n)) N_job \<and> o_task x \<noteq> None \<and> o_setback x = Time 0 \<and> \<not> o_setback_called x
      \<and> \<not> o_suspended x \<and> \<not> o_is_distributed x \<and> \<not> o_moved x \<and> \<not> o_end_state_reached x \<and> o_outer_job_chain_path x = []
      \<and> o_removed_from_job_chain_path x = [] \<and> o_initial_state_set x \<and> \<not> state_eq (o_state x) (o_end_state x))"

text \<open>The node to which a step that succeeds leads.\<close>

definition leads_on :: "order_world \<Rightarrow> nat \<Rightarrow> nat \<Rightarrow> nat \<Rightarrow> bool" where
  "leads_on w c n m =
     (let s = job_node_order_state (nodes w n) success in
      s \<noteq> Empty_state \<and> s \<noteq> Missing_state \<and> referenced_node_from_state w c s = Inr m \<and> m \<noteq> n
      \<and> \<not> n_is_suspending_order (nodes w m) \<and> duration_is_zero (n_delay (nodes w m))
      \<and> n_action (nodes w m) \<noteq> Act_next_state)"

lemma success_no_keep: "success \<noteq> keep"
  by (simp add: success_def keep_def of_exit_code_def)

lemma success_code: "return_code success = Inr 0"
  by (simp add: return_code_def success_def of_exit_code_def)

lemma judged_success:
  assumes "in_process w i c n"
  shows "judge_step i (Some n) success w =
    (Inr False, set_order i (\<lambda>x. x\<lparr>o_is_success_state := True, o_setback_count := 0\<rparr>) w)"
  using assms
  apply (simp add: in_process_def Let_def judge_step_def bind_s_def when_s_def read_s_def apply_s_def try_s_def ret_def set_back_on_error_def
      success_code set_back_too_often_def world_simps is_never_def)
  done

lemma postprocessing2_in_chain:
  assumes "o_job_chain (orders w i) = Some c" "o_job_chain_node (orders w i) = Some m" "n_action (nodes w m) \<noteq> Act_next_state"
    and "\<not> o_is_distributed (orders w i)" "o_removed_from_job_chain_path (orders w i) = []"
  shows "fst (postprocessing2 l i w) = Inr ()"
    "orders (snd (postprocessing2 l i w)) =
      (orders w)(i := (orders w i)\<lparr>o_moved := False, o_is_db_occupied := False, o_occupied_state := Empty_state\<rparr>)"
    "chains (snd (postprocessing2 l i w)) = chains w" "clock (snd (postprocessing2 l i w)) = clock w"
    "n_queue (nodes (snd (postprocessing2 l i w)) k) = n_queue (nodes w k)"
    "same_way (nodes (snd (postprocessing2 l i w)) k) (nodes w k)"
  using assms
  by (simp_all add: postprocessing2_def apply_s_def when_s_def bind_s_def read_s_def try_s_def node_skips_def tip_next_node_def
      db_written_def job_chain_of_def world_simps same_way_refl)

lemma set_order_twice: "set_order i f (set_order i g w) = set_order i (\<lambda>x. f (g x)) w"
  by (simp add: set_order_def)

text \<open>What comes between the judgement of the step and \<^verbatim>\<open>postprocessing2\<close>.\<close>

lemma success_proceeds:
  assumes "in_process w i c n"
    and "w1 = set_order i (\<lambda>x. x\<lparr>o_is_success_state := True, o_setback_count := 0, o_task := None\<rparr>) w"
    and "fst (proceed (handle_end_state l end_state_calls) i n success w1) = Inr ()"
  shows "postprocessing l i success w = postprocessing2 l i (snd (proceed (handle_end_state l end_state_calls) i n success w1))"
  using assms(1,3) judged_success [OF assms(1)]
  by (cases "proceed (handle_end_state l end_state_calls) i n success w1")
    (simp add: assms(2) postprocessing_def in_process_def Let_def bind_s_def try_s_def job_node_of_def apply_s_def if_s_def
        goes_on_def success_no_keep set_order_twice world_simps split: prod.splits sum.splits)

lemma proceed_to_queue:
  assumes "in_process w i c n" "leads_on w c n m" "is_type (n_type (nodes w m)) N_order_queue"
    and "\<not> state_eq (n_order_state (nodes w m)) (o_state (orders w i))"
    and "w1 = set_order i (\<lambda>x. x\<lparr>o_is_success_state := True, o_setback_count := 0, o_task := None\<rparr>) w"
  shows "fst (proceed handler i n success w1) = Inr ()"
    "orders (snd (proceed handler i n success w1)) =
      (orders w1)(i := (orders w1 i)\<lparr>o_job_chain_node := Some m, o_state := n_order_state (nodes w m), o_is_in_order_queue := True\<rparr>)"
    "chains (snd (proceed handler i n success w1)) = chains w" "clock (snd (proceed handler i n success w1)) = clock w"
    "nodes (snd (proceed handler i n success w1)) = (nodes w)(n := (nodes w n)\<lparr>n_queue := remove1 i (n_queue (nodes w n))\<rparr>,
      m := (nodes w m)\<lparr>n_queue := queue_insert ((orders w1)(i := (orders w1 i)\<lparr>o_is_in_order_queue := False,
         o_job_chain_node := Some m, o_state := n_order_state (nodes w m)\<rparr>)) i (n_queue (nodes w m))\<rparr>)"
  using assms
  by (simp_all add: is_type_job queue_is_no_end proceed_def in_process_def leads_on_def Let_def set_state1_def node_of_state_def at_end_def
      move_to_node_def bind_s_def when_s_def if_s_def assert_s_def read_s_def apply_s_def leave_queue_def in_own_queue_def try_s_def
      order_queue_def is_queued_def remove_order_def ret_def world_simps set_job_chain_node_def enter_queue_def)

lemma queue_insert_cong:
  "(\<And>j. queued_behind (os i) (os j) = queued_behind (os' i) (os' j)) \<Longrightarrow> queue_insert os i q = queue_insert os' i q"
  by (induction q) simp_all

text \<open>The order after the step.\<close>

definition moved_on :: "order_state \<Rightarrow> nat \<Rightarrow> order \<Rightarrow> order" where
  "moved_on s m x = x\<lparr>o_is_success_state := True, o_setback_count := 0, o_task := None, o_job_chain_node := Some m, o_state := s,
     o_is_in_order_queue := True, o_moved := False, o_is_db_occupied := False, o_occupied_state := Empty_state\<rparr>"

lemma step_moves_on:
  assumes "in_process w i c n" "leads_on w c n m" "is_type (n_type (nodes w m)) N_order_queue"
    and "\<not> state_eq (n_order_state (nodes w m)) (o_state (orders w i))"
  obtains w' where "postprocessing l i success w = (Inr (), w')"
    "orders w' = (orders w)(i := moved_on (n_order_state (nodes w m)) m (orders w i))" "chains w' = chains w" "clock w' = clock w"
    "\<And>k. n_queue (nodes w' k) = (if k = n then remove1 i (n_queue (nodes w n)) else if k = m then
       queue_insert (orders w') i (n_queue (nodes w m)) else n_queue (nodes w k))"
    "\<And>k. same_way (nodes w' k) (nodes w k)"
proof -
  let ?w1 = "set_order i (\<lambda>x. x\<lparr>o_is_success_state := True, o_setback_count := 0, o_task := None\<rparr>) w"
  let ?p = "proceed (handle_end_state l end_state_calls) i n success ?w1"
  note proceeded = proceed_to_queue [OF assms refl, of "handle_end_state l end_state_calls"]
  have run: "postprocessing l i success w = postprocessing2 l i (snd ?p)"
    by (rule success_proceeds [OF assms(1) refl proceeded(1)])
  have "o_job_chain (orders (snd ?p) i) = Some c" "o_job_chain_node (orders (snd ?p) i) = Some m"
    "n_action (nodes (snd ?p) m) \<noteq> Act_next_state" "\<not> o_is_distributed (orders (snd ?p) i)"
    "o_removed_from_job_chain_path (orders (snd ?p) i) = []"
    using assms(1,2) by (simp_all add: proceeded in_process_def leads_on_def Let_def world_simps)
  note last = postprocessing2_in_chain [OF this, of l]
  have "queue_insert ((orders ?w1)(i := (orders ?w1 i)\<lparr>o_is_in_order_queue := False, o_job_chain_node := Some m,
      o_state := n_order_state (nodes w m)\<rparr>)) i q =
      queue_insert ((orders w)(i := moved_on (n_order_state (nodes w m)) m (orders w i))) i q" for q
    by (rule queue_insert_cong) (simp add: world_simps moved_on_def queued_behind_def)
  moreover have "same_way (nodes (snd (postprocessing2 l i (snd ?p))) k) (nodes w k)" for k
    using last(6) [of k] same_way_trans [OF last(6) [of k]] by (simp add: proceeded same_way_def)
  moreover have "m \<noteq> n" using assms(2) by (simp add: leads_on_def Let_def)
  ultimately show ?thesis
    using last(1-4)
    by (intro that [of "snd (postprocessing2 l i (snd ?p))"])
      (simp_all add: run prod_eq_iff proceeded last(5) world_simps moved_on_def)
qed

section \<open>The last step\<close>

text \<open>Waking the orders of a job chain changes nothing of the world; it cannot fail if no order in a queue is distributed.\<close>

definition only_local :: "order_world \<Rightarrow> bool" where
  "only_local w = (\<forall>n. \<forall>i \<in> set (n_queue (nodes w n)). \<not> o_is_distributed (orders w i))"

definition told :: "order_world \<Rightarrow> order_world \<Rightarrow> bool" where
  "told w w' = (orders w' = orders w \<and> nodes w' = nodes w \<and> chains w' = chains w \<and> clock w' = clock w)"

lemma wake_told:
  assumes "only_local w"
  obtains w' where "chain_wake_orders c w = (Inr (), w')" "told w w'"
proof -
  have queue: "\<exists>w'. wake_queue n w1 = (Inr (), w') \<and> told w w'" if "told w w1" for w1 n
  proof -
    have "first_processable_order w1 n \<noteq> Inl e" for e
    proof (cases "List.find (is_processable w1) (n_queue (nodes w1 n))")
      case (Some i)
      then have "i \<in> set (n_queue (nodes w1 n))" by (auto simp: find_Some_iff)
      then show ?thesis using that assms Some by (simp add: first_processable_order_def told_def only_local_def)
    qed (simp add: first_processable_order_def)
    then obtain r where "first_processable_order w1 n = Inr r" by (cases "first_processable_order w1 n") auto
    then show ?thesis using that
      by (auto simp: wake_queue_def bind_s_def try_s_def ret_def apply_s_def told_def world_simps split: option.splits)
  qed
  have node: "\<exists>w'. wake_node n w1 = (Inr (), w') \<and> told w w'" if "told w w1" for w1 n
  proof -
    have "told w (tell_job_of_node n w1)"
      using that by (auto simp: tell_job_of_node_def told_def world_simps split: option.splits)
    from queue [OF this, of n] queue [OF that, of n] that show ?thesis
      by (auto simp: wake_node_def if_s_def when_s_def apply_s_def)
  qed
  have all: "\<exists>w'. steps (map wake_node ns) w1 = (Inr (), w') \<and> told w w'" if "told w w1" for w1 ns
    using that
  proof (induction ns arbitrary: w1)
    case (Cons n ns)
    obtain w2 where "wake_node n w1 = (Inr (), w2)" "told w w2" using node [OF Cons.prems] by blast
    then show ?case using Cons.IH by simp
  qed simp
  obtain w1 where w1: "steps (map wake_node (c_node_list (chains w c))) w = (Inr (), w1)" "told w w1"
    using all [of w] by (auto simp: told_def)
  have "told w w" "told w (signal s w)" "told w (signal s w1)" for s using w1(2) by (simp_all add: told_def world_simps)
  then have "\<exists>w'. chain_wake_orders c w = (Inr (), w') \<and> told w w'"
    using w1 by (auto simp: chain_wake_orders_def when_s_def bind_s_def read_s_def apply_s_def)
  then show ?thesis using that by blast
qed

text \<open>An order that is in no queue leaves its job chain.\<close>

lemma remove_unqueued:
  assumes "o_job_chain (orders w i) = Some c" "o_job_chain_node (orders w i) = Some e" "\<not> o_is_in_order_queue (orders w i)" "\<not> o_is_db_occupied (orders w i)"
    and "\<not> o_is_on_blacklist (orders w i)" "o_task (orders w i) = None" "\<not> c_is_distributed (chains w c)" "only_local w"
  obtains w' where "chain_remove_order c i w = (Inr (), w')"
    "orders w' = (orders w)(i := (orders w i)\<lparr>o_job_chain_node := None, o_job_chain := None, o_job_chain_path := []\<rparr>)"
    "nodes w' = nodes w" "clock w' = clock w"
    "chains w' = (chains w)(c := (chains w c)\<lparr>c_order_map := AList.delete (o_id (orders w i)) (c_order_map (chains w c))\<rparr>)"
proof -
  let ?w1 = "set_order i (\<lambda>x. x\<lparr>o_job_chain_node := None\<rparr>) w"
  let ?w2 = "set_chain c (\<lambda>x. x\<lparr>c_order_map := AList.delete (o_id (orders w i)) (c_order_map x)\<rparr>)
      (set_order i (\<lambda>x. x\<lparr>o_job_chain := None, o_job_chain_path := []\<rparr>) ?w1)"
  have "only_local ?w2" using assms(8) by (auto simp: only_local_def world_simps)
  then obtain w3 where w3: "chain_wake_orders c ?w2 = (Inr (), w3)" "told ?w2 w3" by (rule wake_told)
  have "chain_touched_obeying ?w2 True c = Inr (sum_list (map (queue_touched_obeying ?w2 True) (queue_nodes ?w2 c)))"
    using assms(7) by (simp add: chain_touched_obeying_def chain_not_distributed_def world_simps)
  then obtain u where u: "untouched_is_allowed ?w2 c = Inr u"
    by (cases "is_max_orders_reached ?w2 c") (auto simp: untouched_is_allowed_def is_max_orders_reached_def split: if_splits)
  have "chain_remove_order c i w = (Inr (), signal (Check_chain c) (if u then w3 else ?w2))"
    using assms u w3(1)
    by (simp add: chain_remove_order_def assert_s_def when_s_def leave_queue_def is_queued_def apply_s_def unregister_order_def
        bind_s_def try_s_def world_simps)
  moreover obtain w4 where "w4 = (if u then w3 else ?w2)" "told ?w2 w4" using w3(2) by (cases u) (simp_all add: told_def)
  ultimately have "chain_remove_order c i w = (Inr (), signal (Check_chain c) w4)" "told ?w2 w4" by simp_all
  then show ?thesis
    by (intro that [of "signal (Check_chain c) w4"]) (simp_all add: told_def world_simps)
qed


definition gone :: "time \<Rightarrow> order \<Rightarrow> order" where
  "gone t x = x\<lparr>o_end_time := t, o_is_db_occupied := False, o_occupied_state := (if o_job_chain_path x = [] then o_occupied_state x else Empty_state),
     o_job_chain_node := None, o_setback_count := 0, o_setback := Time 0, o_job_chain := None, o_job_chain_path := [],
     o_outer_job_chain_path := [], o_outer_job_chain_state := Empty_state\<rparr>"

definition not_replaced :: "order \<Rightarrow> bool" where
  "not_replaced x = (o_replaced_by x = None \<and> o_replacement_for x = None \<and> \<not> o_is_replacement x \<and> \<not> o_is_db_occupied x
     \<and> \<not> o_is_on_blacklist x \<and> \<not> o_suspended x)"

lemma unflag: "not_replaced (orders w i) \<Longrightarrow> set_replacement_flag i False w = w"
  by (simp add: not_replaced_def set_replacement_flag_def set_order_def fun_upd_idem_iff)

lemma no_release: "not_replaced (orders w i) \<Longrightarrow> release_replacement i w = w"
  by (simp add: not_replaced_def release_replacement_def)

lemma no_task: "o_task (orders w i) = None \<Longrightarrow> set_order i (\<lambda>x. x\<lparr>o_task := None\<rparr>) w = w"
  by (simp add: set_order_def fun_upd_idem_iff)

lemma close_outside:
  assumes "o_job_chain (orders w i) = None" "o_task (orders w i) = None" "not_replaced (orders w i)"
  shows "order_close i w = (Inr (), signal (Check_order i) w)"
proof -
  have "\<not> o_is_db_occupied (orders w i)" using assms(3) by (simp add: not_replaced_def)
  then show ?thesis
    using assms by (simp add: order_close_def apply_s_def when_s_def leave_chain_def bind_s_def read_s_def ret_def unflag no_release no_task)
qed

lemma finished_order:
  assumes "o_job_chain (orders w i) = Some c" "o_job_chain_node (orders w i) = Some e" "\<not> o_is_in_order_queue (orders w i)"
    and "not_replaced (orders w i)" "o_task (orders w i) = None" "\<not> c_is_distributed (chains w c)" "only_local w"
    and "file_order_kind l i = No_file_order" "o_job_chain_path (orders w i) \<noteq> []"
  obtains w' where "finish_order l i w = (Inr (), w')" "orders w' = (orders w)(i := gone (clock w) (orders w i))"
    "nodes w' = nodes w" "clock w' = clock w"
    "chains w' = (chains w)(c := (chains w c)\<lparr>c_order_map := AList.delete (o_id (orders w i)) (c_order_map (chains w c))\<rparr>)"
proof -
  let ?w1 = "set_order i (\<lambda>x. x\<lparr>o_end_time := clock w\<rparr>) w"
  let ?w3 = "db_written ''delete'' i (set_order i (\<lambda>x. x\<lparr>o_end_time := clock w\<rparr>) w)"
  have start: "o_job_chain (orders ?w3 i) = Some c" "o_job_chain_node (orders ?w3 i) = Some e" "\<not> o_is_in_order_queue (orders ?w3 i)"
    "\<not> o_is_db_occupied (orders ?w3 i)" "\<not> o_is_on_blacklist (orders ?w3 i)" "o_task (orders ?w3 i) = None"
    "\<not> c_is_distributed (chains ?w3 c)" "only_local ?w3"
    using assms by (auto simp: db_written_def world_simps only_local_def not_replaced_def)
  obtain w4 where w4: "chain_remove_order c i ?w3 = (Inr (), w4)"
    "orders w4 = (orders ?w3)(i := (orders ?w3 i)\<lparr>o_job_chain_node := None, o_job_chain := None, o_job_chain_path := []\<rparr>)"
    "nodes w4 = nodes ?w3" "clock w4 = clock ?w3"
    "chains w4 = (chains ?w3)(c := (chains ?w3 c)\<lparr>c_order_map := AList.delete (o_id (orders ?w3 i)) (c_order_map (chains ?w3 c))\<rparr>)"
    by (rule remove_unqueued [OF start])
  have ended: "set_order i (\<lambda>x. x\<lparr>o_end_time := (if o_end_time x = Time 0 then clock ?w1 else o_end_time x)\<rparr>) ?w1 = ?w1"
    by (simp add: set_order_def)
  let ?w5 = "set_order i (\<lambda>x. x\<lparr>o_setback_count := 0, o_setback := Time 0\<rparr>) w4"
  let ?w6 = "remove_from_job_chain_stack i (set_order i (\<lambda>x. x\<lparr>o_job_chain := None, o_job_chain_path := []\<rparr>) ?w5)"
  have flag: "set_replacement_flag i False ?w5 = ?w5"
    by (rule unflag) (use assms(4) in \<open>simp add: w4(2) db_written_def not_replaced_def world_simps\<close>)
  have closed: "order_close i ?w6 = (Inr (), signal (Check_order i) ?w6)"
    by (rule close_outside) (use assms(4,5) in \<open>simp_all add: w4(2) remove_from_job_chain_stack_def db_written_def not_replaced_def world_simps\<close>)
  have closed2: "order_close i (signal (Check_order i) ?w6) = (Inr (), signal (Check_order i) (signal (Check_order i) ?w6))"
    by (rule close_outside) (use assms(4,5) in \<open>simp_all add: w4(2) remove_from_job_chain_stack_def db_written_def not_replaced_def world_simps\<close>)
  have removed: "remove_from_job_chain i Jc_remove_from_job_chain_stack ?w1 = (Inr (), signal (Check_order i) ?w6)"
  proof -
    have "o_job_chain_path (orders ?w1 i) \<noteq> []" using assms(9) by (simp add: world_simps)
    moreover have "o_task (orders ?w6 i) = None" using assms(5) by (simp add: w4(2) remove_from_job_chain_stack_def db_written_def world_simps)
    ultimately show ?thesis
      using start(1,4) w4(1) flag closed
      by (simp add: remove_from_job_chain_def apply_s_def when_s_def leave_chain_def bind_s_def read_s_def assert_s_def ended)
  qed
  have "finish_order l i w = (Inr (), signal (Check_order i) (signal (Check_order i) ?w6))"
    using assms(1,4,8) removed closed2
    by (simp add: finish_order_def apply_s_def when_s_def not_replaced_def world_simps)
  then show ?thesis
    by (rule that) (use assms(9) in \<open>simp_all add: w4 remove_from_job_chain_stack_def db_written_def gone_def world_simps\<close>)
qed

text \<open>A step that leads to an end node: the order is not repeated, and leaves the job chain.\<close>

definition ends_once :: "life_hooks \<Rightarrow> order \<Rightarrow> nat \<Rightarrow> bool" where
  "ends_once l x i = (not_replaced x \<and> \<not> o_is_file_based x \<and> \<not> o_schedule_is_incomplete x \<and> o_job_chain_path x \<noteq> []
     \<and> file_order_kind l i = No_file_order \<and> (\<forall>w. is_never (next_start_time l i w)))"

lemma end_leaves:
  assumes "o_job_chain (orders w i) = Some c" "o_job_chain_node (orders w i) = Some e" "\<not> o_is_in_order_queue (orders w i)"
    and "ends_once l (orders w i) i" "o_task (orders w i) = None" "\<not> c_is_distributed (chains w c)" "only_local w"
    and "o_outer_job_chain_path (orders w i) = []"
  obtains w' where "handle_end_state l (Suc k) i w = (Inr (), w')" "orders w' = (orders w)(i := gone (clock w) (orders w i))"
    "nodes w' = nodes w" "clock w' = clock w"
    "chains w' = (chains w)(c := (chains w c)\<lparr>c_order_map := AList.delete (o_id (orders w i)) (c_order_map (chains w c))\<rparr>)"
proof -
  let ?w1 = "signal (Order_event ''orderFinished'' i) w"
  have start: "o_job_chain (orders ?w1 i) = Some c" "o_job_chain_node (orders ?w1 i) = Some e" "\<not> o_is_in_order_queue (orders ?w1 i)"
    "not_replaced (orders ?w1 i)" "o_task (orders ?w1 i) = None" "\<not> c_is_distributed (chains ?w1 c)" "only_local ?w1"
    "file_order_kind l i = No_file_order" "o_job_chain_path (orders ?w1 i) \<noteq> []"
    using assms by (simp_all add: world_simps ends_once_def only_local_def)
  obtain w2 where w2: "finish_order l i ?w1 = (Inr (), w2)" "orders w2 = (orders ?w1)(i := gone (clock ?w1) (orders ?w1 i))"
    "nodes w2 = nodes ?w1" "clock w2 = clock ?w1"
    "chains w2 = (chains ?w1)(c := (chains ?w1 c)\<lparr>c_order_map := AList.delete (o_id (orders ?w1 i)) (c_order_map (chains ?w1 c))\<rparr>)"
    by (rule finished_order [OF start])
  have "handle_end_state l (Suc k) i w = (Inr (), signal (Check_order i) w2)"
    using assms(4,8) w2(1)
    by (simp add: is_real_end_def if_s_def bind_s_def ret_def read_s_def apply_s_def is_repeated_def ends_once_def Let_def world_simps)
  then show ?thesis by (rule that) (simp_all add: w2 world_simps)
qed

lemma proceed_to_end:
  assumes "in_process w i c n" "leads_on w c n e" "is_type (n_type (nodes w e)) N_end"
    and "\<not> state_eq (n_order_state (nodes w e)) (o_state (orders w i))" "ends_once l (orders w i) i"
    and "\<not> c_is_distributed (chains w c)" "only_local w"
    and "w1 = set_order i (\<lambda>x. x\<lparr>o_is_success_state := True, o_setback_count := 0, o_task := None\<rparr>) w"
  obtains w' where "proceed (handle_end_state l end_state_calls) i n success w1 = (Inr (), w')"
    "orders w' = (orders w1)(i := gone (clock w) ((orders w1 i)\<lparr>o_is_in_order_queue := False, o_job_chain_node := Some e,
       o_state := n_order_state (nodes w e)\<rparr>))"
    "chains w' = (chains w)(c := (chains w c)\<lparr>c_order_map := AList.delete (o_id (orders w i)) (c_order_map (chains w c))\<rparr>)"
    "clock w' = clock w"
    "nodes w' = (nodes w)(n := (nodes w n)\<lparr>n_queue := remove1 i (n_queue (nodes w n))\<rparr>)"
proof -
  have "fst (move_to_node i (Some e) w1) = Inr () \<and>
    orders (snd (move_to_node i (Some e) w1)) = (orders w1)(i := (orders w1 i)\<lparr>o_is_in_order_queue := False, o_job_chain_node := Some e,
       o_state := n_order_state (nodes w e)\<rparr>) \<and>
    chains (snd (move_to_node i (Some e) w1)) = chains w \<and> clock (snd (move_to_node i (Some e) w1)) = clock w \<and>
    nodes (snd (move_to_node i (Some e) w1)) = (nodes w)(n := (nodes w n)\<lparr>n_queue := remove1 i (n_queue (nodes w n))\<rparr>)"
    using assms(1-4,8)
    by (simp add: is_type_job end_is_no_queue in_process_def leads_on_def Let_def
      move_to_node_def bind_s_def when_s_def if_s_def assert_s_def read_s_def apply_s_def leave_queue_def in_own_queue_def try_s_def
      order_queue_def is_queued_def remove_order_def ret_def world_simps set_job_chain_node_def enter_queue_def)
  then obtain w2 where w2: "move_to_node i (Some e) w1 = (Inr (), w2)"
    "orders w2 = (orders w1)(i := (orders w1 i)\<lparr>o_is_in_order_queue := False, o_job_chain_node := Some e,
       o_state := n_order_state (nodes w e)\<rparr>)"
    "chains w2 = chains w" "clock w2 = clock w"
    "nodes w2 = (nodes w)(n := (nodes w n)\<lparr>n_queue := remove1 i (n_queue (nodes w n))\<rparr>)"
    by (metis prod.collapse)
  have there: "o_job_chain (orders w2 i) = Some c" "o_job_chain_node (orders w2 i) = Some e" "\<not> o_is_in_order_queue (orders w2 i)"
    "ends_once l (orders w2 i) i" "o_task (orders w2 i) = None" "\<not> c_is_distributed (chains w2 c)"
    "o_outer_job_chain_path (orders w2 i) = []"
    using assms(1,5,6,8) by (simp_all add: w2 in_process_def Let_def ends_once_def not_replaced_def world_simps)
  have local: "only_local w2"
    using assms(1,7,8) by (auto simp: only_local_def w2 in_process_def Let_def world_simps dest: in_set_remove1 split: if_splits)
  obtain w3 where w3: "handle_end_state l end_state_calls i w2 = (Inr (), w3)"
    "orders w3 = (orders w2)(i := gone (clock w2) (orders w2 i))" "nodes w3 = nodes w2" "clock w3 = clock w2"
    "chains w3 = (chains w2)(c := (chains w2 c)\<lparr>c_order_map := AList.delete (o_id (orders w2 i)) (c_order_map (chains w2 c))\<rparr>)"
    unfolding end_state_calls_def numeral_3_eq_3 by (rule end_leaves [OF there(1-6) local there(7)])
  have "proceed (handle_end_state l end_state_calls) i n success w1 = (Inr (), w3)"
    using assms(1-4,8) w2(1) w3(1)
    by (simp add: proceed_def in_process_def leads_on_def Let_def set_state1_def node_of_state_def at_end_def w2(2,5)
      bind_s_def when_s_def if_s_def assert_s_def read_s_def apply_s_def try_s_def world_simps state_eq_def split: if_splits)
  then show ?thesis
    by (rule that) (use assms(8) in \<open>simp_all add: w2 w3 world_simps\<close>)
qed

section \<open>From one node to the next\<close>

text \<open>What the way through the job chain never changes in an order that is no special case.\<close>

definition steady :: "order \<Rightarrow> bool" where
  "steady x = (not_replaced x \<and> \<not> o_is_distributed x \<and> o_outer_job_chain_path x = [] \<and> o_removed_from_job_chain_path x = []
     \<and> o_initial_state_set x \<and> o_end_state x = Empty_state \<and> \<not> o_is_file_based x \<and> \<not> o_schedule_is_incomplete x
     \<and> o_job_chain_path x \<noteq> [])"

text \<open>The order waits for a task at node \<open>n\<close>.\<close>

definition ready :: "order_world \<Rightarrow> nat \<Rightarrow> nat \<Rightarrow> nat \<Rightarrow> bool" where
  "ready w i c n =
     (let x = orders w i in
      steady x \<and> o_job_chain x = Some c \<and> o_job_chain_node x = Some n \<and> o_is_in_order_queue x \<and> o_task x = None
      \<and> o_setback x = Time 0 \<and> \<not> o_moved x \<and> o_state x = n_order_state (nodes w n))"

text \<open>A task takes the order.\<close>

definition take_order :: "nat \<Rightarrow> nat \<Rightarrow> (order_world, unit) operation" where
  "take_order i task = steps [bind_s (read_s clock) (occupy_for_task i task), apply_s (on_occupied i)]"

text \<open>Nodes that follow each other, with other states, up to an end node.\<close>

fun line :: "order_world \<Rightarrow> nat \<Rightarrow> nat list \<Rightarrow> bool" where
  "line w c [] = False"
| "line w c [e] = is_type (n_type (nodes w e)) N_end"
| "line w c (n # m # ns) =
     (is_type (n_type (nodes w n)) N_job \<and> state_as_string (n_order_state (nodes w n)) \<noteq> [] \<and> leads_on w c n m
      \<and> \<not> state_eq (n_order_state (nodes w m)) (n_order_state (nodes w n)) \<and> line w c (m # ns))"

text \<open>One task after the other takes the order, and succeeds.\<close>

fun pass_through :: "life_hooks \<Rightarrow> nat \<Rightarrow> nat list \<Rightarrow> (order_world, unit) operation" where
  "pass_through l i [] = ret ()"
| "pass_through l i (task # tasks) = steps [take_order i task, postprocessing l i success, pass_through l i tasks]"

lemma same_plan_referenced:
  assumes "same_plan w w'"
  shows "referenced_node_from_state w' c s = referenced_node_from_state w c s"
proof -
  have from_state: "node_from_state w' c s = node_from_state w c s" for s
    using assms by (simp add: node_from_state_def node_from_state_or_null_def same_plan_def same_way_def)
  have "follow_next_state w' c k n = follow_next_state w c k n" for k n
    using assms by (induction k arbitrary: n) (simp_all add: from_state same_plan_def same_way_def cong: if_cong)
  then have "follow_next_state w' c 1000 = follow_next_state w c 1000" by (simp add: fun_eq_iff)
  then show ?thesis unfolding referenced_node_from_state_def by (simp add: from_state)
qed

lemma same_plan_leads:
  assumes "same_plan w w'"
  shows "leads_on w' c n m = leads_on w c n m"
proof -
  have "transition_to_state (nodes w' n) success = transition_to_state (nodes w n) success"
    using assms by (simp add: transition_to_state_def success_no_keep same_plan_def same_way_def cong: option.case_cong)
  then have "job_node_order_state (nodes w' n) success = job_node_order_state (nodes w n) success"
    by (simp add: job_node_order_state_def)
  then show ?thesis
    using assms by (simp add: leads_on_def same_plan_referenced [OF assms] Let_def) (simp add: same_plan_def same_way_def)
qed

lemma same_plan_line: "same_plan w w' \<Longrightarrow> line w' c ns = line w c ns"
proof (induction ns rule: line.induct)
  case (3 w c n m ns)
  then show ?case by (simp add: same_plan_leads) (simp add: same_plan_def same_way_def)
qed (simp_all add: same_plan_def same_way_def)

lemma take_ready:
  assumes "ready w i c n" "members_agree w" "only_local w" "is_type (n_type (nodes w n)) N_job" "state_as_string (n_order_state (nodes w n)) \<noteq> []"
  obtains w' where "take_order i task w = (Inr (), w')" "in_process w' i c n" "members_agree w'" "same_plan w w'"
    "steady (orders w' i)" "o_state (orders w' i) = n_order_state (nodes w n)" "o_id (orders w' i) = o_id (orders w i)"
    "chains w' = chains w" "only_local w'"
proof -
  have queues: "queues_ok False w" using assms(2) by (simp add: queues_ok_def)
  have set: "o_setback (orders w i) = Time 0" "o_task (orders w i) = None" "\<not> o_moved (orders w i)"
    using assms(1) by (simp_all add: ready_def Let_def)
  obtain w1 where w1: "occupy_for_task i task (clock w) w = (Inr (), w1)"
    using set by (simp add: occupy_for_task_def ret_def)
  have "queues_ok False w1" using hoareD(1) [OF hoare_occupy _ w1, of False] queues set by simp
  then have agree: "members_agree (on_occupied i w1)"
    unfolding on_occupied_def by (auto simp: queues_ok_def members_agree_def world_simps)
  note occupied = occupy_result [OF w1]
  let ?w2 = "on_occupied i w1"
  have taken: "orders ?w2 = (orders w)(i := (occupied task (clock w) (orders w i))\<lparr>o_is_success_state := True, o_end_state_reached := False\<rparr>)"
    "nodes ?w2 = nodes w" "chains ?w2 = chains w" "clock ?w2 = clock w"
    using occupied by (simp_all add: on_occupied_def world_simps)
  have "i \<in> set (n_queue (nodes w n))" "distinct (n_queue (nodes w n))"
    using assms(1,2) by (simp_all add: members_agree_def ready_def Let_def)
  then have "in_process ?w2 i c n"
    using assms(1,4,5) by (simp add: in_process_def ready_def steady_def not_replaced_def Let_def taken occupied_def state_eq_def)
  moreover have "steady (orders ?w2 i)" "o_state (orders ?w2 i) = n_order_state (nodes w n)" "o_id (orders ?w2 i) = o_id (orders w i)"
    using assms(1) by (simp_all add: ready_def steady_def not_replaced_def Let_def taken occupied_def)
  moreover have "same_plan w ?w2" by (simp add: same_plan_def same_way_refl taken)
  moreover have "take_order i task w = (Inr (), ?w2)" using w1 by (simp add: take_order_def bind_s_def read_s_def apply_s_def)
  moreover have "only_local ?w2" using assms(3) by (auto simp: only_local_def taken occupied_def)
  ultimately show ?thesis using that agree taken(3) by blast
qed

text \<open>The step keeps the queues.\<close>

lemma step_keeps_members:
  assumes "life_hooks_keep (queues_ok False) l" "members_agree w" "postprocessing l i t w = (Inr (), w')"
  shows "members_agree w'"
proof -
  have "queues_ok False w \<and> (False \<longrightarrow> \<not> forces_error_state i t w)" using assms(2) by (simp add: queues_ok_def)
  then have "queues_ok False w'" by (rule hoareD(1) [OF hoare_postprocessing [OF assms(1)] _ assms(3)])
  then show ?thesis by (simp add: queues_ok_def)
qed

lemma step_on_line:
  assumes "in_process w i c n" "leads_on w c n m" "is_type (n_type (nodes w m)) N_job" "steady (orders w i)"
    and "\<not> state_eq (n_order_state (nodes w m)) (o_state (orders w i))" "only_local w"
  obtains w' where "postprocessing l i success w = (Inr (), w')" "ready w' i c m" "same_plan w w'"
    "o_id (orders w' i) = o_id (orders w i)" "chains w' = chains w" "only_local w'"
proof -
  obtain w' where w': "postprocessing l i success w = (Inr (), w')"
    "orders w' = (orders w)(i := moved_on (n_order_state (nodes w m)) m (orders w i))" "chains w' = chains w" "clock w' = clock w"
    "\<And>k. n_queue (nodes w' k) = (if k = n then remove1 i (n_queue (nodes w n)) else if k = m then
       queue_insert (orders w') i (n_queue (nodes w m)) else n_queue (nodes w k))"
    "\<And>k. same_way (nodes w' k) (nodes w k)"
    by (rule step_moves_on [OF assms(1,2) is_type_job [OF assms(3)] assms(5), where l = l]) blast
  have "n_order_state (nodes w' m) = n_order_state (nodes w m)" using w'(6) [of m] by (simp add: same_way_def)
  then have "ready w' i c m"
    using assms(1,4) by (simp add: ready_def Let_def w'(2) moved_on_def in_process_def steady_def not_replaced_def)
  moreover have "same_plan w w'" by (simp add: same_plan_def w')
  moreover have "\<not> o_is_distributed (orders w' j)" if "j \<in> set (n_queue (nodes w' k))" for j k
    using that assms(4,6) by (auto simp: w' only_local_def steady_def moved_on_def split: if_splits dest: in_set_remove1 notin_set_remove1 set_remove1_subset [THEN subsetD])
  then have "only_local w'" by (simp add: only_local_def)
  ultimately show ?thesis using that w' by (simp add: moved_on_def)
qed

lemma last_step:
  assumes "in_process w i c n" "leads_on w c n e" "is_type (n_type (nodes w e)) N_end" "steady (orders w i)"
    and "\<not> state_eq (n_order_state (nodes w e)) (o_state (orders w i))" "\<not> c_is_distributed (chains w c)" "only_local w"
    and "file_order_kind l i = No_file_order" "\<And>w. is_never (next_start_time l i w)"
  obtains w' where "postprocessing l i success w = (Inr (), w')" "o_job_chain (orders w' i) = None"
    "\<not> o_is_in_order_queue (orders w' i)"
    "c_order_map (chains w' c) = AList.delete (o_id (orders w i)) (c_order_map (chains w c))"
proof -
  let ?w1 = "set_order i (\<lambda>x. x\<lparr>o_is_success_state := True, o_setback_count := 0, o_task := None\<rparr>) w"
  have once: "ends_once l (orders w i) i" using assms(4,8,9) by (simp add: ends_once_def steady_def)
  obtain w2 where w2: "proceed (handle_end_state l end_state_calls) i n success ?w1 = (Inr (), w2)"
    "orders w2 = (orders ?w1)(i := gone (clock w) ((orders ?w1 i)\<lparr>o_is_in_order_queue := False, o_job_chain_node := Some e,
       o_state := n_order_state (nodes w e)\<rparr>))"
    "chains w2 = (chains w)(c := (chains w c)\<lparr>c_order_map := AList.delete (o_id (orders w i)) (c_order_map (chains w c))\<rparr>)"
    by (rule proceed_to_end [OF assms(1,2,3,5) once assms(6,7) refl])
  have "postprocessing l i success w = postprocessing2 l i w2"
    using success_proceeds [OF assms(1) refl, of l] w2(1) by simp
  moreover have "o_job_chain (orders w2 i) = None" "o_job_chain_node (orders w2 i) = None" "\<not> o_is_distributed (orders w2 i)"
    "o_removed_from_job_chain_path (orders w2 i) = []" "\<not> o_is_in_order_queue (orders w2 i)"
    using assms(4) by (simp_all add: w2(2) gone_def steady_def world_simps)
  ultimately have "fst (postprocessing l i success w) = Inr () \<and> o_job_chain (orders (snd (postprocessing l i success w)) i) = None
      \<and> \<not> o_is_in_order_queue (orders (snd (postprocessing l i success w)) i) \<and> chains (snd (postprocessing l i success w)) = chains w2"
    by (simp add: postprocessing2_def apply_s_def when_s_def world_simps)
  then show ?thesis using that w2(3) by (metis (no_types, lifting) fun_upd_same job_chain.select_convs(8) job_chain.surjective job_chain.update_convs(8) prod.collapse)
qed

section \<open>To the end\<close>

text \<open> C6: an order that waits at the first of a line of job nodes that ends with an end node, and whose steps all succeed,
  is out of the job chain after as many steps as there are job nodes: no step throws or gets stuck, then the order is
  in no queue, and its identifier is free in the job chain. The order is no special case (\<open>ready\<close>, \<open>steady\<close>, \<open>ends_once\<close>):
  it is neither suspended nor set back nor on the blacklist, not distributed, not replaced and no replacement, in no
  nested job chain, has no end state, no file and no base file, and its schedule gives no next start, so that it is not
  repeated; the nodes do not suspend their orders, have no delay and are not skipped (\<open>leads_on\<close>). There may be any other orders,
  but no distributed one in a queue.
\<close>

theorem order_comes_to_end:
  assumes "life_hooks_keep (queues_ok False) l" "members_agree w" "only_local w" "ready w i c n" "line w c (n # ns)"
    and "length tasks = length ns" "tasks \<noteq> []" "\<not> c_is_distributed (chains w c)"
    and "file_order_kind l i = No_file_order" "\<forall>w. is_never (next_start_time l i w)"
  shows "\<exists>w'. pass_through l i tasks w = (Inr (), w') \<and> o_job_chain (orders w' i) = None
    \<and> (\<forall>k. i \<notin> set (n_queue (nodes w' k))) \<and> chain_order_or_null w' c (o_id (orders w i)) = None \<and> members_agree w'"
  using assms(2-8)
proof (induction ns arbitrary: w n tasks)
  case (Cons m ns)
  obtain task rest where tasks: "tasks = task # rest" "length rest = length ns" using Cons.prems(5) by (cases tasks) auto
  have job: "is_type (n_type (nodes w n)) N_job" "state_as_string (n_order_state (nodes w n)) \<noteq> []" and on: "leads_on w c n m"
    and other: "\<not> state_eq (n_order_state (nodes w m)) (n_order_state (nodes w n))" and line: "line w c (m # ns)"
    using Cons.prems(4) by simp_all
  obtain w1 where w1: "take_order i task w = (Inr (), w1)" "in_process w1 i c n" "members_agree w1" "same_plan w w1"
    "steady (orders w1 i)" "o_state (orders w1 i) = n_order_state (nodes w n)" "o_id (orders w1 i) = o_id (orders w i)" "chains w1 = chains w"
    "only_local w1"
    by (rule take_ready [OF Cons.prems(3,1,2) job])
  have same: "n_order_state (nodes w1 m) = n_order_state (nodes w m)" "n_type (nodes w1 m) = n_type (nodes w m)"
    using w1(4) by (simp_all add: same_plan_def same_way_def)
  note on1 = on [folded same_plan_leads [OF w1(4)]]
  have other1: "\<not> state_eq (n_order_state (nodes w1 m)) (o_state (orders w1 i))" using other same w1(6) by simp
  show ?case
  proof (cases ns)
    case Nil
    have "is_type (n_type (nodes w1 m)) N_end" "\<not> c_is_distributed (chains w1 c)"
      using line Nil same Cons.prems(7) w1(8) by simp_all
    then obtain w2 where w2: "postprocessing l i success w1 = (Inr (), w2)" "o_job_chain (orders w2 i) = None"
      "\<not> o_is_in_order_queue (orders w2 i)"
      "c_order_map (chains w2 c) = AList.delete (o_id (orders w1 i)) (c_order_map (chains w1 c))"
      using last_step [OF w1(2) on1 _ w1(5) other1 _ w1(9)] assms(9,10) by blast
    have "members_agree w2" using step_keeps_members [OF assms(1) w1(3) w2(1)] .
    then have "\<forall>k. i \<notin> set (n_queue (nodes w2 k))" using w2(3) by (auto simp: members_agree_def)
    then show ?thesis
      using w1(1,7) w2 Nil tasks \<open>members_agree w2\<close> by (auto simp: chain_order_or_null_def ret_def AList.delete_conv')
  next
    case (Cons m' ns')
    then have "is_type (n_type (nodes w1 m)) N_job" using line same by simp
    then obtain w2 where w2: "postprocessing l i success w1 = (Inr (), w2)" "ready w2 i c m" "same_plan w1 w2"
      "o_id (orders w2 i) = o_id (orders w1 i)" "chains w2 = chains w1" "only_local w2"
      by (rule step_on_line [OF w1(2) on1 _ w1(5) other1 w1(9)])
    have "same_plan w w2" using w1(4) w2(3) by (rule same_plan_trans)
    then have "line w2 c (m # ns)" using line same_plan_line by simp
    moreover have "rest \<noteq> []" "\<not> c_is_distributed (chains w2 c)" using tasks Cons \<open>\<not> c_is_distributed (chains w c)\<close> w2(5) w1(8) by auto
    ultimately obtain w3 where "pass_through l i rest w2 = (Inr (), w3)" "o_job_chain (orders w3 i) = None"
      "\<forall>k. i \<notin> set (n_queue (nodes w3 k))" "chain_order_or_null w3 c (o_id (orders w2 i)) = None" "members_agree w3"
      using Cons.IH [OF step_keeps_members [OF assms(1) w1(3) w2(1)] w2(6,2) _ tasks(2)] by blast
    then show ?thesis using w1(1,7) w2(1,4) tasks by simp
  qed
qed simp

theorem order_comes_to_end_witness:
  "\<exists>w'. pass_through idle_life 0 [7] ex_orders = (Inr (), w') \<and> o_job_chain (orders w' 0) = None
     \<and> chain_order_or_null ex_orders 0 ''1'' = Some 0 \<and> chain_order_or_null w' 0 ''1'' = None"
proof -
  have target: "job_node_order_state (nodes ex_orders 0) success = State_name ''B''"
    by (simp add: job_node_order_state_def transition_to_state_def success_no_keep on_return_code_def normalized_state_def
        ex_orders_simps ex_node_def)
  have "referenced_node_from_state ex_orders 0 (State_name ''B'') = Inr 1"
    by (simp add: referenced_node_from_state_def node_from_state_def node_from_state_or_null_def ex_orders_simps ex_chain_of_def
        ex_node_def state_eq_def eval_nat_numeral)
  then have "line ex_orders 0 [0, 1]"
    using target by (simp add: leads_on_def ex_orders_simps ex_node_def state_eq_def duration_is_zero_def)
  moreover have "ready ex_orders 0 0 0"
    by (simp add: ready_def steady_def not_replaced_def ex_orders_simps ex_order_def ex_node_def)
  moreover have "is_never (next_start_time idle_life i w)" "file_order_kind idle_life i = No_file_order" for i w
    by (simp_all add: idle_life_def is_never_def never_def)
  moreover have "\<not> c_is_distributed (chains ex_orders 0)" by (simp add: ex_orders_simps ex_chain_of_def)
  moreover have "only_local ex_orders" by (auto simp: only_local_def ex_orders_def ex_order_def ex_node_def split: if_splits)
  ultimately obtain w' where "pass_through idle_life 0 [7] ex_orders = (Inr (), w')" "o_job_chain (orders w' 0) = None"
    "chain_order_or_null w' 0 (o_id (orders ex_orders 0)) = None"
    using order_comes_to_end [OF idle_hooks_keep(2) ex_orders_agree, of 0 0 0 "[1]" "[7]"] by auto
  then show ?thesis by (intro exI [of _ w']) (simp add: chain_order_or_null_def ex_orders_simps ex_order_def ex_chain_of_def)
qed

end
