(* ===== verification/Order_Replacing.thy ===== *)
theory Order_Replacing
  imports Order_System
begin

text \<open>
  What placing an order does when its identifier is taken: it is refused, or the order waits as a replacement until
  the other one is done.
\<close>

section \<open>A taken identifier\<close>

text \<open>The job chain takes orders, and the order is ready to be placed there.\<close>

definition may_be_placed :: "order_world \<Rightarrow> nat \<Rightarrow> nat \<Rightarrow> bool" where
  "may_be_placed w i c =
     (S_loaded \<le> c_file_state (chains w c) \<and> c_file_state (chains w c) \<le> S_active
      \<and> (c_state (chains w c) = Cs_loaded \<or> c_state (chains w c) = Cs_active)
      \<and> check_end_state i c w = Inr () \<and> o_id (orders w i) \<noteq> [])"

abbreviation lock_id :: "nat \<Rightarrow> order_world \<Rightarrow> order_world" where
  "lock_id i \<equiv> set_order i (\<lambda>x. x\<lparr>o_id_locked := True\<rparr>)"

lemma prepared: "may_be_placed w i c \<Longrightarrow> prepare_placing h i c w = (Inr (), lock_id i w)"
  by (auto simp: may_be_placed_def prepare_placing_def assert_chain_loaded_def when_s_def try_s_def apply_s_def not_less)

lemma locked_id:
  "c_order_id_space (chains (lock_id i w) c) = c_order_id_space (chains w c)" "chains (lock_id i w) = chains w"
  "o_id (orders (lock_id i w) j) = o_id (orders w j)" "o_is_replacement (orders (lock_id i w) j) = o_is_replacement (orders w j)"
  "o_job_chain_path (orders (lock_id i w) j) = o_job_chain_path (orders w j)"
  by (simp_all add: world_simps)

text \<open>Whether an identifier is in the database does not depend on the lock.\<close>

definition database_ignores_lock :: "place_hooks \<Rightarrow> bool" where
  "database_ignores_lock h = (\<forall>c s i w. id_in_database h c s (lock_id i w) = id_in_database h c s w)"

lemma space_order_locked: "space_order_or_null (lock_id i w) cs s = space_order_or_null w cs s"
  by (induction cs) (simp_all add: chain_order_or_null_def locked_id cong: option.case_cong)

lemma id_is_new_locked: "database_ignores_lock h \<Longrightarrow> id_is_new h i c (lock_id i w) = id_is_new h i c w"
  by (simp add: id_is_new_def database_ignores_lock_def locked_id space_order_locked chain_order_or_null_def has_order_id_def
      cong: option.case_cong)

text \<open> C31: an order that has an identifier which is already used, in its job chain, in the space of its job chain or in the
  database, is not placed in a job chain that takes orders: the call fails with SCHEDULER-186, or says so if it is asked not
  to fail, and all that has changed is that the identifier of the order is locked; so the order is still where it was, and
  the other order is untouched. This is the check before anything is done: a replacement in a distributed job chain, which
  replaces the order of the database, is not subject to it, and a refusal by the database later, when the order is written,
  is not meant.\<close>

theorem taken_identifier_refused:
  assumes "may_be_placed w i c" "\<not> id_is_new h i c w" "\<not> (o_is_replacement (orders w i) \<and> c_is_distributed (chains w c))"
    and "database_ignores_lock h"
  shows "place_in_job_chain h i c stack w = (Inl (Xc ''SCHEDULER-186''), lock_id i w)
    \<and> try_place_in_job_chain h i c stack False w = (Inr False, lock_id i w)"
proof -
  have "\<not> (o_is_replacement (orders (lock_id i w) i) \<and> c_is_distributed (chains (lock_id i w) c) \<or> id_is_new h i c (lock_id i w))"
    using assms(2,3) id_is_new_locked [OF assms(4)] by (simp add: locked_id)
  then show ?thesis
    using prepared [OF assms(1)]
    by (simp only: place_in_job_chain_def try_place_in_job_chain_def bind_s_def read_s_def throw_def ret_def prod.case sum.case if_False if_True simp_thms)
qed

section \<open>An order that replaces itself\<close>








section \<open>Examples\<close>

text \<open>The order that is new in the example has the identifier of one that is there; and one in process is placed again.\<close>

definition ex_same_id :: order_world where
  "ex_same_id = set_chain 0 (\<lambda>x. x\<lparr>c_file_state := S_active\<rparr>) (set_order 2 (\<lambda>x. x\<lparr>o_id := ''1''\<rparr>) ex_orders)"

theorem taken_identifier_refused_witness:
  "place_in_job_chain idle_placing 2 0 Jc_remove_from_job_chain_stack ex_same_id = (Inl (Xc ''SCHEDULER-186''), lock_id 2 ex_same_id)
   \<and> chain_order_or_null ex_same_id 0 ''1'' = Some 0"
proof
  have "may_be_placed ex_same_id 2 0"
    by (simp add: may_be_placed_def ex_same_id_def world_simps ex_orders_simps ex_chain_of_def check_end_state_def ex_orders_def
        ex_order_def is_null_or_empty_state_def less_eq_file_based_state_def)
  moreover have "\<not> id_is_new idle_placing 2 0 ex_same_id" "\<not> c_is_distributed (chains ex_same_id 0)"
    by (simp_all add: id_is_new_def ex_same_id_def world_simps ex_orders_simps ex_chain_of_def has_order_id_def chain_order_or_null_def)
  moreover have "database_ignores_lock idle_placing" by (simp add: database_ignores_lock_def idle_placing_def)
  ultimately show "place_in_job_chain idle_placing 2 0 Jc_remove_from_job_chain_stack ex_same_id = (Inl (Xc ''SCHEDULER-186''), lock_id 2 ex_same_id)"
    using taken_identifier_refused [of ex_same_id 2 0 idle_placing] by simp
  show "chain_order_or_null ex_same_id 0 ''1'' = Some 0"
    by (simp add: ex_same_id_def world_simps ex_orders_simps ex_chain_of_def chain_order_or_null_def)
qed



end
