(* ===== verification/Order_Starts.thy ===== *)
theory Order_Starts
  imports Schedule_Covering
begin

text \<open>
  When an order starts (\<^verbatim>\<open>Order::first_start_time\<close> and \<^verbatim>\<open>Order::next_start_time\<close>, \<^verbatim>\<open>Order.cxx\<close>). The order keeps the
  period of its start in \<^verbatim>\<open>_period\<close>, which is an argument and a result here. \<open>np\<close> is \<^verbatim>\<open>next_period\<close> of the use of the
  schedule; an order without a schedule never starts.
\<close>

type_synonym period_search = "time \<Rightarrow> with_single_start \<Rightarrow> period result"

definition any_start :: with_single_start where
  "any_start = {Wss_next_any_start}"

text \<open>A start in the past is a start at once.\<close>

definition not_past :: "time \<Rightarrow> time \<Rightarrow> time" where
  "not_past now t = (if t < now then Time 0 else t)"

definition first_start_time :: "period_search \<Rightarrow> bool \<Rightarrow> time \<Rightarrow> period \<Rightarrow> (time \<times> period) result" where
  "first_start_time np is_defined now old =
     (if \<not> is_defined then Inr (never, old)
      else bind_r (np now any_start) (\<lambda>p.
        if \<not> is_eternal (absolute_repeat p) then
          (let t = next_repeated p now in
           if is_never t then bind_r (np (p_end p) any_start) (\<lambda>q. Inr (not_past now (p_begin q), q))
           else Inr (not_past now t, p))
        else Inr (not_past now (p_begin p), p)))"

text \<open>\<open>current_period\<close> is the period of the order, or the next one if it is over; \<open>after_end\<close> the start after the end of
  the period; \<open>single_start_before\<close> the last part, a single start that comes earlier.\<close>

definition current_period :: "period_search \<Rightarrow> time \<Rightarrow> period \<Rightarrow> period result" where
  "current_period np now p = (if p_end p < now then np now any_start else Inr p)"

definition after_end :: "period_search \<Rightarrow> time \<Rightarrow> period \<Rightarrow> time \<Rightarrow> (time \<times> period) result" where
  "after_end np now p t =
     (if t < p_end p then Inr (t, p)
      else bind_r (np (if is_never (p_end p) then now else p_end p) any_start) (\<lambda>q.
        if is_never t then Inr (p_begin q, q)
        else if p_end q \<le> t then bind_r (np (p_end q) any_start) (\<lambda>r. Inr (p_begin r, r))
        else if \<not> is_seamless_repeat_of q p then Inr (p_begin q, q)
        else Inr (t, q)))"

definition single_start_before :: "period_search \<Rightarrow> time \<Rightarrow> time \<times> period \<Rightarrow> (time \<times> period) result" where
  "single_start_before np now start =
     bind_r (np now {Wss_next_single_start}) (\<lambda>s.
       Inr (if single_start s \<and> (p_begin s < fst start \<or> fst start < now) then (p_begin s, s) else start))"

definition order_next_start_time :: "period_search \<Rightarrow> bool \<Rightarrow> time \<Rightarrow> period \<Rightarrow> (time \<times> period) result" where
  "order_next_start_time np is_defined now old =
     (if \<not> is_defined then Inr (never, old)
      else bind_r (current_period np now old) (\<lambda>p.
           bind_r (after_end np now p (next_repeated_allow_after_end p now)) (\<lambda>start.
           bind_r (single_start_before np now start) (\<lambda>(t, q). Inr (not_past now t, q)))))"

section \<open>The start lies in the period\<close>

text \<open>The start is at once, since it was due, or it is not in the past, and at the begin of the period or inside of it.\<close>

definition start_in :: "time \<Rightarrow> time \<Rightarrow> period \<Rightarrow> bool" where
  "start_in now t p =
     (t = Time 0 \<and> p_begin p < now \<or> now \<le> t \<and> p_begin p \<le> t \<and> (t = p_begin p \<or> t < p_end p))"

text \<open>
  The intervals of a period lead forward: \<^verbatim>\<open>repeat\<close> is not negative, and \<^verbatim>\<open>absolute_repeat\<close> is a positive number of
  milliseconds, with a grid that does not begin after the period and does not lead past 2038 or beyond 32 bits.
\<close>

definition repeats_forward :: "time \<Rightarrow> period \<Rightarrow> bool" where
  "repeats_forward now p =
     (time_ok (p_begin p) \<and> 0 \<le> seconds_of (repeat p)
      \<and> (is_eternal (repeat p) \<and> \<not> is_eternal (absolute_repeat p) \<longrightarrow>
           0 < seconds_of (absolute_repeat p) \<and> whole_ms (seconds_of (absolute_repeat p))
           \<and> whole_ms (time_of (absolute_repeat_begin p)) \<and> absolute_repeat_begin p \<le> p_begin p
           \<and> time_of (max now (p_begin p)) + seconds_of (absolute_repeat p) \<le> never_seconds
           \<and> (time_of (max now (p_begin p)) - time_of (absolute_repeat_begin p)) / seconds_of (absolute_repeat p) < 2147483647))"

lemma time_ok_le_never: "time_ok t \<Longrightarrow> t \<le> never"
  by (simp add: time_ok_def never_def less_eq_time_def)

lemma time_plus_forward:
  assumes "time_ok t" "0 \<le> seconds_of d" shows "t \<le> time_plus t d"
proof (cases "is_never t \<or> is_eternal d")
  case False
  have "time_of t \<le> min never_seconds (time_of t + seconds_of d)" using assms by (simp add: time_ok_def)
  then have "time_round (time_of t) \<le> time_round (min never_seconds (time_of t + seconds_of d))"
    unfolding time_round_def by (intro divide_right_mono) (auto intro!: floor_mono)
  moreover have "time_round (time_of t) = time_of t" using assms(1) by (simp add: time_ok_def flip: whole_ms_round)
  ultimately show ?thesis
    using False time_ok_le_never [OF assms(1)] by (auto simp: time_plus_def set_time_def less_eq_time_def)
qed (use time_ok_le_never [OF assms(1)] in \<open>auto simp: time_plus_def\<close>)

lemma repeated_not_before:
  assumes "repeats_forward now p" "time_ok now"
  shows "p_begin p \<le> next_repeated_allow_after_end p now"
proof (cases "is_eternal (repeat p) \<and> \<not> is_eternal (absolute_repeat p)")
  case True
  have ok: "time_ok (p_begin p)" using assms(1) by (simp add: repeats_forward_def)
  obtain k where k: "next_absolute_repeated p now = (if grid p k < p_end p then grid p k else never)" "max now (p_begin p) \<le> grid p k"
    by (rule next_absolute_repeated_grid [of p now]) (use assms True in \<open>simp_all add: repeats_forward_def\<close>)
  then show ?thesis using True time_ok_le_never [OF ok] by (simp add: next_repeated_allow_after_end_def)
next
  case False
  then show ?thesis
    using assms time_ok_le_never [of "p_begin p"] time_plus_forward [OF assms(2), of "repeat p"]
    by (auto simp: next_repeated_allow_after_end_def repeats_forward_def not_less intro: order_trans)
qed

lemma not_past_in: "p_begin p \<le> t \<Longrightarrow> t = p_begin p \<or> t < p_end p \<Longrightarrow> start_in now (not_past now t) p"
  by (auto simp: start_in_def not_past_def not_less)

lemma after_end_in:
  assumes "after_end np now p t = Inr (t', q)" "p_begin p \<le> t"
  shows "p_begin q \<le> t' \<and> (t' = p_begin q \<or> t' < p_end q)"
proof (cases "t < p_end p")
  case True
  then show ?thesis using assms by (simp add: after_end_def)
next
  case False
  then show ?thesis using assms(1)
    by (auto simp: after_end_def bind_r_Inr_iff is_seamless_repeat_of_def split: if_splits)
qed

lemma first_start_in_period:
  assumes "first_start_time np True now old = Inr (t, p)"
    and "time_ok now" "\<And>q. np now any_start = Inr q \<Longrightarrow> repeats_forward now q"
  shows "start_in now t p"
proof -
  have "p_begin q \<le> next_repeated q now \<and> next_repeated q now < p_end q"
    if "np now any_start = Inr q" "\<not> is_never (next_repeated q now)" for q
    using that repeated_not_before [OF assms(3,2)] by (auto simp: next_repeated_def Let_def is_never_def never_def split: if_splits)
  then show ?thesis using assms(1)
    by (auto simp: first_start_time_def bind_r_Inr_iff Let_def intro!: not_past_in split: if_splits)
qed

text \<open> C30: if the intervals of the periods lead forward, the next start of an order that has a schedule is at once, because
  a start was due in a period that has begun, or it is not in the past and is the begin of the period that the order
  keeps or lies between its begin and its end; and it is never later than the next single start of the schedule. This holds
  for every search of the schedule.\<close>

theorem next_start_time_in_period:
  assumes "order_next_start_time np True now old = Inr (t, p)"
    and "time_ok now" "repeats_forward now old" "\<And>q. np now any_start = Inr q \<Longrightarrow> repeats_forward now q"
  shows "(t = Time 0 \<and> p_begin p < now \<or> now \<le> t \<and> p_begin p \<le> t \<and> (t = p_begin p \<or> t < p_end p))
    \<and> (\<forall>s. np now {Wss_next_single_start} = Inr s \<longrightarrow> single_start s \<longrightarrow> now \<le> p_begin s \<longrightarrow> t \<le> p_begin s)"
proof -
  obtain c t1 q1 t2 where c: "current_period np now old = Inr c"
    and t1: "after_end np now c (next_repeated_allow_after_end c now) = Inr (t1, q1)"
    and t2: "single_start_before np now (t1, q1) = Inr (t2, p)" "t = not_past now t2"
    using assms(1) by (auto simp: order_next_start_time_def bind_r_Inr_iff)
  have "repeats_forward now c" using c assms(3,4) by (auto simp: current_period_def split: if_splits)
  note in1 = after_end_in [OF t1 repeated_not_before [OF this assms(2)]]
  have "p_begin p \<le> t2 \<and> (t2 = p_begin p \<or> t2 < p_end p)"
    using t2(1) in1 by (auto simp: single_start_before_def bind_r_Inr_iff split: if_splits)
  then have "start_in now t p" using t2(2) not_past_in by simp
  moreover have "t \<le> p_begin s" if "np now {Wss_next_single_start} = Inr s" "single_start s" "now \<le> p_begin s" for s
    using t2 that by (auto simp: single_start_before_def bind_r_Inr_iff not_past_def split: if_splits)
  ultimately show ?thesis by (simp add: start_in_def)
qed

section \<open>An example\<close>

text \<open>A period from 100 to 200 with a start every 30 seconds, and a single start at 120.\<close>

definition ex_repeat_period :: period where
  "ex_repeat_period = empty_period\<lparr>p_begin := Time 100, p_end := Time 200, repeat := Duration 30\<rparr>"

definition ex_single_period :: period where
  "ex_single_period = set_single_start empty_period (Time 120)"

definition ex_starts :: period_search where
  "ex_starts t wss = Inr (if Wss_next_single_start \<in> wss then ex_single_period else ex_repeat_period)"

theorem next_start_time_in_period_witness:
  "order_next_start_time ex_starts True (Time 110) ex_repeat_period = Inr (Time 120, ex_single_period)
   \<and> Time 110 \<le> Time 120 \<and> p_begin ex_single_period \<le> Time 120"
proof -
  have plus: "time_plus (Time 110) (Duration 30) = Time 140"
    by (simp add: time_plus_def is_never_def is_eternal_def never_seconds_def never_int_def set_time_def time_round_def floor_eq_iff)
  have run: "order_next_start_time ex_starts True (Time 110) ex_repeat_period = Inr (Time 120, ex_single_period)"
    by (simp add: order_next_start_time_def current_period_def after_end_def single_start_before_def ex_starts_def any_start_def
        ex_repeat_period_def ex_single_period_def set_single_start_def next_repeated_allow_after_end_def is_eternal_def plus
        not_past_def less_time_def never_seconds_def never_int_def)
  have ok: "repeats_forward (Time 110) ex_repeat_period" "time_ok (Time 110)"
    by (simp_all add: repeats_forward_def ex_repeat_period_def empty_period_def time_ok_def is_eternal_def never_seconds_def
        never_int_def eternal_def)
  show ?thesis using next_start_time_in_period [OF run ok(2,1)] ok(1) run
    by (simp add: ex_starts_def any_start_def ex_single_period_def set_single_start_def time_order)
qed

end
