(* ===== verification/Process_Classes.thy ===== *)
theory Process_Classes
  imports File_Based_State
begin

text \<open>
  Process classes (\<^verbatim>\<open>spooler_process.h\<close>, \<^verbatim>\<open>spooler_process.cxx\<close>): a class limits how many processes run at the same
  time, and keeps a list of the jobs and tasks that wait for one. The processes themselves (operating system,
  remote schedulers) are only numbers here. A call into another object (waking a requestor, asking the class to be
  removed) is a signal in the result; the theory of the caller passes it on.
\<close>

section \<open>The class and its requestors\<close>

datatype process_requestor = Job_requestor nat | Task_requestor nat

definition is_task :: "process_requestor \<Rightarrow> bool" where
  "is_task r = (case r of Task_requestor _ \<Rightarrow> True | Job_requestor _ \<Rightarrow> False)"

record process_class =
  pc_path :: string
  pc_state :: file_based_state
  pc_to_be_removed :: bool
  pc_max_processes :: int
  pc_remote_scheduler_address :: string
  pc_more_agents :: bool
  pc_requestors :: "process_requestor list"
  pc_processes :: "nat list"
  pc_process_set_version :: int
  pc_file_order_source_count :: int

definition default_max_processes :: int where
  "default_max_processes = 30"

definition new_process_class :: "string \<Rightarrow> process_class" where
  "new_process_class path =
     \<lparr>pc_path = path, pc_state = S_not_initialized, pc_to_be_removed = False, pc_max_processes = default_max_processes,
      pc_remote_scheduler_address = [], pc_more_agents = False, pc_requestors = [], pc_processes = [],
      pc_process_set_version = 0, pc_file_order_source_count = 0\<rparr>"

datatype pc_signal = Notify_process_available process_requestor | Check_for_replacing_or_removing

text \<open>\<^verbatim>\<open>scheduler::max_processes\<close>, for the whole scheduler.\<close>

definition all_max_processes :: int where
  "all_max_processes = 10000"

text \<open>
  \<^verbatim>\<open>_process_set.size() < _max_processes\<close> compares a \<^verbatim>\<open>size_t\<close> with an \<^verbatim>\<open>int\<close>: the limit is converted to an
  unsigned number of 64 bits.
\<close>

definition unsigned :: "int \<Rightarrow> int" where
  "unsigned i = i mod 2 ^ 64"

definition used_process_count :: "process_class \<Rightarrow> int" where
  "used_process_count pc = int (length (pc_processes pc))"

definition below_max_processes :: "process_class \<Rightarrow> bool" where
  "below_max_processes pc = (used_process_count pc < unsigned (pc_max_processes pc))"

text \<open>\<^verbatim>\<open>max_processes_reached\<close> compares two \<^verbatim>\<open>int\<close>.\<close>

definition max_processes_reached :: "process_class \<Rightarrow> bool" where
  "max_processes_reached pc = (used_process_count pc \<ge> pc_max_processes pc)"

section \<open>Waiting for a process\<close>

definition waiting_requestor_or_null :: "process_class \<Rightarrow> process_requestor option" where
  "waiting_requestor_or_null pc =
     (if pc_state pc = S_active \<and> \<not> pc_to_be_removed pc then
        (case List.find is_task (pc_requestors pc) of
           Some r \<Rightarrow> Some r
         | None \<Rightarrow> (case pc_requestors pc of [] \<Rightarrow> None | r # _ \<Rightarrow> Some r))
      else None)"

definition check_then_notify :: "process_class \<Rightarrow> pc_signal list" where
  "check_then_notify pc =
     (case waiting_requestor_or_null pc of None \<Rightarrow> [] | Some r \<Rightarrow> [Notify_process_available r])"

definition enqueue_requestor :: "process_requestor \<Rightarrow> process_class \<Rightarrow> process_class" where
  "enqueue_requestor r pc = pc\<lparr>pc_requestors := pc_requestors pc @ [r]\<rparr>"

text \<open>\<^verbatim>\<open>list::remove\<close> removes all equal elements.\<close>

definition pc_remove_requestor :: "process_requestor \<Rightarrow> process_class \<Rightarrow> process_class \<times> pc_signal list" where
  "pc_remove_requestor r pc =
     (case pc_requestors pc of
        [] \<Rightarrow> (pc, [])
      | head # _ \<Rightarrow>
          (let pc' = pc\<lparr>pc_requestors := removeAll r (pc_requestors pc)\<rparr>
           in (pc', case pc_requestors pc' of
                      [] \<Rightarrow> []
                    | head' # _ \<Rightarrow> if head \<noteq> head' then check_then_notify pc' else [])))"

definition process_available :: "int \<Rightarrow> nat \<Rightarrow> process_class \<Rightarrow> bool" where
  "process_available process_count job pc =
     (pc_state pc = S_active \<and> below_max_processes pc \<and> process_count < all_max_processes
      \<and> (case pc_requestors pc of [] \<Rightarrow> True | r # _ \<Rightarrow> r = Job_requestor job))"

section \<open>Processes of the class\<close>

datatype process_kind = Dummy_process | Http_remote_api_process | Tcp_remote_api_process | Local_api_process

record process_configuration =
  conf_is_shell_dummy :: bool
  conf_remote_scheduler_address :: string

text \<open>\<^verbatim>\<open>remote_scheduler_address.find("://") != npos\<close>.\<close>

fun contains_scheme :: "string \<Rightarrow> bool" where
  "contains_scheme [] = False"
| "contains_scheme (c # cs) = (take 3 (c # cs) = ''://'' \<or> contains_scheme cs)"

definition is_http_or_multiple :: "process_class \<Rightarrow> string \<Rightarrow> bool" where
  "is_http_or_multiple pc address = (contains_scheme address \<or> pc_more_agents pc)"

definition is_remote_host :: "process_class \<Rightarrow> bool" where
  "is_remote_host pc = (pc_remote_scheduler_address pc \<noteq> [] \<or> pc_more_agents pc)"

definition process_kind_of :: "process_class \<Rightarrow> process_configuration \<Rightarrow> process_kind" where
  "process_kind_of pc conf =
     (if conf_is_shell_dummy conf then Dummy_process
      else
        let address = (if conf_remote_scheduler_address conf = [] then pc_remote_scheduler_address pc
                       else conf_remote_scheduler_address conf)
        in if is_http_or_multiple pc address then Http_remote_api_process
           else if address \<noteq> [] then Tcp_remote_api_process
           else Local_api_process)"

definition add_process :: "nat \<Rightarrow> process_class \<Rightarrow> process_class" where
  "add_process p pc =
     pc\<lparr>pc_processes := (if p \<in> set (pc_processes pc) then pc_processes pc else p # pc_processes pc),
        pc_process_set_version := pc_process_set_version pc + 1\<rparr>"

definition pc_can_be_removed_now :: "process_class \<Rightarrow> bool" where
  "pc_can_be_removed_now pc = (pc_processes pc = [] \<and> pc_file_order_source_count pc = 0)"

definition remove_process :: "nat \<Rightarrow> process_class \<Rightarrow> (process_class \<times> pc_signal list) result" where
  "remove_process p pc =
     (if p \<notin> set (pc_processes pc) then Inl (Xc ''remove_process'')
      else
        let pc' = pc\<lparr>pc_processes := remove1 p (pc_processes pc),
                     pc_process_set_version := pc_process_set_version pc + 1\<rparr>
        in Inr (pc', if pc_to_be_removed pc' \<and> pc_can_be_removed_now pc' then [Check_for_replacing_or_removing]
                     else check_then_notify pc'))"

text \<open>The process object \<open>p\<close> is a new one, not yet in any class.\<close>

definition new_process :: "process_configuration \<Rightarrow> nat \<Rightarrow> process_class \<Rightarrow> (process_kind \<times> process_class) result" where
  "new_process conf p pc =
     (if pc_state pc \<noteq> S_active then Inl (Xc ''SCHEDULER-153'')
      else Inr (process_kind_of pc conf, add_process p pc))"

definition select_process_if_available ::
  "int \<Rightarrow> process_configuration \<Rightarrow> nat \<Rightarrow> process_class \<Rightarrow> (process_kind option \<times> process_class) result" where
  "select_process_if_available process_count conf p pc =
     (if \<not> pc_to_be_removed pc \<and> pc_state pc = S_active \<and> below_max_processes pc \<and> process_count < all_max_processes
      then bind_r (new_process conf p pc) (\<lambda>(kind, pc'). Inr (Some kind, pc'))
      else Inr (None, pc))"

section \<open>File order sources, configuration and replacement\<close>

definition add_file_order_source :: "process_class \<Rightarrow> process_class" where
  "add_file_order_source pc = pc\<lparr>pc_file_order_source_count := pc_file_order_source_count pc + 1\<rparr>"

definition remove_file_order_source :: "process_class \<Rightarrow> (process_class \<times> pc_signal list) result" where
  "remove_file_order_source pc =
     (if \<not> pc_file_order_source_count pc > 0 then Inl (Assertion ''remove_file_order_source'')
      else
        let pc' = pc\<lparr>pc_file_order_source_count := pc_file_order_source_count pc - 1\<rparr>
        in Inr (pc', if pc_to_be_removed pc' \<and> pc_can_be_removed_now pc' then [Check_for_replacing_or_removing] else []))"

text \<open>
  \<^verbatim>\<open>Process_class_configuration::set_max_processes\<close> refuses a negative number, but \<^verbatim>\<open>Process_class\<close> overrides it
  without calling it.
\<close>

definition configuration_set_max_processes :: "int \<Rightarrow> process_class \<Rightarrow> process_class result" where
  "configuration_set_max_processes n pc =
     (if n < 0 then Inl (Xc ''SCHEDULER-420'') else Inr (pc\<lparr>pc_max_processes := n\<rparr>))"

definition set_max_processes :: "int \<Rightarrow> process_class \<Rightarrow> process_class \<times> pc_signal list" where
  "set_max_processes n pc =
     (let pc' = pc\<lparr>pc_max_processes := n\<rparr> in (pc', check_then_notify pc'))"

text \<open>
  \<^verbatim>\<open>set_remote_scheduler_address\<close>: an address without a port gets the scheduler's own; \<open>with_own_port\<close> is
  \<^verbatim>\<open>Host_and_port\<close> with the scheduler's TCP port filled in, if the address has a host and no port.
\<close>

definition set_remote_scheduler_address :: "(string \<Rightarrow> string) \<Rightarrow> string \<Rightarrow> process_class \<Rightarrow> process_class" where
  "set_remote_scheduler_address with_own_port address pc =
     pc\<lparr>pc_remote_scheduler_address := (if CHR '':'' \<in> set address then address else with_own_port address)\<rparr>"

datatype com_result = S_OK | E_ACCESSDENIED | E_INVALIDARG

definition put_remote_scheduler ::
  "(string \<Rightarrow> string) \<Rightarrow> string \<Rightarrow> process_class \<Rightarrow> com_result \<times> process_class" where
  "put_remote_scheduler with_own_port address pc =
     (if is_http_or_multiple pc (pc_remote_scheduler_address pc) then (E_ACCESSDENIED, pc)
      else if is_http_or_multiple pc address then (E_INVALIDARG, pc)
      else (S_OK, set_remote_scheduler_address with_own_port address pc))"

definition set_configuration ::
  "(string \<Rightarrow> string) \<Rightarrow> process_class \<Rightarrow> process_class \<Rightarrow> (process_class \<times> pc_signal list) result" where
  "set_configuration with_own_port configuration pc =
     (if pc_path pc \<noteq> pc_path configuration then Inl (Assertion ''set_configuration'')
      else
        let (pc', signals) = set_max_processes (pc_max_processes configuration) pc
        in Inr (set_remote_scheduler_address with_own_port (pc_remote_scheduler_address configuration) pc', signals))"

definition pc_on_replace_now ::
  "(string \<Rightarrow> string) \<Rightarrow> process_class \<Rightarrow> process_class \<Rightarrow> (process_class \<times> pc_signal list) result" where
  "pc_on_replace_now with_own_port replacement pc =
     bind_r (set_configuration with_own_port replacement pc) (\<lambda>(pc', signals).
       Inr (pc'\<lparr>pc_more_agents := pc_more_agents replacement\<rparr>, signals))"

end
