(* ===== verification/Process_Pool.thy ===== *)
theory Process_Pool
  imports Process_Classes
begin

text \<open>
  A process class at work: requestors ask for a process, wait, are notified, and end their processes. \<open>pending\<close> is
  the list of requestors with a notification that they have not yet acted on. The number of processes of the whole
  scheduler, \<^verbatim>\<open>_process_count\<close>, changes from outside at any time. Shown: the number of processes stays
  within the limits that were set, and no process stays unused while a requestor waits, as long as no job is
  enqueued before a task and the limit of the scheduler is not reached.
\<close>

section \<open>The limit\<close>

lemma unsigned_id: "0 \<le> i \<Longrightarrow> i < 2 ^ 64 \<Longrightarrow> unsigned i = i"
  by (simp add: unsigned_def)

lemma unsigned_negative: "i < 0 \<Longrightarrow> - (2 ^ 31) \<le> i \<Longrightarrow> unsigned i = 2 ^ 64 + i"
  by (simp add: unsigned_def, subst mod_add_self1 [symmetric], rule mod_pos_pos_trivial) simp_all

lemma below_max_iff:
  "0 \<le> pc_max_processes pc \<Longrightarrow> pc_max_processes pc < 2 ^ 64
   \<Longrightarrow> below_max_processes pc \<longleftrightarrow> used_process_count pc < pc_max_processes pc"
  by (simp add: below_max_processes_def unsigned_id)

section \<open>Events of a process class\<close>

record pool =
  pool_class :: process_class
  pool_pending :: "process_requestor list"
  pool_next_process :: nat
  pool_process_count :: int

datatype pool_event =
    Ask_for_process process_requestor process_configuration
  | End_process nat
  | Give_up process_requestor
  | Set_limit int
  | Set_process_count int

definition notified :: "pc_signal list \<Rightarrow> process_requestor list" where
  "notified signals = concat (map (\<lambda>s. case s of Notify_process_available r \<Rightarrow> [r] | _ \<Rightarrow> []) signals)"

definition add_pending :: "pc_signal list \<Rightarrow> process_requestor list \<Rightarrow> process_requestor list" where
  "add_pending signals rs = rs @ filter (\<lambda>r. r \<notin> set rs) (notified signals)"

text \<open>
  A requestor that gets a process leaves the list; one that gets none enters it, once. For a task these are the
  steps in \<^verbatim>\<open>s_waiting_for_process\<close>, for a job those of \<^verbatim>\<open>task_to_start\<close> and of the task it starts. Whatever
  happens, its notification is used up.
\<close>

definition take_process ::
  "process_requestor \<Rightarrow> process_configuration \<Rightarrow> pool \<Rightarrow> (process_kind option \<times> process_class) result" where
  "take_process r conf p =
     (let pc = pool_class p;
          selected = select_process_if_available (pool_process_count p) conf (pool_next_process p) pc
      in case r of
           Task_requestor _ \<Rightarrow> selected
         | Job_requestor j \<Rightarrow> if process_available (pool_process_count p) j pc then selected else Inr (None, pc))"

definition leave_list :: "process_requestor \<Rightarrow> pool \<Rightarrow> pool" where
  "leave_list r p =
     (let (pc, signals) = pc_remove_requestor r (pool_class p)
      in p\<lparr>pool_class := pc, pool_pending := add_pending signals (pool_pending p)\<rparr>)"

fun pool_step :: "pool_event \<Rightarrow> pool \<Rightarrow> pool" where
  "pool_step (Ask_for_process r conf) p =
     (let p = p\<lparr>pool_pending := removeAll r (pool_pending p)\<rparr>
      in case take_process r conf p of
           Inl _ \<Rightarrow> p
         | Inr (Some _, pc) \<Rightarrow> leave_list r (p\<lparr>pool_class := pc, pool_next_process := Suc (pool_next_process p)\<rparr>)
         | Inr (None, pc) \<Rightarrow>
             if r \<in> set (pc_requestors pc) then p\<lparr>pool_class := pc\<rparr> else p\<lparr>pool_class := enqueue_requestor r pc\<rparr>)"
| "pool_step (End_process n) p =
     (case remove_process n (pool_class p) of
        Inl _ \<Rightarrow> p
      | Inr (pc, signals) \<Rightarrow> p\<lparr>pool_class := pc, pool_pending := add_pending signals (pool_pending p)\<rparr>)"
| "pool_step (Give_up r) p = leave_list r (p\<lparr>pool_pending := removeAll r (pool_pending p)\<rparr>)"
| "pool_step (Set_limit n) p =
     (let (pc, signals) = set_max_processes n (pool_class p)
      in p\<lparr>pool_class := pc, pool_pending := add_pending signals (pool_pending p)\<rparr>)"
| "pool_step (Set_process_count k) p = p\<lparr>pool_process_count := k\<rparr>"

definition pool_run :: "pool_event list \<Rightarrow> pool \<Rightarrow> pool" where
  "pool_run es p = fold pool_step es p"

section \<open>The number of processes\<close>

definition limits_ok :: "int \<Rightarrow> pool_event list \<Rightarrow> bool" where
  "limits_ok m es = (\<forall>n. Set_limit n \<in> set es \<longrightarrow> 0 \<le> n \<and> n \<le> m)"

definition within :: "int \<Rightarrow> process_class \<Rightarrow> bool" where
  "within m pc = (used_process_count pc \<le> m \<and> 0 \<le> pc_max_processes pc \<and> pc_max_processes pc \<le> m)"

lemma remove_requestor_facts:
  "pc_processes (fst (pc_remove_requestor r pc)) = pc_processes pc"
  "pc_max_processes (fst (pc_remove_requestor r pc)) = pc_max_processes pc"
  "pc_state (fst (pc_remove_requestor r pc)) = pc_state pc"
  "pc_to_be_removed (fst (pc_remove_requestor r pc)) = pc_to_be_removed pc"
  "pc_requestors (fst (pc_remove_requestor r pc)) = removeAll r (pc_requestors pc)"
  by (simp_all add: pc_remove_requestor_def Let_def split: list.splits)

lemma leave_list_class: "pool_class (leave_list r p) = fst (pc_remove_requestor r (pool_class p))"
  by (simp add: leave_list_def split: prod.splits)

lemma within_leave [simp]: "within m (pool_class (leave_list r p)) = within m (pool_class p)"
  by (simp add: leave_list_class within_def used_process_count_def remove_requestor_facts)

text \<open>What comes of asking for a process.\<close>

definition available :: "process_class \<Rightarrow> bool" where
  "available pc = (\<not> pc_to_be_removed pc \<and> pc_state pc = S_active \<and> below_max_processes pc)"

definition may_go_first :: "process_requestor \<Rightarrow> process_class \<Rightarrow> bool" where
  "may_go_first r pc = (is_task r \<or> pc_requestors pc = [] \<or> hd (pc_requestors pc) = r)"

lemma selected:
  "select_process_if_available k conf n pc =
     (if available pc \<and> k < all_max_processes then Inr (Some (process_kind_of pc conf), add_process n pc) else Inr (None, pc))"
  by (auto simp: select_process_if_available_def available_def new_process_def)

lemma taken:
  "take_process r conf p =
     (if available (pool_class p) \<and> pool_process_count p < all_max_processes \<and> may_go_first r (pool_class p)
      then Inr (Some (process_kind_of (pool_class p) conf), add_process (pool_next_process p) (pool_class p))
      else Inr (None, pool_class p))"
  by (auto simp: take_process_def Let_def selected available_def may_go_first_def process_available_def is_task_def
      split: process_requestor.splits list.splits)

lemma asked:
  "pool_step (Ask_for_process r conf) p =
     (let q = p\<lparr>pool_pending := removeAll r (pool_pending p)\<rparr>
      in if available (pool_class p) \<and> pool_process_count p < all_max_processes \<and> may_go_first r (pool_class p)
         then leave_list r (q\<lparr>pool_class := add_process (pool_next_process p) (pool_class p),
                             pool_next_process := Suc (pool_next_process p)\<rparr>)
         else if r \<in> set (pc_requestors (pool_class p)) then q
         else q\<lparr>pool_class := enqueue_requestor r (pool_class p)\<rparr>)"
  by (simp add: Let_def taken)

declare pool_step.simps(1) [simp del]

lemma within_step:
  assumes "within m (pool_class p)" "limits_ok m [e]" "m < 2 ^ 64"
  shows "within m (pool_class (pool_step e p))"
proof (cases e)
  case (Ask_for_process r conf)
  then show ?thesis using assms(1,3)
    by (auto simp: Let_def asked available_def below_max_iff within_def used_process_count_def add_process_def
        enqueue_requestor_def leave_list_class remove_requestor_facts)
next
  case (End_process n)
  then show ?thesis using assms(1)
    by (auto simp: remove_process_def Let_def within_def used_process_count_def length_remove1 split: sum.splits)
next
  case (Set_limit n)
  then show ?thesis using assms(1,2) by (auto simp: set_max_processes_def Let_def within_def used_process_count_def limits_ok_def)
qed (use assms(1) in simp_all)

lemma within_run:
  "within m (pool_class p) \<Longrightarrow> limits_ok m es \<Longrightarrow> m < 2 ^ 64 \<Longrightarrow> within m (pool_class (pool_run es p))"
proof (induction es arbitrary: p)
  case (Cons e es)
  then have "within m (pool_class (pool_step e p))" "limits_ok m es"
    by (auto intro: within_step simp: limits_ok_def)
  then show ?case using Cons by (simp add: pool_run_def)
qed (simp add: pool_run_def)

section \<open>No process is left unused\<close>

text \<open>
  \<open>served\<close>: whenever a process is available and a requestor waits, the one to be served next has a pending
  notification. \<open>tasks_first\<close>: the requestor served next is the head of the list.
\<close>

definition tasks_first :: "process_requestor list \<Rightarrow> bool" where
  "tasks_first rs = (\<forall>i j. i < j \<and> j < length rs \<and> is_task (rs ! j) \<longrightarrow> is_task (rs ! i))"

definition served :: "pool \<Rightarrow> bool" where
  "served p = (\<forall>r. available (pool_class p) \<longrightarrow> waiting_requestor_or_null (pool_class p) = Some r \<longrightarrow> r \<in> set (pool_pending p))"

lemma tasks_first_simps [simp]:
  "tasks_first []" "tasks_first (r # rs) \<longleftrightarrow> (\<not> is_task r \<longrightarrow> (\<forall>x \<in> set rs. \<not> is_task x)) \<and> tasks_first rs"
proof -
  show "tasks_first []" by (simp add: tasks_first_def)
  show "tasks_first (r # rs) \<longleftrightarrow> (\<not> is_task r \<longrightarrow> (\<forall>x \<in> set rs. \<not> is_task x)) \<and> tasks_first rs" (is "?l = ?r")
  proof
    assume l: ?l
    then have "tasks_first rs" unfolding tasks_first_def by (metis Suc_less_eq length_Cons nth_Cons_Suc)
    moreover have "\<not> is_task x" if "\<not> is_task r" "x \<in> set rs" for x
    proof -
      from that(2) obtain j where "j < length rs" "rs ! j = x" by (auto simp: in_set_conv_nth)
      then show ?thesis using l that(1) unfolding tasks_first_def
        by (metis Suc_less_eq length_Cons nth_Cons_0 nth_Cons_Suc zero_less_Suc)
    qed
    ultimately show ?r by blast
  next
    assume r: ?r
    have "is_task ((r # rs) ! i)" if "i < j" "j < length (r # rs)" "is_task ((r # rs) ! j)" for i j
      using that r unfolding tasks_first_def by (cases i; cases j) auto
    then show ?l by (auto simp: tasks_first_def)
  qed
qed

lemma tasks_first_removeAll: "tasks_first rs \<Longrightarrow> tasks_first (removeAll r rs)"
  by (induction rs) auto

lemma tasks_first_append:
  assumes "tasks_first rs" "is_task r \<longrightarrow> (\<forall>x \<in> set rs. is_task x)"
  shows "tasks_first (rs @ [r])"
proof (cases "is_task r")
  case True
  then show ?thesis using assms by (simp add: tasks_first_def nth_append)
next
  case False
  then show ?thesis using assms(1) by (induction rs) simp_all
qed

lemma available_enqueue [simp]: "available (enqueue_requestor r pc) = available pc"
  by (simp add: available_def enqueue_requestor_def below_max_processes_def used_process_count_def)

lemma waiting_cong:
  "pc_state pc = pc_state pc' \<Longrightarrow> pc_to_be_removed pc = pc_to_be_removed pc' \<Longrightarrow> pc_requestors pc = pc_requestors pc'
   \<Longrightarrow> waiting_requestor_or_null pc = waiting_requestor_or_null pc'"
  by (simp add: waiting_requestor_or_null_def cong: option.case_cong)

lemma waiting_is_head:
  assumes "tasks_first (pc_requestors pc)"
  shows "waiting_requestor_or_null pc =
     (if pc_state pc = S_active \<and> \<not> pc_to_be_removed pc then (case pc_requestors pc of [] \<Rightarrow> None | r # _ \<Rightarrow> Some r) else None)"
proof (cases "pc_requestors pc")
  case (Cons r rs)
  then have "List.find is_task rs = None" if "\<not> is_task r" using that assms by (simp add: find_None_iff)
  then show ?thesis using Cons by (auto simp: waiting_requestor_or_null_def)
qed (simp add: waiting_requestor_or_null_def)

lemma set_add_pending: "set (add_pending signals rs) = set rs \<union> set (notified signals)"
  by (auto simp: add_pending_def)

lemma notified_check: "set (notified (check_then_notify pc)) = set_option (waiting_requestor_or_null pc)"
  by (cases "waiting_requestor_or_null pc") (simp_all add: check_then_notify_def notified_def)

text \<open>Leaving the list passes the notification on.\<close>

lemma served_leave:
  assumes "tasks_first (pc_requestors (pool_class p))"
    and "\<And>h. available (pool_class p) \<Longrightarrow> waiting_requestor_or_null (pool_class p) = Some h \<Longrightarrow> h \<noteq> r \<Longrightarrow> h \<in> set (pool_pending p)"
  shows "served (leave_list r p)"
proof (cases "pc_requestors (pool_class p)")
  case Nil
  then show ?thesis by (simp add: leave_list_def pc_remove_requestor_def served_def waiting_requestor_or_null_def)
next
  case (Cons h rs)
  let ?pc = "pool_class p" and ?pc' = "(pool_class p)\<lparr>pc_requestors := removeAll r (h # rs)\<rparr>"
  have first: "tasks_first (pc_requestors ?pc')" using assms(1) Cons tasks_first_removeAll [of "h # rs" r] by simp
  have avail: "available ?pc' = available ?pc" by (simp add: available_def below_max_processes_def used_process_count_def)
  show ?thesis
  proof (cases "removeAll r (h # rs)")
    case Nil
    then show ?thesis using Cons waiting_is_head [OF first]
      by (simp add: leave_list_def pc_remove_requestor_def served_def split: if_splits)
  next
    case (Cons h' rs')
    note removed = this
    have head: "waiting_requestor_or_null ?pc' = Some h'" if "available ?pc"
      using waiting_is_head [OF first] that Cons by (simp add: available_def)
    show ?thesis
    proof (cases "h = h'")
      case True
      then have "h \<noteq> r" using removed by (metis list.set_intros(1) removeAll.simps(2) removeAll_id set_removeAll DiffE singletonI)
      then have "h \<in> set (pool_pending p)" if "available ?pc"
        using assms(2) [OF that] waiting_is_head [OF assms(1)] \<open>pc_requestors ?pc = h # rs\<close> that
        by (simp add: available_def)
      then show ?thesis using True \<open>pc_requestors ?pc = h # rs\<close> removed head avail
        by (auto simp: leave_list_def pc_remove_requestor_def Let_def served_def set_add_pending)
    next
      case False
      then show ?thesis using \<open>pc_requestors ?pc = h # rs\<close> removed avail
        by (auto simp: leave_list_def pc_remove_requestor_def Let_def served_def set_add_pending notified_check)
    qed
  qed
qed

lemma served_notified: "served (p\<lparr>pool_class := pc, pool_pending := add_pending (check_then_notify pc) rs\<rparr>)"
  by (auto simp: served_def set_add_pending notified_check)

lemma end_process_cases:
  obtains "pool_step (End_process n) p = p"
  | pc where "pool_step (End_process n) p = p\<lparr>pool_class := pc, pool_pending := add_pending (check_then_notify pc) (pool_pending p)\<rparr>"
      "pc_requestors pc = pc_requestors (pool_class p)"
  | pc where "pool_step (End_process n) p = p\<lparr>pool_class := pc, pool_pending := add_pending [Check_for_replacing_or_removing] (pool_pending p)\<rparr>"
      "pc_requestors pc = pc_requestors (pool_class p)" "pc_to_be_removed pc"
proof (cases "remove_process n (pool_class p)")
  case (Inl e)
  then show ?thesis using that(1) by simp
next
  case (Inr r)
  then show ?thesis using that(2,3) by (auto simp: remove_process_def Let_def split: if_splits)
qed

text \<open>A task does not enter the list behind a job, and nobody asks while the limit of the scheduler is reached.\<close>

definition enters_in_order :: "pool_event \<Rightarrow> pool \<Rightarrow> bool" where
  "enters_in_order e p =
     (case e of
        Ask_for_process r _ \<Rightarrow>
          pool_process_count p < all_max_processes \<and> (is_task r \<longrightarrow> (\<forall>x \<in> set (pc_requestors (pool_class p)). is_task x))
      | _ \<Rightarrow> True)"

lemma served_step:
  assumes "served p" "tasks_first (pc_requestors (pool_class p))" "enters_in_order e p"
  shows "served (pool_step e p) \<and> tasks_first (pc_requestors (pool_class (pool_step e p)))"
proof (cases e)
  case (Ask_for_process r conf)
  let ?p = "p\<lparr>pool_pending := removeAll r (pool_pending p)\<rparr>"
  have room: "pool_process_count p < all_max_processes" using assms(3) Ask_for_process by (simp add: enters_in_order_def)
  show ?thesis
  proof (cases "available (pool_class p) \<and> may_go_first r (pool_class p)")
    case True
    let ?p' = "?p\<lparr>pool_class := add_process (pool_next_process p) (pool_class p), pool_next_process := Suc (pool_next_process p)\<rparr>"
    have "waiting_requestor_or_null (pool_class ?p') = waiting_requestor_or_null (pool_class p)"
      by (rule waiting_cong) (simp_all add: add_process_def)
    then have "served (leave_list r ?p')"
      using assms(1,2) True by (intro served_leave) (auto simp: served_def add_process_def)
    then show ?thesis using True Ask_for_process assms(2) room
      by (simp add: asked Let_def leave_list_class remove_requestor_facts add_process_def tasks_first_removeAll)
  next
    case False
    have not_head: "waiting_requestor_or_null (pool_class p) \<noteq> Some r" if "available (pool_class p)"
    proof
      assume "waiting_requestor_or_null (pool_class p) = Some r"
      then obtain rs where "pc_requestors (pool_class p) = r # rs"
        using waiting_is_head [OF assms(2)] by (auto split: if_splits list.splits)
      then show False using False that by (simp add: may_go_first_def)
    qed
    show ?thesis
    proof (cases "r \<in> set (pc_requestors (pool_class p))")
      case True
      then show ?thesis using False Ask_for_process assms not_head by (auto simp: asked Let_def served_def)
    next
      case new: False
      have first: "tasks_first (pc_requestors (pool_class p) @ [r])"
        using assms(2,3) Ask_for_process by (intro tasks_first_append) (auto simp: enters_in_order_def)
      have "served (?p\<lparr>pool_class := enqueue_requestor r (pool_class p)\<rparr>)"
      proof (cases "pc_requestors (pool_class p)")
        case Nil
        then have "\<not> available (pool_class p)" using False by (simp add: may_go_first_def)
        then show ?thesis by (simp add: served_def)
      next
        case (Cons h rs)
        then show ?thesis using assms(1) waiting_is_head [OF assms(2)] waiting_is_head [of "enqueue_requestor r (pool_class p)"]
            first not_head new
          by (auto simp: served_def available_def enqueue_requestor_def below_max_processes_def used_process_count_def)
      qed
      then show ?thesis using False Ask_for_process new first by (auto simp: asked Let_def enqueue_requestor_def)
    qed
  qed
next
  case (End_process n)
  show ?thesis
  proof (cases rule: end_process_cases [of n p])
    case (2 pc)
    then show ?thesis using assms(2) End_process served_notified by simp
  next
    case (3 pc)
    then show ?thesis using assms(2) End_process by (simp add: served_def available_def)
  qed (use assms End_process in simp)
next
  case (Give_up r)
  have "served (leave_list r (p\<lparr>pool_pending := removeAll r (pool_pending p)\<rparr>))"
    using assms(1,2) by (intro served_leave) (auto simp: served_def)
  then show ?thesis using Give_up assms(2) by (simp add: leave_list_class remove_requestor_facts tasks_first_removeAll)
next
  case (Set_limit n)
  then show ?thesis using assms(2) served_notified by (simp add: set_max_processes_def Let_def)
next
  case (Set_process_count k)
  then show ?thesis using assms(1,2) by (simp add: served_def)
qed

text \<open>Sequences of events in which it is so.\<close>

fun in_order :: "pool_event list \<Rightarrow> pool \<Rightarrow> bool" where
  "in_order [] p = True"
| "in_order (e # es) p = (enters_in_order e p \<and> in_order es (pool_step e p))"

definition new_pool :: "string \<Rightarrow> int \<Rightarrow> pool" where
  "new_pool path limit =
     \<lparr>pool_class = (new_process_class path)\<lparr>pc_state := S_active, pc_max_processes := limit\<rparr>,
      pool_pending = [], pool_next_process = 0, pool_process_count = 0\<rparr>"

lemma served_run:
  "served p \<Longrightarrow> tasks_first (pc_requestors (pool_class p)) \<Longrightarrow> in_order es p \<Longrightarrow> served (pool_run es p)"
proof (induction es arbitrary: p)
  case (Cons e es)
  then show ?case using served_step [of p e] by (auto simp: pool_run_def)
qed (simp add: pool_run_def)

lemma new_pool_served: "served (new_pool path limit) \<and> tasks_first (pc_requestors (pool_class (new_pool path limit)))"
  by (simp add: new_pool_def served_def waiting_requestor_or_null_def new_process_class_def)

section \<open>Properties\<close>

text \<open> C11: If no limit is negative, a process class never runs more processes than the largest limit that it was given,
  whatever requestors ask, processes end, and however many processes the other classes have.
\<close>

theorem processes_within_limits:
  assumes "limits_ok m (Set_limit limit # es)" "m < 2 ^ 31"
  shows "used_process_count (pool_class (pool_run es (new_pool path limit))) \<le> m"
proof -
  have "within m (pool_class (new_pool path limit))"
    using assms(1) by (auto simp: new_pool_def within_def used_process_count_def new_process_class_def limits_ok_def)
  then have "within m (pool_class (pool_run es (new_pool path limit)))"
    using assms by (intro within_run) (auto simp: limits_ok_def)
  then show ?thesis by (simp add: within_def)
qed

abbreviation local_process :: process_configuration where
  "local_process \<equiv> \<lparr>conf_is_shell_dummy = False, conf_remote_scheduler_address = []\<rparr>"

abbreviation task_asks :: "nat \<Rightarrow> pool_event" where
  "task_asks t \<equiv> Ask_for_process (Task_requestor t) local_process"

abbreviation job_asks :: "nat \<Rightarrow> pool_event" where
  "job_asks j \<equiv> Ask_for_process (Job_requestor j) local_process"

definition ex_events :: "pool_event list" where
  "ex_events = [task_asks 1, task_asks 2, task_asks 3, Set_limit 2, task_asks 2, Set_process_count 7, End_process 0]"

lemma processes_within_limits_witness:
  "limits_ok 2 (Set_limit 1 # ex_events) \<and> used_process_count (pool_class (pool_run ex_events (new_pool [] 1))) \<le> 2"
proof -
  have "limits_ok 2 (Set_limit 1 # ex_events)" by (simp add: limits_ok_def ex_events_def)
  then show ?thesis using processes_within_limits [of 2 1 ex_events "[]"] by simp
qed

text \<open> C12: As long as no task has to wait behind a job and nobody asks while the whole scheduler has reached its limit of
  processes, a place that is free in a process class while somebody waits has been announced to the requestor that is
  served next: no place is left unused because a notification got lost.
\<close>

theorem free_process_is_announced:
  assumes "in_order es (new_pool path limit)"
    and "available (pool_class (pool_run es (new_pool path limit)))"
    and "pc_requestors (pool_class (pool_run es (new_pool path limit))) \<noteq> []"
  shows "\<exists>r. waiting_requestor_or_null (pool_class (pool_run es (new_pool path limit))) = Some r
             \<and> r \<in> set (pool_pending (pool_run es (new_pool path limit)))"
proof -
  let ?p = "pool_run es (new_pool path limit)"
  have "waiting_requestor_or_null (pool_class ?p) \<noteq> None"
    using assms(2,3) by (auto simp: waiting_requestor_or_null_def available_def split: option.splits list.splits)
  then obtain r where "waiting_requestor_or_null (pool_class ?p) = Some r" by blast
  then show ?thesis
    using served_run [OF conjunct1 conjunct2, OF new_pool_served new_pool_served assms(1)] assms(2) by (auto simp: served_def)
qed

lemma free_process_is_announced_witness:
  "\<exists>r. waiting_requestor_or_null (pool_class (pool_run ex_events (new_pool [] 1))) = Some r
       \<and> r \<in> set (pool_pending (pool_run ex_events (new_pool [] 1)))"
proof -
  have "in_order ex_events (new_pool [] 1)" by code_simp
  moreover have "available (pool_class (pool_run ex_events (new_pool [] 1)))" by code_simp
  moreover have "pc_requestors (pool_class (pool_run ex_events (new_pool [] 1))) \<noteq> []" by code_simp
  ultimately show ?thesis by (rule free_process_is_announced)
qed

text \<open> C38: Behind a job it does get lost: while a job waits at the head of the list and tasks behind it, and the task that is
  notified takes a process, nobody else is notified, since the head of the list is still the same, although another place is
  free in the process class and the scheduler, and requestors wait for one.
\<close>

lemma announcement_is_lost:
  assumes "pc_requestors (pool_class p) = Job_requestor j # rs" "pool_pending p = [Task_requestor t]"
    and "available (pool_class p)" "pool_process_count p < all_max_processes"
    and "0 \<le> pc_max_processes (pool_class p)" "pc_max_processes (pool_class p) < 2 ^ 31"
    and "used_process_count (pool_class p) + 1 < pc_max_processes (pool_class p)"
  shows "let p' = pool_step (Ask_for_process (Task_requestor t) conf) p in
    available (pool_class p') \<and> pool_process_count p' < all_max_processes
    \<and> Job_requestor j \<in> set (pc_requestors (pool_class p')) \<and> waiting_requestor_or_null (pool_class p') \<noteq> None
    \<and> pool_pending p' = []"
proof -
  let ?p' = "pool_step (Ask_for_process (Task_requestor t) conf) p"
  let ?pc = "add_process (pool_next_process p) (pool_class p)"
  have active: "pc_state (pool_class p) = S_active" "\<not> pc_to_be_removed (pool_class p)" using assms(3) by (simp_all add: available_def)
  have "used_process_count ?pc < pc_max_processes ?pc" using assms(7) by (simp add: add_process_def used_process_count_def)
  then have room: "available ?pc"
    using assms(5,6) active below_max_iff [of ?pc] by (simp add: available_def add_process_def)
  have list: "pc_remove_requestor (Task_requestor t) ?pc = (?pc\<lparr>pc_requestors := Job_requestor j # removeAll (Task_requestor t) rs\<rparr>, [])"
    using assms(1) by (simp add: pc_remove_requestor_def add_process_def Let_def)
  have p': "?p' = p\<lparr>pool_class := ?pc\<lparr>pc_requestors := Job_requestor j # removeAll (Task_requestor t) rs\<rparr>,
      pool_pending := [], pool_next_process := Suc (pool_next_process p)\<rparr>"
    using assms(2-4) list
    by (simp add: asked Let_def may_go_first_def is_task_def leave_list_def add_pending_def notified_def)
  then show ?thesis
    using room assms(4) active unfolding p' Let_def
    by (auto simp: available_def below_max_processes_def used_process_count_def waiting_requestor_or_null_def add_process_def
        split: option.splits)
qed

text \<open>Two processes are freed while a job and two tasks wait.\<close>

definition lost_events :: "pool_event list" where
  "lost_events = [job_asks 7, job_asks 8, job_asks 9, task_asks 1, task_asks 2, End_process 0, End_process 1]"

lemma announcement_is_lost_witness:
  "pool_pending (pool_step (task_asks 1) (pool_run lost_events (new_pool [] 2))) = []
    \<and> available (pool_class (pool_step (task_asks 1) (pool_run lost_events (new_pool [] 2))))
    \<and> waiting_requestor_or_null (pool_class (pool_step (task_asks 1) (pool_run lost_events (new_pool [] 2)))) \<noteq> None"
proof -
  let ?p = "pool_run lost_events (new_pool [] 2)"
  have "pc_requestors (pool_class ?p) = Job_requestor 9 # [Task_requestor 1, Task_requestor 2]" by code_simp
  moreover have "pool_pending ?p = [Task_requestor 1]" "available (pool_class ?p)" "pool_process_count ?p < all_max_processes"
    "0 \<le> pc_max_processes (pool_class ?p)" "pc_max_processes (pool_class ?p) < 2 ^ 31"
    "used_process_count (pool_class ?p) + 1 < pc_max_processes (pool_class ?p)" by code_simp+
  ultimately show ?thesis using announcement_is_lost [of ?p 9 "[Task_requestor 1, Task_requestor 2]" 1 local_process] by (simp add: Let_def)
qed

text \<open>
  It also gets lost when a requestor has asked in vain because the whole scheduler had reached its limit: when the other
  classes have freed places again, nobody tells the requestor.
\<close>

lemma freed_elsewhere_not_announced:
  assumes "pc_requestors (pool_class p) = r # rs" "pool_pending p = [r]" "all_max_processes \<le> pool_process_count p"
  shows "pool_step (Set_process_count k) (pool_step (Ask_for_process r conf) p) = p\<lparr>pool_pending := [], pool_process_count := k\<rparr>"
  using assms by (simp add: asked Let_def)

text \<open>A negative limit, which nothing refuses, is no limit at all.\<close>

lemma negative_limit_is_none:
  assumes "length (pc_processes pc) < 2 ^ 63" "n < 0" "- (2 ^ 31) \<le> n"
  shows "below_max_processes (fst (set_max_processes n pc)) \<and> max_processes_reached (fst (set_max_processes n pc))"
  using assms unsigned_negative [of n]
  by (simp add: set_max_processes_def Let_def below_max_processes_def max_processes_reached_def used_process_count_def)

end
