(* ===== verification/Job_States.thy ===== *)
theory Job_States
  imports Scheduler_Prelude
begin

text \<open>
  The enumerations of jobs and tasks (\<^verbatim>\<open>spooler_job.h\<close>, \<^verbatim>\<open>spooler_task.h\<close>) and their names. The code compares
  states with \<^verbatim>\<open><\<close>, so both are instances of \<^verbatim>\<open>linorder\<close> by their position in the C++ enumeration.
\<close>

section \<open>Task::State\<close>

datatype task_state =
    Ts_none
  | Ts_loading
  | Ts_waiting_for_process
  | Ts_starting
  | Ts_opening
  | Ts_opening_waiting_for_locks
  | Ts_running
  | Ts_running_delayed
  | Ts_running_waiting_for_locks
  | Ts_running_waiting_for_order
  | Ts_running_process
  | Ts_running_remote_process
  | Ts_suspended
  | Ts_ending
  | Ts_ending_waiting_for_subprocesses
  | Ts_on_success
  | Ts_on_error
  | Ts_exit
  | Ts_release
  | Ts_killing
  | Ts_ended
  | Ts_deleting_files
  | Ts_closed

definition all_task_states :: "task_state list" where
  "all_task_states =
     [Ts_none, Ts_loading, Ts_waiting_for_process, Ts_starting, Ts_opening, Ts_opening_waiting_for_locks, Ts_running,
      Ts_running_delayed, Ts_running_waiting_for_locks, Ts_running_waiting_for_order, Ts_running_process,
      Ts_running_remote_process, Ts_suspended, Ts_ending, Ts_ending_waiting_for_subprocesses, Ts_on_success,
      Ts_on_error, Ts_exit, Ts_release, Ts_killing, Ts_ended, Ts_deleting_files, Ts_closed]"

fun position :: "'a list \<Rightarrow> 'a \<Rightarrow> nat" where
  "position [] x = 0"
| "position (y # ys) x = (if x = y then 0 else Suc (position ys x))"

lemma position_inject: "x \<in> set ys \<Longrightarrow> position ys x = position ys y \<longleftrightarrow> x = y"
  by (induction ys) auto

definition task_rank :: "task_state \<Rightarrow> nat" where
  "task_rank s = position all_task_states s"

lemma task_rank_inject: "task_rank s = task_rank t \<longleftrightarrow> s = t"
proof -
  have "s \<in> set all_task_states" by (cases s) (simp_all add: all_task_states_def)
  then show ?thesis by (simp add: task_rank_def position_inject)
qed

lemma task_rank_simps [simp]:
  "task_rank Ts_none = 0" "task_rank Ts_loading = 1" "task_rank Ts_waiting_for_process = 2" "task_rank Ts_starting = 3"
  "task_rank Ts_opening = 4" "task_rank Ts_opening_waiting_for_locks = 5" "task_rank Ts_running = 6"
  "task_rank Ts_running_delayed = 7" "task_rank Ts_running_waiting_for_locks = 8"
  "task_rank Ts_running_waiting_for_order = 9" "task_rank Ts_running_process = 10"
  "task_rank Ts_running_remote_process = 11" "task_rank Ts_suspended = 12" "task_rank Ts_ending = 13"
  "task_rank Ts_ending_waiting_for_subprocesses = 14" "task_rank Ts_on_success = 15" "task_rank Ts_on_error = 16"
  "task_rank Ts_exit = 17" "task_rank Ts_release = 18" "task_rank Ts_killing = 19" "task_rank Ts_ended = 20"
  "task_rank Ts_deleting_files = 21" "task_rank Ts_closed = 22"
  by (simp_all add: task_rank_def all_task_states_def)

instantiation task_state :: linorder
begin

definition less_eq_task_state :: "task_state \<Rightarrow> task_state \<Rightarrow> bool" where
  "s \<le> t \<longleftrightarrow> task_rank s \<le> task_rank t"

definition less_task_state :: "task_state \<Rightarrow> task_state \<Rightarrow> bool" where
  "s < t \<longleftrightarrow> task_rank s < task_rank t"

instance
  by standard (auto simp: less_eq_task_state_def less_task_state_def task_rank_inject)

end

lemmas task_state_order = less_eq_task_state_def less_task_state_def

fun task_state_name :: "task_state \<Rightarrow> string" where
  "task_state_name Ts_none = ''none''"
| "task_state_name Ts_loading = ''loading''"
| "task_state_name Ts_waiting_for_process = ''waiting_for_process''"
| "task_state_name Ts_starting = ''starting''"
| "task_state_name Ts_opening = ''opening''"
| "task_state_name Ts_opening_waiting_for_locks = ''opening_waiting_for_locks''"
| "task_state_name Ts_running = ''running''"
| "task_state_name Ts_running_delayed = ''running_delayed''"
| "task_state_name Ts_running_waiting_for_locks = ''running_waiting_for_locks''"
| "task_state_name Ts_running_waiting_for_order = ''running_waiting_for_order''"
| "task_state_name Ts_running_process = ''running_process''"
| "task_state_name Ts_running_remote_process = ''running_remote_process''"
| "task_state_name Ts_suspended = ''suspended''"
| "task_state_name Ts_ending = ''ending''"
| "task_state_name Ts_ending_waiting_for_subprocesses = ''ending_waiting_for_subprocesses''"
| "task_state_name Ts_on_success = ''on_success''"
| "task_state_name Ts_on_error = ''on_error''"
| "task_state_name Ts_exit = ''exit''"
| "task_state_name Ts_release = ''release''"
| "task_state_name Ts_killing = ''killing''"
| "task_state_name Ts_ended = ''ended''"
| "task_state_name Ts_deleting_files = ''deleting_files''"
| "task_state_name Ts_closed = ''closed''"

datatype end_mode = End_none | End_normal | End_nice | End_kill_immediately

datatype start_cause =
    Cause_none
  | Cause_period_once
  | Cause_period_single
  | Cause_period_repeat
  | Cause_queue
  | Cause_queue_at
  | Cause_directory
  | Cause_signal
  | Cause_delay_after_error
  | Cause_order
  | Cause_wake
  | Cause_min_tasks

section \<open>Job::State and Job::State_cmd\<close>

datatype job_state =
    Js_not_initialized
  | Js_initialized
  | Js_loaded
  | Js_stopping
  | Js_stopped
  | Js_error
  | Js_pending
  | Js_running

definition all_job_states :: "job_state list" where
  "all_job_states =
     [Js_not_initialized, Js_initialized, Js_loaded, Js_stopping, Js_stopped, Js_error, Js_pending, Js_running]"

definition job_rank :: "job_state \<Rightarrow> nat" where
  "job_rank s = position all_job_states s"

lemma job_rank_inject: "job_rank s = job_rank t \<longleftrightarrow> s = t"
proof -
  have "s \<in> set all_job_states" by (cases s) (simp_all add: all_job_states_def)
  then show ?thesis by (simp add: job_rank_def position_inject)
qed

lemma job_rank_simps [simp]:
  "job_rank Js_not_initialized = 0" "job_rank Js_initialized = 1" "job_rank Js_loaded = 2" "job_rank Js_stopping = 3"
  "job_rank Js_stopped = 4" "job_rank Js_error = 5" "job_rank Js_pending = 6" "job_rank Js_running = 7"
  by (simp_all add: job_rank_def all_job_states_def)

instantiation job_state :: linorder
begin

definition less_eq_job_state :: "job_state \<Rightarrow> job_state \<Rightarrow> bool" where
  "s \<le> t \<longleftrightarrow> job_rank s \<le> job_rank t"

definition less_job_state :: "job_state \<Rightarrow> job_state \<Rightarrow> bool" where
  "s < t \<longleftrightarrow> job_rank s < job_rank t"

instance
  by standard (auto simp: less_eq_job_state_def less_job_state_def job_rank_inject)

end

lemmas job_state_order = less_eq_job_state_def less_job_state_def

fun job_state_name :: "job_state \<Rightarrow> string" where
  "job_state_name Js_not_initialized = ''not_initialized''"
| "job_state_name Js_initialized = ''initialized''"
| "job_state_name Js_loaded = ''loaded''"
| "job_state_name Js_stopping = ''stopping''"
| "job_state_name Js_stopped = ''stopped''"
| "job_state_name Js_error = ''error''"
| "job_state_name Js_pending = ''pending''"
| "job_state_name Js_running = ''running''"

datatype job_cmd =
    Sc_none
  | Sc_stop
  | Sc_unstop
  | Sc_start
  | Sc_wake
  | Sc_wake_when_in_period
  | Sc_end
  | Sc_suspend
  | Sc_continue
  | Sc_reread
  | Sc_remove
  | Sc_enable
  | Sc_disable

definition all_job_cmds :: "job_cmd list" where
  "all_job_cmds =
     [Sc_none, Sc_stop, Sc_unstop, Sc_start, Sc_wake, Sc_wake_when_in_period, Sc_end, Sc_suspend, Sc_continue,
      Sc_reread, Sc_remove, Sc_enable, Sc_disable]"

fun job_cmd_name :: "job_cmd \<Rightarrow> string" where
  "job_cmd_name Sc_stop = ''stop''"
| "job_cmd_name Sc_unstop = ''unstop''"
| "job_cmd_name Sc_start = ''start''"
| "job_cmd_name Sc_wake = ''wake''"
| "job_cmd_name Sc_wake_when_in_period = ''wake_when_in_period''"
| "job_cmd_name Sc_end = ''end''"
| "job_cmd_name Sc_suspend = ''suspend''"
| "job_cmd_name Sc_continue = ''continue''"
| "job_cmd_name Sc_reread = ''reread''"
| "job_cmd_name Sc_remove = ''remove''"
| "job_cmd_name Sc_enable = ''enable''"
| "job_cmd_name Sc_disable = ''disable''"
| "job_cmd_name Sc_none = ''0''"

text \<open>
  \<^verbatim>\<open>as_state\<close> and \<^verbatim>\<open>as_state_cmd\<close> try the values of the enumeration downwards from the last to the second: the
  first value, zero, ends the loop and stands for the empty name.
\<close>

definition read_name :: "('a \<Rightarrow> string) \<Rightarrow> 'a list \<Rightarrow> string \<Rightarrow> string \<Rightarrow> 'a result" where
  "read_name name_of values code name =
     (case List.find (\<lambda>v. name_of v = name) (rev (tl values)) of
        Some v \<Rightarrow> Inr v
      | None \<Rightarrow> if name \<noteq> [] then Inl (Xc code) else Inr (hd values))"

definition job_as_state :: "string \<Rightarrow> job_state result" where
  "job_as_state = read_name job_state_name all_job_states ''SCHEDULER-110''"

definition job_as_state_cmd :: "string \<Rightarrow> job_cmd result" where
  "job_as_state_cmd = read_name job_cmd_name all_job_cmds ''SCHEDULER-106''"

section \<open>Properties\<close>

text \<open>
  The names of job states and of job commands can be read back, except for the first value of each enumeration: no
  job is ever told to be in the state \<open>not_initialized\<close> by name. The names of task states are all different.
\<close>

theorem job_names_can_be_read:
  "(s = Js_not_initialized \<or> job_as_state (job_state_name s) = Inr s)
   \<and> (c = Sc_none \<or> job_as_state_cmd (job_cmd_name c) = Inr c)
   \<and> (task_state_name t = task_state_name u) = (t = u)"
proof (intro conjI)
  show "s = Js_not_initialized \<or> job_as_state (job_state_name s) = Inr s"
    by (cases s) (simp_all add: job_as_state_def read_name_def all_job_states_def)
  show "c = Sc_none \<or> job_as_state_cmd (job_cmd_name c) = Inr c"
    by (cases c) (simp_all add: job_as_state_cmd_def read_name_def all_job_cmds_def)
  have "distinct (map task_state_name all_task_states)" by (simp add: all_task_states_def)
  moreover have "t \<in> set all_task_states" "u \<in> set all_task_states"
    by (cases t; simp add: all_task_states_def) (cases u; simp add: all_task_states_def)
  ultimately show "(task_state_name t = task_state_name u) = (t = u)" by (auto simp: distinct_map inj_on_eq_iff)
qed

lemma first_state_is_not_read: "job_as_state (job_state_name Js_not_initialized) = Inl (Xc ''SCHEDULER-110'')"
  by (simp add: job_as_state_def read_name_def all_job_states_def)

end
