(* ===== verification/Job_Data.thy ===== *)
theory Job_Data
  imports Job_States Process_Classes Order_Transition Schedule_Period
begin

text \<open>
  The objects of a scheduler that runs tasks: jobs (\<^verbatim>\<open>Standard_job\<close>), tasks (\<^verbatim>\<open>Task\<close>), process classes and the
  task subsystem, in one state. Everything that is decided elsewhere is asked of \<open>rules\<close>, with a state \<open>outer\<close> of
  its own: the module instance that runs the user's program, the order queues, the locks, the schedule, the database
  and the directories that a job watches. \<open>answer\<close> may throw or not, say yes or no, and change \<open>outer\<close> in any way.
\<close>

section \<open>Calls that an object has registered\<close>

datatype job_call =
    Period_begin_call
  | Period_end_call
  | Start_queued_task_call
  | Calculated_next_time_call
  | Directory_changed_call
  | Order_timed_call
  | Order_possibly_available_call
  | Process_available_call
  | Below_min_tasks_call
  | Below_max_tasks_call
  | Locks_available_call
  | Remove_temporary_job_call

datatype task_call =
    Operation_completed_call task_state
  | Try_next_step_call
  | Next_spooler_process_call
  | Next_order_step_call
  | Idle_timeout_call
  | Locks_are_available_call
  | Subprocess_timeout_call
  | Delayed_spooler_process_call
  | End_with_period_call
  | End_task_call
  | Warn_longer_than_call
  | Task_timeout_call
  | Try_deleting_files_call
  | Killing_task_call
  | Kill_timeout_call
  | Process_class_available_call
  | Check_for_order_call
  | Remote_task_running_call
  | Process_ended_call
  | Do_something_call

section \<open>Tasks\<close>

text \<open>\<^verbatim>\<open>Registered_pid\<close>: a subprocess of the task.\<close>

record registered_pid =
  rp_timeout_at :: time
  rp_wait :: bool
  rp_killed :: bool

datatype lock_level = Lock_level_task_api | Lock_level_process_api

record task =
  t_job :: nat
  t_state :: task_state
  t_enqueued_state :: task_state
  t_operation :: bool
  t_cause :: start_cause
  t_step_count :: int
  t_exit_code :: int
  t_let_run :: bool
  t_begin_called :: bool
  t_end :: end_mode
  t_closed :: bool
  t_force_start :: bool
  t_start_at :: time
  t_next_spooler_process :: time
  t_last_operation_time :: time
  t_timeout :: duration
  t_idle_timeout_at :: time
  t_subprocess_timeout :: time
  t_warn_if_longer_than :: duration
  t_last_warn_if_longer :: time
  t_deleting_files_until :: time
  t_killed :: bool
  t_kill_tried :: bool
  t_killed_immediately :: bool
  t_async_error :: bool
  t_running_state_reached :: bool
  t_delay_until_locks :: bool
  t_order_transition :: transition
  t_order :: "nat option"
  t_pids :: "(int \<times> registered_pid) list"
  t_error :: "string option"
  t_other_error :: "string option"
  t_connection_reset :: bool
  t_instance :: bool
  t_process :: "nat option"
  t_process_class :: "nat option"
  t_has_remote_scheduler :: bool
  t_requestors :: "lock_level \<Rightarrow> bool"
  t_calls :: "task_call \<Rightarrow> time"
  t_closed_call :: bool

section \<open>Jobs\<close>

datatype module_kind =
    Kind_none
  | Kind_process
  | Kind_java
  | Kind_scripting_engine
  | Kind_com
  | Kind_remote
  | Kind_internal
  | Kind_scripting_engine_java

text \<open>
  \<open>j_watched\<close> are the directories that the configuration names (\<^verbatim>\<open>_start_when_directory_changed_list\<close>), \<open>j_watchers\<close>
  those that are being watched (\<^verbatim>\<open>_directory_watcher_list\<close>), each with its pattern for file names.
\<close>

record job =
  j_state :: job_state
  j_file_based_state :: file_based_state
  j_to_be_removed :: bool
  j_has_folder :: bool
  j_temporary :: bool
  j_enabled :: bool
  j_permanently_stopped :: bool
  j_kind :: module_kind
  j_stop_on_error :: bool
  j_order_controlled :: bool
  j_in_job_chain :: bool
  j_process_class :: nat
  j_own_process_class :: bool
  j_max_tasks :: int
  j_min_tasks :: int
  j_running :: "nat list"
  j_running_count :: int
  j_queue :: "nat list"
  j_start_min_tasks :: bool
  j_start_once :: bool
  j_start_once_for_directory :: bool
  j_directory_changed :: bool
  j_wake_when_in_period :: bool
  j_waiting_for_process :: bool
  j_try_again :: bool
  j_has_locks :: bool
  j_locks_enqueued :: bool
  j_period :: period
  j_next_start_time :: time
  j_next_single_start :: time
  j_repeat :: duration
  j_delay_until :: time
  j_delay_after_error :: "(int \<times> duration) list"
  j_error_steps :: int
  j_error :: "string option"
  j_task_timeout :: duration
  j_idle_timeout :: duration
  j_force_idle_timeout :: bool
  j_tasks_count :: int
  j_step_count :: int
  j_watched :: "(string \<times> string) list"
  j_watchers :: "(string \<times> string) list"
  j_db_next_start_time :: time
  j_db_stopped :: bool
  j_calls :: "job_call \<Rightarrow> time"

section \<open>Questions to the rest of the scheduler\<close>

text \<open>
  The first number is the task or the job that asks.
\<close>

datatype question =
  \<comment> \<open>the module instance of a task\<close>
    Create_instance nat
  | Module_load nat
  | Instance_loaded nat
  | Instance_is_remote nat
  | Instance_on_remote_host nat
  | Instance_kind_process nat
  | Remote_process_started nat
  | Connection_ok nat
  | Start_operation nat task_state
  | Operation_finished nat
  | End_operation nat task_state
  | Close_operation nat
  | Process_has_signaled nat
  | Kill_thread_running nat
  | Kill nat
  | Terminate nat
  | Kill_pid nat int
  | Wait_for_subprocesses nat
  | Try_delete_files nat
  | Close_instance nat
  | Step_result nat
  | Step_method_unknown nat
  | Ignore_signal nat
  \<comment> \<open>locks\<close>
  | Locks_available nat
  | Locks_known nat
  | Enqueue_lock_requests nat
  | Dequeue_lock_requests nat
  | Hold_job_locks nat
  | Task_holds_all nat lock_level
  | Task_hold nat lock_level
  | Task_enqueue nat lock_level
  | Task_dequeue nat lock_level
  | Task_release nat lock_level
  | Task_release_all nat
  \<comment> \<open>orders\<close>
  | Request_order nat
  | Withdraw_order_request nat
  | Order_postprocessing nat nat transition
  | Order_processing_error nat nat
  | Order_leaves_chain nat nat
  | Order_remote_scheduler nat
  | Assert_order_task nat nat
  | Fetch_parameters nat
  | Chain_class_known nat
  \<comment> \<open>database, mail, commands, directories and the rest\<close>
  | Persist_job nat
  | Task_into_database nat
  | Task_out_of_database nat
  | On_exit_commands nat
  | Task_ended_event nat
  | Error_mail nat
  | Check_job_removal nat
  | Check_class_removal nat
  | Remove_job nat
  | Watch_directory nat string string
  | Unwatch_directories nat
  | Watcher_signaled nat string string
  | Watcher_valid nat string string
  | Trigger_files nat
  | Schedule_is_defined nat
  | Schedule_once nat
  | Period_follows nat
  | Schedule_try_load nat
  | Schedule_disconnect nat
  | Monitors_try_load nat
  | Monitors_empty nat
  | Monitors_loaded nat
  | In_cluster

record 'o rules =
  answer :: "question \<Rightarrow> 'o \<Rightarrow> bool result \<times> 'o"
  answer_code :: "question \<Rightarrow> 'o \<Rightarrow> int"
  fetch_rule :: "nat \<Rightarrow> nat \<Rightarrow> time \<Rightarrow> nat option \<Rightarrow> 'o \<Rightarrow> nat option result \<times> 'o"
  order_time_rule :: "nat \<Rightarrow> 'o \<Rightarrow> time"
  period_rule :: "nat \<Rightarrow> time \<Rightarrow> 'o \<Rightarrow> period result"
  single_start_rule :: "nat \<Rightarrow> time \<Rightarrow> 'o \<Rightarrow> time result"
  transition_rule :: "nat \<Rightarrow> 'o \<Rightarrow> transition"
  chain_class_rule :: "nat \<Rightarrow> 'o \<Rightarrow> nat"

datatype scheduler_state =
    Sp_none | Sp_stopped | Sp_loading | Sp_starting | Sp_waiting_for_activation | Sp_running | Sp_paused | Sp_stopping
  | Sp_stopping_let_run

record 'o engine =
  jobs :: "nat \<Rightarrow> job"
  tasks :: "nat \<Rightarrow> task"
  classes :: "nat \<Rightarrow> process_class"
  class_known :: "nat \<Rightarrow> bool"
  task_set :: "nat list"
  running_tasks_count :: int
  job_priorities :: "nat list"
  ignore_process_classes :: bool
  scheduler_state :: scheduler_state
  clock :: time
  process_count :: int
  next_process :: nat
  next_task :: nat
  rules :: "'o rules"
  outer :: 'o

section \<open>Reading and writing the state\<close>

definition set_job :: "nat \<Rightarrow> (job \<Rightarrow> job) \<Rightarrow> 'o engine \<Rightarrow> 'o engine" where
  "set_job j f w = w\<lparr>jobs := (jobs w)(j := f (jobs w j))\<rparr>"

definition set_task :: "nat \<Rightarrow> (task \<Rightarrow> task) \<Rightarrow> 'o engine \<Rightarrow> 'o engine" where
  "set_task t f w = w\<lparr>tasks := (tasks w)(t := f (tasks w t))\<rparr>"

definition set_class :: "nat \<Rightarrow> process_class \<Rightarrow> 'o engine \<Rightarrow> 'o engine" where
  "set_class c pc w = w\<lparr>classes := (classes w)(c := pc)\<rparr>"

definition ask :: "question \<Rightarrow> ('o engine, bool) operation" where
  "ask q w = (case answer (rules w) q (outer w) of (r, x) \<Rightarrow> (r, w\<lparr>outer := x\<rparr>))"

text \<open>A call whose result does not matter, and that does not throw.\<close>

definition tell :: "question \<Rightarrow> 'o engine \<Rightarrow> 'o engine" where
  "tell q w = snd (ask q w)"

text \<open>A question that cannot throw: an exception counts as no.\<close>

definition says :: "question \<Rightarrow> 'o engine \<Rightarrow> bool" where
  "says q w = (case fst (ask q w) of Inr b \<Rightarrow> b | Inl _ \<Rightarrow> False)"

text \<open>\<^verbatim>\<open>try { ... } catch( exception& x ) { ... }\<close>.\<close>

definition catch_s :: "('s, 'a) operation \<Rightarrow> (xc \<Rightarrow> ('s, 'a) operation) \<Rightarrow> ('s, 'a) operation" where
  "catch_s m h w = (case m w of (Inl e, w') \<Rightarrow> h e w' | (Inr a, w') \<Rightarrow> (Inr a, w'))"

lemma keeps_catch_s [keep_rules]: "keeps I m \<Longrightarrow> (\<And>e. keeps I (h e)) \<Longrightarrow> keeps I (catch_s m h)"
  by (rule keepsI) (auto simp: catch_s_def keepsD split: prod.splits sum.splits dest: keepsD)

definition call_job :: "nat \<Rightarrow> job_call \<Rightarrow> time \<Rightarrow> 'o engine \<Rightarrow> 'o engine" where
  "call_job j c t = set_job j (\<lambda>x. x\<lparr>j_calls := (j_calls x)(c := t)\<rparr>)"

definition call_task :: "nat \<Rightarrow> task_call \<Rightarrow> time \<Rightarrow> 'o engine \<Rightarrow> 'o engine" where
  "call_task t c due = set_task t (\<lambda>x. x\<lparr>t_calls := (t_calls x)(c := due)\<rparr>)"

named_theorems engine_simps \<open>fields of an engine after an update\<close>

lemma set_job_simps [engine_simps]:
  "jobs (set_job j f w) = (jobs w)(j := f (jobs w j))"
  "tasks (set_job j f w) = tasks w" "classes (set_job j f w) = classes w" "class_known (set_job j f w) = class_known w"
  "task_set (set_job j f w) = task_set w" "running_tasks_count (set_job j f w) = running_tasks_count w"
  "job_priorities (set_job j f w) = job_priorities w" "ignore_process_classes (set_job j f w) = ignore_process_classes w"
  "scheduler_state (set_job j f w) = scheduler_state w" "clock (set_job j f w) = clock w"
  "process_count (set_job j f w) = process_count w" "next_process (set_job j f w) = next_process w"
  "next_task (set_job j f w) = next_task w" "rules (set_job j f w) = rules w" "outer (set_job j f w) = outer w"
  by (simp_all add: set_job_def)

lemma set_task_simps [engine_simps]:
  "tasks (set_task t g w) = (tasks w)(t := g (tasks w t))"
  "jobs (set_task t g w) = jobs w" "classes (set_task t g w) = classes w" "class_known (set_task t g w) = class_known w"
  "task_set (set_task t g w) = task_set w" "running_tasks_count (set_task t g w) = running_tasks_count w"
  "job_priorities (set_task t g w) = job_priorities w" "ignore_process_classes (set_task t g w) = ignore_process_classes w"
  "scheduler_state (set_task t g w) = scheduler_state w" "clock (set_task t g w) = clock w"
  "process_count (set_task t g w) = process_count w" "next_process (set_task t g w) = next_process w"
  "next_task (set_task t g w) = next_task w" "rules (set_task t g w) = rules w" "outer (set_task t g w) = outer w"
  by (simp_all add: set_task_def)

lemma set_class_simps [engine_simps]:
  "classes (set_class c pc w) = (classes w)(c := pc)"
  "jobs (set_class c pc w) = jobs w" "tasks (set_class c pc w) = tasks w" "class_known (set_class c pc w) = class_known w"
  "task_set (set_class c pc w) = task_set w" "running_tasks_count (set_class c pc w) = running_tasks_count w"
  "job_priorities (set_class c pc w) = job_priorities w" "ignore_process_classes (set_class c pc w) = ignore_process_classes w"
  "scheduler_state (set_class c pc w) = scheduler_state w" "clock (set_class c pc w) = clock w"
  "process_count (set_class c pc w) = process_count w" "next_process (set_class c pc w) = next_process w"
  "next_task (set_class c pc w) = next_task w" "rules (set_class c pc w) = rules w" "outer (set_class c pc w) = outer w"
  by (simp_all add: set_class_def)

text \<open>An answer changes nothing but \<open>outer\<close>.\<close>

lemma ask_outer: "\<exists>x. snd (ask q w) = w\<lparr>outer := x\<rparr>"
  by (auto simp: ask_def split: prod.splits)

lemma tell_simps [engine_simps]:
  "jobs (tell q w) = jobs w" "tasks (tell q w) = tasks w" "classes (tell q w) = classes w"
  "class_known (tell q w) = class_known w" "task_set (tell q w) = task_set w"
  "running_tasks_count (tell q w) = running_tasks_count w" "job_priorities (tell q w) = job_priorities w"
  "ignore_process_classes (tell q w) = ignore_process_classes w" "scheduler_state (tell q w) = scheduler_state w"
  "clock (tell q w) = clock w" "process_count (tell q w) = process_count w" "next_process (tell q w) = next_process w"
  "next_task (tell q w) = next_task w" "rules (tell q w) = rules w"
  using ask_outer [of q w] by (auto simp: tell_def)

section \<open>Process classes of the engine\<close>

definition pass_signal :: "nat \<Rightarrow> pc_signal \<Rightarrow> 'o engine \<Rightarrow> 'o engine" where
  "pass_signal c s w =
     (case s of
        Notify_process_available (Task_requestor t) \<Rightarrow> call_task t Process_class_available_call (Time 0) w
      | Notify_process_available (Job_requestor j) \<Rightarrow>
          call_job j Process_available_call (Time 0) (set_job j (\<lambda>x. x\<lparr>j_try_again := True\<rparr>) w)
      | Check_for_replacing_or_removing \<Rightarrow> tell (Check_class_removal c) w)"

definition class_enqueue_requestor :: "nat \<Rightarrow> process_requestor \<Rightarrow> 'o engine \<Rightarrow> 'o engine" where
  "class_enqueue_requestor c r w = set_class c (enqueue_requestor r (classes w c)) w"

definition class_remove_requestor :: "nat \<Rightarrow> process_requestor \<Rightarrow> 'o engine \<Rightarrow> 'o engine" where
  "class_remove_requestor c r w =
     (let (pc, signals) = pc_remove_requestor r (classes w c) in fold (pass_signal c) signals (set_class c pc w))"

definition class_remove_process :: "nat \<Rightarrow> nat \<Rightarrow> ('o engine, unit) operation" where
  "class_remove_process c p w =
     (case remove_process p (classes w c) of
        Inl e \<Rightarrow> (Inl e, w)
      | Inr (pc, signals) \<Rightarrow> (Inr (), fold (pass_signal c) signals (set_class c pc w)))"

definition class_select_process ::
  "nat \<Rightarrow> process_configuration \<Rightarrow> ('o engine, nat option) operation" where
  "class_select_process c conf w =
     (case select_process_if_available (process_count w) conf (next_process w) (classes w c) of
        Inl e \<Rightarrow> (Inl e, w)
      | Inr (None, pc) \<Rightarrow> (Inr None, set_class c pc w)
      | Inr (Some _, pc) \<Rightarrow> (Inr (Some (next_process w)), set_class c pc (w\<lparr>next_process := Suc (next_process w)\<rparr>)))"

definition class_set_max_processes :: "nat \<Rightarrow> int \<Rightarrow> 'o engine \<Rightarrow> 'o engine" where
  "class_set_max_processes c n w =
     (let (pc, signals) = set_max_processes n (classes w c) in fold (pass_signal c) signals (set_class c pc w))"

text \<open>\<^verbatim>\<open>Job::default_process_class_or_null\<close>, and the one that throws.\<close>

definition default_process_class_or_null :: "nat \<Rightarrow> 'o engine \<Rightarrow> nat option" where
  "default_process_class_or_null j w =
     (if ignore_process_classes w then None
      else if class_known w (j_process_class (jobs w j)) then Some (j_process_class (jobs w j)) else None)"

definition default_process_class :: "nat \<Rightarrow> ('o engine, nat) operation" where
  "default_process_class j w =
     (if class_known w (j_process_class (jobs w j)) then (Inr (j_process_class (jobs w j)), w)
      else (Inl (Xc ''SCHEDULER-161''), w))"

end
