(* ===== verification/Job_Schedule.thy ===== *)
theory Job_Schedule
  imports Job_Data
begin

text \<open>
  When a job starts: the period it is in, its next start time, the call it registers for that time
  (\<^verbatim>\<open>select_period\<close>, \<^verbatim>\<open>job_set_next_start_time\<close>, \<^verbatim>\<open>calculate_next_time\<close> of \<^verbatim>\<open>spooler_job.cxx\<close>), and the change of its
  state.
\<close>

section \<open>Queries\<close>

definition is_in_period :: "nat \<Rightarrow> time \<Rightarrow> 'o engine \<Rightarrow> bool" where
  "is_in_period j now w =
     (j_delay_until (jobs w j) \<le> now \<and> p_begin (j_period (jobs w j)) \<le> now \<and> now < p_end (j_period (jobs w j)))"

definition next_order_time :: "nat \<Rightarrow> 'o engine \<Rightarrow> time" where
  "next_order_time j w = order_time_rule (rules w) j (outer w)"

definition job_next_start_time :: "nat \<Rightarrow> 'o engine \<Rightarrow> time" where
  "job_next_start_time j w =
     (let x = jobs w j in
      if j_state x = Js_pending \<or> j_state x = Js_running then
        let t = min (j_next_start_time x) (j_next_single_start x)
        in if \<not> j_in_job_chain x \<or> is_zero t then t
           else min t (max (next_order_time j w) (p_begin (j_period x)))
      else never)"

definition database_record_store :: "nat \<Rightarrow> 'o engine \<Rightarrow> 'o engine" where
  "database_record_store j w =
     (if j_file_based_state (jobs w j) \<ge> S_loaded then
        let next = job_next_start_time j w;
            changed = (next \<noteq> j_db_next_start_time (jobs w j)
                       \<or> j_permanently_stopped (jobs w j) \<noteq> j_db_stopped (jobs w j));
            w = (if changed then tell (Persist_job j) w else w)
        in set_job j (\<lambda>x. x\<lparr>j_db_next_start_time := next, j_db_stopped := j_permanently_stopped x\<rparr>) w
      else w)"

section \<open>The period\<close>

definition set_period :: "nat \<Rightarrow> period \<Rightarrow> 'o engine \<Rightarrow> 'o engine" where
  "set_period j p w =
     call_job j Period_end_call (p_end p) (call_job j Period_begin_call (p_begin p) (set_job j (\<lambda>x. x\<lparr>j_period := p\<rparr>) w))"

text \<open>\<^verbatim>\<open>_schedule_use->next_period\<close>, \<^verbatim>\<open>next_single_start\<close>.\<close>

definition schedule_next_period :: "nat \<Rightarrow> time \<Rightarrow> ('o engine, period) operation" where
  "schedule_next_period j t = try_s (\<lambda>w. period_rule (rules w) j t (outer w))"

definition schedule_next_single_start :: "nat \<Rightarrow> time \<Rightarrow> ('o engine, time) operation" where
  "schedule_next_single_start j t = try_s (\<lambda>w. single_start_rule (rules w) j t (outer w))"

definition period_is_over :: "time \<Rightarrow> period \<Rightarrow> bool" where
  "period_is_over now p = (p_end p \<le> now \<or> is_never (p_begin p) \<and> is_never (p_end p))"

definition enter_next_period :: "nat \<Rightarrow> time \<Rightarrow> ('o engine, unit) operation" where
  "enter_next_period j now =
     bind_s (schedule_next_period j now) (\<lambda>next.
       apply_s (\<lambda>w. set_period j next
         (if p_end (j_period (jobs w j)) < p_begin next
          then set_job j (\<lambda>x. x\<lparr>j_wake_when_in_period := False\<rparr>) w else w)))"

definition select_period :: "nat \<Rightarrow> time \<Rightarrow> ('o engine, unit) operation" where
  "select_period j now =
     steps
       [if_s (\<lambda>w. is_never now \<or> \<not> says (Schedule_is_defined j) w)
          (apply_s (set_job j (\<lambda>x. x\<lparr>j_period := empty_period\<rparr>)))
          (when_s (\<lambda>w. period_is_over now (j_period (jobs w j))) (enter_next_period j now)),
        apply_s (\<lambda>w. set_job j (\<lambda>x. x\<lparr>j_start_once :=
          j_tasks_count x = 0 \<and> says (Schedule_is_defined j) w \<and> says (Schedule_once j) w\<rparr>) w)]"

section \<open>The next start time\<close>

text \<open>
  The start time of a pending job. \<open>repeat\<close> is set when a task has ended. \<open>_repeat\<close> is \<^verbatim>\<open>spooler_task.repeat\<close>.
\<close>

definition repeated_start_time :: "nat \<Rightarrow> time \<Rightarrow> ('o engine, time) operation" where
  "repeated_start_time j now w =
     (let x = jobs w j; p = j_period x in
      if \<not> duration_is_zero (j_repeat x) then
        (Inr (next_try p (time_plus now (j_repeat x))), set_job j (\<lambda>x. x\<lparr>j_repeat := Duration 0\<rparr>) w)
      else if \<not> is_eternal (repeat p) then
        (let t = next_repeated p now in
         if p_end p \<le> t then
           bind_s (schedule_next_period j (p_end p)) (\<lambda>next.
             ret (if p_end p = p_begin next \<and> repeat p = repeat next \<and> is_eternal (absolute_repeat p) then t else never)) w
         else ret t w)
      else ret never w)"

definition pending_start_time :: "nat \<Rightarrow> time \<Rightarrow> bool \<Rightarrow> ('o engine, time) operation" where
  "pending_start_time j now rep w =
     (let x = jobs w j; p = j_period x in
      if j_start_once x \<or> j_start_min_tasks x \<or> \<not> rep \<and> has_repeat_or_once p then
        ret (if now < p_begin p then p_begin p else now) w
      else if rep then repeated_start_time j now w
      else ret never w)"

definition store_next_start_time :: "nat \<Rightarrow> time \<Rightarrow> ('o engine, unit) operation" where
  "store_next_start_time j t = apply_s (set_job j (\<lambda>x. x\<lparr>j_next_start_time := t\<rparr>))"

definition set_next_start_time2 :: "nat \<Rightarrow> time \<Rightarrow> bool \<Rightarrow> ('o engine, unit) operation" where
  "set_next_start_time2 j now rep w =
     (let x = jobs w j in
      if \<not> is_zero (j_delay_until x) then store_next_start_time j (next_try (j_period x) (j_delay_until x)) w
      else if j_state x = Js_pending \<and> j_max_tasks x > 0 then
        (if \<not> is_in_time (j_period x) (j_next_start_time x) then
           steps
             [when_s (\<lambda>w. duration_is_zero (j_repeat (jobs w j)))
                (bind_s (schedule_next_single_start j now) (\<lambda>t.
                   apply_s (set_job j (\<lambda>x. x\<lparr>j_next_single_start := t\<rparr>)))),
              bind_s (pending_start_time j now rep) (store_next_start_time j)] w
         else store_next_start_time j never w)
      else if j_state x = Js_running then
        store_next_start_time j (if j_start_min_tasks x then min now (p_begin (j_period x)) else never) w
      else store_next_start_time j never w)"

section \<open>The call for the next start\<close>

definition has_room :: "job \<Rightarrow> bool" where
  "has_room x =
     (j_state x = Js_pending \<and> j_max_tasks x > 0 \<or> j_state x = Js_running \<and> j_running_count x < j_max_tasks x)"

text \<open>The time at which the job wants to be called; asking for an order is part of it.\<close>

definition wanted_time :: "nat \<Rightarrow> time \<Rightarrow> ('o engine, time) operation" where
  "wanted_time j now w =
     (let x = jobs w j in
      if j_state x = Js_running \<or> j_state x = Js_pending then
        if j_has_locks x \<and> (j_locks_enqueued x \<or> \<not> says (Locks_known j) w) then
          ret (if says (Locks_available j) w then Time 0 else never) w
        else if j_waiting_for_process x then ret (if j_try_again x then Time 0 else never) w
        else if has_room x then
          let in_period = is_in_period j now w;
              t = (if in_period \<and> (j_start_once x \<or> j_start_once_for_directory x) then Time 0
                   else min (min never (j_next_start_time x)) (j_next_single_start x))
          in if now < t \<and> j_in_job_chain x \<and> in_period then
               bind_s (ask (Request_order j)) (\<lambda>has_order.
                 read_s (\<lambda>w. if has_order then Time 0 else min t (next_order_time j w))) w
             else ret t w
        else ret never w
      else ret never w)"

definition calculate_next_time :: "nat \<Rightarrow> time \<Rightarrow> ('o engine, unit) operation" where
  "calculate_next_time j now =
     bind_s (wanted_time j now) (\<lambda>t. apply_s (call_job j Calculated_next_time_call t))"

definition job_set_next_start_time :: "nat \<Rightarrow> time \<Rightarrow> bool \<Rightarrow> ('o engine, unit) operation" where
  "job_set_next_start_time j now rep =
     steps
       [select_period j now,
        apply_s (set_job j (\<lambda>x. x\<lparr>j_next_single_start := never\<rparr>)),
        if_s (\<lambda>w. \<not> is_never now \<and> j_state (jobs w j) \<ge> Js_pending \<and> says (Schedule_is_defined j) w)
          (set_next_start_time2 j now rep)
          (store_next_start_time j never),
        calculate_next_time j now,
        apply_s (database_record_store j)]"

definition reset_scheduling :: "nat \<Rightarrow> ('o engine, unit) operation" where
  "reset_scheduling j =
     when_s (\<lambda>w. j_file_based_state (jobs w j) \<ge> S_active)
       (bind_s (read_s clock) (\<lambda>now.
        bind_s (schedule_next_period j now) (\<lambda>p.
        bind_s (schedule_next_single_start j now) (\<lambda>t.
          when_s (\<lambda>w. \<not> period_eq p (j_period (jobs w j)) \<or> t \<noteq> j_next_single_start (jobs w j))
            (steps [apply_s (set_period j p), job_set_next_start_time j now False])))))"

section \<open>Job::set_state\<close>

definition remove_waiting_job_from_process_list :: "nat \<Rightarrow> 'o engine \<Rightarrow> 'o engine" where
  "remove_waiting_job_from_process_list j w =
     set_job j (\<lambda>x. x\<lparr>j_try_again := False\<rparr>)
       (if j_waiting_for_process (jobs w j) then
          (let w = set_job j (\<lambda>x. x\<lparr>j_waiting_for_process := False\<rparr>) w
           in case default_process_class_or_null j w of
                None \<Rightarrow> w
              | Some c \<Rightarrow> class_remove_requestor c (Job_requestor j) w)
        else w)"

definition job_dequeue_lock_requests :: "nat \<Rightarrow> 'o engine \<Rightarrow> 'o engine" where
  "job_dequeue_lock_requests j w = set_job j (\<lambda>x. x\<lparr>j_locks_enqueued := False\<rparr>) (tell (Dequeue_lock_requests j) w)"

text \<open>
  The condition of the third step is \<^verbatim>\<open>_state != s_pending || _state != s_running\<close> in the code, which is always
  true.
\<close>

definition job_set_state :: "nat \<Rightarrow> job_state \<Rightarrow> 'o engine \<Rightarrow> 'o engine" where
  "job_set_state j new w =
     (if new = j_state (jobs w j) then w
      else
        let w = (if new = Js_pending \<and> is_zero (j_delay_until (jobs w j))
                 then set_job j (\<lambda>x. x\<lparr>j_error := None\<rparr>) w else w);
            w = set_job j (\<lambda>x. x\<lparr>j_state := new,
                  j_next_start_time := (if new = Js_stopped \<or> new = Js_error then never else j_next_start_time x)\<rparr>) w;
            w = (if new \<noteq> Js_pending \<or> new \<noteq> Js_running then
                   let w = (if j_waiting_for_process (jobs w j) then remove_waiting_job_from_process_list j w else w)
                   in if j_has_locks (jobs w j) \<and> j_locks_enqueued (jobs w j) then job_dequeue_lock_requests j w else w
                 else w);
            w = (if new = Js_stopped then tell (Check_job_removal j) w else w);
            w = (if new = Js_pending \<or> new = Js_running then set_job j (\<lambda>x. x\<lparr>j_permanently_stopped := False\<rparr>) w else w)
        in database_record_store j w)"

end
