(* ===== verification/Task_Basics.thy ===== *)
theory Task_Basics
  imports Job_Schedule
begin

text \<open>
  Tasks (\<^verbatim>\<open>spooler_task.cxx\<close>) apart from their main step: the queue of tasks that are to be started, errors,
  the change of the state, subprocesses, and the commands to end or kill a task.
\<close>

section \<open>The queue of a job\<close>

text \<open>\<^verbatim>\<open>Standard_job::Task_queue\<close>: sorted by start time, the first enqueued first among equal times.\<close>

fun queue_position :: "(nat \<Rightarrow> time) \<Rightarrow> time \<Rightarrow> nat list \<Rightarrow> nat" where
  "queue_position start_at t [] = 0"
| "queue_position start_at t (x # xs) = (if start_at x \<le> t then Suc (queue_position start_at t xs) else 0)"

definition queue_insert_task :: "(nat \<Rightarrow> time) \<Rightarrow> nat \<Rightarrow> nat list \<Rightarrow> nat list" where
  "queue_insert_task start_at t xs =
     (let n = queue_position start_at (start_at t) xs in take n xs @ t # drop n xs)"

definition start_at_of :: "'o engine \<Rightarrow> nat \<Rightarrow> time" where
  "start_at_of w t = t_start_at (tasks w t)"

definition queue_enqueue_task :: "nat \<Rightarrow> nat \<Rightarrow> 'o engine \<Rightarrow> 'o engine" where
  "queue_enqueue_task j t w =
     (let w = tell (Task_into_database t) w
      in set_job j (\<lambda>x. x\<lparr>j_queue := queue_insert_task (start_at_of w) t (j_queue x)\<rparr>) w)"

definition queue_remove_task :: "nat \<Rightarrow> nat \<Rightarrow> 'o engine \<Rightarrow> bool \<times> 'o engine" where
  "queue_remove_task j t w =
     (if t \<in> set (j_queue (jobs w j)) then
        (True, tell (Task_out_of_database t) (set_job j (\<lambda>x. x\<lparr>j_queue := remove1 t (j_queue x)\<rparr>) w))
      else (False, w))"

definition first_start :: "'o engine \<Rightarrow> (nat \<Rightarrow> bool) \<Rightarrow> nat list \<Rightarrow> time" where
  "first_start w P xs = (case List.find P xs of None \<Rightarrow> never | Some t \<Rightarrow> start_at_of w t)"

definition queue_next_start_time :: "nat \<Rightarrow> 'o engine \<Rightarrow> time" where
  "queue_next_start_time j w =
     min (first_start w (\<lambda>t. t_force_start (tasks w t)) (j_queue (jobs w j)))
         (first_start w (\<lambda>t. \<not> t_force_start (tasks w t)) (j_queue (jobs w j)))"

definition get_task_from_queue :: "nat \<Rightarrow> time \<Rightarrow> 'o engine \<Rightarrow> nat option" where
  "get_task_from_queue j now w =
     (if j_state (jobs w j) = Js_error then None
      else
        let in_period = is_in_period j now w
        in List.find (\<lambda>t. t_start_at (tasks w t) \<le> now \<and> (t_force_start (tasks w t) \<or> in_period)) (j_queue (jobs w j)))"

definition kill_queued_task :: "nat \<Rightarrow> nat \<Rightarrow> 'o engine \<Rightarrow> 'o engine" where
  "kill_queued_task j t w =
     (case queue_remove_task j t w of
        (True, w) \<Rightarrow> call_job j Start_queued_task_call (queue_next_start_time j w) w
      | (False, w) \<Rightarrow> w)"

section \<open>New tasks\<close>

definition no_task_calls :: "task_call \<Rightarrow> time" where
  "no_task_calls c = never"

definition new_task_of :: "nat \<Rightarrow> bool \<Rightarrow> bool \<Rightarrow> time \<Rightarrow> task" where
  "new_task_of j lr force start_at =
     \<lparr>t_job = j, t_state = Ts_none, t_enqueued_state = Ts_none, t_operation = False, t_cause = Cause_none,
      t_step_count = 0, t_exit_code = 0, t_let_run = lr, t_begin_called = False, t_end = End_none,
      t_closed = False, t_force_start = force, t_start_at = start_at, t_next_spooler_process = Time 0,
      t_last_operation_time = Time 0, t_timeout = eternal, t_idle_timeout_at = never, t_subprocess_timeout = never,
      t_warn_if_longer_than = eternal, t_last_warn_if_longer = Time 0, t_deleting_files_until = Time 0,
      t_killed = False, t_kill_tried = False, t_killed_immediately = False, t_async_error = False,
      t_running_state_reached = False, t_delay_until_locks = False, t_order_transition = keep, t_order = None,
      t_pids = [], t_error = None, t_other_error = None, t_connection_reset = False, t_instance = False,
      t_process = None, t_process_class = None, t_has_remote_scheduler = False,
      t_requestors = (\<lambda>_. False), t_calls = no_task_calls, t_closed_call = False\<rparr>"

text \<open>
  \<^verbatim>\<open>Standard_job::create_task\<close>. The identifier is the next one of the database.
\<close>

definition create_task :: "nat \<Rightarrow> bool \<Rightarrow> time \<Rightarrow> ('o engine, nat) operation" where
  "create_task j force start_at w =
     (let x = jobs w j in
      if j_file_based_state x < S_initialized \<or> j_file_based_state x > S_active then (Inl (Xc ''SCHEDULER-153''), w)
      else if j_to_be_removed x then (Inl (Xc ''SCHEDULER-230''), w)
      else if j_state x = Js_error then (Inl (Xc ''SCHEDULER-204''), w)
      else if j_state x \<noteq> Js_stopped \<and> j_state x < Js_initialized then (Inl (Xc ''SCHEDULER-396''), w)
      else
        let w = (if j_state x = Js_stopped \<and> force \<and> scheduler_state w \<noteq> Sp_stopping then job_set_state j Js_pending w else w);
            t = next_task w;
            force = (if \<not> is_zero start_at then force else False)
        in (Inr t, set_task t (\<lambda>_. new_task_of j (let_run (j_period (jobs w j))) force start_at) (w\<lparr>next_task := Suc t\<rparr>)))"

definition enqueue_task :: "nat \<Rightarrow> nat \<Rightarrow> ('o engine, unit) operation" where
  "enqueue_task j t w =
     (if j_state (jobs w j) > Js_loaded \<and> \<not> t_force_start (tasks w t) \<and> \<not> says (Period_follows j) w then
        (Inl (Xc ''SCHEDULER-143''), w)
      else
        let w = queue_enqueue_task j t (set_task t (\<lambda>x. x\<lparr>t_let_run := True\<rparr>) w)
        in (Inr (), call_job j Start_queued_task_call (queue_next_start_time j w) w))"

definition start_task_with :: "nat \<Rightarrow> time \<Rightarrow> bool \<Rightarrow> ('o engine, nat) operation" where
  "start_task_with j start_at force =
     bind_s (create_task j force start_at) (\<lambda>t. bind_s (enqueue_task j t) (\<lambda>_. ret t))"

definition start_task :: "nat \<Rightarrow> time \<Rightarrow> ('o engine, nat) operation" where
  "start_task j start_at w =
     (if j_to_be_removed (jobs w j) then (Inl (Xc ''SCHEDULER-230''), w) else start_task_with j start_at True w)"

section \<open>Errors\<close>

definition has_error :: "nat \<Rightarrow> 'o engine \<Rightarrow> bool" where
  "has_error t w = (t_error (tasks w t) \<noteq> None)"

definition code_of :: "xc \<Rightarrow> string" where
  "code_of e = (case e of Xc c \<Rightarrow> c | Assertion _ \<Rightarrow> ''Z-ASSERT'')"

definition job_set_error_only :: "nat \<Rightarrow> string \<Rightarrow> 'o engine \<Rightarrow> 'o engine" where
  "job_set_error_only j code = set_job j (\<lambda>x. x\<lparr>j_error := Some code, j_repeat := Duration 0\<rparr>)"

text \<open>
  \<^verbatim>\<open>set_error_xc_only_base\<close>. Of an error only the code is kept. A task that was killed on command keeps the
  error it has, unless that is the one for the kill (\<^verbatim>\<open>SCHEDULER-728\<close>); a time out (\<^verbatim>\<open>SCHEDULER-272\<close>) stays.
\<close>

definition set_error_base :: "nat \<Rightarrow> string \<Rightarrow> 'o engine \<Rightarrow> 'o engine" where
  "set_error_base t code w =
     (let x = tasks w t in
      if t_killed_immediately x \<and> t_error x \<noteq> None \<and> t_error x \<noteq> Some ''SCHEDULER-728'' then w
      else
        let code = (if t_killed_immediately x then ''SCHEDULER-728'' else code);
            w = (if t_error x = Some ''SCHEDULER-272'' then w
                 else job_set_error_only (t_job x) code (set_task t (\<lambda>x. x\<lparr>t_error := Some code\<rparr>) w))
        in set_task t (\<lambda>x. x\<lparr>t_exit_code := (if t_exit_code x = 0 then 1 else t_exit_code x)\<rparr>) w)"

text \<open>
  \<^verbatim>\<open>set_error_xc_only\<close> for errors of \<^verbatim>\<open>zschimmer\<close>: a lost connection keeps the error before it, in case the signal
  that broke the connection is to be ignored. \<^verbatim>\<open>set_error_xc\<close> renames the error of a lost connection before.
\<close>

definition task_set_error_only :: "nat \<Rightarrow> string \<Rightarrow> 'o engine \<Rightarrow> 'o engine" where
  "task_set_error_only t code w =
     set_error_base t code
       (if code = ''SCHEDULER-202'' then
          set_task t (\<lambda>x. if t_connection_reset x then x
            else x\<lparr>t_other_error := t_error x, t_connection_reset := True\<rparr>) w
        else set_task t (\<lambda>x. x\<lparr>t_other_error := None, t_connection_reset := False\<rparr>) w)"

definition task_set_error :: "nat \<Rightarrow> string \<Rightarrow> 'o engine \<Rightarrow> 'o engine" where
  "task_set_error t code = task_set_error_only t (if code = ''Z-REMOTE-101'' then ''SCHEDULER-202'' else code)"

section \<open>Subprocesses\<close>

definition set_subprocess_timeout :: "nat \<Rightarrow> 'o engine \<Rightarrow> 'o engine" where
  "set_subprocess_timeout t w =
     (let due = fold (\<lambda>p m. if m > rp_timeout_at (snd p) then rp_timeout_at (snd p) else m) (t_pids (tasks w t)) never
      in call_task t Subprocess_timeout_call due (set_task t (\<lambda>x. x\<lparr>t_subprocess_timeout := due\<rparr>) w))"

definition add_pid :: "nat \<Rightarrow> int \<Rightarrow> duration \<Rightarrow> 'o engine \<Rightarrow> 'o engine" where
  "add_pid t pid timeout w =
     (if says (Instance_on_remote_host t) w then w
      else
        let due = (if \<not> is_eternal timeout then time_plus (clock w) timeout else never);
            p = \<lparr>rp_timeout_at = due, rp_wait = False, rp_killed = False\<rparr>
        in set_subprocess_timeout t (set_task t (\<lambda>x. x\<lparr>t_pids := AList.update (if pid < 0 then - pid else pid) p (t_pids x)\<rparr>) w))"

definition remove_pid :: "nat \<Rightarrow> int \<Rightarrow> 'o engine \<Rightarrow> 'o engine" where
  "remove_pid t pid w = set_subprocess_timeout t (set_task t (\<lambda>x. x\<lparr>t_pids := AList.delete pid (t_pids x)\<rparr>) w)"

definition add_subprocess :: "nat \<Rightarrow> int \<Rightarrow> duration \<Rightarrow> 'o engine \<Rightarrow> 'o engine" where
  "add_subprocess t pid timeout w =
     (if says (Instance_on_remote_host t) w then w
      else
        let due = (if is_eternal timeout then never else time_plus (clock w) timeout);
            p = \<lparr>rp_timeout_at = due, rp_wait = True, rp_killed = False\<rparr>
        in set_subprocess_timeout t (set_task t (\<lambda>x. x\<lparr>t_pids := AList.update pid p (t_pids x)\<rparr>) w))"

definition shall_wait_for_registered_pid :: "nat \<Rightarrow> 'o engine \<Rightarrow> bool" where
  "shall_wait_for_registered_pid t w = list_ex (\<lambda>p. rp_wait (snd p)) (t_pids (tasks w t))"

definition kill_pid :: "nat \<Rightarrow> int \<Rightarrow> 'o engine \<Rightarrow> 'o engine" where
  "kill_pid t pid w =
     (case map_of (t_pids (tasks w t)) pid of
        None \<Rightarrow> w
      | Some p \<Rightarrow>
          if rp_killed p then w
          else set_task t (\<lambda>x. x\<lparr>t_pids := AList.update pid (p\<lparr>rp_killed := True, rp_timeout_at := never\<rparr>) (t_pids x)\<rparr>)
                 (if says (Instance_on_remote_host t) w then w else tell (Kill_pid t pid) w))"

definition check_subprocess_timeout :: "nat \<Rightarrow> time \<Rightarrow> 'o engine \<Rightarrow> bool \<times> 'o engine" where
  "check_subprocess_timeout t now w =
     (if t_subprocess_timeout (tasks w t) \<le> now then
        let late = filter (\<lambda>p. rp_timeout_at (snd p) \<le> now) (t_pids (tasks w t))
        in (late \<noteq> [], set_subprocess_timeout t (fold (\<lambda>p. kill_pid t (fst p)) late w))
      else (False, w))"

text \<open>
  \<^verbatim>\<open>Task::try_kill\<close>: without a module instance there is only an operation to kill; an exception is logged.
\<close>

definition try_kill :: "nat \<Rightarrow> 'o engine \<Rightarrow> bool \<times> 'o engine" where
  "try_kill t w =
     (let w = set_task t (\<lambda>x. x\<lparr>t_kill_tried := True\<rparr>) w in
      case (if t_instance (tasks w t) \<or> t_operation (tasks w t) then ask (Kill t) w else (Inr False, w)) of
        (Inl _, w) \<Rightarrow> (t_killed (tasks w t), w)
      | (Inr killed, w) \<Rightarrow>
          (killed, fold (\<lambda>p. kill_pid t (fst p)) (t_pids (tasks w t)) (set_task t (\<lambda>x. x\<lparr>t_killed := killed\<rparr>) w)))"

section \<open>Ending a task\<close>

text \<open>
  \<^verbatim>\<open>Task::cmd_end\<close>. A task that waits in the queue of its job is taken out of it, any other one gets a call.
\<close>

definition cmd_end :: "nat \<Rightarrow> end_mode \<Rightarrow> duration \<Rightarrow> 'o engine \<Rightarrow> 'o engine" where
  "cmd_end t mode timeout w =
     (let w = set_task t (\<lambda>x. x\<lparr>t_end := (if t_end x \<noteq> End_kill_immediately then mode else t_end x)\<rparr>) w;
          w = (if mode = End_kill_immediately then
                 if \<not> duration_is_zero timeout then
                   if t_instance (tasks w t) then
                     let w = tell (Terminate t) w
                     in if \<not> is_eternal timeout then call_task t Kill_timeout_call (time_plus (clock w) timeout) w else w
                   else w
                 else if \<not> t_kill_tried (tasks w t) then snd (try_kill t w) else w
               else w)
      in if t_state (tasks w t) = Ts_none then kill_queued_task (t_job (tasks w t)) t w
         else call_task t End_task_call (Time 0) w)"

definition cmd_nice_end :: "nat \<Rightarrow> 'o engine \<Rightarrow> 'o engine" where
  "cmd_nice_end t = cmd_end t End_nice (Duration 0)"

definition ending :: "task \<Rightarrow> bool" where
  "ending x = (t_end x \<noteq> End_none \<or> t_state x \<ge> Ts_ending)"

definition is_idle :: "task \<Rightarrow> bool" where
  "is_idle x = (t_state x = Ts_running_waiting_for_order \<and> t_end x = End_none)"

section \<open>The state of a task\<close>

definition counts_as_running :: "task_state \<Rightarrow> bool" where
  "counts_as_running s = (s = Ts_starting \<or> s = Ts_opening \<or> s = Ts_running)"

definition process_class_of :: "nat \<Rightarrow> ('o engine, nat) operation" where
  "process_class_of t =
     try_s (\<lambda>w. case t_process_class (tasks w t) of None \<Rightarrow> Inl (Xc ''process_class'') | Some c \<Rightarrow> Inr c)"

text \<open>Leaving \<^verbatim>\<open>s_running\<close>: the locks that \<^verbatim>\<open>spooler_process\<close> has taken are released.\<close>

definition leave_running :: "nat \<Rightarrow> 'o engine \<Rightarrow> 'o engine" where
  "leave_running t w =
     (if t_state (tasks w t) = Ts_running \<and> t_requestors (tasks w t) Lock_level_process_api then
        tell (Task_dequeue t Lock_level_process_api) (tell (Task_release t Lock_level_process_api) w)
      else w)"

definition enter_task_state :: "nat \<Rightarrow> task_state \<Rightarrow> 'o engine \<Rightarrow> 'o engine" where
  "enter_task_state t new w =
     (case new of
        Ts_running_delayed \<Rightarrow> call_task t Next_spooler_process_call (t_next_spooler_process (tasks w t)) w
      | Ts_running_waiting_for_order \<Rightarrow>
          let w = call_task t Next_order_step_call (next_order_time (t_job (tasks w t)) w) w
          in if t_idle_timeout_at (tasks w t) \<noteq> never
             then call_task t Idle_timeout_call (t_idle_timeout_at (tasks w t)) w else w
      | Ts_closed \<Rightarrow> set_task t (\<lambda>x. x\<lparr>t_closed_call := True\<rparr>) w
      | _ \<Rightarrow> w)"

definition count_running :: "nat \<Rightarrow> int \<Rightarrow> 'o engine \<Rightarrow> 'o engine" where
  "count_running j d w =
     set_job j (\<lambda>x. x\<lparr>j_running_count := j_running_count x + d\<rparr>) (w\<lparr>running_tasks_count := running_tasks_count w + d\<rparr>)"

definition running_weight :: "task_state \<Rightarrow> int" where
  "running_weight s = (if counts_as_running s then 1 else 0)"

definition change_task_state :: "nat \<Rightarrow> task_state \<Rightarrow> 'o engine \<Rightarrow> 'o engine" where
  "change_task_state t new w =
     (let w = enter_task_state t new (leave_running t w);
          w = count_running (t_job (tasks w t)) (running_weight new) w;
          w = count_running (t_job (tasks w t)) (- running_weight (t_state (tasks w t))) w
      in set_task t (\<lambda>x. x\<lparr>t_state := new,
           t_next_spooler_process := (if new \<noteq> Ts_running_delayed then Time 0 else t_next_spooler_process x)\<rparr>) w)"

text \<open>An idle task makes room for a requestor that waits for a process.\<close>

definition make_room_if_idle :: "nat \<Rightarrow> ('o engine, unit) operation" where
  "make_room_if_idle t =
     when_s (\<lambda>w. is_idle (tasks w t))
       (bind_s (process_class_of t) (\<lambda>c.
          when_s (\<lambda>w. waiting_requestor_or_null (classes w c) \<noteq> None) (apply_s (cmd_nice_end t))))"

definition set_state_direct :: "nat \<Rightarrow> task_state \<Rightarrow> ('o engine, unit) operation" where
  "set_state_direct t new =
     steps
       [apply_s (set_task t (\<lambda>x. x\<lparr>t_enqueued_state := Ts_none\<rparr>)),
        when_s (\<lambda>w. new \<noteq> t_state (tasks w t))
          (steps [apply_s (change_task_state t new), make_room_if_idle t])]"

definition set_enqueued_state :: "nat \<Rightarrow> ('o engine, unit) operation" where
  "set_enqueued_state t w =
     (if t_enqueued_state (tasks w t) \<noteq> Ts_none then set_state_direct t (t_enqueued_state (tasks w t)) w else (Inr (), w))"

text \<open>\<^verbatim>\<open>Task::set_state\<close>: while an operation runs the new state has to wait.\<close>

definition task_set_state :: "nat \<Rightarrow> task_state \<Rightarrow> ('o engine, unit) operation" where
  "task_set_state t new =
     steps
       [apply_s (set_task t (\<lambda>x. x\<lparr>t_enqueued_state := new\<rparr>)),
        when_s (\<lambda>w. \<not> t_operation (tasks w t))
          (steps [set_enqueued_state t,
                  assert_s ''set_state'' (\<lambda>w. t_enqueued_state (tasks w t) = Ts_none)])]"

section \<open>Locks of a task\<close>

definition current_lock_level :: "nat \<Rightarrow> ('o engine, lock_level) operation" where
  "current_lock_level t =
     try_s (\<lambda>w. case t_state (tasks w t) of
         Ts_opening \<Rightarrow> Inr Lock_level_task_api
       | Ts_opening_waiting_for_locks \<Rightarrow> Inr Lock_level_task_api
       | Ts_running \<Rightarrow> Inr Lock_level_process_api
       | Ts_running_waiting_for_locks \<Rightarrow> Inr Lock_level_process_api
       | _ \<Rightarrow> Inl (Xc ''current_lock_level''))"

definition delay_until_locks_available :: "nat \<Rightarrow> ('o engine, unit) operation" where
  "delay_until_locks_available t =
     bind_s (try_s (\<lambda>w. if t_state (tasks w t) \<noteq> Ts_opening \<and> t_state (tasks w t) \<noteq> Ts_running
                         then Inl (Xc ''SCHEDULER-468'') else Inr ())) (\<lambda>_.
     bind_s (current_lock_level t) (\<lambda>level.
     bind_s (try_s (\<lambda>w. if \<not> t_requestors (tasks w t) level \<or> says (Task_holds_all t level) w
                         then Inl (Xc ''SCHEDULER-468'') else Inr ())) (\<lambda>_.
       apply_s (set_task t (\<lambda>x. x\<lparr>t_delay_until_locks := True\<rparr>)))))"

definition on_locks_are_available :: "nat \<Rightarrow> ('o engine, unit) operation" where
  "on_locks_are_available t =
     bind_s (try_s (\<lambda>w. case t_state (tasks w t) of
         Ts_opening_waiting_for_locks \<Rightarrow> Inr Ts_opening
       | Ts_running_waiting_for_locks \<Rightarrow> Inr Ts_running
       | _ \<Rightarrow> Inl (Assertion ''on_locks_are_available''))) (\<lambda>s.
       steps [set_state_direct t s, apply_s (call_task t Locks_are_available_call (Time 0))])"

definition set_delay_spooler_process :: "nat \<Rightarrow> duration \<Rightarrow> 'o engine \<Rightarrow> 'o engine" where
  "set_delay_spooler_process t d w =
     (let due = time_plus (clock w) d
      in call_task t Delayed_spooler_process_call due (set_task t (\<lambda>x. x\<lparr>t_next_spooler_process := due\<rparr>) w))"

definition task_notify_process_available :: "nat \<Rightarrow> 'o engine \<Rightarrow> 'o engine" where
  "task_notify_process_available t = call_task t Process_class_available_call (Time 0)"

end
