(* ===== verification/Task_Orders.thy ===== *)
theory Task_Orders
  imports Task_Basics
begin

text \<open>
  Stopping a job, the order that a task works on, and the end of a task: what \<^verbatim>\<open>Task::finish\<close> and \<^verbatim>\<open>Task::close\<close>
  do with the order, the job and the process class.
\<close>

section \<open>Stopping a job\<close>

definition end_tasks :: "nat \<Rightarrow> 'o engine \<Rightarrow> 'o engine" where
  "end_tasks j w =
     fold (\<lambda>t w. if ending (tasks w t) then w else cmd_end t End_normal (Duration 0) w) (j_running (jobs w j)) w"

definition clear_when_directory_changed :: "nat \<Rightarrow> 'o engine \<Rightarrow> 'o engine" where
  "clear_when_directory_changed j w =
     call_job j Directory_changed_call never
       (set_job j (\<lambda>x. x\<lparr>j_watchers := []\<rparr>) (tell (Unwatch_directories j) w))"

definition stop_simply :: "nat \<Rightarrow> bool \<Rightarrow> 'o engine \<Rightarrow> 'o engine" where
  "stop_simply j end_all w =
     (let w = job_set_state j (if j_running (jobs w j) = [] then Js_stopped else Js_stopping) w;
          w = (if end_all then end_tasks j w else w)
      in set_job j (\<lambda>x. x\<lparr>j_start_min_tasks := False\<rparr>) (clear_when_directory_changed j w))"

definition job_stop :: "nat \<Rightarrow> bool \<Rightarrow> 'o engine \<Rightarrow> 'o engine" where
  "job_stop j end_all w = stop_simply j end_all (set_job j (\<lambda>x. x\<lparr>j_permanently_stopped := True\<rparr>) w)"

definition stop_after_task_error :: "nat \<Rightarrow> 'o engine \<Rightarrow> 'o engine" where
  "stop_after_task_error j w = (if j_stop_on_error (jobs w j) then job_stop j False w else w)"

text \<open>
  \<^verbatim>\<open>start_when_directory_changed\<close> as it is on Unix: a directory that is already being watched only renews its watch.
  \<^verbatim>\<open>init_start_when_directory_changed\<close>: an error is one of the job, and of the task if there is one.
\<close>

definition start_when_directory_changed :: "nat \<Rightarrow> string \<times> string \<Rightarrow> ('o engine, unit) operation" where
  "start_when_directory_changed j d =
     bind_s (ask (Watch_directory j (fst d) (snd d))) (\<lambda>_.
       when_s (\<lambda>w. d \<notin> set (j_watchers (jobs w j)))
         (steps
           [apply_s (set_job j (\<lambda>x. x\<lparr>j_watchers := j_watchers x @ [d]\<rparr>)),
            apply_s (call_job j Directory_changed_call (Time 0))]))"

definition init_start_when_directory_changed :: "nat \<Rightarrow> nat option \<Rightarrow> 'o engine \<Rightarrow> 'o engine" where
  "init_start_when_directory_changed j t w =
     fold (\<lambda>d w. snd (catch_s (start_when_directory_changed j d)
         (\<lambda>e. apply_s (\<lambda>w. let w = job_set_error_only j (code_of e) w
            in case t of None \<Rightarrow> w | Some t \<Rightarrow> task_set_error_only t (code_of e) w)) w))
       (j_watched (jobs w j)) w"

section \<open>The minimum number of tasks\<close>

definition not_ending_tasks_count :: "nat \<Rightarrow> 'o engine \<Rightarrow> int" where
  "not_ending_tasks_count j w = int (length (filter (\<lambda>t. \<not> ending (tasks w t)) (j_running (jobs w j))))"

definition below_min_tasks :: "nat \<Rightarrow> 'o engine \<Rightarrow> bool" where
  "below_min_tasks j w = (j_min_tasks (jobs w j) > 0 \<and> not_ending_tasks_count j w < j_min_tasks (jobs w j))"

definition above_min_tasks :: "nat \<Rightarrow> 'o engine \<Rightarrow> bool" where
  "above_min_tasks j w = (not_ending_tasks_count j w > j_min_tasks (jobs w j))"

definition should_start_task_because_of_min_tasks :: "nat \<Rightarrow> 'o engine \<Rightarrow> bool" where
  "should_start_task_because_of_min_tasks j w =
     ((j_state (jobs w j) = Js_pending \<or> j_state (jobs w j) = Js_running) \<and> below_min_tasks j w)"

definition check_min_tasks :: "nat \<Rightarrow> 'o engine \<Rightarrow> 'o engine" where
  "check_min_tasks j w =
     (if \<not> j_start_min_tasks (jobs w j) \<and> should_start_task_because_of_min_tasks j w then
        call_job j Below_min_tasks_call (Time 0) (set_job j (\<lambda>x. x\<lparr>j_start_min_tasks := True\<rparr>) w)
      else set_job j (\<lambda>x. x\<lparr>j_start_min_tasks := False\<rparr>) w)"

definition on_task_finished :: "nat \<Rightarrow> nat \<Rightarrow> 'o engine \<Rightarrow> 'o engine" where
  "on_task_finished j t w =
     (if \<not> j_start_min_tasks (jobs w j) \<and> (j_state (jobs w j) = Js_pending \<or> j_state (jobs w j) = Js_running)
         \<and> t_running_state_reached (tasks w t)
      then check_min_tasks j w else w)"

section \<open>The order of a task\<close>

definition detach_order :: "nat \<Rightarrow> 'o engine \<Rightarrow> 'o engine" where
  "detach_order t = set_task t (\<lambda>x. x\<lparr>t_order := None\<rparr>)"

definition job_of :: "'o engine \<Rightarrow> nat \<Rightarrow> job" where
  "job_of w t = jobs w (t_job (tasks w t))"

definition postprocess_order :: "nat \<Rightarrow> transition \<Rightarrow> ('o engine, unit) operation" where
  "postprocess_order t transition =
     bind_s (read_s (\<lambda>w. t_order (tasks w t))) (\<lambda>order. case order of
         None \<Rightarrow> ret ()
       | Some i \<Rightarrow> bind_s (ask (Order_postprocessing t i transition)) (\<lambda>_. apply_s (detach_order t)))"

definition detach_order_after_error :: "nat \<Rightarrow> transition \<Rightarrow> ('o engine, unit) operation" where
  "detach_order_after_error t transition =
     bind_s (read_s (\<lambda>w. t_order (tasks w t))) (\<lambda>order. case order of
         None \<Rightarrow> ret ()
       | Some i \<Rightarrow>
           if_s (\<lambda>w. j_stop_on_error (job_of w t))
             (bind_s (ask (Order_processing_error t i)) (\<lambda>_. apply_s (detach_order t)))
             (postprocess_order t transition))"

definition error_order_state_transition :: "nat \<Rightarrow> 'o engine \<Rightarrow> transition" where
  "error_order_state_transition t w =
     (if t_instance (tasks w t) then
        let tr = transition_rule (rules w) t (outer w) in if tr = success then standard_error else tr
      else standard_error)"

definition max_tasks_reached :: "job \<Rightarrow> bool" where
  "max_tasks_reached x = (int (length (j_running x)) \<ge> j_max_tasks x)"

definition fetch_from_job :: "nat \<Rightarrow> time \<Rightarrow> ('o engine, nat option) operation" where
  "fetch_from_job t now w =
     (case fetch_rule (rules w) t (t_job (tasks w t)) now (t_process_class (tasks w t)) (outer w) of
        (r, x) \<Rightarrow> (r, w\<lparr>outer := x\<rparr>))"

text \<open>
  A task of a job without a process class of its own takes the class of the order's job chain, and keeps it.
  The result tells whether the task keeps the order.
\<close>

definition class_of_order :: "nat \<Rightarrow> nat \<Rightarrow> ('o engine, bool) operation" where
  "class_of_order t i =
     bind_s (read_s (\<lambda>w. chain_class_rule (rules w) i (outer w))) (\<lambda>c.
       if_s (\<lambda>w. \<not> class_known w c)
         (bind_s (steps [postprocess_order t standard_error,
                         assert_s ''fetch_and_occupy_order'' (\<lambda>w. t_order (tasks w t) = None)]) (\<lambda>_. ret False))
         (bind_s
           (steps [when_s (\<lambda>w. t_process_class (tasks w t) = None)
                     (steps [assert_s ''fetch_and_occupy_order''
                               (\<lambda>w. t_state (tasks w t) = Ts_none \<and> \<not> t_instance (tasks w t)),
                             apply_s (set_task t (\<lambda>x. x\<lparr>t_process_class := Some c\<rparr>))]),
                   try_s (\<lambda>w. if t_process_class (tasks w t) \<noteq> Some c then Inl (Xc ''fetch_and_occupy_order'')
                               else Inr ())]) (\<lambda>_. ret True)))"

definition occupy_fetched_order :: "nat \<Rightarrow> nat \<Rightarrow> ('o engine, bool) operation" where
  "occupy_fetched_order t i =
     bind_s (apply_s (set_task t (\<lambda>x. x\<lparr>t_order := Some i\<rparr>))) (\<lambda>_.
       if_s (\<lambda>w. \<not> j_own_process_class (job_of w t) \<and> \<not> t_has_remote_scheduler (tasks w t))
         (class_of_order t i) (ret True))"

text \<open>
  No order: if one is announced that this task cannot take, because it needs another process class, the task ends
  in favour of a new one.
\<close>

definition no_order_fetched :: "nat \<Rightarrow> ('o engine, unit) operation" where
  "no_order_fetched t =
     bind_s (bind_s (read_s (\<lambda>w. t_job (tasks w t))) (\<lambda>j. ask (Request_order j))) (\<lambda>announced.
       when_s (\<lambda>w. announced \<and> \<not> j_own_process_class (job_of w t) \<and> max_tasks_reached (job_of w t))
         (apply_s (cmd_nice_end t)))"

definition order_of_task :: "nat \<Rightarrow> ('o engine, nat option) operation" where
  "order_of_task t =
     bind_s (read_s (\<lambda>w. t_order (tasks w t))) (\<lambda>order. case order of
         None \<Rightarrow> ret None
       | Some i \<Rightarrow> bind_s (ask (Assert_order_task t i)) (\<lambda>_. ret (Some i)))"

definition may_fetch :: "nat \<Rightarrow> 'o engine \<Rightarrow> bool" where
  "may_fetch t w = (t_order (tasks w t) = None \<and> t_end (tasks w t) = End_none \<and> scheduler_state w \<noteq> Sp_paused)"

definition task_fetch_and_occupy_order :: "nat \<Rightarrow> time \<Rightarrow> ('o engine, nat option) operation" where
  "task_fetch_and_occupy_order t now =
     bind_s (assert_s ''fetch_and_occupy_order'' (\<lambda>w. \<not> t_operation (tasks w t)
       \<and> (t_state (tasks w t) = Ts_none \<or> t_state (tasks w t) = Ts_running
          \<or> t_state (tasks w t) = Ts_running_waiting_for_order))) (\<lambda>_.
     if_s (may_fetch t)
       (bind_s (fetch_from_job t now) (\<lambda>fetched. case fetched of
            Some i \<Rightarrow> bind_s (occupy_fetched_order t i) (\<lambda>kept. if kept then order_of_task t else ret None)
          | None \<Rightarrow> bind_s (no_order_fetched t) (\<lambda>_. order_of_task t)))
       (order_of_task t))"

section \<open>Closing a task\<close>

definition close_operation :: "nat \<Rightarrow> 'o engine \<Rightarrow> 'o engine" where
  "close_operation t w =
     (if t_operation (tasks w t) then set_task t (\<lambda>x. x\<lparr>t_operation := False\<rparr>) (tell (Close_operation t) w) else w)"

text \<open>The order of a task that is closed is taken out of its job chain; the pointer to it stays.\<close>

definition task_close :: "nat \<Rightarrow> ('o engine, unit) operation" where
  "task_close t =
     steps
       [when_s (\<lambda>w. \<not> t_closed (tasks w t))
          (steps
            [apply_s (close_operation t),
             apply_s (\<lambda>w. case t_process_class (tasks w t) of
                 None \<Rightarrow> w | Some c \<Rightarrow> class_remove_requestor c (Task_requestor t) w),
             bind_s (read_s (\<lambda>w. t_order (tasks w t))) (\<lambda>order. case order of
                 None \<Rightarrow> ret () | Some i \<Rightarrow> bind_s (ask (Order_leaves_chain t i)) (\<lambda>_. ret ())),
             apply_s (\<lambda>w. if t_instance (tasks w t) then tell (Close_instance t) (tell (Kill t) w) else w),
             apply_s (set_task t (\<lambda>x. x\<lparr>t_closed := True\<rparr>))]),
        apply_s (tell (Task_release_all t)),
        set_state_direct t Ts_closed]"

section \<open>Task::finish\<close>

text \<open>
  The delay after \<open>steps\<close> consecutive errors: the entry with the largest key that is reached (\<^verbatim>\<open>map\<close> iterates in
  ascending order).
\<close>

definition delay_after_error :: "(int \<times> duration) list \<Rightarrow> int \<Rightarrow> duration" where
  "delay_after_error entries n =
     fold (\<lambda>e d. if n \<ge> fst e then snd e else d) entries (if entries = [] then eternal else Duration 0)"

text \<open>The task was started from the queue: it is started again after the delay.\<close>

definition start_again :: "nat \<Rightarrow> nat \<Rightarrow> ('o engine, unit) operation" where
  "start_again j t =
     when_s (\<lambda>w. t_cause (tasks w t) = Cause_queue)
       (catch_s (bind_s (start_task j (Time 0)) (\<lambda>_. ret ()))
          (\<lambda>_. apply_s (\<lambda>w. stop_after_task_error j (set_job j (\<lambda>x. x\<lparr>j_delay_until := Time 0\<rparr>) w))))"

definition delay_job :: "nat \<Rightarrow> nat \<Rightarrow> ('o engine, unit) operation" where
  "delay_job j t =
     bind_s (read_s (\<lambda>w. delay_after_error (j_delay_after_error (jobs w j)) (j_error_steps (jobs w j)))) (\<lambda>delay.
       if is_eternal delay then apply_s (job_stop j False)
       else steps [apply_s (\<lambda>w. set_job j (\<lambda>x. x\<lparr>j_delay_until := time_plus (clock w) delay\<rparr>) w), start_again j t])"

definition unprocessed_order :: "nat \<Rightarrow> transition \<Rightarrow> ('o engine, unit) operation" where
  "unprocessed_order t transition =
     when_s (\<lambda>w. t_order (tasks w t) \<noteq> None)
       (steps
         [when_s (\<lambda>w. \<not> has_error t w \<and> scheduler_state w \<noteq> Sp_stopping)
            (apply_s (task_set_error t ''SCHEDULER-226'')),
          detach_order_after_error t transition])"

definition job_after_task :: "nat \<Rightarrow> nat \<Rightarrow> ('o engine, unit) operation" where
  "job_after_task j t =
     steps
       [if_s (\<lambda>w. has_error t w \<and> duration_is_zero (j_repeat (jobs w j)) \<and> j_delay_after_error (jobs w j) = [])
          (apply_s (stop_after_task_error j))
          (when_s (\<lambda>w. j_temporary (jobs w j) \<and> duration_is_zero (j_repeat (jobs w j)))
            (apply_s (job_stop j False))),
        if_s (\<lambda>w. has_error t w \<and> j_delay_after_error (jobs w j) \<noteq> [])
          (steps
            [apply_s (set_job j (\<lambda>x. x\<lparr>j_error_steps := j_error_steps x + 1\<rparr>)),
             when_s (\<lambda>w. duration_is_zero (j_repeat (jobs w j))) (delay_job j t)])
          (apply_s (set_job j (\<lambda>x. x\<lparr>j_error_steps := 0\<rparr>)))]"

definition task_finish :: "nat \<Rightarrow> transition \<Rightarrow> ('o engine, unit) operation" where
  "task_finish t transition =
     bind_s (read_s (\<lambda>w. t_job (tasks w t))) (\<lambda>j.
       steps
         [apply_s (init_start_when_directory_changed j (Some t)),
          apply_s (tell (On_exit_commands t)),
          unprocessed_order t transition,
          job_after_task j t,
          apply_s (on_task_finished j t),
          apply_s (tell (Task_ended_event t)),
          task_close t])"

end
