(* ===== verification/Task_Steps.thy ===== *)
theory Task_Steps
  imports Task_Orders
begin

text \<open>
  The states of a task one by one (\<^verbatim>\<open>switch( _state )\<close> in \<^verbatim>\<open>Task::do_something\<close>): loading and getting a process,
  opening, the steps, the end. Each operation returns a verdict: the local variables \<open>ok\<close>, \<open>loop\<close> and
  \<open>something_done\<close> of the function.
\<close>

record verdict =
  v_ok :: bool
  v_loop :: bool
  v_something :: bool

definition verdict_of :: "bool \<Rightarrow> bool \<Rightarrow> bool \<Rightarrow> verdict" where
  "verdict_of ok again something = \<lparr>v_ok = ok, v_loop = again, v_something = something\<rparr>"

definition then_verdict :: "('s, unit) operation list \<Rightarrow> verdict \<Rightarrow> ('s, verdict) operation" where
  "then_verdict ms v = bind_s (steps ms) (\<lambda>_. ret v)"

section \<open>Operations of the module instance\<close>

definition loaded :: "nat \<Rightarrow> 'o engine \<Rightarrow> bool" where
  "loaded t w = (t_instance (tasks w t) \<and> says (Instance_loaded t) w)"

text \<open>
  \<^verbatim>\<open>do_end__start\<close>, \<^verbatim>\<open>do_release__start\<close> and \<^verbatim>\<open>do_close__start\<close> make do without a module instance, with an operation
  that is finished at once.
\<close>

definition start_operation :: "nat \<Rightarrow> ('o engine, unit) operation" where
  "start_operation t =
     bind_s (read_s (\<lambda>w. tasks w t)) (\<lambda>x.
       if t_instance x then
         bind_s (ask (Start_operation t (t_state x))) (\<lambda>_. apply_s (set_task t (\<lambda>x. x\<lparr>t_operation := True\<rparr>)))
       else if t_state x = Ts_ending \<or> t_state x = Ts_release \<or> t_state x = Ts_ended then
         apply_s (set_task t (\<lambda>x. x\<lparr>t_operation := True\<rparr>))
       else throw (Xc ''SCHEDULER-199''))"

definition operation_finished :: "nat \<Rightarrow> ('o engine, bool) operation" where
  "operation_finished t =
     bind_s (read_s (\<lambda>w. t_instance (tasks w t))) (\<lambda>i. if i then ask (Operation_finished t) else ret True)"

text \<open>\<^verbatim>\<open>do_close__end\<close>: the exit code and the signal that ended the process become errors of the task.\<close>

definition set_exit_code_error :: "nat \<Rightarrow> 'o engine \<Rightarrow> 'o engine" where
  "set_exit_code_error t w =
     (let code = (if says (Instance_kind_process t) w then answer_code (rules w) (Instance_kind_process t) (outer w)
                  else t_exit_code (tasks w t))
      in if code \<noteq> 0 then
           set_task t (\<lambda>x. x\<lparr>t_exit_code := code\<rparr>)
             (if j_kind (job_of w t) = Kind_process then task_set_error t ''SCHEDULER-280'' w else w)
         else w)"

definition set_signal_error :: "nat \<Rightarrow> 'o engine \<Rightarrow> 'o engine" where
  "set_signal_error t w =
     (let signal = answer_code (rules w) (Ignore_signal t) (outer w)
      in if signal \<noteq> 0 then
           set_task t (\<lambda>x. x\<lparr>t_exit_code := - signal\<rparr>)
             (if \<not> says (Ignore_signal t) w then task_set_error t ''SCHEDULER-279'' w
              else if t_connection_reset (tasks w t) then
                set_task t (\<lambda>x. x\<lparr>t_error := t_other_error x, t_other_error := None, t_connection_reset := False\<rparr>) w
              else w)
         else w)"

definition do_close_end :: "nat \<Rightarrow> ('o engine, unit) operation" where
  "do_close_end t =
     when_s (\<lambda>w. t_instance (tasks w t))
       (bind_s (ask (End_operation t Ts_ended)) (\<lambda>_. apply_s (\<lambda>w. set_signal_error t (set_exit_code_error t w))))"

definition end_of_operation :: "nat \<Rightarrow> task_state \<Rightarrow> ('o engine, bool) operation" where
  "end_of_operation t s =
     (if s \<in> {Ts_starting, Ts_opening, Ts_on_error, Ts_on_success, Ts_exit} then
        if_s (\<lambda>w. t_instance (tasks w t)) (ask (End_operation t s)) (throw (Xc ''SCHEDULER-199''))
      else if s \<in> {Ts_ending, Ts_release} then
        if_s (\<lambda>w. t_instance (tasks w t)) (bind_s (ask (End_operation t s)) (\<lambda>_. ret False)) (ret False)
      else if s = Ts_ending_waiting_for_subprocesses then
        if_s (says (Instance_is_remote t)) (bind_s (ask (End_operation t s)) (\<lambda>_. ret False)) (throw (Xc ''NO_REMOTE_INSTANCE''))
      else if s = Ts_ended then bind_s (do_close_end t) (\<lambda>_. ret False)
      else throw (Xc ''operation__end''))"

definition operation_end :: "nat \<Rightarrow> ('o engine, bool) operation" where
  "operation_end t =
     bind_s (catch_s (bind_s (read_s (\<lambda>w. t_state (tasks w t))) (end_of_operation t))
               (\<lambda>e. bind_s (apply_s (task_set_error t (code_of e))) (\<lambda>_. ret False)))
       (\<lambda>r. bind_s (apply_s (close_operation t)) (\<lambda>_. ret r))"

text \<open>Start the operation of the state, or end it and go to the next state.\<close>

definition start_branch :: "nat \<Rightarrow> ('o engine, verdict) operation" where
  "start_branch t = bind_s (start_operation t) (\<lambda>_. ret (verdict_of True False True))"

definition operation_branch :: "nat \<Rightarrow> task_state \<Rightarrow> ('o engine, verdict) operation" where
  "operation_branch t next =
     if_s (\<lambda>w. \<not> t_operation (tasks w t)) (start_branch t)
       (bind_s (operation_end t) (\<lambda>_. then_verdict [set_state_direct t next] (verdict_of True True True)))"

section \<open>Timeouts\<close>

definition check_timeout :: "nat \<Rightarrow> time \<Rightarrow> 'o engine \<Rightarrow> bool \<times> 'o engine" where
  "check_timeout t now w =
     (let x = tasks w t in
      if \<not> is_eternal (t_timeout x) \<and> time_plus (t_last_operation_time x) (t_timeout x) \<le> now \<and> \<not> t_kill_tried x
      then try_kill t w else (False, w))"

definition check_if_longer_than :: "nat \<Rightarrow> time \<Rightarrow> 'o engine \<Rightarrow> bool \<times> 'o engine" where
  "check_if_longer_than t now w =
     (let x = tasks w t in
      if \<not> is_eternal (t_warn_if_longer_than x) \<and> t_warn_if_longer_than x < time_diff now (t_last_operation_time x)
         \<and> t_last_warn_if_longer x \<noteq> t_last_operation_time x
      then (True, set_task t (\<lambda>x. x\<lparr>t_last_warn_if_longer := t_last_operation_time x\<rparr>) w)
      else (False, w))"

definition wake_when_longer_than :: "nat \<Rightarrow> 'o engine \<Rightarrow> 'o engine" where
  "wake_when_longer_than t w =
     (if \<not> is_eternal (t_warn_if_longer_than (tasks w t)) \<and> is_never (t_calls (tasks w t) Warn_longer_than_call)
      then call_task t Warn_longer_than_call (time_plus (clock w) (t_warn_if_longer_than (tasks w t))) w else w)"

definition call_task_timeout :: "nat \<Rightarrow> 'o engine \<Rightarrow> 'o engine" where
  "call_task_timeout t w =
     (if \<not> is_eternal (t_timeout (tasks w t))
      then call_task t Task_timeout_call (time_plus (t_last_operation_time (tasks w t)) (t_timeout (tasks w t))) w else w)"

section \<open>Loading, and getting a process\<close>

definition read_remote_scheduler_parameter :: "nat \<Rightarrow> ('o engine, bool) operation" where
  "read_remote_scheduler_parameter t =
     bind_s (read_s (\<lambda>w. case t_order (tasks w t) of None \<Rightarrow> False | Some i \<Rightarrow> says (Order_remote_scheduler i) w)) (\<lambda>remote.
       if remote then
         bind_s (try_s (\<lambda>w. if says In_cluster w then Inl (Xc ''SCHEDULER-483'') else Inr ())) (\<lambda>_.
           read_s (\<lambda>w. j_kind (job_of w t) = Kind_process))
       else ret False)"

definition create_module_instance :: "nat \<Rightarrow> ('o engine, bool) operation" where
  "create_module_instance t =
     bind_s (try_s (\<lambda>w. if j_state (job_of w t) = Js_error then Inl (Xc ''SCHEDULER-204'') else Inr ())) (\<lambda>_.
       ask (Create_instance t))"

definition load_instance :: "nat \<Rightarrow> ('o engine, bool) operation" where
  "load_instance t =
     bind_s (apply_s (set_task t (\<lambda>x. x\<lparr>t_instance := True\<rparr>))) (\<lambda>_.
       if_s (\<lambda>w. says (Instance_loaded t) w) (ret True) (ask (Module_load t)))"

definition do_load :: "nat \<Rightarrow> ('o engine, bool) operation" where
  "do_load t =
     bind_s (read_remote_scheduler_parameter t) (\<lambda>remote.
     bind_s (apply_s (set_task t (\<lambda>x. x\<lparr>t_has_remote_scheduler := remote\<rparr>))) (\<lambda>_.
     bind_s (when_s (\<lambda>w. t_process_class (tasks w t) = None)
               (bind_s (bind_s (read_s (\<lambda>w. t_job (tasks w t))) default_process_class) (\<lambda>c.
                  apply_s (set_task t (\<lambda>x. x\<lparr>t_process_class := Some c\<rparr>))))) (\<lambda>_.
     bind_s (create_module_instance t) (\<lambda>created. if created then load_instance t else ret False))))"

definition task_load :: "nat \<Rightarrow> ('o engine, bool) operation" where
  "task_load t =
     bind_s
       (apply_s (\<lambda>w. let j = t_job (tasks w t);
            w = set_job j (\<lambda>x. x\<lparr>j_tasks_count := j_tasks_count x + 1\<rparr>) w;
            w = set_task t (\<lambda>x. x\<lparr>t_last_operation_time := clock w, t_timeout := j_task_timeout (jobs w j)\<rparr>) w
          in if \<not> t_let_run (tasks w t) then call_task t End_with_period_call (p_end (j_period (jobs w j))) w else w))
       (\<lambda>_. do_load t)"

text \<open>
  \<^verbatim>\<open>Module_instance::try_to_get_process\<close>: the process of the class is only counted; a remote one has to be started
  first. \<^verbatim>\<open>Task_subsystem::try_to_free_process\<close> asks the jobs at the beginning of the job chains last.
\<close>

definition try_to_get_process :: "nat \<Rightarrow> ('o engine, bool) operation" where
  "try_to_get_process t =
     bind_s (when_s (\<lambda>w. t_process (tasks w t) = None)
               (bind_s (process_class_of t) (\<lambda>c.
                bind_s (read_s (\<lambda>w. \<lparr>conf_is_shell_dummy = \<not> says (Instance_is_remote t) w, conf_remote_scheduler_address = []\<rparr>)) (\<lambda>conf.
                bind_s (class_select_process c conf) (\<lambda>p. apply_s (set_task t (\<lambda>x. x\<lparr>t_process := p\<rparr>))))))) (\<lambda>_.
       if_s (\<lambda>w. says (Instance_is_remote t) w \<and> t_process (tasks w t) \<noteq> None)
         (ask (Remote_process_started t)) (read_s (\<lambda>w. t_process (tasks w t) \<noteq> None)))"

definition try_to_end_task :: "nat \<Rightarrow> nat \<Rightarrow> 'o engine \<Rightarrow> bool \<times> 'o engine" where
  "try_to_end_task j c w =
     (case List.find (\<lambda>t. is_idle (tasks w t) \<and> t_process_class (tasks w t) = Some c) (j_running (jobs w j)) of
        None \<Rightarrow> (False, w)
      | Some t \<Rightarrow> (True, cmd_nice_end t w))"

fun free_process_of :: "nat list \<Rightarrow> nat \<Rightarrow> 'o engine \<Rightarrow> 'o engine" where
  "free_process_of [] c w = w"
| "free_process_of (j # js) c w = (case try_to_end_task j c w of (True, w) \<Rightarrow> w | (False, w) \<Rightarrow> free_process_of js c w)"

definition try_to_free_process :: "nat \<Rightarrow> 'o engine \<Rightarrow> 'o engine" where
  "try_to_free_process c w = free_process_of (rev (job_priorities w)) c w"

definition leave_requestors :: "nat \<Rightarrow> ('o engine, unit) operation" where
  "leave_requestors t = bind_s (process_class_of t) (\<lambda>c. apply_s (class_remove_requestor c (Task_requestor t)))"

definition enter_requestors :: "nat \<Rightarrow> ('o engine, unit) operation" where
  "enter_requestors t =
     bind_s (process_class_of t) (\<lambda>c.
       apply_s (\<lambda>w. try_to_free_process c (class_enqueue_requestor c (Task_requestor t) w)))"

definition waiting_branch :: "nat \<Rightarrow> ('o engine, verdict) operation" where
  "waiting_branch t =
     bind_s (try_s (\<lambda>w. if t_instance (tasks w t) then Inr () else Inl (Xc ''s_waiting_for_process''))) (\<lambda>_.
     bind_s (try_to_get_process t) (\<lambda>ok.
     bind_s
       (if ok then steps [leave_requestors t, set_state_direct t Ts_starting]
        else when_s (\<lambda>w. t_state (tasks w t) \<noteq> Ts_waiting_for_process)
               (steps [when_s (\<lambda>w. t_process (tasks w t) = None) (enter_requestors t),
                       set_state_direct t Ts_waiting_for_process])) (\<lambda>_.
     bind_s (when_s (\<lambda>w. t_process (tasks w t) \<noteq> None) (leave_requestors t)) (\<lambda>_.
       ret (verdict_of True False ok)))))"

definition loading_branch :: "nat \<Rightarrow> ('o engine, verdict) operation" where
  "loading_branch t =
     bind_s (task_load t) (\<lambda>ok.
       if ok then bind_s (waiting_branch t) (\<lambda>v. ret (v\<lparr>v_something := True\<rparr>))
       else then_verdict [set_state_direct t Ts_release] (verdict_of True True True))"

section \<open>Starting and opening\<close>

definition state_after_start :: "nat \<Rightarrow> bool \<Rightarrow> 'o engine \<Rightarrow> task_state" where
  "state_after_start t ok w =
     (if \<not> ok then Ts_ending
      else if j_kind (job_of w t) = Kind_process then
        if says (Instance_is_remote t) w then Ts_running_remote_process else Ts_running_process
      else Ts_opening)"

definition starting_branch :: "nat \<Rightarrow> time \<Rightarrow> ('o engine, verdict) operation" where
  "starting_branch t now =
     bind_s (apply_s (set_task t (\<lambda>x. x\<lparr>t_begin_called := True\<rparr>))) (\<lambda>_.
       if_s (\<lambda>w. \<not> t_operation (tasks w t)) (start_branch t)
         (bind_s (operation_end t) (\<lambda>ok.
          bind_s (bind_s (read_s (state_after_start t ok)) (set_state_direct t)) (\<lambda>_.
          bind_s (when_s (\<lambda>w. t_state (tasks w t) = Ts_running_process)
                   (apply_s (\<lambda>w. call_task_timeout t (wake_when_longer_than t
                      (set_task t (\<lambda>x. x\<lparr>t_last_operation_time := now\<rparr>) w))))) (\<lambda>_.
            ret (verdict_of ok True True))))))"

definition take_locks :: "nat \<Rightarrow> lock_level \<Rightarrow> 'o engine \<Rightarrow> 'o engine" where
  "take_locks t level w =
     (if t_requestors (tasks w t) level then tell (Task_dequeue t level) (tell (Task_hold t level) w) else w)"

definition opening_branch :: "nat \<Rightarrow> ('o engine, verdict) operation" where
  "opening_branch t =
     if_s (\<lambda>w. \<not> t_operation (tasks w t))
       (bind_s (apply_s (take_locks t Lock_level_task_api)) (\<lambda>_. start_branch t))
       (bind_s (operation_end t) (\<lambda>ok.
          if_s (\<lambda>w. t_delay_until_locks (tasks w t))
            (then_verdict
              [apply_s (\<lambda>w. tell (Task_enqueue t Lock_level_task_api) (set_task t (\<lambda>x. x\<lparr>t_delay_until_locks := False\<rparr>) w)),
               set_state_direct t Ts_opening_waiting_for_locks] (verdict_of True True True))
            (then_verdict [set_state_direct t (if ok then Ts_running else Ts_ending)] (verdict_of True True True))))"

section \<open>Running\<close>

text \<open>
  \<^verbatim>\<open>has_step_count\<close> is a virtual function of tasks: no class of the program overrides it, so every step is counted.
\<close>

definition has_step_count :: "nat \<Rightarrow> bool" where
  "has_step_count t = True"

definition task_count_step :: "nat \<Rightarrow> 'o engine \<Rightarrow> 'o engine" where
  "task_count_step t w =
     (if has_step_count t \<or> t_step_count (tasks w t) = 0 then
        set_task t (\<lambda>x. x\<lparr>t_step_count := t_step_count x + 1\<rparr>)
          (set_job (t_job (tasks w t)) (\<lambda>x. x\<lparr>j_step_count := j_step_count x + 1\<rparr>) w)
      else w)"

definition running_process_branch :: "nat \<Rightarrow> time \<Rightarrow> ('o engine, verdict) operation" where
  "running_process_branch t now =
     bind_s (ask (Process_has_signaled t)) (\<lambda>ended.
       if ended then
         then_verdict
           [apply_s (\<lambda>w. task_count_step t (call_task t Warn_longer_than_call never w)),
            set_state_direct t Ts_ending,
            apply_s (set_task t (\<lambda>x. x\<lparr>t_running_state_reached := True\<rparr>))] (verdict_of True True False)
       else then_verdict [apply_s (\<lambda>w. snd (check_timeout t now w))] (verdict_of True False False))"

definition remote_process_step_end :: "nat \<Rightarrow> ('o engine, unit) operation" where
  "remote_process_step_end t =
     steps
       [catch_s
          (bind_s (if_s (\<lambda>w. t_instance (tasks w t)) (ask (Step_result t)) (throw (Xc ''SCHEDULER-199''))) (\<lambda>_.
             steps
               [apply_s (\<lambda>w. set_task t (\<lambda>x. x\<lparr>t_exit_code :=
                   (let c = answer_code (rules w) (Step_result t) (outer w) in if c \<noteq> 0 then c else t_exit_code x)\<rparr>) w),
                when_s (\<lambda>w. t_order (tasks w t) \<noteq> None)
                  (steps
                    [apply_s (\<lambda>w. set_task t (\<lambda>x. x\<lparr>t_order_transition := transition_rule (rules w) t (outer w)\<rparr>) w),
                     when_s (\<lambda>w. j_kind (job_of w t) \<noteq> Kind_process)
                       (bind_s (read_s (\<lambda>w. t_order_transition (tasks w t))) (postprocess_order t))]),
                apply_s (task_count_step t)]))
          (\<lambda>e. steps
             [apply_s (task_set_error t (code_of e)),
              when_s (\<lambda>w. t_order (tasks w t) \<noteq> None)
                (steps
                  [apply_s (\<lambda>w. set_task t (\<lambda>x. x\<lparr>t_order_transition :=
                      (if j_stop_on_error (job_of w t) then keep else standard_error)\<rparr>) w),
                   when_s (\<lambda>w. j_kind (job_of w t) \<noteq> Kind_process)
                     (bind_s (read_s (error_order_state_transition t)) (detach_order_after_error t))])]),
        apply_s (close_operation t)]"

definition running_remote_process_branch :: "nat \<Rightarrow> ('o engine, verdict) operation" where
  "running_remote_process_branch t =
     if_s (\<lambda>w. \<not> t_operation (tasks w t))
       (then_verdict [start_operation t, apply_s (wake_when_longer_than t)] (verdict_of True False False))
       (then_verdict
         [apply_s (call_task t Warn_longer_than_call never), remote_process_step_end t, set_state_direct t Ts_release]
         (verdict_of True True False))"

text \<open>
  \<^verbatim>\<open>Task::step__end\<close>. A script without the method \<^verbatim>\<open>spooler_process\<close> makes one step and counts as successful.
\<close>

definition step_end_result :: "nat \<Rightarrow> ('o engine, bool) operation" where
  "step_end_result t =
     bind_s (if_s (\<lambda>w. t_instance (tasks w t)) (ask (Step_result t)) (throw (Xc ''SCHEDULER-199''))) (\<lambda>answer.
     bind_s (read_s (\<lambda>w. says (Step_method_unknown t) w)) (\<lambda>unknown.
     bind_s (apply_s (task_count_step t)) (\<lambda>_.
     bind_s (when_s (\<lambda>w. t_order (tasks w t) \<noteq> None)
               (bind_s (read_s (\<lambda>w. if t_delay_until_locks (tasks w t) then keep else of_bool (unknown \<or> answer)))
                  (postprocess_order t))) (\<lambda>_.
       read_s (\<lambda>w. \<not> unknown \<and> answer \<or> j_order_controlled (job_of w t)
                   \<or> \<not> is_zero (t_next_spooler_process (tasks w t)))))))"

definition step_end :: "nat \<Rightarrow> ('o engine, bool) operation" where
  "step_end t =
     catch_s (step_end_result t)
       (\<lambda>e. bind_s (apply_s (task_set_error t (code_of e))) (\<lambda>_.
            bind_s (bind_s (read_s (error_order_state_transition t)) (detach_order_after_error t)) (\<lambda>_. ret False)))"

text \<open>The locks of the step; a step that could not get them is repeated when they are available.\<close>

definition locks_after_step :: "nat \<Rightarrow> bool \<Rightarrow> ('o engine, bool) operation" where
  "locks_after_step t ok =
     if_s (\<lambda>w. t_requestors (tasks w t) Lock_level_process_api)
       (bind_s (apply_s (tell (Task_release t Lock_level_process_api))) (\<lambda>_.
          if_s (\<lambda>w. t_delay_until_locks (tasks w t))
            (bind_s (steps
               [apply_s (set_task t (\<lambda>x. x\<lparr>t_delay_until_locks := False\<rparr>)),
                set_state_direct t Ts_running_waiting_for_locks,
                apply_s (tell (Task_enqueue t Lock_level_process_api))]) (\<lambda>_. ret True))
            (bind_s (apply_s (set_task t (\<lambda>x. x\<lparr>t_requestors := (t_requestors x)(Lock_level_process_api := False)\<rparr>)))
               (\<lambda>_. ret ok))))
       (ret ok)"

definition after_step :: "nat \<Rightarrow> ('o engine, verdict) operation" where
  "after_step t =
     bind_s (apply_s (call_task t Warn_longer_than_call never)) (\<lambda>_.
     bind_s (step_end t) (\<lambda>ok.
     bind_s (apply_s (close_operation t)) (\<lambda>_.
     bind_s (locks_after_step t ok) (\<lambda>ok.
     bind_s (assert_s ''do_something'' (\<lambda>w. \<not> t_delay_until_locks (tasks w t))) (\<lambda>_.
     bind_s (read_s (\<lambda>w. \<not> ok \<or> has_error t w)) (\<lambda>failed.
     bind_s (when_s (\<lambda>_. failed) (set_state_direct t Ts_ending)) (\<lambda>_.
       then_verdict [apply_s (call_task t Try_next_step_call (Time 0))] (verdict_of ok failed True))))))))"

definition next_step :: "nat \<Rightarrow> time \<Rightarrow> ('o engine, verdict) operation" where
  "next_step t now =
     then_verdict
       [apply_s (set_task t (\<lambda>x. x\<lparr>t_running_state_reached := True\<rparr>)),
        apply_s (take_locks t Lock_level_process_api),
        start_operation t,
        apply_s (wake_when_longer_than t)] (verdict_of True False True)"

definition wait_for_order :: "nat \<Rightarrow> time \<Rightarrow> ('o engine, verdict) operation" where
  "wait_for_order t now =
     then_verdict
       [apply_s (\<lambda>w. set_task t (\<lambda>x. x\<lparr>t_idle_timeout_at := time_plus now (j_idle_timeout (job_of w t))\<rparr>) w),
        set_state_direct t Ts_running_waiting_for_order] (verdict_of True False False)"

definition running_branch :: "nat \<Rightarrow> time \<Rightarrow> ('o engine, verdict) operation" where
  "running_branch t now =
     if_s (\<lambda>w. t_operation (tasks w t)) (after_step t)
       (if_s (\<lambda>w. \<not> is_zero (t_next_spooler_process (tasks w t)))
          (then_verdict [set_state_direct t Ts_running_delayed] (verdict_of True False True))
          (if_s (\<lambda>w. j_order_controlled (job_of w t))
             (bind_s (task_fetch_and_occupy_order t now) (\<lambda>order.
                if order = None then wait_for_order t now else next_step t now))
             (next_step t now)))"

definition idle_time_is_over :: "nat \<Rightarrow> time \<Rightarrow> ('o engine, verdict) operation" where
  "idle_time_is_over t now =
     if_s (\<lambda>w. j_force_idle_timeout (job_of w t) \<or> above_min_tasks (t_job (tasks w t)) w)
       (then_verdict [apply_s (set_task t (\<lambda>x. x\<lparr>t_end := End_normal\<rparr>))] (verdict_of True True False))
       (bind_s (wait_for_order t now) (\<lambda>v. ret (v\<lparr>v_something := True\<rparr>)))"

definition waiting_for_order_branch :: "nat \<Rightarrow> time \<Rightarrow> ('o engine, verdict) operation" where
  "waiting_for_order_branch t now =
     if_s (\<lambda>w. \<not> is_zero (t_next_spooler_process (tasks w t)))
       (then_verdict [set_state_direct t Ts_running_delayed] (verdict_of True False True))
       (bind_s (task_fetch_and_occupy_order t now) (\<lambda>order.
          if order \<noteq> None then then_verdict [set_state_direct t Ts_running] (verdict_of True True False)
          else if_s (\<lambda>w. t_idle_timeout_at (tasks w t) \<le> now) (idle_time_is_over t now)
            (then_verdict [apply_s (set_task t (\<lambda>x. x\<lparr>t_running_state_reached := True\<rparr>))] (verdict_of True False False))))"

definition running_delayed_branch :: "nat \<Rightarrow> time \<Rightarrow> ('o engine, verdict) operation" where
  "running_delayed_branch t now =
     bind_s (read_s (\<lambda>w. t_next_spooler_process (tasks w t) \<le> now)) (\<lambda>over.
       then_verdict
         [when_s (\<lambda>_. over)
            (steps [apply_s (set_task t (\<lambda>x. x\<lparr>t_next_spooler_process := Time 0\<rparr>)), set_state_direct t Ts_running]),
          apply_s (set_task t (\<lambda>x. x\<lparr>t_running_state_reached := True\<rparr>))] (verdict_of True over False))"

section \<open>Ending\<close>

definition ending_branch :: "nat \<Rightarrow> ('o engine, verdict) operation" where
  "ending_branch t =
     if_s (\<lambda>w. \<not> t_operation (tasks w t))
       (if_s (\<lambda>w. t_begin_called (tasks w t)) (start_branch t)
          (then_verdict [set_state_direct t Ts_exit] (verdict_of True True True)))
       (bind_s (operation_end t) (\<lambda>_.
        bind_s (read_s (loaded t)) (\<lambda>l.
          then_verdict [set_state_direct t (if l then Ts_ending_waiting_for_subprocesses else Ts_release)]
            (verdict_of True True True))))"

definition waiting_for_subprocesses :: "nat \<Rightarrow> ('o engine, unit) operation" where
  "waiting_for_subprocesses t =
     if_s (\<lambda>w. \<not> t_operation (tasks w t))
       (when_s (shall_wait_for_registered_pid t)
          (if_s (says (Instance_is_remote t)) (start_operation t)
             (catch_s (bind_s (ask (Wait_for_subprocesses t)) (\<lambda>_. ret ()))
                (\<lambda>e. apply_s (task_set_error t (code_of e))))))
       (bind_s (operation_end t) (\<lambda>_. ret ()))"

definition waiting_for_subprocesses_branch :: "nat \<Rightarrow> ('o engine, verdict) operation" where
  "waiting_for_subprocesses_branch t =
     bind_s (waiting_for_subprocesses t) (\<lambda>_.
     bind_s (read_s (\<lambda>w. \<not> t_operation (tasks w t))) (\<lambda>over.
       then_verdict
         [when_s (\<lambda>_. over)
            (bind_s (read_s (\<lambda>w. if has_error t w then Ts_on_error else Ts_on_success)) (set_state_direct t))]
         (verdict_of True over True)))"

definition killing_branch :: "nat \<Rightarrow> ('o engine, verdict) operation" where
  "killing_branch t =
     bind_s (bind_s (read_s (\<lambda>w. t_instance (tasks w t))) (\<lambda>i. if i then ask (Kill_thread_running t) else ret False)) (\<lambda>runs.
       if runs then
         then_verdict [apply_s (\<lambda>w. call_task t Killing_task_call (time_plus (clock w) (Duration (1/10))) w)]
           (verdict_of True False False)
       else then_verdict [set_state_direct t Ts_ended] (verdict_of True True False))"

text \<open>What a process leaves behind for its order.\<close>

definition order_after_process :: "nat \<Rightarrow> ('o engine, unit) operation" where
  "order_after_process t =
     when_s (\<lambda>w. t_instance (tasks w t) \<and> j_kind (job_of w t) = Kind_process)
       (if_s (\<lambda>w. \<not> says (Instance_is_remote t) w)
          (bind_s (ask (Fetch_parameters t)) (\<lambda>_.
             when_s (\<lambda>w. t_order (tasks w t) \<noteq> None \<and> \<not> has_error t w)
               (bind_s (read_s (\<lambda>w. transition_rule (rules w) t (outer w))) (postprocess_order t))))
          (when_s (\<lambda>w. t_order_transition (tasks w t) \<noteq> keep
               \<and> \<not> (says (Monitors_empty (t_job (tasks w t))) w \<and> has_error t w \<and> j_stop_on_error (job_of w t)))
             (bind_s (read_s (\<lambda>w. t_order_transition (tasks w t))) (postprocess_order t))))"

definition ended_branch :: "nat \<Rightarrow> ('o engine, verdict) operation" where
  "ended_branch t =
     if_s (\<lambda>w. \<not> t_operation (tasks w t)) (start_branch t)
       (bind_s (operation_end t) (\<lambda>_.
          then_verdict [order_after_process t, set_state_direct t Ts_deleting_files] (verdict_of True True True)))"

definition delete_temporary_files_delay :: duration where
  "delete_temporary_files_delay = Duration 2"

definition delete_temporary_files_retry :: duration where
  "delete_temporary_files_retry = Duration (1/10)"

text \<open>The result tells whether the task is through with the files, and whether something was done.\<close>

definition try_deleting_files :: "nat \<Rightarrow> ('o engine, bool \<times> bool) operation" where
  "try_deleting_files t =
     if_s (\<lambda>w. \<not> t_instance (tasks w t)) (ret (True, False))
       (if_s (\<lambda>w. is_zero (t_deleting_files_until (tasks w t)) \<or> t_calls (tasks w t) Try_deleting_files_call \<le> clock w)
          (bind_s (ask (Try_delete_files t)) (\<lambda>ok.
             if ok then ret (True, True)
             else if_s (\<lambda>w. \<not> is_zero (t_deleting_files_until (tasks w t)) \<and> t_deleting_files_until (tasks w t) \<le> clock w)
                    (ret (True, True))
                    (bind_s (apply_s (\<lambda>w. set_task t (\<lambda>x. x\<lparr>t_deleting_files_until :=
                         (if is_zero (t_deleting_files_until x) then time_plus (clock w) delete_temporary_files_delay
                          else t_deleting_files_until x)\<rparr>) w)) (\<lambda>_. ret (False, True)))))
          (ret (False, False)))"

definition detach_process :: "nat \<Rightarrow> ('o engine, unit) operation" where
  "detach_process t =
     bind_s (read_s (\<lambda>w. t_process (tasks w t))) (\<lambda>p. case p of
         None \<Rightarrow> ret ()
       | Some p \<Rightarrow> bind_s (process_class_of t) (\<lambda>c.
           steps [class_remove_process c p, apply_s (set_task t (\<lambda>x. x\<lparr>t_process := None\<rparr>))]))"

definition deleting_files_branch :: "nat \<Rightarrow> time \<Rightarrow> ('o engine, verdict) operation" where
  "deleting_files_branch t now =
     bind_s (try_deleting_files t) (\<lambda>(ok, something).
       if ok then
         bind_s (read_s (error_order_state_transition t)) (\<lambda>transition.
           then_verdict
             [when_s (\<lambda>w. t_instance (tasks w t)) (detach_process t),
              apply_s (set_task t (\<lambda>x. x\<lparr>t_instance := False\<rparr>)),
              task_finish t transition,
              set_state_direct t Ts_closed] (verdict_of True True True))
       else
         then_verdict
           [apply_s (\<lambda>w. call_task t Try_deleting_files_call
              (min (time_plus now delete_temporary_files_retry) (t_deleting_files_until (tasks w t))) w)]
           (verdict_of True False something))"

end
