(* ===== verification/Task_Life.thy ===== *)
theory Task_Life
  imports Task_Steps
begin

text \<open>
  \<^verbatim>\<open>Task::do_something\<close>: the loop over the states of a task, with its exception handler. The loop is bounded by fuel;
  the theory \<open>Task_Termination\<close> shows that the fuel given here is never used up.
\<close>

section \<open>Before and after the switch\<close>

definition check_connection :: "nat \<Rightarrow> ('o engine, unit) operation" where
  "check_connection t =
     when_s (\<lambda>w. t_instance (tasks w t) \<and> \<not> t_async_error (tasks w t))
       (catch_s (bind_s (ask (Connection_ok t)) (\<lambda>_. ret ()))
          (\<lambda>_. steps
             [apply_s (set_task t (\<lambda>x. x\<lparr>t_async_error := True\<rparr>)),
              apply_s (task_set_error t ''SCHEDULER-202''),
              when_s (\<lambda>w. t_state (tasks w t) < Ts_killing) (set_state_direct t Ts_killing)]))"

text \<open>A task that is to end, but has not yet worked on its order, makes its one step before.\<close>

definition makes_its_step_first :: "task \<Rightarrow> bool" where
  "makes_its_step_first x =
     (t_end x = End_nice \<and> t_state x \<le> Ts_running \<and> t_order x \<noteq> None \<and> t_step_count x = 0)"

definition state_at_end :: "nat \<Rightarrow> 'o engine \<Rightarrow> task_state" where
  "state_at_end t w =
     (if \<not> loaded t w then Ts_ended else if \<not> t_begin_called (tasks w t) then Ts_release else Ts_ending)"

definition end_if_told :: "nat \<Rightarrow> ('o engine, unit) operation" where
  "end_if_told t =
     when_s (\<lambda>w. t_state (tasks w t) < Ts_ending \<and> t_end (tasks w t) \<noteq> End_none \<and> \<not> makes_its_step_first (tasks w t))
       (bind_s (read_s (state_at_end t)) (set_state_direct t))"

definition before_switch :: "nat \<Rightarrow> ('o engine, unit) operation" where
  "before_switch t =
     when_s (\<lambda>w. \<not> t_operation (tasks w t) \<and> t_state (tasks w t) \<noteq> Ts_running_process)
       (steps [check_connection t, end_if_told t])"

definition nothing_to_do :: "('o engine, verdict) operation" where
  "nothing_to_do = ret (verdict_of True False False)"

definition task_switch :: "nat \<Rightarrow> time \<Rightarrow> task_state \<Rightarrow> ('o engine, verdict) operation" where
  "task_switch t now s =
     (case s of
        Ts_none \<Rightarrow> throw (Assertion ''state=none?'')
      | Ts_loading \<Rightarrow> loading_branch t
      | Ts_waiting_for_process \<Rightarrow> waiting_branch t
      | Ts_starting \<Rightarrow> starting_branch t now
      | Ts_opening \<Rightarrow> opening_branch t
      | Ts_opening_waiting_for_locks \<Rightarrow> nothing_to_do
      | Ts_running \<Rightarrow> running_branch t now
      | Ts_running_delayed \<Rightarrow> running_delayed_branch t now
      | Ts_running_waiting_for_locks \<Rightarrow> nothing_to_do
      | Ts_running_waiting_for_order \<Rightarrow> waiting_for_order_branch t now
      | Ts_running_process \<Rightarrow> running_process_branch t now
      | Ts_running_remote_process \<Rightarrow> running_remote_process_branch t
      | Ts_suspended \<Rightarrow> nothing_to_do
      | Ts_ending \<Rightarrow> ending_branch t
      | Ts_ending_waiting_for_subprocesses \<Rightarrow> waiting_for_subprocesses_branch t
      | Ts_on_success \<Rightarrow> operation_branch t Ts_exit
      | Ts_on_error \<Rightarrow> operation_branch t Ts_exit
      | Ts_exit \<Rightarrow> operation_branch t Ts_release
      | Ts_release \<Rightarrow> operation_branch t Ts_killing
      | Ts_killing \<Rightarrow> killing_branch t
      | Ts_ended \<Rightarrow> ended_branch t
      | Ts_deleting_files \<Rightarrow> deleting_files_branch t now
      | Ts_closed \<Rightarrow> nothing_to_do)"

definition must_end :: "nat \<Rightarrow> bool \<Rightarrow> 'o engine \<Rightarrow> bool" where
  "must_end t ok w =
     ((\<not> ok \<or> has_error t w \<or> t_killed (tasks w t)) \<and> t_state (tasks w t) < Ts_ending
      \<and> t_state (tasks w t) \<noteq> Ts_running_process)"

definition apply_enqueued_state :: "nat \<Rightarrow> verdict \<Rightarrow> ('o engine, verdict) operation" where
  "apply_enqueued_state t v =
     if_s (\<lambda>w. t_state (tasks w t) \<noteq> Ts_running_process)
       (bind_s (set_enqueued_state t) (\<lambda>_.
          if_s (must_end t (v_ok v))
            (then_verdict [set_state_direct t Ts_ending] (v\<lparr>v_loop := True\<rparr>)) (ret v)))
       (ret v)"

definition after_switch :: "nat \<Rightarrow> verdict \<Rightarrow> ('o engine, verdict) operation" where
  "after_switch t v =
     if_s (\<lambda>w. t_operation (tasks w t))
       (bind_s (operation_finished t) (\<lambda>f. ret (v\<lparr>v_loop := v_loop v \<or> f\<rparr>)))
       (apply_enqueued_state t v)"

definition task_iteration :: "nat \<Rightarrow> time \<Rightarrow> ('o engine, verdict) operation" where
  "task_iteration t now =
     bind_s (before_switch t) (\<lambda>_.
     bind_s (bind_s (read_s (\<lambda>w. t_state (tasks w t))) (task_switch t now)) (after_switch t))"

section \<open>The exception handler\<close>

definition log_errors :: "('o engine, unit) operation \<Rightarrow> ('o engine, unit) operation" where
  "log_errors m = catch_s m (\<lambda>_. ret ())"

definition finish_after_error :: "nat \<Rightarrow> ('o engine, unit) operation" where
  "finish_after_error t =
     steps
       [log_errors (bind_s (read_s (error_order_state_transition t)) (task_finish t)),
        apply_s (\<lambda>w. stop_after_task_error (t_job (tasks w t)) w),
        set_state_direct t Ts_closed]"

text \<open>The result tells whether the loop goes on. \<open>n\<close> is \<^verbatim>\<open>error_count\<close>.\<close>

definition task_exception :: "nat \<Rightarrow> nat \<Rightarrow> xc \<Rightarrow> ('o engine, bool) operation" where
  "task_exception t n e =
     bind_s (steps
       [when_s (\<lambda>_. n = 0) (apply_s (task_set_error t (code_of e))),
        log_errors (bind_s (read_s (error_order_state_transition t)) (detach_order_after_error t))]) (\<lambda>_.
       if_s (\<lambda>w. n = 0 \<and> t_state (tasks w t) < Ts_ending)
         (bind_s (apply_s (set_task t (\<lambda>x. x\<lparr>t_end := End_normal\<rparr>))) (\<lambda>_. ret True))
         (if n \<le> 1 then bind_s (finish_after_error t) (\<lambda>_. ret False) else throw e))"

section \<open>The loop\<close>

text \<open>\<open>None\<close> when the fuel is used up. The result of the operation is \<^verbatim>\<open>something_done\<close>.\<close>

fun task_loop :: "nat \<Rightarrow> nat \<Rightarrow> bool \<Rightarrow> nat \<Rightarrow> time \<Rightarrow> 'o engine \<Rightarrow> (bool result \<times> 'o engine) option" where
  "task_loop 0 n something t now w = None"
| "task_loop (Suc fuel) n something t now w =
     (case task_iteration t now w of
        (Inr v, w') \<Rightarrow>
          if v_loop v then task_loop fuel n (something \<or> v_something v) t now w'
          else Some (Inr (something \<or> v_something v), w')
      | (Inl e, w') \<Rightarrow>
          (case task_exception t n e w' of
             (Inl e', w'') \<Rightarrow> Some (Inl e', w'')
           | (Inr True, w'') \<Rightarrow> task_loop fuel (Suc n) True t now w''
           | (Inr False, w'') \<Rightarrow> Some (Inr True, w'')))"

definition loop_fuel :: nat where
  "loop_fuel = 600"

definition run_loop :: "nat \<Rightarrow> time \<Rightarrow> bool \<Rightarrow> ('o engine, bool) operation" where
  "run_loop t now something w =
     (case task_loop loop_fuel 0 something t now w of None \<Rightarrow> (Inl (Assertion ''loop''), w) | Some r \<Rightarrow> r)"

section \<open>Task::do_something\<close>

text \<open>The run time of a task ends with the period of its job, if it may not run on.\<close>

definition end_with_period :: "nat \<Rightarrow> time \<Rightarrow> ('o engine, unit) operation" where
  "end_with_period t now =
     when_s (\<lambda>w. t_end (tasks w t) = End_none
         \<and> (t_state (tasks w t) = Ts_running \<or> t_state (tasks w t) = Ts_running_delayed
            \<or> t_state (tasks w t) = Ts_running_waiting_for_order)
         \<and> \<not> t_let_run (tasks w t) \<and> \<not> is_in_time (j_period (job_of w t)) now)
       (bind_s (read_s (\<lambda>w. t_job (tasks w t))) (\<lambda>j.
        bind_s (select_period j now) (\<lambda>_.
          when_s (\<lambda>w. \<not> is_in_period j now w) (apply_s (cmd_end t End_normal (Duration 0))))))"

definition lift_check :: "('o engine \<Rightarrow> bool \<times> 'o engine) \<Rightarrow> ('o engine, bool) operation" where
  "lift_check f w = (case f w of (b, w') \<Rightarrow> (Inr b, w'))"

lemma keeps_lift_check: "(\<And>w. I w \<Longrightarrow> I (snd (f w))) \<Longrightarrow> keeps I (lift_check f)"
  by (rule keepsI) (simp add: lift_check_def split: prod.splits, metis snd_conv)

definition operation_runs :: "nat \<Rightarrow> ('o engine, bool) operation" where
  "operation_runs t =
     if_s (\<lambda>w. t_operation (tasks w t)) (bind_s (operation_finished t) (\<lambda>f. ret (\<not> f))) (ret False)"

definition do_something_now :: "nat \<Rightarrow> time \<Rightarrow> bool \<Rightarrow> ('o engine, bool) operation" where
  "do_something_now t now something =
     bind_s (read_s (\<lambda>w. t_operation (tasks w t))) (\<lambda>had_operation.
     bind_s (if had_operation then ret False else lift_check (check_if_longer_than t now)) (\<lambda>longer.
     bind_s (if had_operation then ret () else end_with_period t now) (\<lambda>_.
     bind_s (run_loop t now (something \<or> longer)) (\<lambda>something.
     bind_s (steps
       [when_s (\<lambda>w. t_operation (tasks w t) \<and> \<not> had_operation \<and> t_state (tasks w t) \<noteq> Ts_running_process)
          (apply_s (\<lambda>w. call_task_timeout t (set_task t (\<lambda>x. x\<lparr>t_last_operation_time := now\<rparr>) w))),
        when_s (\<lambda>_. \<not> something) (bind_s (read_s (\<lambda>w. t_state (tasks w t))) (set_state_direct t))]) (\<lambda>_.
       ret something)))))"

definition task_do_something :: "nat \<Rightarrow> ('o engine, bool) operation" where
  "task_do_something t =
     bind_s (read_s clock) (\<lambda>now.
     bind_s (lift_check (check_subprocess_timeout t now)) (\<lambda>something.
     bind_s (operation_runs t) (\<lambda>runs.
       if runs then
         bind_s (lift_check (check_timeout t now)) (\<lambda>killed.
         bind_s (lift_check (check_if_longer_than t now)) (\<lambda>longer. ret (something \<or> killed \<or> longer)))
       else do_something_now t now something)))"

section \<open>Calls\<close>

text \<open>
  All calls of a task but one lead to \<^verbatim>\<open>do_something\<close>. A call that is executed is no longer registered.
\<close>

definition task_on_call :: "nat \<Rightarrow> task_call \<Rightarrow> ('o engine, unit) operation" where
  "task_on_call t c =
     bind_s (apply_s (call_task t c never)) (\<lambda>_.
       if c = Kill_timeout_call then
         when_s (\<lambda>w. \<not> t_kill_tried (tasks w t))
           (bind_s (lift_check (try_kill t)) (\<lambda>_. bind_s (task_do_something t) (\<lambda>_. ret ())))
       else bind_s (task_do_something t) (\<lambda>_. ret ()))"

definition task_on_requisite_loaded :: "nat \<Rightarrow> 'o engine \<Rightarrow> 'o engine" where
  "task_on_requisite_loaded t w =
     (if t_state (tasks w t) = Ts_waiting_for_process then call_task t Do_something_call (Time 0) w else w)"

definition task_init :: "nat \<Rightarrow> ('o engine, unit) operation" where
  "task_init t =
     steps [set_state_direct t Ts_loading,
            apply_s (\<lambda>w. w\<lparr>task_set := (if t \<in> set (task_set w) then task_set w else t # task_set w)\<rparr>)]"

end
