(* ===== verification/Job_Start.thy ===== *)
theory Job_Start
  imports Task_Life
begin

text \<open>
  \<^verbatim>\<open>Standard_job\<close> at work: which task starts, and why (\<^verbatim>\<open>task_to_start\<close>), starting tasks, the end of a task, the
  calls of a job and the commands for it.
\<close>

section \<open>Why a task starts\<close>

text \<open>
  \<^verbatim>\<open>task_to_start\<close> keeps the candidate \<open>task\<close>, the \<open>cause\<close> and \<open>has_order\<close> in local variables.
\<close>

record start_plan =
  plan_task :: "nat option"
  plan_cause :: start_cause
  plan_order :: bool

definition wants_start :: "start_plan \<Rightarrow> bool" where
  "wants_start p = (plan_cause p \<noteq> Cause_none \<or> plan_order p)"

definition no_start :: start_plan where
  "no_start = \<lparr>plan_task = None, plan_cause = Cause_none, plan_order = False\<rparr>"

definition cause_of_queue :: "nat \<Rightarrow> time \<Rightarrow> 'o engine \<Rightarrow> start_plan" where
  "cause_of_queue j now w =
     (case get_task_from_queue j now w of
        None \<Rightarrow> no_start
      | Some t \<Rightarrow> \<lparr>plan_task = Some t,
                   plan_cause = (if \<not> is_zero (t_start_at (tasks w t)) then Cause_queue_at else Cause_queue),
                   plan_order = False\<rparr>)"

text \<open>
  The causes of a period, a later one overrides an earlier one. \<^verbatim>\<open>_start_once_for_directory\<close> counts as a change of the
  directory if there are files.
\<close>

definition directory_counts_as_changed :: "nat \<Rightarrow> 'o engine \<Rightarrow> 'o engine" where
  "directory_counts_as_changed j w =
     (if j_start_once_for_directory (jobs w j) then
        set_job j (\<lambda>x. x\<lparr>j_start_once_for_directory := False,
            j_directory_changed := (j_directory_changed x \<or> says (Trigger_files j) w)\<rparr>) w
      else w)"

definition cause_of_period :: "nat \<Rightarrow> time \<Rightarrow> start_cause \<Rightarrow> 'o engine \<Rightarrow> start_cause" where
  "cause_of_period j now cause w =
     (let x = jobs w j in
      if j_start_once x then Cause_period_once
      else if j_next_start_time x \<le> now then
        (if \<not> is_zero (j_delay_until x) \<and> j_delay_until x \<le> now then Cause_delay_after_error else Cause_period_repeat)
      else cause)"

definition pending_cause :: "nat \<Rightarrow> time \<Rightarrow> start_cause \<Rightarrow> ('o engine, start_cause) operation" where
  "pending_cause j now cause =
     if_s (\<lambda>w. j_state (jobs w j) = Js_pending \<and> j_max_tasks (jobs w j) > 0)
       (bind_s (read_s (cause_of_period j now cause)) (\<lambda>cause.
        bind_s (apply_s (directory_counts_as_changed j)) (\<lambda>_.
          read_s (\<lambda>w. if j_directory_changed (jobs w j) then Cause_directory else cause))))
       (ret cause)"

definition wake_cause :: "nat \<Rightarrow> start_cause \<Rightarrow> 'o engine \<Rightarrow> start_cause" where
  "wake_cause j cause w =
     (let x = jobs w j in
      if j_wake_when_in_period x \<and> (j_state x = Js_pending \<or> j_state x = Js_running)
         \<and> int (length (j_running x)) < j_max_tasks x
      then Cause_wake else cause)"

definition cause_in_period :: "nat \<Rightarrow> time \<Rightarrow> start_cause \<Rightarrow> ('o engine, start_cause) operation" where
  "cause_in_period j now cause =
     bind_s (pending_cause j now cause) (\<lambda>cause.
     bind_s (read_s (wake_cause j cause)) (\<lambda>cause.
       if_s (\<lambda>w. j_start_min_tasks (jobs w j))
         (bind_s (assert_s ''task_to_start'' (\<lambda>w. not_ending_tasks_count j w < j_min_tasks (jobs w j))) (\<lambda>_. ret Cause_min_tasks))
         (ret cause)))"

definition plan_start :: "nat \<Rightarrow> time \<Rightarrow> ('o engine, start_plan) operation" where
  "plan_start j now =
     bind_s (read_s (cause_of_queue j now)) (\<lambda>p.
       if_s (\<lambda>w. j_state (jobs w j) = Js_pending \<and> j_max_tasks (jobs w j) > 0 \<and> j_next_single_start (jobs w j) \<le> now)
         (bind_s (ask (Request_order j)) (\<lambda>o1. ret (p\<lparr>plan_cause := Cause_period_single, plan_order := o1\<rparr>)))
         (if_s (is_in_period j now)
           (bind_s (cause_in_period j now (plan_cause p)) (\<lambda>cause.
            bind_s (ask (Request_order j)) (\<lambda>o1. ret (p\<lparr>plan_cause := cause, plan_order := o1\<rparr>))))
           (bind_s (apply_s (tell (Withdraw_order_request j))) (\<lambda>_. ret p))))"

section \<open>Locks and processes for the start\<close>

definition require_locks :: "nat \<Rightarrow> start_plan \<Rightarrow> 'o engine \<Rightarrow> start_plan \<times> 'o engine" where
  "require_locks j p w =
     (if wants_start p \<and> j_has_locks (jobs w j) \<and> \<not> says (Locks_available j) w then
        (no_start, if j_locks_enqueued (jobs w j) then w
                   else set_job j (\<lambda>x. x\<lparr>j_locks_enqueued := True\<rparr>) (tell (Enqueue_lock_requests j) w))
      else (p, w))"

definition enter_process_list :: "nat \<Rightarrow> nat \<Rightarrow> 'o engine \<Rightarrow> 'o engine" where
  "enter_process_list j c w =
     (let w = (if \<not> j_waiting_for_process (jobs w j) then
                 set_job j (\<lambda>x. x\<lparr>j_waiting_for_process := True\<rparr>) (class_enqueue_requestor c (Job_requestor j) w)
               else w)
      in try_to_free_process c (set_job j (\<lambda>x. x\<lparr>j_try_again := False\<rparr>) w))"

definition require_process :: "nat \<Rightarrow> start_plan \<Rightarrow> 'o engine \<Rightarrow> start_plan \<times> 'o engine" where
  "require_process j p w =
     (if wants_start p \<and> \<not> ignore_process_classes w then
        (case default_process_class_or_null j w of
           None \<Rightarrow> (no_start, set_job j (\<lambda>x. x\<lparr>j_waiting_for_process := True\<rparr>) w)
         | Some c \<Rightarrow>
             if process_available (process_count w) j (classes w c)
             then (p, remove_waiting_job_from_process_list j w)
             else (no_start,
                   if plan_cause p \<noteq> Cause_min_tasks \<and> (\<not> j_waiting_for_process (jobs w j) \<or> j_try_again (jobs w j))
                   then enter_process_list j c w else w))
      else (p, w))"

section \<open>The task\<close>

text \<open>
  A new task. If it was to be started for an order only, and there is none, it is forgotten. If there is another
  cause, the code goes on to log the name of the order that is not there: a null pointer.
\<close>

definition new_task_for_order :: "nat \<Rightarrow> time \<Rightarrow> nat \<Rightarrow> start_plan \<Rightarrow> ('o engine, start_plan) operation" where
  "new_task_for_order j now t p =
     bind_s (task_fetch_and_occupy_order t now) (\<lambda>order.
       if order = None \<and> plan_cause p = Cause_none then bind_s (task_close t) (\<lambda>_. ret (p\<lparr>plan_task := None\<rparr>))
       else if order = None then throw (Xc ''null pointer'')
       else ret (p\<lparr>plan_task := Some t, plan_cause := (if plan_cause p = Cause_none then Cause_order else plan_cause p)\<rparr>))"

definition new_task_to_start :: "nat \<Rightarrow> time \<Rightarrow> start_plan \<Rightarrow> ('o engine, start_plan) operation" where
  "new_task_to_start j now p =
     bind_s (create_task j False never) (\<lambda>t.
     bind_s (apply_s (set_task t (\<lambda>x. x\<lparr>t_let_run := t_let_run x \<or> plan_cause p = Cause_period_single\<rparr>))) (\<lambda>_.
       if plan_order p then new_task_for_order j now t p else ret (p\<lparr>plan_task := Some t\<rparr>)))"

definition take_task :: "nat \<Rightarrow> time \<Rightarrow> start_plan \<Rightarrow> ('o engine, start_plan) operation" where
  "take_task j now p =
     (case plan_task p of
        Some t \<Rightarrow> bind_s (apply_s (\<lambda>w. snd (queue_remove_task j t w))) (\<lambda>_. ret p)
      | None \<Rightarrow> new_task_to_start j now p)"

definition start_is_decided :: "nat \<Rightarrow> time \<Rightarrow> start_plan \<Rightarrow> 'o engine \<Rightarrow> 'o engine" where
  "start_is_decided j now p w =
     (let w = (case plan_task p of
                 None \<Rightarrow> w
               | Some t \<Rightarrow> set_job j (\<lambda>x. x\<lparr>j_directory_changed := False\<rparr>) (set_task t (\<lambda>x. x\<lparr>t_cause := plan_cause p\<rparr>) w))
      in set_job j (\<lambda>x. x\<lparr>j_next_single_start :=
           (if j_next_single_start x \<le> now then never else j_next_single_start x)\<rparr>) w)"

definition decide_task :: "nat \<Rightarrow> time \<Rightarrow> start_plan \<Rightarrow> ('o engine, start_plan) operation" where
  "decide_task j now p =
     (if wants_start p then
        bind_s (take_task j now p) (\<lambda>p. bind_s (apply_s (start_is_decided j now p)) (\<lambda>_. ret p))
      else ret p)"

definition hold_locks_of_start :: "nat \<Rightarrow> start_plan \<Rightarrow> 'o engine \<Rightarrow> 'o engine" where
  "hold_locks_of_start j p w =
     (if plan_task p \<noteq> None \<and> j_has_locks (jobs w j) then
        let w = tell (Hold_job_locks j) w
        in if j_locks_enqueued (jobs w j) then job_dequeue_lock_requests j w else w
      else w)"

definition leave_process_list :: "nat \<Rightarrow> 'o engine \<Rightarrow> 'o engine" where
  "leave_process_list j w =
     (if j_waiting_for_process (jobs w j) then
        (case default_process_class_or_null j w of
           None \<Rightarrow> w
         | Some c \<Rightarrow> if process_available (process_count w) j (classes w c)
                     then remove_waiting_job_from_process_list j w else w)
      else w)"

definition lift_plan :: "('o engine \<Rightarrow> start_plan \<times> 'o engine) \<Rightarrow> ('o engine, start_plan) operation" where
  "lift_plan f w = (case f w of (p, w') \<Rightarrow> (Inr p, w'))"

definition task_to_start :: "nat \<Rightarrow> ('o engine, nat option) operation" where
  "task_to_start j =
     bind_s (read_s clock) (\<lambda>now.
     bind_s (plan_start j now) (\<lambda>p.
     bind_s (lift_plan (require_locks j p)) (\<lambda>p.
     bind_s (lift_plan (require_process j p)) (\<lambda>p.
     bind_s (decide_task j now p) (\<lambda>p.
     bind_s (apply_s (\<lambda>w. leave_process_list j (hold_locks_of_start j p w))) (\<lambda>_.
     bind_s (when_s (\<lambda>_. plan_task p \<noteq> None) (apply_s (set_job j (\<lambda>x. x\<lparr>j_start_once := False\<rparr>)))) (\<lambda>_.
       ret (plan_task p))))))))"

section \<open>Starting\<close>

definition may_start :: "nat \<Rightarrow> 'o engine \<Rightarrow> bool" where
  "may_start j w =
     (let x = jobs w j in
      (j_state x = Js_pending \<and> j_max_tasks x > 0
       \<or> j_state x = Js_running \<and> int (length (j_running x)) < j_max_tasks x)
      \<and> (\<not> j_waiting_for_process x \<or> j_try_again x)
      \<and> scheduler_state w \<noteq> Sp_paused \<and> scheduler_state w \<noteq> Sp_stopping_let_run)"

definition start_this_task :: "nat \<Rightarrow> nat \<Rightarrow> ('o engine, unit) operation" where
  "start_this_task j t =
     steps
       [apply_s (set_job j (\<lambda>x. x\<lparr>j_error := None, j_repeat := Duration 0, j_delay_until := Time 0,
                                 j_running := (if t \<in> set (j_running x) then j_running x else t # j_running x)\<rparr>)),
        apply_s (job_set_state j Js_running),
        apply_s (set_job j (\<lambda>x. x\<lparr>j_next_start_time := never\<rparr>)),
        task_init t,
        apply_s (\<lambda>w. if j_min_tasks (jobs w j) \<le> not_ending_tasks_count j w
                     then set_job j (\<lambda>x. x\<lparr>j_start_min_tasks := False\<rparr>) w else w),
        bind_s (task_do_something t) (\<lambda>_. ret ()),
        apply_s (set_job j (\<lambda>x. x\<lparr>j_wake_when_in_period := False\<rparr>))]"

definition set_job_error :: "nat \<Rightarrow> 'o engine \<Rightarrow> 'o engine" where
  "set_job_error j w = tell (Error_mail j) (job_set_state j Js_error w)"

definition start_or_error :: "nat \<Rightarrow> ('o engine, bool) operation" where
  "start_or_error j =
     catch_s
       (bind_s (task_to_start j) (\<lambda>task. case task of
          None \<Rightarrow> ret False
        | Some t \<Rightarrow> bind_s (start_this_task j t) (\<lambda>_. ret True)))
       (\<lambda>e. bind_s (apply_s (\<lambda>w. set_job_error j (job_set_error_only j (code_of e) w))) (\<lambda>_. ret False))"

definition dequeue_useless_lock_requests :: "nat \<Rightarrow> 'o engine \<Rightarrow> 'o engine" where
  "dequeue_useless_lock_requests j w =
     (if j_has_locks (jobs w j) \<and> j_locks_enqueued (jobs w j) \<and> says (Locks_available j) w
      then job_dequeue_lock_requests j w else w)"

definition try_start_one_task :: "nat \<Rightarrow> ('o engine, bool) operation" where
  "try_start_one_task j =
     bind_s (if_s (may_start j) (start_or_error j) (ret False)) (\<lambda>started.
       bind_s (when_s (\<lambda>_. \<not> started) (apply_s (dequeue_useless_lock_requests j))) (\<lambda>_. ret started))"

text \<open>\<open>while(true)\<close> until no task starts; \<open>None\<close> when the fuel is used up.\<close>

fun try_start_tasks_loop :: "nat \<Rightarrow> nat \<Rightarrow> 'o engine \<Rightarrow> (unit result \<times> 'o engine) option" where
  "try_start_tasks_loop 0 j w = None"
| "try_start_tasks_loop (Suc fuel) j w =
     (case try_start_one_task j w of
        (Inl e, w') \<Rightarrow> Some (Inl e, w')
      | (Inr started, w') \<Rightarrow> if started then try_start_tasks_loop fuel j w' else Some (Inr (), w'))"

definition tasks_fuel :: "nat \<Rightarrow> 'o engine \<Rightarrow> nat" where
  "tasks_fuel j w = nat (j_max_tasks (jobs w j)) + 2"

definition try_start_tasks :: "nat \<Rightarrow> ('o engine, unit) operation" where
  "try_start_tasks j w =
     (case try_start_tasks_loop (tasks_fuel j w) j w of
        None \<Rightarrow> (Inl (Assertion ''try_start_tasks''), w) | Some r \<Rightarrow> r)"

section \<open>The end of a task\<close>

definition remove_running_task :: "nat \<Rightarrow> nat \<Rightarrow> ('o engine, unit) operation" where
  "remove_running_task j t =
     steps
       [apply_s (set_job j (\<lambda>x. x\<lparr>j_running := remove1 t (j_running x)\<rparr>)),
        when_s (\<lambda>w. j_running (jobs w j) = [])
          (bind_s (read_s (\<lambda>w. j_state (jobs w j))) (\<lambda>s.
             if s = Js_stopping then apply_s (job_set_state j Js_stopped)
             else if s = Js_running then
               steps [apply_s (job_set_state j Js_pending),
                      bind_s (read_s clock) (\<lambda>now. job_set_next_start_time j now True)]
             else ret ())),
        when_s (\<lambda>w. j_state (jobs w j) = Js_pending \<and> int (length (j_running (jobs w j))) = j_max_tasks (jobs w j) - 1)
          (apply_s (call_job j Below_max_tasks_call (Time 0)))]"

text \<open>
  \<^verbatim>\<open>Task_subsystem::remove_task\<close>. With the last reference the module instance of the task is destroyed, and gives
  its process back.
\<close>

definition remove_task :: "nat \<Rightarrow> ('o engine, unit) operation" where
  "remove_task t =
     steps
       [apply_s (\<lambda>w. w\<lparr>task_set := remove1 t (task_set w)\<rparr>),
        bind_s (read_s (\<lambda>w. t_job (tasks w t))) (\<lambda>j. remove_running_task j t),
        log_errors (detach_process t)]"

definition on_task_closed :: "nat \<Rightarrow> nat \<Rightarrow> ('o engine, unit) operation" where
  "on_task_closed j t =
     steps
       [apply_s (set_task t (\<lambda>x. x\<lparr>t_closed_call := False\<rparr>)),
        assert_s ''Task_closed_call'' (\<lambda>w. t_state (tasks w t) = Ts_closed),
        remove_task t,
        if_s (\<lambda>w. j_temporary (jobs w j)) (apply_s (call_job j Remove_temporary_job_call (Time 0))) (try_start_tasks j)]"

section \<open>The calls of a job\<close>

definition continue_tasks_waiting_for_order :: "nat \<Rightarrow> ('o engine, unit) operation" where
  "continue_tasks_waiting_for_order j =
     bind_s (read_s clock) (\<lambda>now.
     bind_s (read_s (\<lambda>w. j_running (jobs w j))) (\<lambda>ts.
       steps (map (\<lambda>t. when_s (\<lambda>w. t_state (tasks w t) = Ts_running_waiting_for_order \<and> t_order (tasks w t) = None)
                (bind_s (task_fetch_and_occupy_order t now) (\<lambda>order.
                   if order = None then ret () else bind_s (task_do_something t) (\<lambda>_. ret ())))) ts)))"

definition process_orders :: "nat \<Rightarrow> ('o engine, unit) operation" where
  "process_orders j = steps [continue_tasks_waiting_for_order j, try_start_tasks j]"

text \<open>A call at a time that may have moved: the queue of tasks, and the next order.\<close>

definition call_at_due_time ::
  "job_call \<Rightarrow> nat \<Rightarrow> ('o engine \<Rightarrow> time) \<Rightarrow> ('o engine, unit) operation \<Rightarrow> ('o engine, unit) operation" where
  "call_at_due_time c j due act =
     bind_s (read_s due) (\<lambda>t.
       if_s (\<lambda>w. t \<le> clock w)
         (steps [act, apply_s (\<lambda>w. if due w \<noteq> t then call_job j c (due w) w else w)])
         (apply_s (call_job j c t)))"

definition period_end :: "nat \<Rightarrow> ('o engine, unit) operation" where
  "period_end j =
     bind_s (read_s clock) (\<lambda>now.
       steps
         [select_period j now,
          when_s (\<lambda>w. \<not> is_in_time (j_period (jobs w j)) (j_next_start_time (jobs w j))
                      \<and> is_never (j_next_single_start (jobs w j)))
            (job_set_next_start_time j now False)])"

definition directory_watcher_interval :: duration where
  "directory_watcher_interval = Duration 10"

text \<open>A watch that has become invalid by an error is dropped after its signal.\<close>

definition check_watcher :: "nat \<Rightarrow> string \<times> string \<Rightarrow> ('o engine, bool) operation" where
  "check_watcher j d =
     bind_s (ask (Watcher_signaled j (fst d) (snd d))) (\<lambda>signaled.
     bind_s (when_s (\<lambda>_. signaled)
       (steps
         [apply_s (set_job j (\<lambda>x. x\<lparr>j_directory_changed := True\<rparr>)),
          when_s (\<lambda>w. \<not> says (Watcher_valid j (fst d) (snd d)) w)
            (apply_s (set_job j (\<lambda>x. x\<lparr>j_watchers := remove1 d (j_watchers x)\<rparr>)))])) (\<lambda>_.
       ret signaled))"

fun check_watchers :: "nat \<Rightarrow> (string \<times> string) list \<Rightarrow> ('o engine, bool) operation" where
  "check_watchers j [] = ret False"
| "check_watchers j (d # ds) =
     bind_s (check_watcher j d) (\<lambda>signaled. bind_s (check_watchers j ds) (\<lambda>more. ret (signaled \<or> more)))"

definition check_for_changed_directory :: "nat \<Rightarrow> time \<Rightarrow> ('o engine, bool) operation" where
  "check_for_changed_directory j now =
     bind_s (apply_s (\<lambda>w. call_job j Directory_changed_call
         (if j_watchers (jobs w j) = [] then never else time_plus now directory_watcher_interval) w)) (\<lambda>_.
     bind_s (read_s (\<lambda>w. j_watchers (jobs w j))) (check_watchers j))"

definition job_on_call :: "nat \<Rightarrow> job_call \<Rightarrow> ('o engine, unit) operation" where
  "job_on_call j c =
     bind_s (apply_s (call_job j c never)) (\<lambda>_. case c of
         Period_end_call \<Rightarrow> period_end j
       | Start_queued_task_call \<Rightarrow>
           call_at_due_time Start_queued_task_call j (queue_next_start_time j) (try_start_tasks j)
       | Order_timed_call \<Rightarrow> call_at_due_time Order_timed_call j (next_order_time j) (process_orders j)
       | Order_possibly_available_call \<Rightarrow> process_orders j
       | Directory_changed_call \<Rightarrow>
           bind_s (bind_s (read_s clock) (check_for_changed_directory j)) (\<lambda>changed.
             if changed then bind_s (try_start_one_task j) (\<lambda>_. ret ()) else ret ())
       | Remove_temporary_job_call \<Rightarrow> apply_s (tell (Remove_job j))
       | _ \<Rightarrow> try_start_tasks j)"

definition signal_earlier_order :: "nat \<Rightarrow> time \<Rightarrow> 'o engine \<Rightarrow> 'o engine" where
  "signal_earlier_order j t w =
     (if \<not> is_never t \<and> t \<le> j_calls (jobs w j) Order_timed_call then call_job j Order_timed_call t w else w)"

section \<open>Commands\<close>

definition suspendable :: "task_state \<Rightarrow> bool" where
  "suspendable s = (s = Ts_running \<or> s = Ts_running_delayed \<or> s = Ts_running_waiting_for_order)"

definition continuable :: "task_state \<Rightarrow> bool" where
  "continuable s = (s = Ts_suspended \<or> s = Ts_running_delayed \<or> s = Ts_running_waiting_for_order)"

definition set_tasks_state :: "nat \<Rightarrow> (task_state \<Rightarrow> bool) \<Rightarrow> task_state \<Rightarrow> ('o engine, unit) operation" where
  "set_tasks_state j P s =
     bind_s (read_s (\<lambda>w. j_running (jobs w j))) (\<lambda>ts.
       steps (map (\<lambda>t. when_s (\<lambda>w. P (t_state (tasks w t))) (task_set_state t s)) ts))"

definition unstop :: "nat \<Rightarrow> job_cmd \<Rightarrow> ('o engine, unit) operation" where
  "unstop j cmd =
     steps
       [when_s (\<lambda>_. cmd = Sc_unstop) (apply_s (job_set_state j Js_pending)),
        when_s (\<lambda>_. cmd = Sc_enable) (apply_s (set_job j (\<lambda>x. x\<lparr>j_enabled := True\<rparr>))),
        apply_s (check_min_tasks j),
        bind_s (read_s clock) (\<lambda>now. job_set_next_start_time j now False),
        apply_s (init_start_when_directory_changed j None),
        try_start_tasks j]"

text \<open>\<^verbatim>\<open>sc_wake\<close> creates a task and initialises it, but does not put it among the running tasks of the job.\<close>

definition wake :: "nat \<Rightarrow> ('o engine, unit) operation" where
  "wake j =
     bind_s (create_task j False never) (\<lambda>t.
       steps
         [apply_s (job_set_state j Js_pending),
          apply_s (check_min_tasks j),
          apply_s (set_task t (\<lambda>x. x\<lparr>t_cause := Cause_wake, t_let_run := True\<rparr>)),
          task_init t,
          try_start_tasks j])"

definition set_state_cmd :: "nat \<Rightarrow> job_cmd \<Rightarrow> ('o engine, unit) operation" where
  "set_state_cmd j cmd =
     (if cmd = Sc_disable \<or> cmd = Sc_stop then
        when_s (\<lambda>w. j_state (jobs w j) \<noteq> Js_stopping \<and> j_state (jobs w j) \<noteq> Js_stopped)
          (steps [apply_s (job_stop j True),
                  when_s (\<lambda>_. cmd = Sc_disable) (apply_s (set_job j (\<lambda>x. x\<lparr>j_enabled := False\<rparr>)))])
      else if cmd = Sc_enable \<or> cmd = Sc_unstop then
        when_s (\<lambda>w. (j_state (jobs w j) = Js_stopping \<or> j_state (jobs w j) = Js_stopped \<or> j_state (jobs w j) = Js_error)
                    \<and> \<not> j_to_be_removed (jobs w j)) (unstop j cmd)
      else if cmd = Sc_end then
        apply_s (\<lambda>w. fold (\<lambda>t. cmd_end t End_normal (Duration 0)) (j_running (jobs w j)) w)
      else if cmd = Sc_suspend then
        when_s (\<lambda>w. j_state (jobs w j) = Js_running) (set_tasks_state j suspendable Ts_suspended)
      else if cmd = Sc_continue then
        steps
          [set_tasks_state j continuable Ts_running,
           apply_s (\<lambda>w. job_set_state j (if j_running (jobs w j) = [] then Js_pending else Js_running) w),
           apply_s (check_min_tasks j),
           try_start_tasks j]
      else if cmd = Sc_wake then
        when_s (\<lambda>w. (j_state (jobs w j) = Js_pending \<or> j_state (jobs w j) = Js_stopped) \<and> \<not> j_to_be_removed (jobs w j))
          (wake j)
      else if cmd = Sc_wake_when_in_period then
        when_s (\<lambda>w. is_in_period j (clock w) w)
          (steps [apply_s (set_job j (\<lambda>x. x\<lparr>j_wake_when_in_period := True\<rparr>)),
                  when_s (\<lambda>w. j_state (jobs w j) = Js_pending \<or> j_state (jobs w j) = Js_running) (try_start_tasks j)])
      else if cmd = Sc_start then
        bind_s (bind_s (read_s clock) (start_task j)) (\<lambda>_. bind_s (try_start_one_task j) (\<lambda>_. ret ()))
      else if cmd = Sc_remove then apply_s (tell (Remove_job j))
      else ret ())"

definition kill_task :: "nat \<Rightarrow> nat \<Rightarrow> bool \<Rightarrow> duration \<Rightarrow> 'o engine \<Rightarrow> 'o engine" where
  "kill_task j t immediately timeout w =
     (if t \<in> set (j_running (jobs w j)) then
        cmd_end t (if immediately then End_kill_immediately else End_normal) timeout
          (if immediately then set_task t (\<lambda>x. x\<lparr>t_killed_immediately := True\<rparr>) w else w)
      else kill_queued_task j t w)"

section \<open>The life of the job as a file based object\<close>

definition job_on_activate :: "nat \<Rightarrow> ('o engine, bool) operation" where
  "job_on_activate j =
     if_s (\<lambda>w. j_state (jobs w j) < Js_pending)
       (bind_s (ask (Schedule_try_load j)) (\<lambda>ok.
        bind_s (if ok then ask (Monitors_try_load j) else ret False) (\<lambda>ok.
          if \<not> ok then
            bind_s (apply_s (set_job j (\<lambda>x. x\<lparr>j_file_based_state := S_incomplete\<rparr>))) (\<lambda>_. ret False)
          else
            bind_s (steps
              [apply_s (\<lambda>w. job_set_state j (if j_permanently_stopped (jobs w j) then Js_stopped else Js_pending) w),
               apply_s (set_job j (\<lambda>x. x\<lparr>j_delay_until := Time 0\<rparr>)),
               reset_scheduling j,
               apply_s (init_start_when_directory_changed j None),
               apply_s (check_min_tasks j),
               apply_s (set_job j (\<lambda>x. x\<lparr>j_start_once_for_directory :=
                  (j_start_once_for_directory x \<or> j_tasks_count x = 0 \<and> list_ex (\<lambda>d. snd d \<noteq> []) (j_watchers x))\<rparr>)),
               bind_s (read_s clock) (\<lambda>now. job_set_next_start_time j now False)]) (\<lambda>_. ret True))))
       (ret False)"

definition job_can_be_removed_now :: "nat \<Rightarrow> 'o engine \<Rightarrow> bool" where
  "job_can_be_removed_now j w =
     (let x = jobs w j in
      j_has_folder x \<and> (j_to_be_removed x \<or> j_temporary x) \<and> \<not> (j_temporary x \<and> \<not> j_to_be_removed x)
      \<and> j_running x = []
      \<and> (j_state x = Js_not_initialized \<or> j_state x = Js_initialized \<or> j_state x = Js_stopped \<or> j_state x = Js_pending))"

definition job_on_prepare_to_remove :: "nat \<Rightarrow> 'o engine \<Rightarrow> 'o engine" where
  "job_on_prepare_to_remove j w = stop_simply j True (end_tasks j w)"

definition job_on_requisite_loaded :: "nat \<Rightarrow> 'o engine \<Rightarrow> 'o engine" where
  "job_on_requisite_loaded j w =
     (if \<not> ignore_process_classes w \<and> j_waiting_for_process (jobs w j) then
        call_job j Process_available_call (Time 0) (set_job j (\<lambda>x. x\<lparr>j_try_again := True\<rparr>) w)
      else w)"

text \<open>What the job depends on is about to be removed: the process class, the schedule, a monitor.\<close>

definition job_on_requisite_to_be_removed :: "nat \<Rightarrow> 'o engine \<Rightarrow> 'o engine" where
  "job_on_requisite_to_be_removed j w = end_tasks j w"

definition job_on_schedule_modified :: "nat \<Rightarrow> ('o engine, unit) operation" where
  "job_on_schedule_modified j = reset_scheduling j"

definition becomes_incomplete :: "nat \<Rightarrow> bool \<Rightarrow> 'o engine \<Rightarrow> 'o engine" where
  "becomes_incomplete j end_all w =
     stop_simply j end_all (end_tasks j (set_job j (\<lambda>x. x\<lparr>j_file_based_state := S_incomplete\<rparr>) w))"

definition job_on_schedule_to_be_removed :: "nat \<Rightarrow> ('o engine, unit) operation" where
  "job_on_schedule_to_be_removed j =
     steps
       [apply_s (tell (Schedule_disconnect j)),
        when_s (\<lambda>w. \<not> says (Schedule_is_defined j) w) (apply_s (becomes_incomplete j False)),
        reset_scheduling j]"

definition job_on_monitor_to_be_removed :: "nat \<Rightarrow> 'o engine \<Rightarrow> 'o engine" where
  "job_on_monitor_to_be_removed j w = (if says (Monitors_loaded j) w then w else becomes_incomplete j True w)"

definition job_on_locks_available :: "nat \<Rightarrow> 'o engine \<Rightarrow> 'o engine" where
  "job_on_locks_available j = call_job j Locks_available_call (Time 0)"

definition on_order_possibly_available :: "nat \<Rightarrow> 'o engine \<Rightarrow> 'o engine" where
  "on_order_possibly_available j = call_job j Order_possibly_available_call (Time 0)"

end
