(* ===== verification/Task_Frames.thy ===== *)
theory Task_Frames
  imports Job_Start
begin

text \<open>
  What the operations leave alone. Most of them are \<open>minor\<close>: they change neither the state of a task nor its
  operation nor the processes nor the running tasks of a job, and a task that is told to end stays so. The other ones
  are few, and the proofs of the following theories are about them.
\<close>

section \<open>The fields that count\<close>

definition unchanged_task :: "task \<Rightarrow> task \<Rightarrow> bool" where
  "unchanged_task x y =
     (t_state y = t_state x \<and> t_enqueued_state y = t_enqueued_state x \<and> t_operation y = t_operation x
      \<and> t_job y = t_job x \<and> t_process y = t_process x \<and> t_closed y = t_closed x \<and> t_start_at y = t_start_at x
      \<and> t_force_start y = t_force_start x \<and> t_cause y = t_cause x \<and> (t_end x \<noteq> End_none \<longrightarrow> t_end y \<noteq> End_none))"

definition same_job :: "job \<Rightarrow> job \<Rightarrow> bool" where
  "same_job x y =
     (j_running y = j_running x \<and> j_max_tasks y = j_max_tasks x \<and> j_running_count y = j_running_count x
      \<and> j_state y = j_state x \<and> j_queue y = j_queue x)"

lemma unchanged_task_refl [simp]: "unchanged_task x x"
  by (simp add: unchanged_task_def)

lemma same_job_refl [simp]: "same_job x x"
  by (simp add: same_job_def)

lemma unchanged_task_trans: "unchanged_task x y \<Longrightarrow> unchanged_task y z \<Longrightarrow> unchanged_task x z"
  by (simp add: unchanged_task_def)

lemma processes_remove_requestor: "pc_processes (fst (pc_remove_requestor r pc)) = pc_processes pc"
  by (simp add: pc_remove_requestor_def Let_def split: list.splits)


lemma hoare_catch_s: "hoare P m Q P' \<Longrightarrow> (\<And>x. hoare P' (h x) Q R) \<Longrightarrow> hoare P (catch_s m h) Q R"
  unfolding hoare_def catch_s_def by (auto split: prod.splits sum.splits)

section \<open>What minor operations keep\<close>

text \<open>
  A property \<open>I\<close> of the engine that does not depend on the fields which the minor operations change. First the
  operations that change neither the state of a job nor its queue.
\<close>

named_theorems frame_intros \<open>rules for functions that make minor changes\<close>

locale quiet_frame =
  fixes I :: "'o engine \<Rightarrow> bool"
  assumes kept_set_task [frame_intros]: "I w \<Longrightarrow> (\<And>x. unchanged_task x (f x)) \<Longrightarrow> I (set_task t f w)"
    and kept_set_job [frame_intros]: "I w \<Longrightarrow> (\<And>x. same_job x (g x)) \<Longrightarrow> I (set_job j g w)"
    and kept_outer: "I w \<Longrightarrow> I (w\<lparr>outer := x\<rparr>)"
    and kept_set_class: "I w \<Longrightarrow> pc_processes pc = pc_processes (classes w c) \<Longrightarrow> I (set_class c pc w)"
begin

lemma kept_let [frame_intros]: "I v \<Longrightarrow> (\<And>x. I x \<Longrightarrow> I (f x)) \<Longrightarrow> I (let x = v in f x)"
  by (simp add: Let_def)

lemma kept_let_any: "(\<And>x. I (f x)) \<Longrightarrow> I (let x = v in f x)"
  by (simp add: Let_def)

lemma kept_if [frame_intros]: "I a \<Longrightarrow> I b \<Longrightarrow> I (if c then a else b)"
  by simp

lemma kept_option [frame_intros]:
  "I a \<Longrightarrow> (\<And>x. I (f x)) \<Longrightarrow> I (case r of None \<Rightarrow> a | Some x \<Rightarrow> f x)"
  by (simp split: option.split)

lemma kept_ask: "I w \<Longrightarrow> I (snd (ask q w))"
  using ask_outer [of q w] kept_outer by auto

lemma kept_tell [frame_intros]: "I w \<Longrightarrow> I (tell q w)"
  unfolding tell_def by (rule kept_ask)

lemma kept_call_job [frame_intros]: "I w \<Longrightarrow> I (call_job j c t w)"
  unfolding call_job_def by (erule kept_set_job) (simp add: same_job_def)

lemma kept_call_task [frame_intros]: "I w \<Longrightarrow> I (call_task t c due w)"
  unfolding call_task_def by (erule kept_set_task) (simp add: unchanged_task_def)

lemma kept_fold [frame_intros]: "I w \<Longrightarrow> (\<And>x w. I w \<Longrightarrow> I (f x w)) \<Longrightarrow> I (fold f xs w)"
  by (induction xs arbitrary: w) auto

text \<open>
  A property of the form \<open>minor w0\<close> is kept by every minor operation, so the rules for \<open>keeps\<close> apply.
\<close>

lemma keeps_apply [keep_rules]: "(\<And>w. I w \<Longrightarrow> I (f w)) \<Longrightarrow> keeps I (apply_s f)"
  by (rule keeps_apply_s)

lemma keeps_ask [keep_rules]: "keeps I (ask q)"
  by (rule keepsI) (rule kept_ask)

lemma kept_snd: "keeps I m \<Longrightarrow> I w \<Longrightarrow> I (snd (m w))"
  by (rule keepsD)

section \<open>Process classes\<close>

lemma kept_pass_signal [frame_intros]: "I w \<Longrightarrow> I (pass_signal c s w)"
  by (auto simp: pass_signal_def same_job_def intro!: frame_intros split: pc_signal.split process_requestor.split)

lemma kept_class_enqueue [frame_intros]: "I w \<Longrightarrow> I (class_enqueue_requestor c r w)"
  unfolding class_enqueue_requestor_def by (erule kept_set_class) (simp add: enqueue_requestor_def)

lemma kept_class_remove [frame_intros]:
  assumes "I w" shows "I (class_remove_requestor c r w)"
proof -
  obtain pc signals where r: "pc_remove_requestor r (classes w c) = (pc, signals)" by fastforce
  then have "I (set_class c pc w)"
    using processes_remove_requestor [of r "classes w c"] assms by (intro kept_set_class) simp_all
  then show ?thesis using r by (auto simp: class_remove_requestor_def intro!: kept_fold kept_pass_signal)
qed

section \<open>Jobs\<close>

lemma kept_database_record_store [frame_intros]: "I w \<Longrightarrow> I (database_record_store j w)"
  unfolding database_record_store_def
  by (rule frame_intros kept_let_any | assumption | simp add: same_job_def)+

lemma kept_set_period [frame_intros]: "I w \<Longrightarrow> I (set_period j p w)"
  unfolding set_period_def by (rule frame_intros | assumption | simp add: same_job_def)+

lemma kept_remove_waiting [frame_intros]: "I w \<Longrightarrow> I (remove_waiting_job_from_process_list j w)"
  unfolding remove_waiting_job_from_process_list_def
  by (rule frame_intros | assumption | simp add: same_job_def)+

lemma kept_dequeue [frame_intros]: "I w \<Longrightarrow> I (job_dequeue_lock_requests j w)"
  unfolding job_dequeue_lock_requests_def by (rule frame_intros | assumption | simp add: same_job_def)+

lemma kept_after_state:
  "I v \<Longrightarrow> I (let w = (if c then let w = (if j_waiting_for_process (jobs v j) then remove_waiting_job_from_process_list j v else v)
                   in if j_has_locks (jobs w j) \<and> j_locks_enqueued (jobs w j) then job_dequeue_lock_requests j w else w
                 else v);
            w = (if s = Js_stopped then tell (Check_job_removal j) w else w);
            w = (if s = Js_pending \<or> s = Js_running then set_job j (\<lambda>x. x\<lparr>j_permanently_stopped := False\<rparr>) w else w)
        in database_record_store j w)"
  by (rule frame_intros | assumption | simp add: same_job_def)+

text \<open>A new state of a job: what is needed is that \<open>I\<close> bears the new value in the field.\<close>

lemma kept_job_set_state:
  assumes "I w"
    and "\<And>w' n. I w' \<Longrightarrow> j_state (jobs w' j) = j_state (jobs w j) \<Longrightarrow> j_running (jobs w' j) = j_running (jobs w j)
      \<Longrightarrow> I (set_job j (\<lambda>x. x\<lparr>j_state := s, j_next_start_time := n x\<rparr>) w')"
  shows "I (job_set_state j s w)"
proof -
  let ?w = "if s = Js_pending \<and> is_zero (j_delay_until (jobs w j)) then set_job j (\<lambda>x. x\<lparr>j_error := None\<rparr>) w else w"
  let ?v = "set_job j (\<lambda>x. x\<lparr>j_state := s,
                  j_next_start_time := (if s = Js_stopped \<or> s = Js_error then never else j_next_start_time x)\<rparr>) ?w"
  have "I ?w" using assms(1) by (auto intro!: kept_set_job simp: same_job_def)
  then have v: "I ?v" by (rule assms(2)) (simp_all add: engine_simps)
  show ?thesis
  proof (cases "s = j_state (jobs w j)")
    case False
    then show ?thesis
      using kept_after_state [OF v, of "s \<noteq> Js_pending \<or> s \<noteq> Js_running" j s]
      by (simp only: job_set_state_def if_False Let_def)
  qed (use assms(1) in \<open>simp add: job_set_state_def\<close>)
qed

end

text \<open>Operations that end tasks: a job may be stopped, and a task may leave a queue.\<close>

locale task_frame = quiet_frame I for I :: "'o engine \<Rightarrow> bool" +
  assumes kept_stop: "I w \<Longrightarrow> s = (if j_running (jobs w j) = [] then Js_stopped else Js_stopping)
      \<Longrightarrow> I (set_job j (\<lambda>x. x\<lparr>j_state := s, j_next_start_time := n x\<rparr>) w)"
    and kept_unqueue: "I w \<Longrightarrow> I (set_job j (\<lambda>x. x\<lparr>j_queue := remove1 t (j_queue x)\<rparr>) w)"
begin

lemma kept_job_stop_state [frame_intros]:
  "I w \<Longrightarrow> I (job_set_state j (if j_running (jobs w j) = [] then Js_stopped else Js_stopping) w)"
  by (rule kept_job_set_state) (auto intro: kept_stop)

lemma keeps_select_period [keep_rules]: "keeps I (select_period j now)"
  unfolding select_period_def enter_next_period_def schedule_next_period_def
  by (rule keep_rules frame_intros | assumption | simp add: same_job_def)+

lemma keeps_store [keep_rules]: "keeps I (store_next_start_time j t)"
  unfolding store_next_start_time_def by (rule keep_rules frame_intros | assumption | simp add: same_job_def)+

text \<open>An operation that looks at the state first.\<close>

lemma keeps_at: "(\<And>w. keeps I (f w)) \<Longrightarrow> keeps I (\<lambda>w. f w w)"
  by (rule keepsI) (simp add: keepsD)

lemma keeps_pair: "(\<And>w. I w \<Longrightarrow> I (snd (f w))) \<Longrightarrow> keeps I f"
  by (rule keepsI)

lemma keeps_repeated [keep_rules]: "keeps I (repeated_start_time j now)"
proof (rule keepsI)
  fix w :: "'o engine" assume w: "I w"
  have *: "keeps I (bind_s (schedule_next_period j t) (\<lambda>next. ret (f next)))" for t and f :: "period \<Rightarrow> time"
    unfolding schedule_next_period_def by (rule keep_rules)+
  show "I (snd (repeated_start_time j now w))"
    using w * by (auto simp: repeated_start_time_def Let_def keepsD ret_def same_job_def intro!: kept_set_job)
qed

lemma keeps_pending_time [keep_rules]: "keeps I (pending_start_time j now rep)"
  by (rule keepsI) (auto simp: pending_start_time_def Let_def ret_def intro: keepsD [OF keeps_repeated])

lemma keeps_set_next_start_time2 [keep_rules]: "keeps I (set_next_start_time2 j now rep)"
proof -
  have "keeps I (steps
             [when_s (\<lambda>w. duration_is_zero (j_repeat (jobs w j)))
                (bind_s (schedule_next_single_start j now) (\<lambda>t.
                   apply_s (set_job j (\<lambda>x. x\<lparr>j_next_single_start := t\<rparr>)))),
              bind_s (pending_start_time j now rep) (store_next_start_time j)])"
    unfolding schedule_next_single_start_def by (rule keep_rules frame_intros | assumption | simp add: same_job_def)+
  then show ?thesis
    by (intro keepsI) (auto simp: set_next_start_time2_def Let_def simp del: steps.simps intro: keepsD [OF keeps_store] keepsD)
qed

lemma keeps_wanted_time [keep_rules]: "keeps I (wanted_time j now)"
proof -
  have *: "keeps I (bind_s (ask (Request_order j)) (\<lambda>b. read_s (f b)))" for f :: "bool \<Rightarrow> 'o engine \<Rightarrow> time"
    by (rule keep_rules)+
  show ?thesis
    by (intro keepsI) (auto simp: wanted_time_def Let_def ret_def intro: keepsD [OF *])
qed

lemma keeps_set_next_start_time [keep_rules]: "keeps I (job_set_next_start_time j now rep)"
  unfolding job_set_next_start_time_def calculate_next_time_def
  by (rule keep_rules frame_intros | assumption | simp add: same_job_def)+

lemma keeps_reset_scheduling [keep_rules]: "keeps I (reset_scheduling j)"
  unfolding reset_scheduling_def schedule_next_period_def schedule_next_single_start_def
  by (rule keep_rules frame_intros | assumption | simp add: same_job_def)+

section \<open>Tasks\<close>

lemma kept_kill_queued_task [frame_intros]: "I w \<Longrightarrow> I (kill_queued_task j t w)"
  by (auto simp: kill_queued_task_def queue_remove_task_def intro!: kept_call_job kept_tell kept_unqueue)

lemma kept_set_error_only [frame_intros]: "I w \<Longrightarrow> I (job_set_error_only j c w)"
  unfolding job_set_error_only_def by (erule kept_set_job) (simp add: same_job_def)

lemma kept_set_error_base [frame_intros]: "I w \<Longrightarrow> I (set_error_base t c w)"
  unfolding set_error_base_def
  by (rule frame_intros kept_let_any | assumption | simp add: unchanged_task_def)+

lemma kept_task_set_error_only [frame_intros]: "I w \<Longrightarrow> I (task_set_error_only t c w)"
  unfolding task_set_error_only_def by (rule frame_intros | assumption | simp add: unchanged_task_def)+

lemma kept_task_set_error [frame_intros]: "I w \<Longrightarrow> I (task_set_error t c w)"
  unfolding task_set_error_def by (rule frame_intros | assumption)+

lemma kept_subprocess_timeout [frame_intros]: "I w \<Longrightarrow> I (set_subprocess_timeout t w)"
  unfolding set_subprocess_timeout_def by (rule frame_intros kept_let_any | assumption | simp add: unchanged_task_def)+

lemma kept_kill_pid [frame_intros]: "I w \<Longrightarrow> I (kill_pid t pid w)"
  unfolding kill_pid_def by (rule frame_intros | assumption | simp add: unchanged_task_def)+

lemma kept_pids [frame_intros]:
  "I w \<Longrightarrow> I (add_pid t pid d w)" "I w \<Longrightarrow> I (remove_pid t pid w)"
  "I w \<Longrightarrow> I (add_subprocess t pid d w)"
  unfolding add_pid_def remove_pid_def add_subprocess_def
  by (rule frame_intros kept_let_any | assumption | simp add: unchanged_task_def)+

lemma kept_check_subprocess [frame_intros]: "I w \<Longrightarrow> I (snd (check_subprocess_timeout t now w))"
  by (auto simp: check_subprocess_timeout_def Let_def intro!: frame_intros)

lemma kept_try_kill [frame_intros]:
  assumes "I w" shows "I (snd (try_kill t w))"
proof -
  let ?w = "set_task t (\<lambda>x. x\<lparr>t_kill_tried := True\<rparr>) w"
  have w: "I ?w" using assms by (rule kept_set_task) (simp add: unchanged_task_def)
  let ?m = "\<lambda>w. if t_instance (tasks w t) \<or> t_operation (tasks w t) then ask (Kill t) w else (Inr False, w)"
  have "I (snd (?m ?w))" using kept_ask [OF w] w by simp
  then show ?thesis
    by (cases "?m ?w"; cases "fst (?m ?w)")
       (auto simp: try_kill_def Let_def unchanged_task_def intro!: frame_intros split: if_splits)
qed

lemma kept_cmd_end [frame_intros]: "I w \<Longrightarrow> mode \<noteq> End_none \<Longrightarrow> I (cmd_end t mode d w)"
  unfolding cmd_end_def by (rule frame_intros | assumption | simp add: unchanged_task_def)+

lemma kept_cmd_nice_end [frame_intros]: "I w \<Longrightarrow> I (cmd_nice_end t w)"
  unfolding cmd_nice_end_def by (rule kept_cmd_end) simp_all

lemma kept_leave_running [frame_intros]: "I w \<Longrightarrow> I (leave_running t w)"
  unfolding leave_running_def by (rule frame_intros | assumption)+

lemma kept_enter_task_state [frame_intros]: "I w \<Longrightarrow> I (enter_task_state t s w)"
  by (cases s) (auto simp: enter_task_state_def Let_def unchanged_task_def intro!: frame_intros)

lemma keeps_process_class_of [keep_rules]: "keeps I (process_class_of t)"
  unfolding process_class_of_def by (rule keep_rules)

lemma keeps_make_room [keep_rules]: "keeps I (make_room_if_idle t)"
  unfolding make_room_if_idle_def by (rule keep_rules frame_intros | assumption)+

section \<open>Stopping a job\<close>

lemma kept_end_tasks [frame_intros]: "I w \<Longrightarrow> I (end_tasks j w)"
  unfolding end_tasks_def by (rule frame_intros kept_let_any | assumption | simp add: unchanged_task_def same_job_def)+

lemma kept_stop_simply [frame_intros]: "I w \<Longrightarrow> I (stop_simply j b w)"
  unfolding stop_simply_def clear_when_directory_changed_def by (rule frame_intros kept_let_any | assumption | simp add: unchanged_task_def same_job_def)+

lemma kept_job_stop [frame_intros]: "I w \<Longrightarrow> I (job_stop j b w)"
  unfolding job_stop_def by (rule frame_intros kept_let_any | assumption | simp add: unchanged_task_def same_job_def)+

lemma kept_stop_after_task_error [frame_intros]: "I w \<Longrightarrow> I (stop_after_task_error j w)"
  unfolding stop_after_task_error_def by (rule frame_intros kept_let_any | assumption | simp add: unchanged_task_def same_job_def)+

lemma kept_init_watching [frame_intros]:
  assumes "I w" shows "I (init_start_when_directory_changed j t w)"
proof -
  have "keeps I (catch_s (start_when_directory_changed j d)
         (\<lambda>e. apply_s (\<lambda>w. let w = job_set_error_only j (code_of e) w
            in case t of None \<Rightarrow> w | Some t \<Rightarrow> task_set_error_only t (code_of e) w)))" for d
    unfolding start_when_directory_changed_def by (rule keep_rules frame_intros kept_let_any | assumption | simp add: unchanged_task_def same_job_def)+
  then show ?thesis
    unfolding init_start_when_directory_changed_def using assms
    by (intro kept_fold) (assumption | rule kept_snd)+
qed

lemma kept_check_min_tasks [frame_intros]: "I w \<Longrightarrow> I (check_min_tasks j w)"
  unfolding check_min_tasks_def by (rule frame_intros kept_let_any | assumption | simp add: unchanged_task_def same_job_def)+

lemma kept_on_task_finished [frame_intros]: "I w \<Longrightarrow> I (on_task_finished j t w)"
  unfolding on_task_finished_def by (rule frame_intros kept_let_any | assumption | simp add: unchanged_task_def same_job_def)+

section \<open>The order of a task\<close>

lemma kept_detach_order [frame_intros]: "I w \<Longrightarrow> I (detach_order t w)"
  unfolding detach_order_def by (rule frame_intros kept_let_any | assumption | simp add: unchanged_task_def same_job_def)+

lemma keeps_orders [keep_rules]:
  "keeps I (postprocess_order t tr)" "keeps I (detach_order_after_error t tr)"
  "keeps I (unprocessed_order t tr)"
  unfolding unprocessed_order_def detach_order_after_error_def postprocess_order_def by (rule keep_rules frame_intros kept_let_any | assumption | simp add: unchanged_task_def same_job_def)+

lemma keeps_fetch_from_job [keep_rules]: "keeps I (fetch_from_job t now)"
  by (rule keepsI) (auto simp: fetch_from_job_def intro: kept_outer split: prod.splits)

lemma keeps_fetch [keep_rules]: "keeps I (task_fetch_and_occupy_order t now)"
  unfolding task_fetch_and_occupy_order_def order_of_task_def occupy_fetched_order_def class_of_order_def no_order_fetched_def
  by (rule keep_rules frame_intros kept_let_any | assumption | simp add: unchanged_task_def same_job_def)+

section \<open>Parts of the steps of a task\<close>

lemma kept_parts [frame_intros]:
  "I w \<Longrightarrow> I (set_exit_code_error t w)" "I w \<Longrightarrow> I (set_signal_error t w)"
  "I w \<Longrightarrow> I (wake_when_longer_than t w)" "I w \<Longrightarrow> I (call_task_timeout t w)"
  "I w \<Longrightarrow> I (take_locks t level w)" "I w \<Longrightarrow> I (task_count_step t w)"
  unfolding set_exit_code_error_def set_signal_error_def wake_when_longer_than_def call_task_timeout_def take_locks_def
    task_count_step_def by (rule frame_intros kept_let_any | assumption | simp add: unchanged_task_def same_job_def)+

lemma kept_checks [frame_intros]:
  "I w \<Longrightarrow> I (snd (check_timeout t now w))" "I w \<Longrightarrow> I (snd (check_if_longer_than t now w))"
  by (auto simp: check_timeout_def check_if_longer_than_def Let_def unchanged_task_def intro!: kept_try_kill kept_set_task)

lemma keeps_end_of_operation [keep_rules]: "keeps I (end_of_operation t s)"
  unfolding end_of_operation_def do_close_end_def by (rule keep_rules frame_intros kept_let_any | assumption | simp add: unchanged_task_def same_job_def)+

lemma keeps_task_load [keep_rules]: "keeps I (task_load t)"
proof -
  have *: "keeps I (default_process_class j)" for j
    by (rule keepsI) (simp add: default_process_class_def)
  show ?thesis
    unfolding task_load_def do_load_def read_remote_scheduler_parameter_def create_module_instance_def load_instance_def
    by (rule keep_rules * frame_intros kept_let_any | assumption | simp add: unchanged_task_def same_job_def)+
qed

lemma kept_try_to_end_task [frame_intros]: "I w \<Longrightarrow> I (snd (try_to_end_task j c w))"
  by (auto simp: try_to_end_task_def intro!: kept_cmd_nice_end split: option.splits)

lemma kept_free_process_of [frame_intros]: "I w \<Longrightarrow> I (free_process_of js c w)"
proof (induction js arbitrary: w)
  case (Cons j js)
  then have "I (snd (try_to_end_task j c w))" by (intro frame_intros)
  then show ?case using Cons.IH by (auto split: prod.splits bool.splits)
qed simp

lemma kept_try_to_free_process [frame_intros]: "I w \<Longrightarrow> I (try_to_free_process c w)"
  unfolding try_to_free_process_def by (rule kept_free_process_of)

lemma keeps_requestors [keep_rules]:
  "keeps I (leave_requestors t)" "keeps I (enter_requestors t)"
  unfolding leave_requestors_def enter_requestors_def by (rule keep_rules frame_intros kept_let_any | assumption | simp add: unchanged_task_def same_job_def)+

lemma keeps_then_verdict [keep_rules]: "keeps I (steps ms) \<Longrightarrow> keeps I (then_verdict ms v)"
  unfolding then_verdict_def by (intro keep_rules)

lemma keeps_step_end [keep_rules]: "keeps I (step_end t)"
  unfolding step_end_def step_end_result_def by (rule keep_rules frame_intros kept_let_any | assumption | simp add: unchanged_task_def same_job_def)+

lemma keeps_order_after_process [keep_rules]: "keeps I (order_after_process t)"
  unfolding order_after_process_def by (rule keep_rules frame_intros kept_let_any | assumption | simp add: unchanged_task_def same_job_def)+

lemma keeps_operation_finished [keep_rules]: "keeps I (operation_finished t)"
  unfolding operation_finished_def by (rule keep_rules frame_intros kept_let_any | assumption | simp add: unchanged_task_def same_job_def)+

lemma keeps_log_errors [keep_rules]: "keeps I m \<Longrightarrow> keeps I (log_errors m)"
  unfolding log_errors_def by (intro keep_rules)

end

section \<open>Minor changes\<close>

text \<open>
  The relation: nothing happens to the tasks but that one may be told to end, and a job keeps its running tasks.
\<close>

definition same_tasks_of_job :: "job \<Rightarrow> job \<Rightarrow> bool" where
  "same_tasks_of_job x y =
     (j_running y = j_running x \<and> j_max_tasks y = j_max_tasks x \<and> j_running_count y = j_running_count x)"

definition minor :: "'o engine \<Rightarrow> 'o engine \<Rightarrow> bool" where
  "minor w w' =
     ((\<forall>t. unchanged_task (tasks w t) (tasks w' t)) \<and> (\<forall>j. same_tasks_of_job (jobs w j) (jobs w' j))
      \<and> (\<forall>c. pc_processes (classes w' c) = pc_processes (classes w c))
      \<and> next_task w' = next_task w \<and> next_process w' = next_process w \<and> task_set w' = task_set w
      \<and> running_tasks_count w' = running_tasks_count w \<and> clock w' = clock w \<and> rules w' = rules w)"

lemma minor_refl [simp]: "minor w w"
  by (simp add: minor_def same_tasks_of_job_def)

lemma minor_trans: "minor w w' \<Longrightarrow> minor w' w'' \<Longrightarrow> minor w w''"
  unfolding minor_def by (metis same_tasks_of_job_def unchanged_task_trans)

lemma minor_set_task: "minor w0 w \<Longrightarrow> (\<And>x. unchanged_task x (f x)) \<Longrightarrow> minor w0 (set_task t f w)"
  by (erule minor_trans) (simp add: minor_def engine_simps same_tasks_of_job_def)

lemma minor_set_job: "minor w0 w \<Longrightarrow> (\<And>x. same_tasks_of_job x (f x)) \<Longrightarrow> minor w0 (set_job j f w)"
  by (erule minor_trans) (simp add: minor_def engine_simps same_tasks_of_job_def)

interpretation frame: task_frame "minor w0" for w0 :: "'o engine"
proof
  show "minor w0 (set_task t f w)" if "minor w0 w" "\<And>x. unchanged_task x (f x)" for w :: "'o engine" and f t
    using that by (rule minor_set_task)
  show "minor w0 (set_job j f w)" if "minor w0 w" "\<And>x. same_job x (f x)" for w :: "'o engine" and f j
    using that by (intro minor_set_job) (simp_all add: same_job_def same_tasks_of_job_def)
  show "minor w0 (w\<lparr>outer := x\<rparr>)" if "minor w0 w" for w :: "'o engine" and x
    using that by (rule minor_trans) (simp add: minor_def same_tasks_of_job_def)
  show "minor w0 (set_class c pc w)" if "minor w0 w" "pc_processes pc = pc_processes (classes w c)" for w :: "'o engine" and c pc
    using that by (elim minor_trans) (simp add: minor_def engine_simps same_tasks_of_job_def)
qed (erule minor_set_job; simp add: same_tasks_of_job_def)+

text \<open>In the form of a single step.\<close>

lemma minor_of_keeps: "(\<And>w0. keeps (minor w0) m) \<Longrightarrow> minor w (snd (m w))"
  using keepsD [of "minor w" m w] by simp

lemma minor_job_set_state: "minor w0 w \<Longrightarrow> minor w0 (job_set_state j s w)"
  by (erule frame.kept_job_set_state) (rule minor_set_job; simp add: same_tasks_of_job_def)

end
