(* ===== verification/Task_Triples.thy ===== *)
theory Task_Triples
  imports Task_Frames
begin

text \<open>
  How far a task is, as a number (\<open>progress_of\<close>), and triples for the parts of an iteration of
  \<^verbatim>\<open>Task::do_something\<close>: what they do to the state of the task, the enqueued state and the operation. The other
  fields, the job and the answers from outside do not matter for the end of the loop.
\<close>

section \<open>How far a task is\<close>

definition stages :: "task_state list" where
  "stages =
     [Ts_none, Ts_loading, Ts_waiting_for_process, Ts_starting, Ts_opening, Ts_opening_waiting_for_locks,
      Ts_running_delayed, Ts_running_waiting_for_order, Ts_running_waiting_for_locks, Ts_running, Ts_running_process,
      Ts_running_remote_process, Ts_suspended, Ts_ending, Ts_ending_waiting_for_subprocesses, Ts_on_success,
      Ts_on_error, Ts_exit, Ts_release, Ts_killing, Ts_ended, Ts_deleting_files, Ts_closed]"

definition stage :: "task_state \<Rightarrow> nat" where
  "stage s = position stages s"

lemma stage_simps [simp]:
  "stage Ts_none = 0" "stage Ts_loading = 1" "stage Ts_waiting_for_process = 2" "stage Ts_starting = 3"
  "stage Ts_opening = 4" "stage Ts_opening_waiting_for_locks = 5" "stage Ts_running_delayed = 6"
  "stage Ts_running_waiting_for_order = 7" "stage Ts_running_waiting_for_locks = 8" "stage Ts_running = 9"
  "stage Ts_running_process = 10" "stage Ts_running_remote_process = 11" "stage Ts_suspended = 12"
  "stage Ts_ending = 13" "stage Ts_ending_waiting_for_subprocesses = 14" "stage Ts_on_success = 15"
  "stage Ts_on_error = 16" "stage Ts_exit = 17" "stage Ts_release = 18" "stage Ts_killing = 19" "stage Ts_ended = 20"
  "stage Ts_deleting_files = 21" "stage Ts_closed = 22"
  by (simp_all add: stage_def stages_def)

lemma stage_le: "stage s \<le> 22"
  by (cases s) simp_all

lemma stage_ending: "s < Ts_ending \<longleftrightarrow> stage s < 13"
  by (cases s) (simp_all add: task_state_order)

definition weight :: "task_state \<Rightarrow> bool \<Rightarrow> bool \<Rightarrow> nat" where
  "weight s b e = 4 * stage s + (if b then 2 else 0) + (if e then 1 else 0)"

definition told_to_end :: "nat \<Rightarrow> 'o engine \<Rightarrow> bool" where
  "told_to_end t w = (t_end (tasks w t) \<noteq> End_none)"

definition progress_of :: "nat \<Rightarrow> 'o engine \<Rightarrow> nat" where
  "progress_of t w = weight (t_state (tasks w t)) (t_operation (tasks w t)) (told_to_end t w)"

lemma progress_le: "progress_of t w \<le> 91"
  using stage_le [of "t_state (tasks w t)"] by (simp add: progress_of_def weight_def)

text \<open>Operations run in these states only.\<close>

definition operation_states :: "task_state set" where
  "operation_states =
     {Ts_starting, Ts_opening, Ts_running, Ts_running_remote_process, Ts_ending, Ts_ending_waiting_for_subprocesses,
      Ts_on_success, Ts_on_error, Ts_exit, Ts_release, Ts_ended}"

definition operation_ok :: "nat \<Rightarrow> 'o engine \<Rightarrow> bool" where
  "operation_ok t w = (t_operation (tasks w t) \<longrightarrow> t_state (tasks w t) \<in> operation_states)"

text \<open>What is known of the task in the middle of an iteration: \<open>e\<close> is a lower bound.\<close>

definition at_core :: "nat \<Rightarrow> task_state \<Rightarrow> task_state \<Rightarrow> bool \<Rightarrow> bool \<Rightarrow> 'o engine \<Rightarrow> bool" where
  "at_core t s q b e w =
     (t_state (tasks w t) = s \<and> t_enqueued_state (tasks w t) = q \<and> t_operation (tasks w t) = b \<and> (e \<longrightarrow> told_to_end t w))"

definition core_ok :: "nat \<Rightarrow> task_state \<Rightarrow> 'o engine \<Rightarrow> bool" where
  "core_ok t q w = (t_enqueued_state (tasks w t) \<in> {Ts_none, q} \<and> operation_ok t w)"

definition calm :: "nat \<Rightarrow> task_state \<Rightarrow> 'o engine \<Rightarrow> bool" where
  "calm t q w = (t_enqueued_state (tasks w t) \<in> {Ts_none, q} \<and> \<not> t_operation (tasks w t))"

lemma calm_ok: "calm t q w \<Longrightarrow> core_ok t q w"
  by (simp add: calm_def core_ok_def operation_ok_def)

lemma minor_core:
  assumes "minor w w'"
  shows "at_core t s q b e w \<Longrightarrow> at_core t s q b e w'" "core_ok t q w \<Longrightarrow> core_ok t q w'" "calm t q w \<Longrightarrow> calm t q w'"
proof -
  have "unchanged_task (tasks w t) (tasks w' t)" using assms by (simp add: minor_def)
  then show "at_core t s q b e w \<Longrightarrow> at_core t s q b e w'" "core_ok t q w \<Longrightarrow> core_ok t q w'" "calm t q w \<Longrightarrow> calm t q w'"
    by (auto simp: unchanged_task_def at_core_def core_ok_def calm_def operation_ok_def told_to_end_def)
qed

text \<open>What is kept by minor changes is kept by the minor operations.\<close>

lemma keeps_of_minor: "(\<And>w0. keeps (minor w0) m) \<Longrightarrow> (\<And>w w'. I w \<Longrightarrow> minor w w' \<Longrightarrow> I w') \<Longrightarrow> keeps I m"
  by (rule keepsI) (blast intro: minor_of_keeps)

section \<open>Triples for the parts of an iteration\<close>

lemma hoare_minor_core:
  assumes "\<And>w0. keeps (minor w0) m" "\<And>w. at_core t s q b e w \<Longrightarrow> R w"
  shows "hoare (at_core t s q b e) m (\<lambda>_. at_core t s q b e) R"
proof (rule hoareI)
  show "at_core t s q b e w'" if "at_core t s q b e w" "m w = (Inr a, w')" for w a w'
    using that minor_core(1) [OF minor_of_keeps [OF assms(1)], of t s q b e w] by simp
  show "R w'" if "at_core t s q b e w" "m w = (Inl x, w')" for w x w'
    using that assms(2) minor_core(1) [OF minor_of_keeps [OF assms(1)], of t s q b e w] by simp
qed

lemma change_task_state_core:
  "t_state (tasks (change_task_state t s w) t) = s"
  "t_enqueued_state (tasks (change_task_state t s w) t) = t_enqueued_state (tasks w t)"
  "t_operation (tasks (change_task_state t s w) t) = t_operation (tasks w t)"
  "told_to_end t w \<Longrightarrow> told_to_end t (change_task_state t s w)"
proof -
  have "minor w (enter_task_state t s (leave_running t w))" by (intro frame_intros minor_refl)
  then have "unchanged_task (tasks w t) (tasks (enter_task_state t s (leave_running t w)) t)" by (simp add: minor_def)
  then show "t_state (tasks (change_task_state t s w) t) = s"
    "t_enqueued_state (tasks (change_task_state t s w) t) = t_enqueued_state (tasks w t)"
    "t_operation (tasks (change_task_state t s w) t) = t_operation (tasks w t)"
    "told_to_end t w \<Longrightarrow> told_to_end t (change_task_state t s w)"
    by (auto simp: change_task_state_def Let_def count_running_def engine_simps unchanged_task_def told_to_end_def)
qed

lemma set_state_direct_core:
  assumes "at_core t s q b e w"
  shows "at_core t s' Ts_none b e (snd (set_state_direct t s' w))"
proof -
  let ?w = "set_task t (\<lambda>x. x\<lparr>t_enqueued_state := Ts_none\<rparr>) w"
  have w: "at_core t s Ts_none b e ?w" using assms by (simp add: at_core_def engine_simps told_to_end_def)
  show ?thesis
  proof (cases "s' = t_state (tasks ?w t)")
    case True
    then show ?thesis using w by (simp add: set_state_direct_def apply_s_def when_s_def at_core_def)
  next
    case False
    have "at_core t s' Ts_none b e (change_task_state t s' ?w)"
      using w change_task_state_core(1-3) [of t s' ?w] change_task_state_core(4) [of t ?w s'] by (simp add: at_core_def)
    then have "at_core t s' Ts_none b e (snd (make_room_if_idle t (change_task_state t s' ?w)))"
      by (rule minor_core(1) [OF minor_of_keeps [OF frame.keeps_make_room]])
    then show ?thesis using False
      by (auto simp: set_state_direct_def apply_s_def when_s_def split: prod.splits sum.splits)
  qed
qed

named_theorems core_hoare \<open>triples over what is known of a task\<close>
named_theorems core_control \<open>triples for control structures\<close>

lemma hoare_set_state_direct [core_hoare]:
  assumes "\<And>w. at_core t s' Ts_none b e w \<Longrightarrow> R w"
  shows "hoare (at_core t s q b e) (set_state_direct t s') (\<lambda>_. at_core t s' Ts_none b e) R"
proof (rule hoareI)
  show "at_core t s' Ts_none b e w'" if "at_core t s q b e w" "set_state_direct t s' w = (Inr a, w')" for w a w'
    using set_state_direct_core [OF that(1), of s'] that(2) by simp
  show "R w'" if "at_core t s q b e w" "set_state_direct t s' w = (Inl x, w')" for w x w'
    using set_state_direct_core [OF that(1), of s'] that(2) assms by simp
qed

lemma hoare_start_operation [core_hoare]:
  assumes "\<And>w. at_core t s q False e w \<Longrightarrow> R w"
  shows "hoare (at_core t s q False e) (start_operation t) (\<lambda>_. at_core t s q True e) R"
proof -
  have set: "at_core t s q True e (set_task t (\<lambda>x. x\<lparr>t_operation := True\<rparr>) w)" if "at_core t s q False e w" for w
    using that by (simp add: at_core_def engine_simps told_to_end_def)
  have 1: "hoare (at_core t s q False e)
      (bind_s (ask (Start_operation t u)) (\<lambda>_. apply_s (set_task t (\<lambda>x. x\<lparr>t_operation := True\<rparr>))))
      (\<lambda>_. at_core t s q True e) R" for u
    by (rule hoare_bind_s, rule hoare_minor_core, rule frame.keeps_ask, erule assms, rule hoare_apply_s, erule set)
  have 2: "hoare (at_core t s q False e) (apply_s (set_task t (\<lambda>x. x\<lparr>t_operation := True\<rparr>))) (\<lambda>_. at_core t s q True e) R"
    by (rule hoare_apply_s, erule set)
  have 3: "hoare (at_core t s q False e) (throw x) (\<lambda>_. at_core t s q True e) R" for x :: xc
    by (rule hoare_throw, erule assms)
  show ?thesis
    unfolding start_operation_def
    by (rule hoare_bind_s, rule hoare_minor_core, rule keep_rules, erule assms) (simp add: 1 2 3)
qed

lemma close_operation_core: "at_core t s q b e w \<Longrightarrow> at_core t s q False e (close_operation t w)"
  by (cases b) (auto simp: close_operation_def at_core_def engine_simps told_to_end_def)

lemma hoare_close_operation [core_hoare]:
  "hoare (at_core t s q b e) (apply_s (close_operation t)) (\<lambda>_. at_core t s q False e) R"
  by (rule hoare_apply_s) (rule close_operation_core)

lemma keeps_minor_operation_result [keep_rules]:
  "keeps (minor w0) (catch_s (bind_s (read_s (\<lambda>w. t_state (tasks w t))) (end_of_operation t))
               (\<lambda>x. bind_s (apply_s (task_set_error t (code_of x))) (\<lambda>_. ret False)))"
  by (rule keep_rules frame_intros frame.kept_let_any | assumption | simp add: unchanged_task_def same_job_def)+

lemma hoare_ret_core: "hoare P (ret a) (\<lambda>_. P) R"
  by (rule hoare_ret)

lemma hoare_operation_end [core_hoare]:
  assumes "\<And>w b. at_core t s q b e w \<Longrightarrow> R w"
  shows "hoare (at_core t s q b e) (operation_end t) (\<lambda>_. at_core t s q False e) R"
  unfolding operation_end_def
  by (rule hoare_bind_s, rule hoare_minor_core, rule keeps_minor_operation_result, erule assms,
      rule hoare_bind_s, rule hoare_close_operation, rule hoare_ret_core)

lemma hoare_told [core_hoare]:
  "hoare (at_core t s q b e) (apply_s (set_task t (\<lambda>x. x\<lparr>t_end := End_normal\<rparr>))) (\<lambda>_. at_core t s q b True) R"
  by (rule hoare_apply_s) (simp add: at_core_def engine_simps told_to_end_def)

text \<open>Conditions on the operation are known.\<close>

lemma hoare_if_operation [core_hoare]:
  "hoare (at_core t s q True e) n Q R \<Longrightarrow> hoare (at_core t s q True e) (if_s (\<lambda>w. \<not> t_operation (tasks w t)) m n) Q R"
  "hoare (at_core t s q False e) m Q R \<Longrightarrow> hoare (at_core t s q False e) (if_s (\<lambda>w. \<not> t_operation (tasks w t)) m n) Q R"
  "hoare (at_core t s q True e) m Q R \<Longrightarrow> hoare (at_core t s q True e) (if_s (\<lambda>w. t_operation (tasks w t)) m n) Q R"
  "hoare (at_core t s q False e) n Q R \<Longrightarrow> hoare (at_core t s q False e) (if_s (\<lambda>w. t_operation (tasks w t)) m n) Q R"
  by (auto simp: hoare_def if_s_def at_core_def)

lemma hoare_if_any [core_control]: "hoare P m Q R \<Longrightarrow> hoare P n Q R \<Longrightarrow> hoare P (if_s c m n) Q R"
  by (auto simp: hoare_def if_s_def)

lemma hoare_cond [core_control]: "hoare P m Q R \<Longrightarrow> hoare P n Q R \<Longrightarrow> hoare P (if c then m else n) Q R"
  by simp

lemma hoare_when_const:
  "(c \<Longrightarrow> hoare P m Q R) \<Longrightarrow> (\<not> c \<Longrightarrow> hoare P (ret ()) Q R) \<Longrightarrow> hoare P (when_s (\<lambda>_. c) m) Q R"
  by (auto simp: hoare_def when_s_def ret_def)

lemmas [core_control] = hoare_bind_s hoare_ret hoare_throw

lemma hoare_then_verdict [core_control]:
  "hoare P (steps ms) (\<lambda>_. P') R \<Longrightarrow> (\<And>w. P' w \<Longrightarrow> Q v w) \<Longrightarrow> hoare P (then_verdict ms v) Q R"
  unfolding then_verdict_def by (rule hoare_bind_s) (assumption, rule hoare_ret)

lemma hoare_steps1 [core_control]: "hoare P m (\<lambda>_. P') R \<Longrightarrow> hoare P (steps [m]) (\<lambda>_. P') R"
  by (rule hoare_steps_Cons) (assumption, rule hoare_steps_Nil)

lemma hoare_steps2 [core_control]:
  "hoare P m (\<lambda>_. P') R \<Longrightarrow> hoare P' (steps (m' # ms)) Q R \<Longrightarrow> hoare P (steps (m # m' # ms)) Q R"
  by (rule hoare_steps_Cons)

lemma hoare_read_bool [core_hoare]:
  "hoare P (g True) Q R \<Longrightarrow> hoare P (g False) Q R \<Longrightarrow> hoare P (bind_s (read_s p) g) Q R"
  by (auto simp: hoare_def bind_s_def read_s_def) (metis (full_types))+

lemma hoare_when_known [core_hoare]:
  "hoare P m Q R \<Longrightarrow> hoare P (when_s (\<lambda>_. True) m) Q R" "hoare P (when_s (\<lambda>_. False) m) (\<lambda>_. P) R"
  by (auto simp: hoare_def when_s_def)

text \<open>A state that is computed from the engine.\<close>

lemma hoare_computed_state:
  assumes "\<And>w. f w \<in> S" "\<And>s' w. s' \<in> S \<Longrightarrow> at_core t s' Ts_none b e w \<Longrightarrow> R w"
  shows "hoare (at_core t s q b e) (bind_s (read_s f) (set_state_direct t))
           (\<lambda>_ w. \<exists>s' \<in> S. at_core t s' Ts_none b e w) R"
proof (rule hoareI)
  show "\<exists>s' \<in> S. at_core t s' Ts_none b e w'"
    if "at_core t s q b e w" "bind_s (read_s f) (set_state_direct t) w = (Inr a, w')" for w a w'
    using that set_state_direct_core [OF that(1), of "f w"] assms(1) [of w] by (auto simp: bind_s_def read_s_def)
  show "R w'" if "at_core t s q b e w" "bind_s (read_s f) (set_state_direct t) w = (Inl x, w')" for w x w'
    using that set_state_direct_core [OF that(1), of "f w"] assms by (auto simp: bind_s_def read_s_def)
qed

lemma hoare_some_state [core_hoare]:
  "hoare (at_core t s' q b e) m Q R \<Longrightarrow> hoare (\<lambda>w. \<exists>s' \<in> S. at_core t s' q b e w) m Q R
   \<Longrightarrow> hoare (\<lambda>w. \<exists>s' \<in> insert s' S. at_core t s' q b e w) m Q R"
  "hoare (\<lambda>w. \<exists>s' \<in> {}. at_core t s' q b e w) m Q R"
  by (auto simp: hoare_def)

section \<open>Operations without an operation\<close>

text \<open>The module instance's operation is neither there nor started.\<close>

lemma keeps_calm_minor: "(\<And>w0. keeps (minor w0) m) \<Longrightarrow> keeps (calm t q) m"
  by (rule keeps_of_minor) (auto intro: minor_core)

lemma calm_set_state_direct [keep_rules]: "keeps (calm t q) (set_state_direct t s')"
proof (rule keepsI)
  fix w :: "'a engine" assume "calm t q w"
  then have "at_core t (t_state (tasks w t)) (t_enqueued_state (tasks w t)) False False w" by (simp add: at_core_def calm_def)
  then show "calm t q (snd (set_state_direct t s' w))"
    using set_state_direct_core [of t _ _ False False w s'] by (fastforce simp: at_core_def calm_def)
qed

lemma keeps_calm_apply: "(\<And>w0 w. minor w0 w \<Longrightarrow> minor w0 (f w)) \<Longrightarrow> keeps (calm t q) (apply_s f)"
  by (rule keeps_calm_minor) (rule frame.keeps_apply)

lemma core_calm: "at_core t s q False e w \<Longrightarrow> calm t q w"
  by (simp add: at_core_def calm_def)

lemma hoare_calm: "keeps (calm t q) m \<Longrightarrow> hoare (at_core t s q False e) m (\<lambda>_. calm t q) (core_ok t q)"
  unfolding keeps_def by (erule hoare_weaken [OF hoare_strengthen]) (auto intro: calm_ok core_calm)

lemma hoare_keeps_calm: "keeps (calm t q) m \<Longrightarrow> hoare (calm t q) m (\<lambda>_. calm t q) (core_ok t q)"
  unfolding keeps_def by (erule hoare_strengthen) (auto intro: calm_ok)

lemma hoare_set_state_calm:
  "hoare (calm t q) (set_state_direct t s') (\<lambda>_. at_core t s' Ts_none False False) (core_ok t q)"
proof (rule hoareI)
  fix w :: "'a engine" assume calm: "calm t q w"
  then have c: "at_core t (t_state (tasks w t)) (t_enqueued_state (tasks w t)) False False w" by (simp add: at_core_def calm_def)
  show "at_core t s' Ts_none False False w'" if "set_state_direct t s' w = (Inr a, w')" for a w'
    using set_state_direct_core [OF c, of s'] that by simp
  show "core_ok t q w'" if "set_state_direct t s' w = (Inl x, w')" for x w'
    using keepsD [OF calm_set_state_direct calm, of s'] that by (auto intro: calm_ok)
qed

end
