(* ===== verification/Task_Branches.thy ===== *)
theory Task_Branches
  imports Task_Triples
begin

text \<open>
  The branches of \<^verbatim>\<open>switch( _state )\<close>, one by one: none of them asks for another iteration, or leaves an operation
  behind that may be finished already, unless the task has come forward.
\<close>

section \<open>The branches\<close>

text \<open>
  A branch that starts in state \<open>s\<close> is good: if it asks for another iteration, or leaves an operation behind that may
  be finished already, the task has come forward, and it does not fall back behind its end.
\<close>

definition good :: "nat \<Rightarrow> task_state \<Rightarrow> bool \<Rightarrow> bool \<Rightarrow> task_state \<Rightarrow> verdict \<Rightarrow> 'o engine \<Rightarrow> bool" where
  "good t s b e q v w =
     (core_ok t q w \<and> (v_loop v \<or> t_operation (tasks w t) \<longrightarrow> weight s b e < progress_of t w)
      \<and> (13 \<le> stage s \<longrightarrow> 13 \<le> stage (t_state (tasks w t))))"

definition good_branch :: "nat \<Rightarrow> task_state \<Rightarrow> bool \<Rightarrow> bool \<Rightarrow> task_state \<Rightarrow> ('o engine, verdict) operation \<Rightarrow> bool" where
  "good_branch t s b e q m = hoare (at_core t s q b e) m (good t s b e q) (core_ok t q)"

lemma core_progress: "at_core t s q b e w \<Longrightarrow> weight s b e \<le> progress_of t w"
  by (auto simp: at_core_def progress_of_def weight_def)

lemma core_good:
  assumes "at_core t s' q' b' e' w" "q' \<in> {Ts_none, q}" "b' \<longrightarrow> s' \<in> operation_states"
    "v_loop v \<or> b' \<longrightarrow> weight s b e < weight s' b' e'" "13 \<le> stage s \<longrightarrow> 13 \<le> stage s'"
  shows "good t s b e q v w"
  using assms core_progress [OF assms(1)] by (auto simp: good_def core_ok_def operation_ok_def at_core_def)

lemma calm_good: "calm t q w \<Longrightarrow> \<not> v_loop v \<Longrightarrow> stage s < 13 \<Longrightarrow> good t s b e q v w"
  using calm_ok [of t q w] by (simp add: good_def calm_def)

lemma core_core_ok: "at_core t s' q' b' e' w \<Longrightarrow> q' \<in> {Ts_none, q} \<Longrightarrow> b' \<longrightarrow> s' \<in> operation_states \<Longrightarrow> core_ok t q w"
  by (auto simp: core_ok_def operation_ok_def at_core_def)

lemma verdict_simps [simp]:
  "v_loop (verdict_of ok again something) = again" "v_ok (verdict_of ok again something) = ok"
  "v_something (verdict_of ok again something) = something"
  by (simp_all add: verdict_of_def)

lemma hoare_state_after_start [core_hoare]:
  assumes "\<And>s' w. at_core t s' Ts_none b e w \<Longrightarrow> R w"
  shows "hoare (at_core t s q b e) (bind_s (read_s (state_after_start t ok)) (set_state_direct t))
     (\<lambda>_ w. \<exists>s' \<in> {Ts_ending, Ts_running_remote_process, Ts_running_process, Ts_opening}. at_core t s' Ts_none b e w) R"
  by (rule hoare_computed_state) (simp_all add: state_after_start_def assms)

lemma good_plain_branches:
  "good_branch t Ts_starting True e q (starting_branch t now)"
  "good_branch t Ts_starting False e q (starting_branch t now)"
  "good_branch t Ts_opening True e q (opening_branch t)"
  "good_branch t Ts_opening False e q (opening_branch t)"
  "good_branch t Ts_on_success True e q (operation_branch t Ts_exit)"
  "good_branch t Ts_on_success False e q (operation_branch t Ts_exit)"
  "good_branch t Ts_on_error True e q (operation_branch t Ts_exit)"
  "good_branch t Ts_on_error False e q (operation_branch t Ts_exit)"
  "good_branch t Ts_exit True e q (operation_branch t Ts_release)"
  "good_branch t Ts_exit False e q (operation_branch t Ts_release)"
  "good_branch t Ts_release True e q (operation_branch t Ts_killing)"
  "good_branch t Ts_release False e q (operation_branch t Ts_killing)"
  "good_branch t Ts_running_remote_process True e q (running_remote_process_branch t)"
  "good_branch t Ts_running_remote_process False e q (running_remote_process_branch t)"
  "good_branch t Ts_running_process False e q (running_process_branch t now)"
  "good_branch t Ts_running_delayed False e q (running_delayed_branch t now)"
  "good_branch t Ts_killing False e q (killing_branch t)"
  "good_branch t Ts_ended True e q (ended_branch t)"
  "good_branch t Ts_ended False e q (ended_branch t)"
  "good_branch t Ts_ending True e q (ending_branch t)"
  "good_branch t Ts_ending False e q (ending_branch t)"
  unfolding good_branch_def starting_branch_def start_branch_def opening_branch_def operation_branch_def running_remote_process_branch_def remote_process_step_end_def running_process_branch_def running_delayed_branch_def killing_branch_def ended_branch_def ending_branch_def
  by ((rule core_hoare | rule core_control
      | (rule hoare_minor_core, ((rule keep_rules frame_intros frame.kept_let_any | assumption | simp add: unchanged_task_def same_job_def)+)[1])
      | (erule core_good core_core_ok; simp add: operation_states_def weight_def) | assumption)+)

lemma hoare_keeps_core:
  assumes "keeps (at_core t s q b e) m" "\<And>w. at_core t s q b e w \<Longrightarrow> R w"
  shows "hoare (at_core t s q b e) m (\<lambda>_. at_core t s q b e) R"
proof (rule hoareI)
  show "at_core t s q b e w'" if "at_core t s q b e w" "m w = (Inr a, w')" for w a w'
    using keepsD [OF assms(1) that(1)] that(2) by simp
  show "R w'" if "at_core t s q b e w" "m w = (Inl x, w')" for w x w'
    using keepsD [OF assms(1) that(1)] that(2) assms(2) by simp
qed

lemma keeps_core_minor: "(\<And>w0. keeps (minor w0) m) \<Longrightarrow> keeps (at_core t s q b e) m"
  by (rule keeps_of_minor) (auto intro: minor_core)

lemma calm_select [keep_rules]: "keeps (calm t q) (class_select_process c conf)"
  by (rule keepsI) (auto simp: class_select_process_def calm_def engine_simps split: sum.splits prod.splits option.splits)

lemma calm_apply [keep_rules]:
  "(\<And>x. t_enqueued_state (f x) = t_enqueued_state x \<and> t_operation (f x) = t_operation x)
   \<Longrightarrow> keeps (calm t q) (apply_s (set_task u f))"
  by (rule keeps_apply_s) (auto simp: calm_def engine_simps)

lemmas calm_minor_rules = keeps_calm_minor [OF frame.keeps_process_class_of] keeps_calm_minor [OF frame.keeps_ask]
  keeps_calm_minor [OF frame.keeps_requestors(1)] keeps_calm_minor [OF frame.keeps_requestors(2)]

lemma calm_get_process [keep_rules]: "keeps (calm t q) (try_to_get_process t)"
  unfolding try_to_get_process_def
  by (rule keep_rules calm_minor_rules | simp)+

lemma hoare_waiting_branch:
  "hoare (at_core t s q False e) (waiting_branch t) (\<lambda>v w. calm t q w \<and> \<not> v_loop v) (core_ok t q)"
proof -
  have 1: "keeps (calm t q) (if ok then steps [leave_requestors t, set_state_direct t Ts_starting]
        else when_s (\<lambda>w. t_state (tasks w t) \<noteq> Ts_waiting_for_process)
               (steps [when_s (\<lambda>w. t_process (tasks w t) = None) (enter_requestors t),
                       set_state_direct t Ts_waiting_for_process]))" for ok
    by (rule keep_rules calm_minor_rules | simp)+
  have 2: "keeps (calm t q) (when_s (\<lambda>w. t_process (tasks w t) \<noteq> None) (leave_requestors t))"
    by (rule keep_rules calm_minor_rules)+
  have 3: "keeps (calm t q) (try_s f)" for f
    by (rule keep_rules)
  show ?thesis
    unfolding waiting_branch_def
    by (rule hoare_bind_s hoare_calm [OF 3] hoare_keeps_calm [OF calm_get_process] hoare_keeps_calm [OF 1]
         hoare_keeps_calm [OF 2] hoare_ret | simp)+
qed

lemma hoare_after_calm: "hoare (calm t q) m Q (core_ok t q) \<Longrightarrow> keeps (calm t q) l \<Longrightarrow>
    hoare (at_core t s q False e) (bind_s l (\<lambda>_. m)) Q (core_ok t q)"
  by (rule hoare_bind_s [OF hoare_calm])

lemma good_waiting:
  "stage s < 13 \<Longrightarrow> good_branch t s False e q (waiting_branch t)"
  unfolding good_branch_def by (rule hoare_strengthen [OF hoare_waiting_branch]) (auto intro: calm_good)

lemma good_loading: "good_branch t Ts_loading False e q (loading_branch t)"
  unfolding good_branch_def loading_branch_def
proof (rule hoare_bind_s)
  show "hoare (at_core t Ts_loading q False e) (task_load t) (\<lambda>_. at_core t Ts_loading q False e) (core_ok t q)"
    by (rule hoare_minor_core [OF frame.keeps_task_load]) (auto intro: core_core_ok)
  have yes: "hoare (at_core t Ts_loading q False e :: 'a engine \<Rightarrow> bool) (bind_s (waiting_branch t) (\<lambda>v. ret (v\<lparr>v_something := True\<rparr>)))
      (good t Ts_loading False e q) (core_ok t q)"
    by (rule hoare_bind_s [OF hoare_waiting_branch]) (auto intro!: hoare_ret calm_good)
  have no: "hoare (at_core t Ts_loading q False e :: 'a engine \<Rightarrow> bool) (then_verdict [set_state_direct t Ts_release] (verdict_of True True True))
      (good t Ts_loading False e q) (core_ok t q)"
    by ((rule core_hoare | rule core_control | (erule core_good core_core_ok; simp add: operation_states_def weight_def))+)
  show "hoare (at_core t Ts_loading q False e :: 'a engine \<Rightarrow> bool)
      (if ok then bind_s (waiting_branch t) (\<lambda>v. ret (v\<lparr>v_something := True\<rparr>))
       else then_verdict [set_state_direct t Ts_release] (verdict_of True True True))
      (good t Ts_loading False e q) (core_ok t q)" for ok
    using yes no by simp
qed

lemma calm_locks_after_step: "keeps (calm t q) (locks_after_step t ok)"
  unfolding locks_after_step_def
  by (rule keep_rules keeps_calm_apply frame_intros | assumption | simp)+

lemma hoare_locks_after_step:
  "hoare (at_core t s q False e) (locks_after_step t ok) (\<lambda>_. calm t q) (core_ok t q)"
  by (rule hoare_calm [OF calm_locks_after_step])

lemma hoare_calm_assert: "hoare (calm t q) (assert_s h c) (\<lambda>_. calm t q) (core_ok t q)"
  by (rule hoare_keeps_calm) (rule keep_rules)

lemma hoare_calm_read: "hoare (calm t q) (read_s f) (\<lambda>_. calm t q) (core_ok t q)"
  by (rule hoare_keeps_calm) (rule keep_rules)

lemma hoare_end_of_step:
  "hoare (calm t q)
     (bind_s (when_s (\<lambda>_. failed) (set_state_direct t Ts_ending)) (\<lambda>_.
        then_verdict [apply_s (call_task t Try_next_step_call (Time 0))] (verdict_of ok failed True)))
     (good t Ts_running b e q) (core_ok t q)"
proof (cases failed)
  case True
  have "hoare (at_core t Ts_ending Ts_none False False)
      (then_verdict [apply_s (call_task t Try_next_step_call (Time 0))] (verdict_of ok True True))
      (good t Ts_running b e q) (core_ok t q)"
    by ((rule core_hoare | rule core_control | (rule hoare_minor_core, ((rule keep_rules frame_intros frame.kept_let_any | assumption | simp add: unchanged_task_def same_job_def)+)[1]) | (erule core_good core_core_ok; simp add: operation_states_def weight_def))+)
  then show ?thesis using True by (auto intro: hoare_bind_s hoare_when_known hoare_set_state_calm)
next
  case False
  have "keeps (calm t q) (apply_s (call_task t Try_next_step_call (Time 0)))"
    by (rule keeps_calm_apply) (rule frame_intros)
  then have "hoare (calm t q) (then_verdict [apply_s (call_task t Try_next_step_call (Time 0))] (verdict_of ok False True))
      (good t Ts_running b e q) (core_ok t q)"
    by (auto intro!: hoare_then_verdict hoare_steps1 hoare_keeps_calm calm_good simp del: steps.simps)
  then show ?thesis using False by (auto intro: hoare_bind_s hoare_when_known)
qed

lemma good_after_step: "hoare (at_core t Ts_running q True e) (after_step t) (good t Ts_running True e q) (core_ok t q)"
  unfolding after_step_def
  by ((rule hoare_end_of_step hoare_calm_assert hoare_calm_read hoare_locks_after_step hoare_close_operation hoare_bind_s | (rule hoare_minor_core, ((rule keep_rules frame_intros frame.kept_let_any | assumption | simp add: unchanged_task_def same_job_def)+)[1]) | (erule core_core_ok; simp add: operation_states_def))+)

lemma hoare_wait_for_order [core_hoare]:
  assumes "stage s < 13"
  shows "hoare (at_core t s q False e) (wait_for_order t now) (\<lambda>v w. at_core t Ts_running_waiting_for_order Ts_none False e w \<and> \<not> v_loop v) (core_ok t q)"
  unfolding wait_for_order_def
  by (rule hoare_then_verdict hoare_steps2 hoare_steps1 hoare_set_state_direct
      | (rule hoare_minor_core, ((rule keep_rules frame_intros frame.kept_let_any | assumption | simp add: unchanged_task_def)+)[1])
      | (erule core_core_ok; simp) | simp)+

lemma hoare_wait_good:
  "stage s < 13 \<Longrightarrow> hoare (at_core t s q False e) (wait_for_order t now) (good t s False e q) (core_ok t q)"
  by (rule hoare_strengthen [OF hoare_wait_for_order]) (auto elim!: core_good)

lemma good_running_step:
  "good_branch t Ts_running True e q (running_branch t now)"
  unfolding good_branch_def running_branch_def 
  by (rule hoare_if_operation good_after_step)+

lemma hoare_fetch [core_hoare]:
  "hoare (at_core t s q False e) (task_fetch_and_occupy_order t now) (\<lambda>_. at_core t s q False e) (core_ok t q)"
  by (rule hoare_minor_core [OF frame.keeps_fetch]) (auto intro: core_core_ok)

lemma hoare_next_step:
  "hoare (at_core t Ts_running q False e) (next_step t now) (good t Ts_running False e q) (core_ok t q)"
  unfolding next_step_def
  by ((rule core_hoare | rule core_control | (rule hoare_minor_core, ((rule keep_rules frame_intros frame.kept_let_any | assumption | simp add: unchanged_task_def same_job_def)+)[1]) | (erule core_good core_core_ok; simp add: operation_states_def weight_def))+)

lemma good_running_idle:
  "good_branch t Ts_running False e q (running_branch t now)"
  unfolding good_branch_def running_branch_def
proof (rule hoare_if_operation, rule hoare_if_any, goal_cases)
  case 1
  show ?case
    by ((rule core_hoare | rule core_control | (erule core_good core_core_ok; simp add: operation_states_def weight_def))+)
next
  case 2
  show ?case
    by (rule hoare_bind_s [OF hoare_fetch] hoare_cond hoare_if_any hoare_wait_good hoare_next_step | simp)+
qed

lemma good_waiting_for_order:
  "good_branch t Ts_running_waiting_for_order False False q (waiting_for_order_branch t now)"
  unfolding good_branch_def waiting_for_order_branch_def
proof (rule hoare_if_any, goal_cases)
  case 1
  show ?case
    by ((rule core_hoare | rule core_control | (erule core_good core_core_ok; simp add: operation_states_def weight_def))+)
next
  case 2
  have 1: "hoare (at_core t Ts_running_waiting_for_order q False False)
      (bind_s (wait_for_order t now) (\<lambda>v. ret (v\<lparr>v_something := True\<rparr>))) (good t Ts_running_waiting_for_order False False q) (core_ok t q)"
    by (rule hoare_bind_s [OF hoare_wait_for_order]) (auto intro!: hoare_ret elim!: core_good)
  have 2: "hoare (at_core t Ts_running_waiting_for_order q False False) (idle_time_is_over t now)
      (good t Ts_running_waiting_for_order False False q) (core_ok t q)"
    unfolding idle_time_is_over_def
    by ((rule hoare_if_any 1 core_hoare | rule core_control | (erule core_good core_core_ok; simp add: operation_states_def weight_def))+)
  have 3: "hoare (at_core t Ts_running_waiting_for_order q False False)
      (then_verdict [set_state_direct t Ts_running] (verdict_of True True False))
      (good t Ts_running_waiting_for_order False False q) (core_ok t q)"
    by ((rule core_hoare | rule core_control | (erule core_good core_core_ok; simp add: operation_states_def weight_def))+)
  have 4: "hoare (at_core t Ts_running_waiting_for_order q False False)
      (then_verdict [apply_s (set_task t (\<lambda>x. x\<lparr>t_running_state_reached := True\<rparr>))] (verdict_of True False False))
      (good t Ts_running_waiting_for_order False False q) (core_ok t q)"
    by ((rule core_control | (rule hoare_minor_core, ((rule keep_rules frame_intros frame.kept_let_any | assumption | simp add: unchanged_task_def same_job_def)+)[1]) | (erule core_good core_core_ok; simp add: operation_states_def weight_def))+)
  show ?case
    by (rule hoare_bind_s [OF hoare_fetch] hoare_cond hoare_if_any 2 3 4 | simp)+
qed


lemma hoare_any_operation [core_hoare]:
  "hoare (at_core t s q True e) m Q R \<Longrightarrow> hoare (at_core t s q False e) m Q R \<Longrightarrow>
   hoare (\<lambda>w. \<exists>b. at_core t s q b e w) m Q R"
  unfolding hoare_def by (metis (full_types))

lemma hoare_or: "hoare P m Q R \<Longrightarrow> hoare P' m Q R \<Longrightarrow> hoare (\<lambda>w. P w \<or> P' w) m Q R"
  by (auto simp: hoare_def)

lemma hoare_waiting_for_subprocesses:
  "hoare (at_core t Ts_ending_waiting_for_subprocesses q b e) (waiting_for_subprocesses t)
     (\<lambda>_ w. at_core t Ts_ending_waiting_for_subprocesses q False e w \<or>
        \<not> b \<and> at_core t Ts_ending_waiting_for_subprocesses q True e w) (core_ok t q)"
proof (cases b)
  case True
  have "hoare (at_core t Ts_ending_waiting_for_subprocesses q True e) (waiting_for_subprocesses t)
     (\<lambda>_. at_core t Ts_ending_waiting_for_subprocesses q False e) (core_ok t q)"
    unfolding waiting_for_subprocesses_def
    by ((rule core_hoare | rule core_control | (erule core_core_ok; simp add: operation_states_def) | assumption)+)
  then show ?thesis using True by (auto elim: hoare_strengthen)
next
  case False
  let ?P = "at_core t Ts_ending_waiting_for_subprocesses q False e"
  let ?Q = "\<lambda>w. ?P w \<or> at_core t Ts_ending_waiting_for_subprocesses q True e w"
  have 1: "hoare ?P (start_operation t) (\<lambda>_. ?Q) (core_ok t q)"
    by (rule hoare_strengthen [OF hoare_start_operation]) (auto elim: core_core_ok)
  have 2: "hoare ?P (catch_s (bind_s (ask (Wait_for_subprocesses t)) (\<lambda>_. ret ()))
                (\<lambda>e. apply_s (task_set_error t (code_of e)))) (\<lambda>_. ?Q) (core_ok t q)"
    by (rule hoare_strengthen, rule hoare_minor_core, ((rule keep_rules frame_intros | assumption)+)[1]) (auto elim: core_core_ok)
  have "hoare ?P (waiting_for_subprocesses t) (\<lambda>_. ?Q) (core_ok t q)"
    unfolding waiting_for_subprocesses_def
    by (rule hoare_if_operation, rule hoare_when_s, rule hoare_weaken, rule hoare_if_any [OF 1 2]) auto
  then show ?thesis using False by simp
qed

lemma hoare_read_operation:
  "hoare (at_core t s q b e) (g (\<not> b)) Q R \<Longrightarrow> hoare (at_core t s q b e) (bind_s (read_s (\<lambda>w. \<not> t_operation (tasks w t))) g) Q R"
  by (auto simp: hoare_def bind_s_def read_s_def at_core_def)

lemma good_waiting_for_subprocesses:
  "good_branch t Ts_ending_waiting_for_subprocesses b e q (waiting_for_subprocesses_branch t)"
proof -
  let ?s = Ts_ending_waiting_for_subprocesses
  let ?rest = "\<lambda>over. then_verdict
         [when_s (\<lambda>_. over)
            (bind_s (read_s (\<lambda>w. if has_error t w then Ts_on_error else Ts_on_success)) (set_state_direct t))]
         (verdict_of True over True)"
  have 1: "hoare (at_core t ?s q False e) (bind_s (read_s (\<lambda>w. if has_error t w then Ts_on_error else Ts_on_success)) (set_state_direct t))
     (\<lambda>_ w. \<exists>s' \<in> {Ts_on_error, Ts_on_success}. at_core t s' Ts_none False e w) (core_ok t q)"
    by (rule hoare_computed_state) (auto elim!: core_core_ok simp: operation_states_def)
  have over: "hoare (at_core t ?s q False e) (?rest True) (good t ?s b e q) (core_ok t q)"
    by (rule hoare_then_verdict, rule hoare_steps1, rule hoare_when_known, rule 1)
       (auto elim!: core_good simp: operation_states_def weight_def)
  have still: "hoare (at_core t ?s q True e) (?rest False) (good t ?s False e q) (core_ok t q)"
    by (rule hoare_then_verdict, rule hoare_steps1, rule hoare_when_known)
       (auto elim!: core_good simp: operation_states_def weight_def)
  show ?thesis
    unfolding good_branch_def waiting_for_subprocesses_branch_def
    using over still
    by (intro hoare_bind_s [OF hoare_waiting_for_subprocesses])
       (cases b; auto intro!: hoare_or hoare_read_operation)
qed

lemma calm_new_task: "keeps (calm t q) (create_task j force start_at)"
proof (rule keepsI)
  fix w :: "'a engine" assume c: "calm t q w"
  let ?w = "if j_state (jobs w j) = Js_stopped \<and> force \<and> scheduler_state w \<noteq> Sp_stopping then job_set_state j Js_pending w else w"
  have m: "minor w ?w" by (auto intro: minor_job_set_state)
  then have "calm t q ?w" using c by (rule minor_core)
  then show "calm t q (snd (create_task j force start_at w))"
    using c by (auto simp: create_task_def Let_def calm_def engine_simps new_task_of_def)
qed

lemma minor_queue_enqueue: "minor w0 w \<Longrightarrow> minor w0 (queue_enqueue_task j t w)"
  unfolding queue_enqueue_task_def Let_def by (intro minor_set_job frame_intros) (simp_all add: same_tasks_of_job_def)

lemma keeps_minor_enqueue_task [keep_rules]:
  "keeps (calm t q) (enqueue_task j u)"
proof (rule keepsI)
  fix w :: "'a engine" assume c: "calm t q w"
  have "calm t q (set_task u (\<lambda>x. x\<lparr>t_let_run := True\<rparr>) w)" using c by (auto simp: calm_def engine_simps)
  then have "calm t q (call_job j Start_queued_task_call due (queue_enqueue_task j u (set_task u (\<lambda>x. x\<lparr>t_let_run := True\<rparr>) w)))"
    for due by (rule minor_core(3) [rotated]) (intro frame.kept_call_job minor_queue_enqueue minor_refl)
  then show "calm t q (snd (enqueue_task j u w))" using c by (auto simp: enqueue_task_def Let_def)
qed

lemma calm_start_task: "keeps (calm t q) (start_task j start)"
proof -
  have *: "keeps (calm t q) (start_task_with j start True)"
    unfolding start_task_with_def by (rule keep_rules calm_new_task)+
  show ?thesis by (rule keepsI) (simp add: start_task_def keepsD [OF *])
qed

lemmas calm_finish_rules =
  calm_start_task keeps_calm_minor [OF frame.keeps_orders(1)] keeps_calm_minor [OF frame.keeps_orders(3)]
  keeps_calm_minor [OF frame.keeps_ask] keeps_calm_minor [OF frame.keeps_process_class_of]

lemma calm_job_after_task: "keeps (calm t q) (job_after_task j u)"
  unfolding job_after_task_def delay_job_def start_again_def
  by (rule keep_rules calm_finish_rules keeps_calm_apply frame_intros frame.kept_let_any | assumption | simp add: unchanged_task_def same_job_def)+

lemma calm_close_operation: "keeps (calm t q) (apply_s (close_operation u))"
  by (rule keeps_apply_s) (auto simp: close_operation_def calm_def engine_simps)

lemma calm_task_close: "keeps (calm t q) (task_close t)"
  unfolding task_close_def
  by (rule calm_close_operation keep_rules calm_finish_rules keeps_calm_apply frame_intros frame.kept_let_any
      | assumption | simp add: unchanged_task_def same_job_def)+

lemma calm_task_finish: "keeps (calm t q) (task_finish t tr)"
  unfolding task_finish_def
  by (rule calm_task_close calm_job_after_task keep_rules calm_finish_rules keeps_calm_apply frame_intros frame.kept_let_any
      | assumption | simp add: unchanged_task_def same_job_def)+


lemma keeps_minor_try_deleting: "keeps (minor w0) (try_deleting_files t)"
  unfolding try_deleting_files_def
  by (rule keep_rules frame_intros frame.kept_let_any | assumption | simp add: unchanged_task_def)+

lemma calm_remove_process: "keeps (calm t q) (class_remove_process c p)"
proof (rule keepsI)
  fix w :: "'a engine" assume c: "calm t q w"
  have "calm t q (set_class c pc w)" for pc using c by (simp add: calm_def engine_simps)
  moreover have "minor v (fold (pass_signal c) signals v)" for signals and v :: "'a engine"
    by (intro frame.kept_fold minor_refl frame.kept_pass_signal)
  ultimately have "calm t q (fold (pass_signal c) signals (set_class c pc w))" for signals pc
    by (blast intro: minor_core)
  then show "calm t q (snd (class_remove_process c p w))"
    using c by (auto simp: class_remove_process_def split: sum.splits prod.splits)
qed

lemma calm_detach_process: "keeps (calm t q) (detach_process u)"
  unfolding detach_process_def
  by (rule keep_rules calm_remove_process calm_finish_rules | simp)+

lemma good_deleting_files:
  "good_branch t Ts_deleting_files False e q (deleting_files_branch t now)"
proof -
  let ?P = "calm t q :: 'a engine \<Rightarrow> bool"
  have closed: "hoare ?P (then_verdict
       [when_s (\<lambda>w. t_instance (tasks w t)) (detach_process t), apply_s (set_task t (\<lambda>x. x\<lparr>t_instance := False\<rparr>)),
        task_finish t tr, set_state_direct t Ts_closed] (verdict_of True True True))
     (good t Ts_deleting_files False e q) (core_ok t q)" for tr
    by ((rule hoare_then_verdict hoare_steps1 hoare_set_state_calm hoare_steps2 hoare_keeps_calm
         keep_rules calm_detach_process calm_task_finish | erule core_good | simp add: weight_def)+)
  have later: "hoare (at_core t Ts_deleting_files q False e :: 'a engine \<Rightarrow> bool) (then_verdict
       [apply_s (\<lambda>w. call_task t Try_deleting_files_call
          (min (time_plus now delete_temporary_files_retry) (t_deleting_files_until (tasks w t))) w)]
       (verdict_of True False something)) (good t Ts_deleting_files False e q) (core_ok t q)" for something
    by ((rule core_control | (rule hoare_minor_core, ((rule keep_rules frame_intros | assumption)+)[1])
        | (erule core_good core_core_ok; simp add: operation_states_def weight_def))+)
  have through: "hoare (at_core t Ts_deleting_files q False e :: 'a engine \<Rightarrow> bool)
     (bind_s (read_s (error_order_state_transition t)) (\<lambda>tr. then_verdict
       [when_s (\<lambda>w. t_instance (tasks w t)) (detach_process t), apply_s (set_task t (\<lambda>x. x\<lparr>t_instance := False\<rparr>)),
        task_finish t tr, set_state_direct t Ts_closed] (verdict_of True True True)))
     (good t Ts_deleting_files False e q) (core_ok t q)"
    by (rule hoare_bind_s [OF hoare_calm [OF keeps_read_s(1)]]) (rule closed)
  show ?thesis
    unfolding good_branch_def deleting_files_branch_def
    by (rule hoare_bind_s [OF hoare_minor_core [OF keeps_minor_try_deleting]])
       (auto intro: through later core_core_ok split: prod.split)
qed

end
