(* ===== verification/Task_Termination.thy ===== *)
theory Task_Termination
  imports Task_Branches
begin

text \<open>
  The loop of \<^verbatim>\<open>Task::do_something\<close> ends, whatever the module instance, the orders and the locks answer. Every
  iteration that asks for another one has used up the enqueued state or has brought the task forward: to a later
  state (in the order of \<open>stage\<close>), to a running operation, or to the decision to end. An exception leads to another
  iteration at most once.
\<close>

section \<open>The switch\<close>

lemma operation_states_iff:
  "s \<in> operation_states \<longleftrightarrow> s = Ts_starting \<or> s = Ts_opening \<or> s = Ts_running \<or> s = Ts_running_remote_process \<or>
     s = Ts_ending \<or> s = Ts_ending_waiting_for_subprocesses \<or> s = Ts_on_success \<or> s = Ts_on_error \<or> s = Ts_exit \<or>
     s = Ts_release \<or> s = Ts_ended"
  by (simp add: operation_states_def)

lemma good_nothing: "good_branch t s False e q nothing_to_do"
  unfolding good_branch_def nothing_to_do_def by (rule hoare_ret) (erule core_good; simp)

lemma good_throw: "good_branch t s False e q (throw x)"
  unfolding good_branch_def by (rule hoare_throw) (erule core_core_ok; simp)

lemmas good_branches =
  good_plain_branches good_loading
  good_running_step good_running_idle good_waiting_for_order good_waiting_for_subprocesses good_deleting_files
  good_nothing good_throw

text \<open>Every state, in one statement.\<close>

theorem good_switch:
  assumes "b \<Longrightarrow> s \<in> operation_states" "s = Ts_running_waiting_for_order \<Longrightarrow> \<not> e"
  shows "good_branch t s b e q (task_switch t now s)"
proof -
  have "s = Ts_waiting_for_process \<Longrightarrow> good_branch t s False e q (waiting_branch t)" by (rule good_waiting) simp
  then show ?thesis
    using assms by (cases s; cases b; cases e) (simp_all add: task_switch_def operation_states_iff good_branches)
qed

section \<open>Before and after the branches\<close>

lemma stage_killing: "s < Ts_killing \<Longrightarrow> stage s \<le> stage Ts_killing"
  by (cases s) (simp_all add: task_state_order)


definition forward :: "nat \<Rightarrow> task_state \<Rightarrow> bool \<Rightarrow> bool \<Rightarrow> task_state \<Rightarrow> 'o engine \<Rightarrow> bool" where
  "forward t s b e q w = (\<exists>s' q'. at_core t s' q' b e w \<and> q' \<in> {Ts_none, q} \<and> (b \<longrightarrow> s' = s) \<and> stage s \<le> stage s')"

lemma forwardI: "at_core t s' q' b e w \<Longrightarrow> q' \<in> {Ts_none, q} \<Longrightarrow> (b \<longrightarrow> s' = s) \<Longrightarrow> stage s \<le> stage s' \<Longrightarrow> forward t s b e q w"
  by (auto simp: forward_def)

lemma forward_ok: "forward t s b e q w \<Longrightarrow> (b \<longrightarrow> s \<in> operation_states) \<Longrightarrow> core_ok t q w"
  by (auto simp: forward_def elim!: core_core_ok)

lemma forward_progress: "forward t s b e q w \<Longrightarrow> weight s b e \<le> weight (t_state (tasks w t)) b (told_to_end t w)"
  by (auto simp: forward_def at_core_def weight_def)

lemma hoare_check_connection:
  "hoare (at_core t s q False e) (check_connection t) (\<lambda>_. forward t s False e q) (core_ok t q)"
proof -
  let ?P = "at_core t s q False e :: 'a engine \<Rightarrow> bool"
  have minor: "hoare ?P m (\<lambda>_. ?P) (core_ok t q)" if "\<And>w0. keeps (minor w0) m" for m :: "('a engine, 'b) operation"
    by (rule hoare_minor_core [OF that]) (erule core_core_ok; simp)
  have kill: "hoare ?P (when_s (\<lambda>w. t_state (tasks w t) < Ts_killing) (set_state_direct t Ts_killing))
      (\<lambda>_. forward t s False e q) (core_ok t q)"
  proof (cases "s < Ts_killing")
    case True
    have "hoare ?P (set_state_direct t Ts_killing) (\<lambda>_. forward t s False e q) (core_ok t q)"
      using True by (intro hoare_strengthen [OF hoare_set_state_direct])
        (auto elim!: core_core_ok intro: forwardI stage_killing)
    then show ?thesis by (rule hoare_when_s [OF hoare_weaken]) (auto intro: forwardI)
  next
    case False
    then show ?thesis by (auto simp: hoare_def when_s_def at_core_def intro!: forwardI)
  qed
  have check: "hoare ?P (bind_s (ask (Connection_ok t)) (\<lambda>_. ret ())) (\<lambda>_. forward t s False e q) ?P"
    by (rule hoare_bind_s, rule hoare_minor_core [OF frame.keeps_ask], assumption, rule hoare_ret) (auto intro: forwardI)
  show ?thesis
    unfolding check_connection_def
    by (rule hoare_when_s [OF hoare_weaken [OF hoare_catch_s [OF check]]],
        (rule kill hoare_steps1 hoare_steps2 minor keep_rules frame_intros | assumption | simp add: unchanged_task_def)+)
       (auto intro: forwardI)
qed

lemma hoare_end_if_told:
  "hoare (forward t s False e q) (end_if_told t)
     (\<lambda>_ w. forward t s False e q w \<and> (t_state (tasks w t) = Ts_running_waiting_for_order \<longrightarrow> \<not> told_to_end t w)) (core_ok t q)"
proof -
  have *: "hoare (at_core t s' q' False e) (bind_s (read_s (state_at_end t)) (set_state_direct t))
      (\<lambda>_ w. \<exists>s'' \<in> {Ts_ended, Ts_release, Ts_ending}. at_core t s'' Ts_none False e w) (core_ok t q)" for s' q'
    by (rule hoare_computed_state) (auto simp: state_at_end_def elim!: core_core_ok)
  show ?thesis
  proof (rule hoareI)
    fix w a w' assume f: "forward t s False e q w"
    then obtain s' q' where c: "at_core t s' q' False e w" "q' \<in> {Ts_none, q}" "stage s \<le> stage s'" by (auto simp: forward_def)
    assume r: "end_if_told t w = (Inr a, w')"
    show "forward t s False e q w' \<and> (t_state (tasks w' t) = Ts_running_waiting_for_order \<longrightarrow> \<not> told_to_end t w')"
    proof (cases "s' < Ts_ending \<and> t_end (tasks w t) \<noteq> End_none \<and> \<not> makes_its_step_first (tasks w t)")
      case True
      then obtain s'' where "s'' \<in> {Ts_ended, Ts_release, Ts_ending}" "at_core t s'' Ts_none False e w'"
        using hoareD(1) [OF * c(1)] r c(1) by (auto simp: end_if_told_def when_s_def at_core_def)
      moreover have "stage s \<le> stage s''" using calculation(1) c(3) True by (auto simp: stage_ending)
      ultimately show ?thesis by (auto simp: at_core_def intro!: forwardI)
    next
      case False
      then have "w' = w" using r c(1) by (auto simp: end_if_told_def when_s_def at_core_def)
      moreover have "\<not> told_to_end t w" if "t_state (tasks w t) = Ts_running_waiting_for_order"
        using that False c(1) by (auto simp: at_core_def makes_its_step_first_def task_state_order told_to_end_def)
      ultimately show ?thesis using f by simp
    qed
  next
    fix w x w' assume f: "forward t s False e q w" and r: "end_if_told t w = (Inl x, w')"
    then obtain s' q' where c: "at_core t s' q' False e w" by (auto simp: forward_def)
    show "core_ok t q w'"
      using hoareD(2) [OF * c] r by (auto simp: end_if_told_def when_s_def split: if_splits)
  qed
qed

lemma hoare_before_switch:
  assumes "b \<Longrightarrow> s \<in> operation_states"
  shows "hoare (at_core t s q b e) (before_switch t)
     (\<lambda>_ w. forward t s b e q w \<and> (t_state (tasks w t) = Ts_running_waiting_for_order \<longrightarrow> \<not> told_to_end t w)) (core_ok t q)"
proof (cases "b \<or> s = Ts_running_process")
  case True
  then show ?thesis
    using assms by (auto simp: hoare_def before_switch_def when_s_def at_core_def operation_states_iff intro!: forwardI)
next
  case False
  have "hoare (at_core t s q False e) (steps [check_connection t, end_if_told t])
    (\<lambda>_ w. forward t s False e q w \<and> (t_state (tasks w t) = Ts_running_waiting_for_order \<longrightarrow> \<not> told_to_end t w)) (core_ok t q)"
    by (rule hoare_steps2 [OF hoare_check_connection hoare_steps1 [OF hoare_end_if_told]])
  then show ?thesis
    using False by (auto simp: hoare_def before_switch_def when_s_def at_core_def)
qed

text \<open>What an iteration leaves: another one is asked for only after progress, or after the enqueued state was used.\<close>

definition turn_ok :: "nat \<Rightarrow> task_state \<Rightarrow> bool \<Rightarrow> bool \<Rightarrow> task_state \<Rightarrow> verdict \<Rightarrow> 'o engine \<Rightarrow> bool" where
  "turn_ok t s b e q v w =
     (core_ok t q w \<and>
      (v_loop v \<longrightarrow> q \<noteq> Ts_none \<and> t_enqueued_state (tasks w t) = Ts_none \<or> weight s b e < progress_of t w))"

lemma minor_progress: "minor w w' \<Longrightarrow> progress_of t w \<le> progress_of t w'"
  unfolding minor_def unchanged_task_def progress_of_def weight_def told_to_end_def by (auto dest: spec [where x = t])

lemma good_turn: "good t s b e q v w \<Longrightarrow> turn_ok t s b e q v w"
  by (auto simp: good_def turn_ok_def)

lemma calm_turn: "q \<noteq> Ts_none \<Longrightarrow> calm t Ts_none w \<Longrightarrow> turn_ok t s b e q v w"
  by (auto simp: turn_ok_def calm_def core_ok_def operation_ok_def)

lemma ending_turn: "at_core t Ts_ending Ts_none False e' w \<Longrightarrow> stage s < 13 \<Longrightarrow> turn_ok t s b e q v w"
  using core_progress [of t Ts_ending Ts_none False e' w]
  by (auto simp: turn_ok_def weight_def elim!: core_core_ok)

lemma running_operation_turn:
  "hoare (\<lambda>w. good t s b e q v w \<and> t_operation (tasks w t))
     (bind_s (operation_finished t) (\<lambda>f. ret (v\<lparr>v_loop := v_loop v \<or> f\<rparr>))) (turn_ok t s b e q) (core_ok t q)"
proof (rule hoareI)
  fix w a w' assume g: "good t s b e q v w \<and> t_operation (tasks w t)"
  have m: "minor w (snd (operation_finished t w))" by (rule minor_of_keeps [OF frame.keeps_operation_finished])
  then have less: "weight s b e < progress_of t (snd (operation_finished t w))"
    using g minor_progress [OF m, of t] by (auto simp: good_def intro: less_le_trans)
  have ok: "core_ok t q (snd (operation_finished t w))" using g minor_core(2) [OF m] by (simp add: good_def)
  show "turn_ok t s b e q a w'" if "bind_s (operation_finished t) (\<lambda>f. ret (v\<lparr>v_loop := v_loop v \<or> f\<rparr>)) w = (Inr a, w')"
    using that less ok by (auto simp: run_simps turn_ok_def)
  show "core_ok t q w'" if "bind_s (operation_finished t) (\<lambda>f. ret (v\<lparr>v_loop := v_loop v \<or> f\<rparr>)) w = (Inl x, w')" for x
    using that ok by (auto simp: bind_s_def ret_def split: prod.splits sum.splits)
qed

text \<open>No state is enqueued: all that can happen is that the task must end.\<close>

lemma hoare_end_turn:
  "hoare (\<lambda>w. at_core t s' Ts_none False e' w \<and> turn_ok t s b e q v w \<and> (stage s' < 13 \<longrightarrow> stage s < 13))
     (if_s (must_end t (v_ok v)) (then_verdict [set_state_direct t Ts_ending] (v\<lparr>v_loop := True\<rparr>)) (ret v))
     (turn_ok t s b e q) (core_ok t q)"
proof -
  have "hoare (\<lambda>w :: 'a engine. at_core t s' Ts_none False e' w \<and> stage s < 13)
      (then_verdict [set_state_direct t Ts_ending] (v\<lparr>v_loop := True\<rparr>)) (turn_ok t s b e q) (core_ok t q)"
  proof (cases "stage s < 13")
    case True
    have "hoare (at_core t s' Ts_none False e' :: 'a engine \<Rightarrow> bool)
        (then_verdict [set_state_direct t Ts_ending] (v\<lparr>v_loop := True\<rparr>)) (turn_ok t s b e q) (core_ok t q)"
      by (rule hoare_then_verdict, rule hoare_steps1, rule hoare_set_state_direct)
         (auto intro: ending_turn True elim: core_core_ok)
    then show ?thesis by (rule hoare_weaken) simp
  qed (simp add: hoare_def)
  then show ?thesis
    by (intro hoare_if_s) (auto intro: hoare_weaken hoare_ret simp: must_end_def at_core_def stage_ending)
qed

text \<open>The enqueued state is used.\<close>

lemma hoare_enqueued_turn:
  assumes "q \<noteq> Ts_none"
  shows "hoare (calm t q)
     (bind_s (set_state_direct t q) (\<lambda>_.
        if_s (must_end t (v_ok v)) (then_verdict [set_state_direct t Ts_ending] (v\<lparr>v_loop := True\<rparr>)) (ret v)))
     (turn_ok t s b e q) (core_ok t q)"
proof -
  have "hoare (at_core t s' Ts_none False False)
        (if_s (must_end t (v_ok v)) (then_verdict [set_state_direct t Ts_ending] (v\<lparr>v_loop := True\<rparr>)) (ret v))
     (turn_ok t s b e q) (core_ok t q)" for s'
    by (rule hoare_if_any, rule hoare_then_verdict, rule hoare_steps1, rule hoare_set_state_direct)
       (auto intro: calm_turn [OF assms] core_calm hoare_ret elim: core_core_ok)
  then show ?thesis by (intro hoare_bind_s [OF hoare_set_state_calm])
qed

text \<open>A triple may be chosen state by state.\<close>

lemma hoare_cases_at:
  assumes "\<And>w. P w \<Longrightarrow> \<exists>P' m'. P' w \<and> m w = m' w \<and> hoare P' m' Q R"
  shows "hoare P m Q R"
  using assms by (intro hoareI) (metis hoareD)+

definition end_or_go_on :: "nat \<Rightarrow> verdict \<Rightarrow> ('o engine, verdict) operation" where
  "end_or_go_on t v =
     if_s (must_end t (v_ok v)) (then_verdict [set_state_direct t Ts_ending] (v\<lparr>v_loop := True\<rparr>)) (ret v)"

lemma enqueued_state_turn:
  assumes "good t s b e q v w" "\<not> t_operation (tasks w t)"
  shows "\<exists>P m. P w \<and> bind_s (set_enqueued_state t) (\<lambda>_. end_or_go_on t v) w = m w \<and> hoare P m (turn_ok t s b e q) (core_ok t q)"
proof (cases "t_enqueued_state (tasks w t) = Ts_none")
  case True
  let ?P = "\<lambda>w'. at_core t (t_state (tasks w t)) Ts_none False False w' \<and> turn_ok t s b e q v w'
                \<and> (stage (t_state (tasks w t)) < 13 \<longrightarrow> stage s < 13)"
  have "hoare ?P (end_or_go_on t v) (turn_ok t s b e q) (core_ok t q)"
    unfolding end_or_go_on_def by (rule hoare_end_turn)
  moreover have "stage (t_state (tasks w t)) < 13 \<longrightarrow> stage s < 13" using assms(1) unfolding good_def by linarith
  then have "?P w" using assms(2) True good_turn [OF assms(1)] by (simp add: at_core_def)
  moreover have "bind_s (set_enqueued_state t) (\<lambda>_. end_or_go_on t v) w = end_or_go_on t v w"
    using True by (simp add: set_enqueued_state_def bind_s_def)
  ultimately show ?thesis by (intro exI [of _ ?P] exI [of _ "end_or_go_on t v"]) simp
next
  case False
  then have q: "t_enqueued_state (tasks w t) = q" "q \<noteq> Ts_none" using assms by (auto simp: good_def core_ok_def)
  have "bind_s (set_enqueued_state t) (\<lambda>_. end_or_go_on t v) w = bind_s (set_state_direct t q) (\<lambda>_. end_or_go_on t v) w"
    using q by (simp add: set_enqueued_state_def bind_s_def)
  moreover have "calm t q w" using q assms by (simp add: calm_def)
  ultimately show ?thesis using hoare_enqueued_turn [OF q(2)] unfolding end_or_go_on_def by blast
qed

lemma hoare_apply_enqueued:
  "hoare (\<lambda>w. good t s b e q v w \<and> \<not> t_operation (tasks w t)) (apply_enqueued_state t v) (turn_ok t s b e q) (core_ok t q)"
  unfolding apply_enqueued_state_def end_or_go_on_def [symmetric]
proof (rule hoare_if_s)
  show "hoare (\<lambda>w. (good t s b e q v w \<and> \<not> t_operation (tasks w t)) \<and> \<not> t_state (tasks w t) \<noteq> Ts_running_process)
      (ret v) (turn_ok t s b e q) (core_ok t q)"
    by (rule hoare_ret) (simp add: good_turn)
  show "hoare (\<lambda>w. (good t s b e q v w \<and> \<not> t_operation (tasks w t)) \<and> t_state (tasks w t) \<noteq> Ts_running_process)
      (bind_s (set_enqueued_state t) (\<lambda>_. end_or_go_on t v)) (turn_ok t s b e q) (core_ok t q)"
    by (rule hoare_cases_at) (rule enqueued_state_turn; simp)
qed

lemma hoare_after_switch:
  "hoare (good t s b e q v) (after_switch t v) (turn_ok t s b e q) (core_ok t q)"
  unfolding after_switch_def by (rule hoare_if_s [OF running_operation_turn hoare_apply_enqueued])

section \<open>An iteration\<close>

lemma turn_ok_weaken: "turn_ok t s' b e' q' v w \<Longrightarrow> q' \<in> {Ts_none, q} \<Longrightarrow> weight s b e \<le> weight s' b e' \<Longrightarrow> turn_ok t s b e q v w"
  by (auto simp: turn_ok_def core_ok_def)

lemma switch_turn:
  assumes "forward t s b e q w" "t_state (tasks w t) = Ts_running_waiting_for_order \<longrightarrow> \<not> told_to_end t w"
    "b \<Longrightarrow> s \<in> operation_states"
  shows "\<exists>P m. P w \<and> bind_s (bind_s (read_s (\<lambda>w. t_state (tasks w t))) (task_switch t now)) (after_switch t) w = m w
      \<and> hoare P m (turn_ok t s b e q) (core_ok t q)"
proof -
  let ?s = "t_state (tasks w t)" and ?e = "told_to_end t w" and ?q = "t_enqueued_state (tasks w t)"
  have c: "at_core t ?s ?q b ?e w" "?q \<in> {Ts_none, q}" "b \<longrightarrow> ?s = s"
    using assms(1) by (auto simp: forward_def at_core_def)
  have "good_branch t ?s b ?e ?q (task_switch t now ?s)"
    using assms(2,3) c(3) by (intro good_switch) auto
  then have "hoare (at_core t ?s ?q b ?e) (bind_s (task_switch t now ?s) (after_switch t)) (turn_ok t ?s b ?e ?q) (core_ok t ?q)"
    unfolding good_branch_def by (rule hoare_bind_s) (rule hoare_after_switch)
  then have "hoare (at_core t ?s ?q b ?e) (bind_s (task_switch t now ?s) (after_switch t)) (turn_ok t s b e q) (core_ok t q)"
    by (rule hoare_strengthen) (use c(2) forward_progress [OF assms(1)] in \<open>auto elim: turn_ok_weaken simp: core_ok_def\<close>)
  moreover have "bind_s (bind_s (read_s (\<lambda>w. t_state (tasks w t))) (task_switch t now)) (after_switch t) w
      = bind_s (task_switch t now ?s) (after_switch t) w"
    by (simp add: bind_s_def read_s_def)
  ultimately show ?thesis using c(1)
    by (intro exI [of _ "at_core t ?s ?q b ?e"] exI [of _ "bind_s (task_switch t now ?s) (after_switch t)"]) simp
qed

lemma hoare_iteration:
  assumes "b \<Longrightarrow> s \<in> operation_states"
  shows "hoare (at_core t s q b e) (task_iteration t now) (turn_ok t s b e q) (core_ok t q)"
  unfolding task_iteration_def
  by (rule hoare_bind_s [OF hoare_before_switch [OF assms]], assumption, rule hoare_cases_at)
     (rule switch_turn; use assms in simp)

section \<open>Exceptions\<close>

lemma core_ok_error_step:
  "keeps (core_ok t q) (steps
       [when_s (\<lambda>_. n = 0) (apply_s (task_set_error t c)),
        log_errors (bind_s (read_s (error_order_state_transition t)) (detach_order_after_error t))])"
proof (rule keeps_of_minor)
  show "keeps (minor w0) (steps
       [when_s (\<lambda>_. n = 0) (apply_s (task_set_error t c)),
        log_errors (bind_s (read_s (error_order_state_transition t)) (detach_order_after_error t))])" for w0
    by (rule keep_rules frame_intros | assumption)+
qed (rule minor_core)

text \<open>After an exception the loop goes on only once.\<close>

lemma exception_goes_on:
  assumes "task_exception t n x w = (Inr True, w')" "core_ok t q w"
  shows "n = 0 \<and> core_ok t q w'"
proof -
  obtain w1 where w1: "steps [when_s (\<lambda>_. n = 0) (apply_s (task_set_error t (code_of x))),
        log_errors (bind_s (read_s (error_order_state_transition t)) (detach_order_after_error t))] w = (Inr (), w1)"
    and go: "n = 0" "w' = set_task t (\<lambda>x. x\<lparr>t_end := End_normal\<rparr>) w1"
    using assms(1) unfolding task_exception_def
    by (auto simp: bind_s_Inr_iff if_s_Inr_iff simple_Inr_iff simp del: steps.simps split: if_splits)
  have "core_ok t q w1" using keepsD [OF core_ok_error_step assms(2), of n "code_of x"] w1 by simp
  then show ?thesis using go by (simp add: core_ok_def operation_ok_def engine_simps)
qed

section \<open>The loop\<close>

text \<open>How many iterations are left, at most, before the next exception.\<close>

definition room :: "nat \<Rightarrow> 'o engine \<Rightarrow> nat" where
  "room t w = (if t_enqueued_state (tasks w t) = Ts_none then 0 else 92) + (91 - progress_of t w)"

definition turns_left :: "nat \<Rightarrow> nat \<Rightarrow> 'o engine \<Rightarrow> nat" where
  "turns_left t n w = (if n = 0 then 184 else 0) + room t w"

lemma room_le: "room t w \<le> 183"
  by (cases "t_enqueued_state (tasks w t) = Ts_none") (simp_all add: room_def le_diff_conv)

lemma turn_room:
  assumes "turn_ok t s b e q v w'" "v_loop v"
    and "t_enqueued_state (tasks w t) = q" "progress_of t w = weight s b e"
  shows "room t w' < room t w"
proof -
  have "progress_of t w' \<le> 91" by (rule progress_le)
  then show ?thesis using assms by (auto simp: turn_ok_def core_ok_def room_def)
qed

lemma task_loop_fuel:
  "operation_ok t w \<Longrightarrow> turns_left t n w < fuel \<Longrightarrow> task_loop fuel n something t now w \<noteq> None"
proof (induction fuel arbitrary: n something w)
  case (Suc fuel)
  let ?x = "tasks w t" 
  have c: "at_core t (t_state ?x) (t_enqueued_state ?x) (t_operation ?x) (told_to_end t w) w" by (simp add: at_core_def)
  have h: "hoare (at_core t (t_state ?x) (t_enqueued_state ?x) (t_operation ?x) (told_to_end t w)) (task_iteration t now)
      (turn_ok t (t_state ?x) (t_operation ?x) (told_to_end t w) (t_enqueued_state ?x)) (core_ok t (t_enqueued_state ?x))"
    using Suc.prems(1) by (intro hoare_iteration) (simp add: operation_ok_def)
  obtain r w1 where r: "task_iteration t now w = (r, w1)" by (cases "task_iteration t now w")
  show ?case
  proof (cases r)
    case (Inr v)
    then have turn: "turn_ok t (t_state ?x) (t_operation ?x) (told_to_end t w) (t_enqueued_state ?x) v w1"
      using hoareD(1) [OF h c] r by simp
    have "task_loop fuel n (something \<or> v_something v) t now w1 \<noteq> None" if "v_loop v"
    proof (rule Suc.IH)
      show "operation_ok t w1" using turn by (simp add: turn_ok_def core_ok_def)
      have "room t w1 < room t w" by (rule turn_room [OF turn that refl]) (simp add: progress_of_def)
      then show "turns_left t n w1 < fuel" using Suc.prems(2) by (simp add: turns_left_def)
    qed
    then show ?thesis using r Inr by simp
  next
    case (Inl x)
    then have ok: "core_ok t (t_enqueued_state ?x) w1" using hoareD(2) [OF h c] r by simp
    obtain r2 w2 where r2: "task_exception t n x w1 = (r2, w2)" by (cases "task_exception t n x w1")
    have "task_loop fuel (Suc n) True t now w2 \<noteq> None" if "r2 = Inr True"
    proof (rule Suc.IH)
      have n: "n = 0" and ok2: "core_ok t (t_enqueued_state ?x) w2"
        using exception_goes_on [OF _ ok, of n x w2] r2 that by simp_all
      show "operation_ok t w2" using ok2 by (simp add: core_ok_def)
      show "turns_left t (Suc n) w2 < fuel"
        using Suc.prems(2) n room_le [of t w2] by (simp add: turns_left_def)
    qed
    then show ?thesis using r r2 Inl by (auto split: sum.split bool.split)
  qed
qed simp

text \<open> C2: The main loop of a task ends, whatever the module instance, the orders and the locks answer and whichever exceptions
  they throw, if an operation runs only in the states that start one.
\<close>

theorem task_loop_ends:
  assumes "operation_ok t w"
  shows "\<exists>r w'. task_loop loop_fuel 0 something t now w = Some (r, w')"
  using task_loop_fuel [OF assms, of 0 loop_fuel something now] room_le [of t w]
  by (auto simp: turns_left_def loop_fuel_def)

end
