(* ===== verification/Task_Ending.thy ===== *)
theory Task_Ending
  imports Task_Termination
begin

text \<open>
  A task that is to end is not forgotten: when \<^verbatim>\<open>Task::do_something\<close> returns, the task is closed, or an operation of its
  module instance is running, or a call for the next tenth of a second is registered.
\<close>

section \<open>A task that is ending\<close>

definition settled :: "nat \<Rightarrow> time \<Rightarrow> 'o engine \<Rightarrow> bool" where
  "settled t now w =
     (t < next_task w \<and> clock w = now \<and> t_enqueued_state (tasks w t) = Ts_none \<and> Ts_ending \<le> t_state (tasks w t))"

definition waits :: "nat \<Rightarrow> time \<Rightarrow> 'o engine \<Rightarrow> bool" where
  "waits t now w =
     (let x = tasks w t in
      t_state x = Ts_closed
      \<or> t_operation x
      \<or> t_state x = Ts_killing \<and> t_calls x Killing_task_call \<le> time_plus now (Duration (1/10))
      \<or> t_state x = Ts_deleting_files \<and> t_calls x Try_deleting_files_call \<le> time_plus now (Duration (1/10)))"

named_theorems settled_rules \<open>operations that leave a task in its end\<close>

lemma settled_set_task:
  "settled t now w \<Longrightarrow> (\<And>x. t_state (f x) = t_state x \<and> t_enqueued_state (f x) = t_enqueued_state x) \<Longrightarrow> settled t now (set_task u f w)"
  by (cases "t = u") (simp_all add: settled_def engine_simps)

interpretation settled: task_frame "settled t now" for t now
proof
  show "settled t now (set_task u f w)" if "settled t now w" "\<And>x. unchanged_task x (f x)" for w :: "'a engine" and f u
    using that by (intro settled_set_task) (simp_all add: unchanged_task_def)
qed (simp_all add: settled_def engine_simps)

lemma minor_settled: "settled t now w \<Longrightarrow> minor w w' \<Longrightarrow> settled t now w'"
  by (simp add: settled_def minor_def unchanged_task_def)

lemma change_task_state_engine:
  "next_task (change_task_state t s w) = next_task w" "clock (change_task_state t s w) = clock w"
proof -
  have "minor w (enter_task_state t s (leave_running t w))" by (intro frame_intros minor_refl)
  then show "next_task (change_task_state t s w) = next_task w" "clock (change_task_state t s w) = clock w"
    by (simp_all add: change_task_state_def Let_def count_running_def engine_simps minor_def)
qed

lemma settled_state [settled_rules]:
  assumes "Ts_ending \<le> s" shows "keeps (settled t now) (set_state_direct t s)"
proof (rule keepsI)
  fix w :: "'a engine" assume w: "settled t now w"
  let ?w = "set_task t (\<lambda>x. x\<lparr>t_enqueued_state := Ts_none\<rparr>) w"
  have w': "settled t now ?w" using w by (simp add: settled_def engine_simps)
  then have "settled t now (change_task_state t s ?w)"
    using assms by (simp add: settled_def change_task_state_core change_task_state_engine)
  then have "settled t now (snd (make_room_if_idle t (change_task_state t s ?w)))"
    by (rule minor_settled [OF _ minor_of_keeps [OF frame.keeps_make_room]])
  then show "settled t now (snd (set_state_direct t s w))"
    using w' by (auto simp: set_state_direct_def apply_s_def when_s_def split: prod.splits sum.splits)
qed

lemma settled_computed [settled_rules]:
  "(\<And>w. Ts_ending \<le> f w) \<Longrightarrow> keeps (settled t now) (bind_s (read_s f) (set_state_direct t))"
  by (rule keepsI) (simp add: bind_s_def read_s_def keepsD [OF settled_state])

lemma settled_operation [settled_rules]: "keeps (settled t now) (apply_s (set_task u (\<lambda>x. x\<lparr>t_operation := b\<rparr>)))"
  by (rule keeps_apply_s) (erule settled_set_task, simp)

lemma settled_close_operation [settled_rules]: "keeps (settled t now) (apply_s (close_operation u))"
  by (rule keeps_apply_s) (cases "t = u"; simp add: close_operation_def settled_def engine_simps)

lemma settled_start_operation [settled_rules]: "keeps (settled t now) (start_operation u)"
  unfolding start_operation_def by (rule settled_rules keep_rules)+

lemma settled_operation_end [settled_rules]: "keeps (settled t now) (operation_end u)"
  unfolding operation_end_def
  by (rule settled_rules keep_rules frame_intros settled.kept_let_any | assumption | simp add: unchanged_task_def same_job_def)+

lemma settled_then_verdict [settled_rules]: "keeps (settled t now) (steps ms) \<Longrightarrow> keeps (settled t now) (then_verdict ms v)"
  unfolding then_verdict_def by (rule keep_rules | assumption)+

lemma settled_start_branch [settled_rules]: "keeps (settled t now) (start_branch u)"
  unfolding start_branch_def by (rule settled_rules keep_rules)+

lemma settled_operation_branch [settled_rules]: "Ts_ending \<le> s \<Longrightarrow> keeps (settled t now) (operation_branch t s)"
  unfolding operation_branch_def by (rule settled_rules keep_rules | assumption)+

lemma ending_states:
  "Ts_ending \<le> Ts_ending" "Ts_ending \<le> Ts_ending_waiting_for_subprocesses" "Ts_ending \<le> Ts_on_success" "Ts_ending \<le> Ts_on_error"
  "Ts_ending \<le> Ts_exit" "Ts_ending \<le> Ts_release" "Ts_ending \<le> Ts_killing" "Ts_ending \<le> Ts_ended"
  "Ts_ending \<le> Ts_deleting_files" "Ts_ending \<le> Ts_closed"
  by (simp_all add: task_state_order)

lemma settled_ending [settled_rules]: "keeps (settled t now) (ending_branch t)"
  unfolding ending_branch_def by (rule settled_rules keep_rules ending_states | simp add: ending_states)+

lemma settled_subprocesses [settled_rules]: "keeps (settled t now) (waiting_for_subprocesses_branch t)"
  unfolding waiting_for_subprocesses_branch_def waiting_for_subprocesses_def
  by (rule settled_rules keep_rules frame_intros | assumption | simp add: ending_states)+

lemma settled_killing [settled_rules]: "keeps (settled t now) (killing_branch t)"
  unfolding killing_branch_def by (rule settled_rules keep_rules frame_intros ending_states | assumption)+

lemma settled_ended [settled_rules]: "keeps (settled t now) (ended_branch t)"
  unfolding ended_branch_def order_after_process_def
  by (rule settled_rules keep_rules frame_intros ending_states | assumption)+

lemma settled_create_task [settled_rules]: "keeps (settled t now) (create_task j force start_at)"
proof (rule keepsI)
  fix w :: "'a engine" assume c: "settled t now w"
  let ?w = "if j_state (jobs w j) = Js_stopped \<and> force \<and> scheduler_state w \<noteq> Sp_stopping then job_set_state j Js_pending w else w"
  have m: "minor w ?w" by (auto intro: minor_job_set_state)
  then have "settled t now ?w" using c by (rule minor_settled [rotated])
  then show "settled t now (snd (create_task j force start_at w))"
    using c by (auto simp: create_task_def Let_def settled_def engine_simps)
qed

lemma settled_enqueue_task [settled_rules]: "keeps (settled t now) (enqueue_task j u)"
proof (rule keepsI)
  fix w :: "'a engine" assume c: "settled t now w"
  let ?w = "set_task u (\<lambda>x. x\<lparr>t_let_run := True\<rparr>) w"
  have "settled t now ?w" using c by (rule settled_set_task) simp
  then have "settled t now (call_job j Start_queued_task_call due (queue_enqueue_task j u ?w))" for due
    by (rule minor_settled) (intro frame.kept_call_job minor_queue_enqueue minor_refl)
  then show "settled t now (snd (enqueue_task j u w))" using c by (auto simp: enqueue_task_def Let_def)
qed

lemma settled_start_task [settled_rules]: "keeps (settled t now) (start_task j start)"
proof -
  have *: "keeps (settled t now) (start_task_with j start True)"
    unfolding start_task_with_def by (rule keep_rules settled_rules)+
  show ?thesis by (rule keepsI) (simp add: start_task_def keepsD [OF *])
qed

lemma settled_task_close [settled_rules]: "keeps (settled t now) (task_close t)"
  unfolding task_close_def
  by (rule settled_rules keep_rules frame_intros ending_states settled_set_task settled.kept_let_any
      | assumption | simp add: unchanged_task_def same_job_def)+

lemma settled_task_finish [settled_rules]: "keeps (settled t now) (task_finish t tr)"
  unfolding task_finish_def job_after_task_def delay_job_def start_again_def
  by (rule settled_rules keep_rules frame_intros settled.kept_let_any
      | assumption | simp add: unchanged_task_def same_job_def)+

lemma settled_remove_process [settled_rules]: "keeps (settled t now) (class_remove_process c p)"
proof (rule keepsI)
  fix w :: "'a engine" assume w: "settled t now w"
  have "settled t now (fold (pass_signal c) signals (set_class c pc w))" for pc signals
    using w by (intro settled.kept_fold settled.kept_pass_signal) (simp_all add: settled_def engine_simps)
  then show "settled t now (snd (class_remove_process c p w))"
    using w by (auto simp: class_remove_process_def split: sum.splits prod.splits)
qed

lemma settled_detach_process [settled_rules]: "keeps (settled t now) (detach_process u)"
  unfolding detach_process_def
  by (rule keep_rules settled_rules frame_intros settled_set_task | assumption | simp)+

lemma settled_deleting_files [settled_rules]: "keeps (settled t now) (deleting_files_branch t due)"
  unfolding deleting_files_branch_def try_deleting_files_def
  by (rule settled_rules keep_rules keeps_prod frame_intros ending_states settled.kept_let_any
      | assumption | simp add: unchanged_task_def)+

lemma settled_switch [settled_rules]: "Ts_ending \<le> s \<Longrightarrow> keeps (settled t now) (task_switch t due s)"
  unfolding task_switch_def nothing_to_do_def
  by (cases s; simp add: settled_rules keep_rules ending_states; simp add: task_state_order)

section \<open>What it waits for\<close>

lemma hoare_start_waits: "hoare P (start_operation t) (\<lambda>_ w. t_operation (tasks w t)) (\<lambda>_. True)"
  unfolding start_operation_def
  by (auto simp: hoare_def bind_s_def read_s_def apply_s_def throw_def engine_simps split: prod.splits sum.splits if_splits)

definition loops_or_waits :: "nat \<Rightarrow> time \<Rightarrow> verdict \<Rightarrow> 'o engine \<Rightarrow> bool" where
  "loops_or_waits t now v w = (v_loop v \<or> waits t now w)"

lemma hoare_loops: "hoare P (then_verdict ms (verdict_of ok True something)) (loops_or_waits t now) (\<lambda>_. True)"
  unfolding then_verdict_def by (auto simp: hoare_def loops_or_waits_def run_simps)

lemma hoare_start_branch_waits: "hoare P (start_branch t) (loops_or_waits t now) (\<lambda>_. True)"
  unfolding start_branch_def
  by (rule hoare_bind_s [OF hoare_start_waits hoare_ret]) (simp add: loops_or_waits_def waits_def Let_def)

lemma hoare_any: "hoare P m (\<lambda>_ _. True) (\<lambda>_. True)"
  by (simp add: hoare_def)

lemma hoare_any_then: "(\<And>a. hoare (\<lambda>_. True) (f a) Q (\<lambda>_. True)) \<Longrightarrow> hoare P (bind_s m f) Q (\<lambda>_. True)"
  by (rule hoare_bind_s [OF hoare_any])

lemmas waits_rules = hoare_if_any hoare_loops hoare_start_branch_waits hoare_any_then

lemma ending_waits: "hoare P (ending_branch t) (loops_or_waits t now) (\<lambda>_. True)"
  unfolding ending_branch_def by (rule waits_rules)+

lemma operation_branch_waits: "hoare P (operation_branch t s) (loops_or_waits t now) (\<lambda>_. True)"
  unfolding operation_branch_def by (rule waits_rules)+

lemma ended_waits: "hoare P (ended_branch t) (loops_or_waits t now) (\<lambda>_. True)"
  unfolding ended_branch_def by (rule waits_rules)+

lemma subprocesses_waits: "hoare P (waiting_for_subprocesses_branch t) (loops_or_waits t now) (\<lambda>_. True)"
proof -
  have "hoare (\<lambda>w. (\<not> t_operation (tasks w t)) = over) (then_verdict
         [when_s (\<lambda>_. over) (bind_s (read_s (\<lambda>w. if has_error t w then Ts_on_error else Ts_on_success)) (set_state_direct t))]
         (verdict_of True over True)) (loops_or_waits t now) (\<lambda>_. True)" for over :: bool
    by (cases over) (simp_all add: hoare_loops, auto simp: hoare_def then_verdict_def run_simps when_s_def loops_or_waits_def waits_def)
  then have "hoare P (bind_s (read_s (\<lambda>w. \<not> t_operation (tasks w t))) (\<lambda>over. then_verdict
         [when_s (\<lambda>_. over) (bind_s (read_s (\<lambda>w. if has_error t w then Ts_on_error else Ts_on_success)) (set_state_direct t))]
         (verdict_of True over True))) (loops_or_waits t now) (\<lambda>_. True)" for P
    by (auto simp: hoare_def bind_s_def read_s_def)
  then show ?thesis unfolding waiting_for_subprocesses_branch_def by (rule hoare_any_then)
qed

text \<open>The state of the task and the clock do not change while the module instance is asked.\<close>

definition now_in :: "nat \<Rightarrow> time \<Rightarrow> task_state \<Rightarrow> 'o engine \<Rightarrow> bool" where
  "now_in t now s w = (clock w = now \<and> t_state (tasks w t) = s)"

lemma hoare_now_in: "(\<And>w0. keeps (minor w0) m) \<Longrightarrow> hoare (now_in t now s) m (\<lambda>_. now_in t now s) (\<lambda>_. True)"
proof -
  assume "\<And>w0. keeps (minor w0) m"
  then have "keeps (now_in t now s) m" by (rule keeps_of_minor) (simp add: now_in_def minor_def unchanged_task_def)
  then show ?thesis by (rule hoare_strengthen [OF keeps_hoare]) simp_all
qed

lemma killing_waits: "hoare (now_in t now Ts_killing) (killing_branch t) (loops_or_waits t now) (\<lambda>_. True)"
proof -
  have 1: "hoare (now_in t now Ts_killing)
      (bind_s (read_s (\<lambda>w. t_instance (tasks w t))) (\<lambda>i. if i then ask (Kill_thread_running t) else ret False))
      (\<lambda>_. now_in t now Ts_killing) (\<lambda>_. True)"
    by (rule hoare_now_in) (rule keep_rules | simp)+
  have 2: "hoare (now_in t now Ts_killing)
      (then_verdict [apply_s (\<lambda>w. call_task t Killing_task_call (time_plus (clock w) (Duration (1/10))) w)]
         (verdict_of True False False)) (loops_or_waits t now) (\<lambda>_. True)"
    by (auto simp: hoare_def then_verdict_def run_simps apply_s_def call_task_def engine_simps now_in_def loops_or_waits_def
        waits_def Let_def)
  show ?thesis
    unfolding killing_branch_def by (rule hoare_bind_s [OF 1]) (simp add: 2 hoare_loops)
qed

lemma deleting_files_waits:
  "hoare (now_in t now Ts_deleting_files) (deleting_files_branch t now) (loops_or_waits t now) (\<lambda>_. True)"
proof -
  have 1: "hoare (now_in t now Ts_deleting_files) (try_deleting_files t) (\<lambda>_. now_in t now Ts_deleting_files) (\<lambda>_. True)"
    by (rule hoare_now_in) (rule keeps_minor_try_deleting)
  have 2: "hoare (now_in t now Ts_deleting_files) (then_verdict
       [apply_s (\<lambda>w. call_task t Try_deleting_files_call
          (min (time_plus now delete_temporary_files_retry) (t_deleting_files_until (tasks w t))) w)]
       (verdict_of True False something)) (loops_or_waits t now) (\<lambda>_. True)" for something
    by (auto simp: hoare_def then_verdict_def run_simps apply_s_def call_task_def engine_simps now_in_def loops_or_waits_def
        waits_def Let_def delete_temporary_files_retry_def)
  show ?thesis
    unfolding deleting_files_branch_def
    by (rule hoare_bind_s [OF 1]) (auto intro: 2 hoare_any_then [OF hoare_loops] split: prod.split)
qed

lemma closed_waits: "hoare (now_in t now Ts_closed) nothing_to_do (loops_or_waits t now) (\<lambda>_. True)"
  by (auto simp: hoare_def nothing_to_do_def ret_def now_in_def loops_or_waits_def waits_def Let_def)

lemma switch_waits:
  assumes "Ts_ending \<le> s"
  shows "hoare (now_in t now s) (task_switch t now s) (loops_or_waits t now) (\<lambda>_. True)"
  using assms
  by (cases s) (simp_all add: task_switch_def ending_waits operation_branch_waits ended_waits subprocesses_waits killing_waits
      deleting_files_waits closed_waits, simp_all add: task_state_order)

section \<open>An iteration\<close>

definition turn_settled :: "nat \<Rightarrow> time \<Rightarrow> verdict \<Rightarrow> 'o engine \<Rightarrow> bool" where
  "turn_settled t now v w = (settled t now w \<and> loops_or_waits t now v w)"

lemma switch_settled: "hoare (settled t now) (bind_s (read_s (\<lambda>w. t_state (tasks w t))) (task_switch t now))
     (turn_settled t now) (settled t now)"
proof (rule hoareI)
  fix w r w' assume w: "settled t now w"
  let ?s = "t_state (tasks w t)"
  have s: "Ts_ending \<le> ?s" using w by (simp add: settled_def)
  have n: "now_in t now ?s w" using w by (simp add: now_in_def settled_def)
  show "turn_settled t now r w'" if "bind_s (read_s (\<lambda>w. t_state (tasks w t))) (task_switch t now) w = (Inr r, w')"
    using that hoareD(1) [OF switch_waits [OF s, of t now] n] keepsD [OF settled_switch [OF s, of t now now] w]
    by (auto simp: bind_s_def read_s_def turn_settled_def)
next
  fix w x w' assume w: "settled t now w"
  show "settled t now w'" if "bind_s (read_s (\<lambda>w. t_state (tasks w t))) (task_switch t now) w = (Inl x, w')"
    using that keepsD [OF settled_switch [of "t_state (tasks w t)" t now now] w] w
    by (auto simp: bind_s_def read_s_def settled_def)
qed

lemma operation_finished_settled:
  "hoare (\<lambda>w. settled t now w \<and> t_operation (tasks w t)) (operation_finished t)
     (\<lambda>_ w. settled t now w \<and> t_operation (tasks w t)) (\<lambda>w. settled t now w \<and> t_operation (tasks w t))"
  unfolding keeps_def [symmetric]
  by (rule keeps_of_minor [OF frame.keeps_operation_finished]) (auto elim: minor_settled simp: minor_def unchanged_task_def)

lemma after_switch_settled: "hoare (turn_settled t now v) (after_switch t v) (turn_settled t now) (settled t now)"
proof -
  have 2: "hoare (\<lambda>w. turn_settled t now v w \<and> t_operation (tasks w t))
      (bind_s (operation_finished t) (\<lambda>f. ret (v\<lparr>v_loop := v_loop v \<or> f\<rparr>))) (turn_settled t now) (settled t now)"
    by (rule hoare_weaken [OF hoare_bind_s [OF hoare_strengthen [OF operation_finished_settled] hoare_ret]])
       (auto simp: turn_settled_def loops_or_waits_def waits_def Let_def)
  have 3: "hoare (\<lambda>w. turn_settled t now v w \<and> \<not> t_operation (tasks w t)) (apply_enqueued_state t v) (turn_settled t now) (settled t now)"
    by (auto simp: hoare_def apply_enqueued_state_def if_s_def bind_s_def set_enqueued_state_def must_end_def ret_def
        turn_settled_def settled_def not_less [symmetric])
  show ?thesis unfolding after_switch_def by (rule hoare_if_s [OF 2 3])
qed

text \<open>A task that has been told to end leaves its state with the next iteration, and no exception comes before.\<close>

definition leaves :: "nat \<Rightarrow> 'o engine \<Rightarrow> bool" where
  "leaves t w =
     (let x = tasks w t in t_end x \<noteq> End_none \<and> \<not> t_operation x \<and> t_state x < Ts_ending \<and> t_state x \<noteq> Ts_running_process
      \<and> \<not> makes_its_step_first x)"

definition ending_or_leaving :: "nat \<Rightarrow> time \<Rightarrow> 'o engine \<Rightarrow> bool" where
  "ending_or_leaving t now w = (settled t now w \<or> t < next_task w \<and> clock w = now \<and> leaves t w)"

lemma set_state_direct_total:
  assumes "s \<noteq> Ts_running_waiting_for_order" shows "\<exists>w'. set_state_direct t s w = (Inr (), w')"
proof -
  have "make_room_if_idle t v = (Inr (), v)" if "t_state (tasks v t) = s" for v :: "'a engine"
    using that assms by (simp add: make_room_if_idle_def when_s_def is_idle_def)
  then show ?thesis
    by (auto simp: set_state_direct_def apply_s_def when_s_def change_task_state_core split: prod.splits sum.splits)
qed

lemma set_state_settles:
  assumes "t < next_task w" "clock w = now" "Ts_ending \<le> s"
  shows "settled t now (snd (set_state_direct t s w))"
proof -
  let ?w = "set_task t (\<lambda>x. x\<lparr>t_enqueued_state := Ts_none\<rparr>) w"
  have "settled t now (change_task_state t s ?w)"
    using assms by (simp add: settled_def change_task_state_core change_task_state_engine engine_simps)
  then have "settled t now (snd (make_room_if_idle t (change_task_state t s ?w)))"
    by (rule minor_settled [OF _ minor_of_keeps [OF frame.keeps_make_room]])
  moreover have "settled t now ?w" if "s = t_state (tasks ?w t)"
    using assms that by (simp add: settled_def engine_simps)
  ultimately show ?thesis
    by (auto simp: set_state_direct_def apply_s_def when_s_def split: prod.splits sum.splits)
qed

lemma check_connection_leaves:
  assumes "t < next_task w" "clock w = now" "leaves t w"
  shows "\<exists>w'. check_connection t w = (Inr (), w')
     \<and> (settled t now w' \<or> t < next_task w' \<and> clock w' = now \<and> leaves t w')"
proof (cases "t_instance (tasks w t) \<and> \<not> t_async_error (tasks w t)")
  case True
  obtain r x where a: "ask (Connection_ok t) w = (r, w\<lparr>outer := x\<rparr>)"
    using ask_outer [of "Connection_ok t" w] by (metis prod.collapse)
  show ?thesis
  proof (cases r)
    case (Inr b)
    then show ?thesis
      using True a assms by (auto simp: check_connection_def when_s_def catch_s_def bind_s_def ret_def leaves_def)
  next
    case (Inl e)
    let ?w = "task_set_error t ''SCHEDULER-202'' (set_task t (\<lambda>x. x\<lparr>t_async_error := True\<rparr>) (w\<lparr>outer := x\<rparr>))"
    have m: "minor w ?w" by (rule frame_intros minor_refl frame.kept_outer | simp add: unchanged_task_def)+
    then have "t_state (tasks ?w t) < Ts_killing" and n: "t < next_task ?w" "clock ?w = now"
      using assms by (auto simp: minor_def unchanged_task_def leaves_def Let_def task_state_order)
    then have "check_connection t w = set_state_direct t Ts_killing ?w"
      using True a Inl set_state_direct_total [of Ts_killing t ?w]
      by (auto simp: check_connection_def when_s_def catch_s_def bind_s_def apply_s_def)
    then show ?thesis
      using set_state_direct_total [of Ts_killing t ?w] set_state_settles [OF n, of Ts_killing] by (auto simp: ending_states)
  qed
next
  case False
  then show ?thesis using assms by (auto simp: check_connection_def when_s_def)
qed

lemma end_if_told_leaves:
  assumes "t < next_task w" "clock w = now" "leaves t w"
  shows "\<exists>w'. end_if_told t w = (Inr (), w') \<and> settled t now w'"
proof -
  let ?s = "state_at_end t w"
  have s: "Ts_ending \<le> ?s" by (simp add: state_at_end_def ending_states)
  then have "?s \<noteq> Ts_running_waiting_for_order" by (auto simp: task_state_order)
  moreover have "end_if_told t w = set_state_direct t ?s w"
    using assms(3) by (simp add: end_if_told_def when_s_def leaves_def Let_def bind_s_def read_s_def)
  ultimately show ?thesis
    using set_state_direct_total [of ?s t w] set_state_settles [OF assms(1,2) s] by force
qed

lemma end_if_told_settled: "settled t now w \<Longrightarrow> end_if_told t w = (Inr (), w)"
  by (simp add: end_if_told_def when_s_def settled_def not_less [symmetric])

lemma check_connection_settled: "keeps (settled t now) (check_connection t)"
  unfolding check_connection_def
  by (rule settled_rules keep_rules frame_intros ending_states | assumption | simp add: unchanged_task_def)+

lemma leaving_settles:
  assumes "t < next_task w \<and> clock w = now \<and> leaves t w"
  shows "\<exists>w'. steps [check_connection t, end_if_told t] w = (Inr (), w') \<and> settled t now w'"
proof -
  obtain v where v: "check_connection t w = (Inr (), v)"
      "settled t now v \<or> t < next_task v \<and> clock v = now \<and> leaves t v"
    using check_connection_leaves [of t w now] assms by blast
  then have "\<exists>w'. end_if_told t v = (Inr (), w') \<and> settled t now w'"
    using end_if_told_leaves [of t v now] end_if_told_settled [of t now v] by blast
  then show ?thesis using v(1) by (auto simp: run_simps)
qed

lemma before_switch_settled: "hoare (ending_or_leaving t now) (before_switch t) (\<lambda>_. settled t now) (settled t now)"
proof -
  have 1: "hoare (settled t now) (steps [check_connection t, end_if_told t]) (\<lambda>_. settled t now) (settled t now)"
    by (rule hoare_steps2 [OF keeps_hoare [OF check_connection_settled]]) (simp add: hoare_def end_if_told_settled)
  have 2: "hoare (\<lambda>w. t < next_task w \<and> clock w = now \<and> leaves t w) (steps [check_connection t, end_if_told t])
      (\<lambda>_. settled t now) (settled t now)"
    by (rule hoare_total) (rule leaving_settles)
  have 3: "hoare (ending_or_leaving t now) (steps [check_connection t, end_if_told t]) (\<lambda>_. settled t now) (settled t now)"
    by (rule hoare_weaken [OF hoare_disj [OF 1 2]]) (simp add: ending_or_leaving_def)
  show ?thesis
    unfolding before_switch_def
    by (rule hoare_when_s [OF hoare_weaken [OF 3]]) (auto simp: ending_or_leaving_def leaves_def Let_def)
qed

lemma iteration_settled: "hoare (ending_or_leaving t now) (task_iteration t now) (turn_settled t now) (settled t now)"
  unfolding task_iteration_def
  by (rule hoare_bind_s [OF before_switch_settled hoare_bind_s [OF switch_settled after_switch_settled]])

section \<open>The loop\<close>

lemma closed_after_state: "set_state_direct t s w = (Inr r, w') \<Longrightarrow> t_state (tasks w' t) = s"
  using set_state_direct_core [of t "t_state (tasks w t)" "t_enqueued_state (tasks w t)" "t_operation (tasks w t)" False w s]
  by (simp add: at_core_def)

lemma exception_settled:
  assumes "task_exception t n x w = (Inr again, w')" "settled t now w"
  shows "\<not> again \<and> waits t now w'"
proof -
  obtain w1 where w1: "steps [when_s (\<lambda>_. n = 0) (apply_s (task_set_error t (code_of x))),
        log_errors (bind_s (read_s (error_order_state_transition t)) (detach_order_after_error t))] w = (Inr (), w1)"
    and rest: "if_s (\<lambda>w. n = 0 \<and> t_state (tasks w t) < Ts_ending)
         (bind_s (apply_s (set_task t (\<lambda>x. x\<lparr>t_end := End_normal\<rparr>))) (\<lambda>_. ret True))
         (if n \<le> 1 then bind_s (finish_after_error t) (\<lambda>_. ret False) else throw x) w1 = (Inr again, w')"
    using assms(1) unfolding task_exception_def by (auto simp: bind_s_Inr_iff simp del: steps.simps)
  have "keeps (settled t now) (steps [when_s (\<lambda>_. n = 0) (apply_s (task_set_error t (code_of x))),
        log_errors (bind_s (read_s (error_order_state_transition t)) (detach_order_after_error t))])"
    by (rule keep_rules frame_intros | assumption)+
  then have "settled t now w1" using keepsD [of "settled t now", OF _ assms(2)] w1 by fastforce
  then have "bind_s (finish_after_error t) (\<lambda>_. ret False) w1 = (Inr again, w')"
    using rest by (auto simp: if_s_def settled_def throw_def split: if_splits)
  then obtain v where "\<not> again" "set_state_direct t Ts_closed v = (Inr (), w')"
    by (auto simp: finish_after_error_def bind_s_Inr_iff simple_Inr_iff split: prod.splits sum.splits)
  then show ?thesis using closed_after_state [of t Ts_closed v "()" w'] by (simp add: waits_def Let_def)
qed

lemma loop_settled:
  "ending_or_leaving t now w \<Longrightarrow> task_loop fuel n something t now w = Some (Inr r, w') \<Longrightarrow> waits t now w'"
proof (induction fuel arbitrary: n something w)
  case (Suc fuel)
  obtain r1 w1 where r1: "task_iteration t now w = (r1, w1)" by (cases "task_iteration t now w")
  show ?case
  proof (cases r1)
    case (Inr v)
    then have turn: "turn_settled t now v w1" using hoareD(1) [OF iteration_settled Suc.prems(1)] r1 by simp
    show ?thesis
    proof (cases "v_loop v")
      case True
      show ?thesis
      proof (rule Suc.IH)
        show "ending_or_leaving t now w1" using turn by (simp add: turn_settled_def ending_or_leaving_def)
      qed (use Suc.prems(2) r1 Inr True in simp)
    qed (use Suc.prems(2) r1 Inr turn in \<open>simp add: turn_settled_def loops_or_waits_def\<close>)
  next
    case (Inl x)
    then have s: "settled t now w1" using hoareD(2) [OF iteration_settled Suc.prems(1)] r1 by simp
    obtain r2 w2 where r2: "task_exception t n x w1 = (r2, w2)" by (cases "task_exception t n x w1")
    with Suc.prems(2) r1 Inl obtain again where again: "r2 = Inr again" by (cases r2) auto
    then show ?thesis using exception_settled [OF _ s, of n x again w2] r2 Suc.prems(2) r1 Inl by simp
  qed
qed simp

section \<open>Task::do_something\<close>

lemma hoare_no_operation: "hoare P (lift_check f) (\<lambda>_. Q) E"
  if "\<And>w. P w \<Longrightarrow> Q (snd (f w))" for f :: "'o engine \<Rightarrow> bool \<times> 'o engine"
  using that by (rule_tac hoareI) (auto simp: lift_check_def split: prod.splits, force)

lemma hoare_end_with_period: "hoare (ending_or_leaving t now) (end_with_period t now) (\<lambda>_. ending_or_leaving t now) (\<lambda>_. True)"
proof (rule hoare_total)
  show "\<exists>w'. end_with_period t now w = (Inr (), w') \<and> ending_or_leaving t now w'" if "ending_or_leaving t now w" for w
    using that by (auto simp: end_with_period_def when_s_def ending_or_leaving_def settled_def leaves_def Let_def task_state_order)
qed

lemma hoare_run_loop: "hoare (ending_or_leaving t now) (run_loop t now something) (\<lambda>_. waits t now) (\<lambda>_. True)"
  by (rule hoareI) (auto simp: run_loop_def split: option.splits intro: loop_settled)

lemma waits_minor_end:
  "waits t now w \<Longrightarrow> set_state_direct t (t_state (tasks w t)) w = (Inr (), w') \<Longrightarrow> waits t now w'"
  by (auto simp: set_state_direct_def apply_s_def when_s_def run_simps waits_def Let_def engine_simps split: if_splits)

lemma hoare_last_steps:
  "hoare (waits t now)
     (steps
       [when_s c (apply_s (\<lambda>w. call_task_timeout t (set_task t (\<lambda>x. x\<lparr>t_last_operation_time := now\<rparr>) w))),
        when_s (\<lambda>_. \<not> something) (bind_s (read_s (\<lambda>w. t_state (tasks w t))) (set_state_direct t))])
     (\<lambda>_. waits t now) (\<lambda>_. True)"
proof -
  have 1: "hoare (waits t now) (when_s c (apply_s (\<lambda>w. call_task_timeout t (set_task t (\<lambda>x. x\<lparr>t_last_operation_time := now\<rparr>) w))))
      (\<lambda>_. waits t now) (\<lambda>_. True)"
    by (auto simp: hoare_def when_s_def apply_s_def call_task_timeout_def wake_when_longer_than_def call_task_def waits_def Let_def engine_simps)
  have 2: "hoare (waits t now) (when_s (\<lambda>_. \<not> something) (bind_s (read_s (\<lambda>w. t_state (tasks w t))) (set_state_direct t)))
      (\<lambda>_. waits t now) (\<lambda>_. True)"
    by (auto simp: hoare_def when_s_def bind_s_def read_s_def intro: waits_minor_end)
  show ?thesis by (rule hoare_steps_Cons [OF 1 hoare_steps_Cons [OF 2 hoare_steps_Nil]])
qed

lemma leaves_or_settled_check:
  assumes "ending_or_leaving t now w"
  shows "ending_or_leaving t now (snd (check_subprocess_timeout t now' w))" (is ?a)
    and "ending_or_leaving t now (snd (check_if_longer_than t now' w))" (is ?b)
proof -
  have set_task: "ending_or_leaving t now (set_task t f v)"
    if "ending_or_leaving t now v" "\<And>x. unchanged_task x (f x)"
      "\<And>x. t_end (f x) = t_end x \<and> t_order (f x) = t_order x \<and> t_step_count (f x) = t_step_count x" for v f
    using that by (auto simp: ending_or_leaving_def settled_def leaves_def makes_its_step_first_def Let_def engine_simps unchanged_task_def)
  have outer: "ending_or_leaving t now (tell q v)" if "ending_or_leaving t now v" for v q
    using that by (simp add: ending_or_leaving_def settled_def leaves_def engine_simps)
  have kill: "ending_or_leaving t now (kill_pid t p v)" if "ending_or_leaving t now v" for v p
    using that by (auto simp: kill_pid_def unchanged_task_def intro!: set_task outer split: option.splits)
  have kills: "ending_or_leaving t now (fold (\<lambda>p. kill_pid t (fst p)) ps v)" if "ending_or_leaving t now v" for ps v
    using that by (induction ps arbitrary: v) (auto intro: kill)
  show ?a
    using assms by (auto simp: check_subprocess_timeout_def set_subprocess_timeout_def call_task_def Let_def unchanged_task_def
        intro!: set_task kills)
  show ?b
    using assms by (auto simp: check_if_longer_than_def Let_def unchanged_task_def intro!: set_task)
qed

lemma hoare_do_something_now: "hoare (ending_or_leaving t now) (do_something_now t now something) (\<lambda>_. waits t now) (\<lambda>_. True)"
proof -
  have longer: "hoare (ending_or_leaving t now) (if b then ret False else lift_check (check_if_longer_than t now))
      (\<lambda>_. ending_or_leaving t now) (\<lambda>_. True)" for b
    by (cases b) (simp_all add: hoare_no_operation leaves_or_settled_check hoare_ret)
  have period: "hoare (ending_or_leaving t now) (if b then ret () else end_with_period t now)
      (\<lambda>_. ending_or_leaving t now) (\<lambda>_. True)" for b
    by (cases b) (simp_all add: hoare_end_with_period hoare_ret)
  have rest: "hoare (ending_or_leaving t now)
     (bind_s (if b then ret False else lift_check (check_if_longer_than t now)) (\<lambda>longer.
      bind_s (if b then ret () else end_with_period t now) (\<lambda>_.
      bind_s (run_loop t now (something \<or> longer)) (\<lambda>something.
      bind_s (steps
       [when_s (\<lambda>w. t_operation (tasks w t) \<and> \<not> b \<and> t_state (tasks w t) \<noteq> Ts_running_process)
          (apply_s (\<lambda>w. call_task_timeout t (set_task t (\<lambda>x. x\<lparr>t_last_operation_time := now\<rparr>) w))),
        when_s (\<lambda>_. \<not> something) (bind_s (read_s (\<lambda>w. t_state (tasks w t))) (set_state_direct t))]) (\<lambda>_.
       ret something))))) (\<lambda>_. waits t now) (\<lambda>_. True)" for b
    by (rule hoare_bind_s [OF longer hoare_bind_s [OF period hoare_bind_s [OF hoare_run_loop hoare_bind_s [OF hoare_last_steps hoare_ret]]]])
  show ?thesis unfolding do_something_now_def by (rule hoare_read_value) (rule rest)
qed

lemma hoare_operation_runs:
  "hoare (ending_or_leaving t now) (operation_runs t) (\<lambda>runs w. if runs then t_operation (tasks w t) else ending_or_leaving t now w) (\<lambda>_. True)"
proof -
  have 2: "hoare (\<lambda>w. ending_or_leaving t now w \<and> t_operation (tasks w t)) (bind_s (operation_finished t) (\<lambda>f. ret (\<not> f)))
      (\<lambda>runs w. if runs then t_operation (tasks w t) else ending_or_leaving t now w) (\<lambda>_. True)"
    by (rule hoare_weaken [OF hoare_bind_s [OF hoare_strengthen [OF operation_finished_settled] hoare_ret]])
       (auto simp: ending_or_leaving_def leaves_def waits_def Let_def)
  show ?thesis unfolding operation_runs_def
    by (rule hoare_if_s [OF 2 hoare_ret]) simp
qed

lemma hoare_checks:
  "hoare (\<lambda>w. t_operation (tasks w t)) (bind_s (lift_check (check_timeout t now)) (\<lambda>killed.
     bind_s (lift_check (check_if_longer_than t now)) (\<lambda>longer. ret (b \<or> killed \<or> longer))))
   (\<lambda>_ w. t_operation (tasks w t)) (\<lambda>w. t_operation (tasks w t))"
  unfolding keeps_def [symmetric]
proof (rule keeps_of_minor)
  show "keeps (minor w0) (bind_s (lift_check (check_timeout t now)) (\<lambda>killed.
     bind_s (lift_check (check_if_longer_than t now)) (\<lambda>longer. ret (b \<or> killed \<or> longer))))" for w0 :: "'a engine"
    by (rule keep_rules keeps_lift_check frame_intros | assumption)+
qed (simp add: minor_def unchanged_task_def)

lemma do_something_waits:
  "hoare (ending_or_leaving t now) (bind_s (lift_check (check_subprocess_timeout t now)) (\<lambda>something.
     bind_s (operation_runs t) (\<lambda>runs.
       if runs then
         bind_s (lift_check (check_timeout t now)) (\<lambda>killed.
         bind_s (lift_check (check_if_longer_than t now)) (\<lambda>longer. ret (something \<or> killed \<or> longer)))
       else do_something_now t now something))) (\<lambda>_. waits t now) (\<lambda>_. True)"
proof (rule hoare_bind_s)
  show "hoare (ending_or_leaving t now) (lift_check (check_subprocess_timeout t now)) (\<lambda>_. ending_or_leaving t now) (\<lambda>_. True)"
    by (rule hoare_no_operation) (rule leaves_or_settled_check)
  have "hoare (\<lambda>w. if runs then t_operation (tasks w t) else ending_or_leaving t now w)
       (if runs then bind_s (lift_check (check_timeout t now)) (\<lambda>killed.
         bind_s (lift_check (check_if_longer_than t now)) (\<lambda>longer. ret (something \<or> killed \<or> longer)))
        else do_something_now t now something) (\<lambda>_. waits t now) (\<lambda>_. True)" for runs something
    by (cases runs)
       (simp_all add: hoare_do_something_now, rule hoare_strengthen [OF hoare_checks], simp_all add: waits_def Let_def)
  then show "hoare (ending_or_leaving t now)
      (bind_s (operation_runs t) (\<lambda>runs.
       if runs then bind_s (lift_check (check_timeout t now)) (\<lambda>killed.
         bind_s (lift_check (check_if_longer_than t now)) (\<lambda>longer. ret (something \<or> killed \<or> longer)))
       else do_something_now t now something)) (\<lambda>_. waits t now) (\<lambda>_. True)" for something
    by (rule hoare_bind_s [OF hoare_operation_runs])
qed

text \<open> C8: a task that is in its end and has no state enqueued, or that leaves its state because it was told to end, is not
  forgotten: when \<^verbatim>\<open>do_something\<close> returns, it is closed, or an operation of its module instance is running, or it is
  waiting for a subprocess or a file with a call registered for a tenth of a second later at most. A task that was told to
  end leaves its state (\<open>leaves\<close>) if no operation is running, it is not in \<open>running_process\<close>, where it waits for its
  process, and it is not told to end nicely while its first step is still due.
\<close>

theorem ending_task_is_not_forgotten:
  assumes "t < next_task w"
    and "Ts_ending \<le> t_state (tasks w t) \<and> t_enqueued_state (tasks w t) = Ts_none \<or> leaves t w"
    and "task_do_something t w = (Inr something, w')"
  shows "waits t (clock w) w'"
proof -
  have "ending_or_leaving t (clock w) w" using assms(1,2) by (auto simp: ending_or_leaving_def settled_def)
  then show ?thesis
    using assms(3) hoareD(1) [OF do_something_waits [of t "clock w"]] by (simp add: task_do_something_def bind_s_def [of "read_s clock"] read_s_def)
qed

end
