(* ===== verification/Task_Keeps.thy ===== *)
theory Task_Keeps
  imports Task_Frames
begin

text \<open>
  What a whole run of \<^verbatim>\<open>Task::do_something\<close> keeps: a property of the jobs that does not depend on the tasks, on the
  processes or on the counters, and that bears the restart of a task.
\<close>

locale job_frame = task_frame I for I :: "'o engine \<Rightarrow> bool" +
  assumes any_task: "I w \<Longrightarrow> I (set_task t f w)"
    and any_class: "I w \<Longrightarrow> I (set_class c pc w)"
    and any_process: "I w \<Longrightarrow> I (w\<lparr>next_process := n\<rparr>)"
    and any_count: "I w \<Longrightarrow> I (w\<lparr>running_tasks_count := k\<rparr>)"
    and any_job_count: "I w \<Longrightarrow> I (set_job j (\<lambda>x. x\<lparr>j_running_count := h x\<rparr>) w)"
    and any_task_set: "I w \<Longrightarrow> I (w\<lparr>task_set := ts\<rparr>)"
    and restart: "keeps I (start_task_with j start force)"
begin

section \<open>The state of a task\<close>

lemma kept_count_running: "I w \<Longrightarrow> I (count_running j d w)"
  unfolding count_running_def by (intro any_job_count any_count)

lemma kept_change_task_state: "I w \<Longrightarrow> I (change_task_state t s w)"
  unfolding change_task_state_def Let_def by (intro any_task kept_count_running frame_intros)

lemma keeps_set_state_direct [keep_rules]: "keeps I (set_state_direct t s)"
  unfolding set_state_direct_def
  by (rule keep_rules any_task kept_change_task_state | assumption)+

lemma keeps_set_enqueued_state [keep_rules]: "keeps I (set_enqueued_state t)"
  by (rule keepsI) (simp add: set_enqueued_state_def keepsD [OF keeps_set_state_direct])

lemma keeps_task_set_state [keep_rules]: "keeps I (task_set_state t s)"
  unfolding task_set_state_def by (rule keep_rules any_task | assumption)+

section \<open>Processes\<close>

lemma keeps_select_process [keep_rules]: "keeps I (class_select_process c conf)"
  by (rule keepsI) (auto simp: class_select_process_def intro!: any_class any_process split: sum.splits prod.splits option.splits)

lemma keeps_remove_process [keep_rules]: "keeps I (class_remove_process c p)"
  by (rule keepsI)
     (auto simp: class_remove_process_def intro!: any_class kept_fold kept_pass_signal split: sum.splits prod.splits)

lemma keeps_detach_process [keep_rules]: "keeps I (detach_process t)"
  unfolding detach_process_def by (rule keep_rules any_task | assumption)+

lemma keeps_try_to_get_process [keep_rules]: "keeps I (try_to_get_process t)"
  unfolding try_to_get_process_def by (rule keep_rules any_task | assumption)+

section \<open>The end of a task\<close>

lemma keeps_start_task [keep_rules]: "keeps I (start_task j start)"
  by (rule keepsI) (simp add: start_task_def keepsD [OF restart])

lemma kept_close_operation: "I w \<Longrightarrow> I (close_operation t w)"
  unfolding close_operation_def by (intro any_task frame_intros)

lemma keeps_task_close [keep_rules]: "keeps I (task_close t)"
  unfolding task_close_def
  by (rule keep_rules any_task kept_close_operation frame_intros kept_let_any | assumption | simp add: same_job_def)+

lemma keeps_job_after_task [keep_rules]: "keeps I (job_after_task j t)"
  unfolding job_after_task_def delay_job_def start_again_def
  by (rule keep_rules any_task frame_intros kept_let_any | assumption | simp add: same_job_def)+

lemma keeps_task_finish [keep_rules]: "keeps I (task_finish t tr)"
  unfolding task_finish_def
  by (rule keep_rules any_task frame_intros kept_let_any | assumption | simp add: same_job_def)+

section \<open>The branches\<close>

lemma keeps_operations [keep_rules]: "keeps I (start_operation t)" "keeps I (operation_end t)"
  unfolding start_operation_def operation_end_def
  by (rule keep_rules any_task kept_close_operation frame_intros | assumption)+

lemma keeps_locks_after_step [keep_rules]: "keeps I (locks_after_step t ok)"
  unfolding locks_after_step_def
  by (rule keep_rules any_task frame_intros | assumption)+

lemma keeps_try_deleting [keep_rules]: "keeps I (try_deleting_files t)"
  unfolding try_deleting_files_def by (rule keep_rules any_task frame_intros | assumption)+

lemma keeps_waiting [keep_rules]: "keeps I (waiting_branch t)" "keeps I (loading_branch t)"
  unfolding loading_branch_def waiting_branch_def by (rule keep_rules any_task frame_intros | assumption)+

lemma keeps_early_branches:
  "keeps I (starting_branch t now)" "keeps I (opening_branch t)" "keeps I (running_process_branch t now)"
  "keeps I (running_delayed_branch t now)"
  unfolding starting_branch_def opening_branch_def running_delayed_branch_def running_process_branch_def start_branch_def
  by (rule keep_rules any_task frame_intros kept_let_any | assumption | simp add: same_job_def)+

lemma keeps_running_branches:
  "keeps I (running_branch t now)" "keeps I (waiting_for_order_branch t now)" "keeps I (running_remote_process_branch t)"
  unfolding running_branch_def after_step_def next_step_def wait_for_order_def idle_time_is_over_def
    waiting_for_order_branch_def running_remote_process_branch_def remote_process_step_end_def
  by (rule keep_rules any_task kept_close_operation frame_intros kept_let_any | assumption | simp add: same_job_def)+

lemma keeps_late_branches:
  "keeps I (ending_branch t)" "keeps I (waiting_for_subprocesses_branch t)" "keeps I (operation_branch t next)"
  "keeps I (killing_branch t)" "keeps I (ended_branch t)"
  unfolding ending_branch_def waiting_for_subprocesses_branch_def waiting_for_subprocesses_def operation_branch_def
    start_branch_def killing_branch_def ended_branch_def
  by (rule keep_rules any_task kept_close_operation frame_intros kept_let_any | assumption | simp add: same_job_def)+

declare keeps_prod [keep_rules]

lemma keeps_deleting_files: "keeps I (deleting_files_branch t now)"
  unfolding deleting_files_branch_def
  by (rule keep_rules any_task frame_intros | assumption)+

lemma keeps_switch [keep_rules]: "keeps I (task_switch t now s)"
  by (cases s) (simp_all add: task_switch_def nothing_to_do_def keeps_early_branches keeps_running_branches
    keeps_late_branches keeps_deleting_files keeps_waiting keeps_ret)

section \<open>The loop\<close>

lemma keeps_before_switch [keep_rules]: "keeps I (before_switch t)"
  unfolding before_switch_def check_connection_def end_if_told_def
  by (rule keep_rules any_task frame_intros | assumption)+

lemma keeps_after_switch [keep_rules]: "keeps I (after_switch t v)"
  unfolding after_switch_def apply_enqueued_state_def
  by (rule keep_rules | assumption)+

lemma keeps_iteration: "keeps I (task_iteration t now)"
  unfolding task_iteration_def by (rule keep_rules)+

lemma keeps_exception: "keeps I (task_exception t n x)"
  unfolding task_exception_def finish_after_error_def
  by (rule keep_rules any_task frame_intros | assumption)+

lemma kept_task_loop: "I w \<Longrightarrow> task_loop fuel n something t now w = Some (r, w') \<Longrightarrow> I w'"
proof (induction fuel arbitrary: n something w)
  case (Suc fuel)
  obtain r1 w1 where r1: "task_iteration t now w = (r1, w1)" by (cases "task_iteration t now w")
  have w1: "I w1" using keepsD [OF keeps_iteration Suc.prems(1), of t now] r1 by simp
  show ?case
  proof (cases r1)
    case (Inr v)
    then show ?thesis using Suc.IH [OF w1] Suc.prems(2) r1 w1 by (simp split: if_splits)
  next
    case (Inl x)
    obtain r2 w2 where r2: "task_exception t n x w1 = (r2, w2)" by (cases "task_exception t n x w1")
    have "I w2" using keepsD [OF keeps_exception w1, of t n x] r2 by simp
    then show ?thesis using Suc.IH [of w2] Suc.prems(2) r1 r2 Inl by (auto split: sum.splits bool.splits)
  qed
qed simp

lemma keeps_run_loop [keep_rules]: "keeps I (run_loop t now something)"
  by (rule keepsI) (auto simp: run_loop_def kept_task_loop split: option.splits)

section \<open>Task::do_something\<close>

lemma keeps_do_something_now [keep_rules]: "keeps I (do_something_now t now something)"
  unfolding do_something_now_def end_with_period_def
  by (rule keep_rules keeps_lift_check any_task frame_intros kept_let_any | assumption | simp)+

lemma keeps_task_do_something [keep_rules]: "keeps I (task_do_something t)"
  unfolding task_do_something_def operation_runs_def
  by (rule keep_rules keeps_lift_check frame_intros | assumption)+

lemma keeps_task_on_call: "keeps I (task_on_call t c)"
  unfolding task_on_call_def
  by (rule keep_rules keeps_lift_check frame_intros | assumption)+

lemma keeps_task_init [keep_rules]: "keeps I (task_init t)"
  unfolding task_init_def by (rule keep_rules any_task_set | assumption)+

end

end
