(* ===== verification/Task_Queue.thy ===== *)
theory Task_Queue
  imports Task_Orders
begin

text \<open>
  The queue of a job serves the tasks that are due in the order of their start times, the first enqueued first; the
  next start time of the queue is the earliest one; and the delay after errors.
\<close>

section \<open>The order of the queue\<close>

lemma queue_insert_simps [simp]:
  "queue_insert_task f t [] = [t]"
  "queue_insert_task f t (x # xs) = (if f x \<le> f t then x # queue_insert_task f t xs else t # x # xs)"
  by (simp_all add: queue_insert_task_def Let_def)

lemma set_queue_insert_task [simp]: "set (queue_insert_task f t xs) = insert t (set xs)"
  by (induction xs) auto

lemma distinct_queue_insert_task [simp]: "distinct (queue_insert_task f t xs) \<longleftrightarrow> t \<notin> set xs \<and> distinct xs"
  by (induction xs) auto

definition tasks_sorted :: "(nat \<Rightarrow> time) \<Rightarrow> nat list \<Rightarrow> bool" where
  "tasks_sorted f xs = sorted (map f xs)"

lemma tasks_sorted_insert: "tasks_sorted f (queue_insert_task f t xs) = tasks_sorted f xs"
proof (induction xs)
  case (Cons x xs)
  then show ?case by (cases xs) (auto simp: tasks_sorted_def)
qed (simp add: tasks_sorted_def)

lemma sorted_find_least:
  assumes "sorted (map f xs)" "List.find P xs = Some x" "y \<in> set xs" "P y"
  shows "f x \<le> f y"
  using assms by (induction xs) (auto split: if_splits simp: find_Some_iff)

text \<open> C22: A task is put into the queue behind all tasks with the same or an earlier start time and before all later ones, so
  that the queue stays sorted; the other tasks keep their order.
\<close>

theorem queue_insert_in_order:
  assumes "tasks_sorted f xs"
  shows "\<exists>earlier later. xs = earlier @ later \<and> queue_insert_task f t xs = earlier @ t # later
     \<and> (\<forall>x \<in> set earlier. f x \<le> f t) \<and> (\<forall>x \<in> set later. f t < f x) \<and> tasks_sorted f (queue_insert_task f t xs)"
proof -
  let ?n = "queue_position f (f t) xs"
  have "(\<forall>x \<in> set (take ?n xs). f x \<le> f t) \<and> (\<forall>x \<in> set (drop ?n xs). f t < f x)"
    using assms unfolding tasks_sorted_def
    by (induction xs) (auto simp: not_le intro: less_le_trans)
  then show ?thesis
    using assms
    by (intro exI [of _ "take ?n xs"] exI [of _ "drop ?n xs"])
       (simp add: queue_insert_task_def Let_def tasks_sorted_insert [unfolded queue_insert_task_def Let_def])
qed

text \<open>The task waits in the queue, its time has come, and it may start.\<close>

definition due_in_queue :: "nat \<Rightarrow> time \<Rightarrow> 'o engine \<Rightarrow> nat \<Rightarrow> bool" where
  "due_in_queue j now w t =
     (t \<in> set (j_queue (jobs w j)) \<and> t_start_at (tasks w t) \<le> now \<and> (t_force_start (tasks w t) \<or> is_in_period j now w))"

lemma first_start_least:
  assumes "sorted (map (start_at_of w) xs)" "t \<in> set xs" "P t"
  shows "first_start w P xs \<le> start_at_of w t"
proof (cases "List.find P xs")
  case None
  then show ?thesis using assms(2,3) by (simp add: find_None_iff)
next
  case (Some u)
  then show ?thesis using sorted_find_least [OF assms(1) Some assms(2,3)] by (simp add: first_start_def)
qed

lemma first_start_reached: "first_start w P xs = never \<or> (\<exists>t \<in> set xs. first_start w P xs = start_at_of w t)"
  by (auto simp: first_start_def find_Some_iff split: option.split)

text \<open> C21: Of a sorted queue the job takes the task with the earliest start time among those that are due and may start now, and
  it finds one if there is any; the next start time of the queue is a lower bound of all start times that is reached.
\<close>

theorem queue_serves_earliest:
  assumes "tasks_sorted (start_at_of w) (j_queue (jobs w j))" "j_state (jobs w j) \<noteq> Js_error"
  shows "(case get_task_from_queue j now w of
            None \<Rightarrow> \<forall>t. \<not> due_in_queue j now w t
          | Some t \<Rightarrow> due_in_queue j now w t \<and> (\<forall>u. due_in_queue j now w u \<longrightarrow> t_start_at (tasks w t) \<le> t_start_at (tasks w u)))
     \<and> (\<forall>t \<in> set (j_queue (jobs w j)). queue_next_start_time j w \<le> t_start_at (tasks w t))
     \<and> (queue_next_start_time j w = never \<or> (\<exists>t \<in> set (j_queue (jobs w j)). queue_next_start_time j w = t_start_at (tasks w t)))"
proof (intro conjI)
  let ?q = "j_queue (jobs w j)"
  let ?P = "\<lambda>t. t_start_at (tasks w t) \<le> now \<and> (t_force_start (tasks w t) \<or> is_in_period j now w)"
  note sorted = assms(1) [unfolded tasks_sorted_def]
  have find: "get_task_from_queue j now w = List.find ?P ?q" using assms(2) by (simp add: get_task_from_queue_def Let_def)
  show "case get_task_from_queue j now w of
            None \<Rightarrow> \<forall>t. \<not> due_in_queue j now w t
          | Some t \<Rightarrow> due_in_queue j now w t \<and> (\<forall>u. due_in_queue j now w u \<longrightarrow> t_start_at (tasks w t) \<le> t_start_at (tasks w u))"
  proof (cases "List.find ?P ?q")
    case None
    have "\<not> due_in_queue j now w t" for t using None by (auto simp: find_None_iff due_in_queue_def)
    then show ?thesis using None by (simp add: find)
  next
    case (Some t)
    then have "due_in_queue j now w t" by (auto simp: find_Some_iff due_in_queue_def)
    then show ?thesis
      using sorted_find_least [OF sorted Some] Some unfolding find by (auto simp: due_in_queue_def start_at_of_def)
  qed
  show "\<forall>t \<in> set ?q. queue_next_start_time j w \<le> t_start_at (tasks w t)"
  proof
    fix t assume t: "t \<in> set ?q"
    show "queue_next_start_time j w \<le> t_start_at (tasks w t)"
      using first_start_least [OF sorted t, of "\<lambda>t. t_force_start (tasks w t)"]
        first_start_least [OF sorted t, of "\<lambda>t. \<not> t_force_start (tasks w t)"]
      by (cases "t_force_start (tasks w t)") (auto simp: queue_next_start_time_def start_at_of_def min_le_iff_disj)
  qed
  show "queue_next_start_time j w = never \<or> (\<exists>t \<in> set ?q. queue_next_start_time j w = t_start_at (tasks w t))"
    using first_start_reached [of w "\<lambda>t. t_force_start (tasks w t)" ?q] first_start_reached [of w "\<lambda>t. \<not> t_force_start (tasks w t)" ?q]
    by (auto simp: queue_next_start_time_def start_at_of_def min_def)
qed

section \<open>The delay after errors\<close>

lemma sorted_last: "sorted (map f xs) \<Longrightarrow> x \<in> set xs \<Longrightarrow> f x \<le> f (last xs)"
  by (induction xs rule: rev_induct) (auto simp: sorted_append)

definition reached :: "(int \<times> duration) list \<Rightarrow> int \<Rightarrow> (int \<times> duration) list" where
  "reached entries n = filter (\<lambda>e. fst e \<le> n) entries"

lemma fold_last: "fold (\<lambda>e d. if P e then f e else d) xs d = (if filter P xs = [] then d else f (last (filter P xs)))"
  by (induction xs arbitrary: d) auto

text \<open>
  The delay after \<open>n\<close> errors is the one of the greatest number of errors that is reached; none yet: the task starts again
  at once.
\<close>

theorem delay_of_greatest_reached:
  assumes "sorted (map fst entries)" "entries \<noteq> []"
  shows "(\<exists>e \<in> set entries. fst e \<le> n \<and> (\<forall>e' \<in> set entries. fst e' \<le> n \<longrightarrow> fst e' \<le> fst e) \<and> delay_after_error entries n = snd e)
     \<or> (\<forall>e \<in> set entries. n < fst e) \<and> delay_after_error entries n = Duration 0"
proof (cases "reached entries n = []")
  case True
  then show ?thesis using assms(2) by (auto simp: delay_after_error_def fold_last reached_def filter_empty_conv not_le)
next
  case False
  let ?e = "last (reached entries n)"
  have e: "?e \<in> set (reached entries n)" using False by simp
  have "sorted (map fst (reached entries n))" using assms(1) by (simp add: reached_def sorted_filter)
  then have "fst e' \<le> fst ?e" if "e' \<in> set (reached entries n)" for e'
    by (rule sorted_last) (use that in simp_all)
  moreover have "delay_after_error entries n = snd ?e" using False by (simp add: delay_after_error_def fold_last reached_def)
  ultimately show ?thesis using e by (auto simp: reached_def)
qed

end
