(* ===== verification/Job_Limit.thy ===== *)
theory Job_Limit
  imports Task_Keeps Task_Queue
begin

text \<open>
  The running tasks and the queue of a job through the operations of \<^verbatim>\<open>Standard_job\<close> that choose a task and start it:
  a new or queued task is reserved, and then runs.
\<close>

section \<open>Operations of a job that leave its tasks alone\<close>

context job_frame
begin

lemma keeps_pending_cause [keep_rules]: "keeps I (pending_cause j now cause)"
  unfolding pending_cause_def directory_counts_as_changed_def
  by (rule keep_rules frame_intros | assumption | simp add: same_job_def)+

lemma keeps_plan_start [keep_rules]: "keeps I (plan_start j now)"
  unfolding plan_start_def cause_in_period_def
  by (rule keep_rules frame_intros | assumption)+

lemma kept_require_locks: "I w \<Longrightarrow> I (snd (require_locks j p w))"
  by (auto simp: require_locks_def same_job_def intro!: frame_intros)

lemma kept_enter_process_list: "I w \<Longrightarrow> I (enter_process_list j c w)"
  unfolding enter_process_list_def by (rule frame_intros | assumption | simp add: same_job_def)+

lemma kept_require_process: "I w \<Longrightarrow> I (snd (require_process j p w))"
  by (auto simp: require_process_def same_job_def intro!: frame_intros kept_enter_process_list split: option.split)

lemma keeps_lift_plan: "(\<And>w. I w \<Longrightarrow> I (snd (f w))) \<Longrightarrow> keeps I (lift_plan f)"
  by (rule keepsI) (simp add: lift_plan_def split: prod.splits, metis snd_conv)

lemma kept_start_is_decided: "I w \<Longrightarrow> I (start_is_decided j now p w)"
  unfolding start_is_decided_def Let_def
  by (rule any_task frame_intros | assumption | simp add: same_job_def)+

lemma kept_hold_locks_of_start: "I w \<Longrightarrow> I (leave_process_list j (hold_locks_of_start j p w))"
  unfolding leave_process_list_def hold_locks_of_start_def
  by (rule frame_intros | assumption | simp add: same_job_def)+

lemma kept_dequeue_useless: "I w \<Longrightarrow> I (dequeue_useless_lock_requests j w)"
  unfolding dequeue_useless_lock_requests_def by (rule frame_intros | assumption)+

lemma keeps_continue_tasks [keep_rules]: "keeps I (continue_tasks_waiting_for_order j)"
  unfolding continue_tasks_waiting_for_order_def by (rule keep_rules)+

lemma keeps_period_end [keep_rules]: "keeps I (period_end j)"
  unfolding period_end_def by (rule keep_rules)+

lemma keeps_check_watchers [keep_rules]: "keeps I (check_watchers j ds)"
  unfolding check_watcher_def
  by (induction ds) (simp; (rule keep_rules frame_intros | assumption | simp add: check_watcher_def same_job_def)+)+

lemma keeps_changed_directory [keep_rules]: "keeps I (check_for_changed_directory j now)"
  unfolding check_for_changed_directory_def
  by (rule keep_rules frame_intros | assumption | simp add: same_job_def)+

lemma keeps_set_tasks_state [keep_rules]: "keeps I (set_tasks_state j P s)"
  unfolding set_tasks_state_def by (rule keep_rules)+

end

section \<open>The tasks of a job\<close>

text \<open>
  The running tasks of the job are \<open>rs\<close> and its limit is \<open>m\<close>; tasks are either running or in the queue, once; a job
  that is \<open>pending\<close> or \<open>stopped\<close> has no running task. The tasks of \<open>C\<close> do not run, those of \<open>R\<close> neither run nor
  wait in the queue. \<open>n\<close> is the number of the next task.
\<close>

definition job_with :: "nat list \<Rightarrow> int \<Rightarrow> nat set \<Rightarrow> nat set \<Rightarrow> nat \<Rightarrow> job \<Rightarrow> bool" where
  "job_with rs m C R n x =
     (j_running x = rs \<and> j_max_tasks x = m \<and> distinct rs \<and> distinct (j_queue x)
      \<and> set (j_queue x) \<inter> set rs = {} \<and> (\<forall>t \<in> set (j_queue x) \<union> set rs \<union> C \<union> R. t < n)
      \<and> (C \<union> R) \<inter> set rs = {} \<and> R \<inter> set (j_queue x) = {}
      \<and> (j_state x = Js_pending \<or> j_state x = Js_stopped \<longrightarrow> rs = []))"

definition job_at :: "nat \<Rightarrow> nat list \<Rightarrow> int \<Rightarrow> nat set \<Rightarrow> nat set \<Rightarrow> 'o engine \<Rightarrow> bool" where
  "job_at j rs m C R w = job_with rs m C R (next_task w) (jobs w j)"

lemma job_with_same: "job_with rs m C R n x \<Longrightarrow> same_job x y \<Longrightarrow> job_with rs m C R n y"
  by (simp add: job_with_def same_job_def)

lemma job_with_weaken: "job_with rs m C R n x \<Longrightarrow> C' \<subseteq> C \<union> R \<Longrightarrow> R' \<subseteq> R \<Longrightarrow> job_with rs m C' R' n x"
  unfolding job_with_def by blast

lemma job_at_weaken: "job_at j rs m C R w \<Longrightarrow> C' \<subseteq> C \<union> R \<Longrightarrow> R' \<subseteq> R \<Longrightarrow> job_at j rs m C' R' w"
  unfolding job_at_def by (rule job_with_weaken)

text \<open>A new state.\<close>

lemma job_with_state:
  "job_with rs m C R n x \<Longrightarrow> (s = Js_pending \<or> s = Js_stopped \<Longrightarrow> rs = []) \<Longrightarrow> job_with rs m C R n (x\<lparr>j_state := s, j_next_start_time := nst\<rparr>)"
  by (auto simp: job_with_def)

lemma job_at_quiet: "quiet_frame (job_at j rs m C R)"
  by standard (auto simp: job_at_def engine_simps elim: job_with_same)

interpretation quiet: quiet_frame "job_at j rs m C R" for j rs m C R
  by (rule job_at_quiet)

lemma job_at_set_state:
  assumes "job_at j rs m C R w" "i = j \<Longrightarrow> s = Js_pending \<or> s = Js_stopped \<Longrightarrow> rs = []"
  shows "job_at j rs m C R (job_set_state i s w)"
  by (rule quiet.kept_job_set_state [OF assms(1)]) (use assms(2) in \<open>auto simp: job_at_def engine_simps intro!: job_with_state\<close>)

lemma job_with_new: "job_with rs m C R n x \<Longrightarrow> job_with rs m C (insert n R) (Suc n) x"
proof -
  assume x: "job_with rs m C R n x"
  then have "n \<notin> set (j_queue x) \<union> set rs \<union> C \<union> R" unfolding job_with_def by blast
  then show ?thesis using x by (auto simp: job_with_def less_Suc_eq)
qed

text \<open>A new task is neither running nor in a queue.\<close>

lemma create_task_Inr:
  assumes "create_task i force start w = (Inr t, w')"
  shows "\<exists>f v. v = (if j_state (jobs w i) = Js_stopped \<and> force \<and> scheduler_state w \<noteq> Sp_stopping
      then job_set_state i Js_pending w else w) \<and> t = next_task v \<and> w' = set_task t f (v\<lparr>next_task := Suc t\<rparr>)"
proof (cases "j_state (jobs w i) = Js_stopped \<and> force \<and> scheduler_state w \<noteq> Sp_stopping")
  case True
  then show ?thesis using assms unfolding create_task_def Let_def
    by (simp split: if_split_asm) (hypsubst | elim conjE | intro exI conjI | rule refl)+
next
  case False
  then show ?thesis using assms unfolding create_task_def Let_def
    by (simp only: if_False prod.inject sum.inject sum.distinct simp_thms split: if_split_asm) (hypsubst | elim conjE FalseE | intro exI conjI | rule refl)+
qed

lemma create_task_Inl: "create_task i force start w = (Inl e, w') \<Longrightarrow> w' = w"
  by (simp add: create_task_def Let_def split: if_split_asm)

lemma hoare_create_task:
  "hoare (job_at j rs m C R) (create_task i force start)
     (\<lambda>t w. t \<notin> R \<and> job_at j rs m C (insert t R) w) (job_at j rs m C R)"
proof (rule hoareI)
  fix w :: "'a engine" and t w' assume w: "job_at j rs m C R w" and c: "create_task i force start w = (Inr t, w')"
  from create_task_Inr [OF c] obtain f v where v: "v = (if j_state (jobs w i) = Js_stopped \<and> force \<and> scheduler_state w \<noteq> Sp_stopping
      then job_set_state i Js_pending w else w)" "t = next_task v" "w' = set_task t f (v\<lparr>next_task := Suc t\<rparr>)"
    by (elim exE conjE)
  have "j_state (jobs w j) = Js_stopped \<Longrightarrow> rs = []" using w by (simp add: job_at_def job_with_def)
  then have "job_at j rs m C R v" unfolding v(1) using w by (auto intro: job_at_set_state)
  moreover from this have "t \<notin> R" unfolding v(2) job_at_def job_with_def by blast
  ultimately show "t \<notin> R \<and> job_at j rs m C (insert t R) w'"
    unfolding v by (simp add: job_at_def engine_simps job_with_new)
qed (drule create_task_Inl, simp)

text \<open>A new task is put into the queue: it is one of \<open>C\<close> then.\<close>

lemma job_with_enqueue:
  "job_with rs m C (insert t R) n x \<Longrightarrow> t \<notin> R
   \<Longrightarrow> job_with rs m C R n (x\<lparr>j_queue := queue_insert_task f t (j_queue x)\<rparr>)"
  unfolding job_with_def by auto

lemma job_at_queue:
  assumes "job_at j rs m C (insert t R) w" "t \<notin> R"
  shows "job_at j rs m C R (queue_enqueue_task i t w)"
proof (cases "i = j")
  case True
  then show ?thesis using assms by (simp add: queue_enqueue_task_def Let_def job_at_def engine_simps job_with_enqueue)
next
  case False
  have "job_at j rs m C R w" using assms(1) by (rule job_at_weaken) auto
  then show ?thesis using False by (simp add: queue_enqueue_task_def Let_def job_at_def engine_simps)
qed

lemma hoare_enqueue_task:
  assumes "t \<notin> R"
  shows "hoare (job_at j rs m C (insert t R)) (enqueue_task i t) (\<lambda>_. job_at j rs m C R) (job_at j rs m C R)"
proof (rule hoareI)
  fix w :: "'a engine" assume w: "job_at j rs m C (insert t R) w"
  have "job_at j rs m C (insert t R) (set_task t (\<lambda>x. x\<lparr>t_let_run := True\<rparr>) w)"
    using w by (simp add: job_at_def engine_simps)
  then have "job_at j rs m C R (call_job i c due (queue_enqueue_task i t (set_task t (\<lambda>x. x\<lparr>t_let_run := True\<rparr>) w)))" for c due
    by (intro quiet.kept_call_job job_at_queue assms)
  moreover have "job_at j rs m C R w" using w by (rule job_at_weaken) auto
  ultimately show "enqueue_task i t w = (Inr a, w') \<Longrightarrow> job_at j rs m C R w'" "enqueue_task i t w = (Inl e, w') \<Longrightarrow> job_at j rs m C R w'"
    for a e w' by (auto simp: enqueue_task_def Let_def split: if_splits)
qed

lemma hoare_assm: "(c \<Longrightarrow> hoare P m Q R) \<Longrightarrow> hoare (\<lambda>w. c \<and> P w) m Q R"
  by (auto simp: hoare_def)

lemma keeps_restart: "keeps (job_at j rs m C R) (start_task_with i start force)"
  unfolding keeps_def start_task_with_def
  by (rule hoare_bind_s [OF hoare_create_task], rule hoare_assm, rule hoare_bind_s, erule hoare_enqueue_task, rule hoare_ret)

interpretation life: job_frame "job_at j rs m C R" for j rs m C R
proof
  show "job_at j rs m C R (set_job i (\<lambda>x. x\<lparr>j_state := s, j_next_start_time := n x\<rparr>) w)"
    if "job_at j rs m C R w" "s = (if j_running (jobs w i) = [] then Js_stopped else Js_stopping)" for w :: "'o engine" and i s n
    using that by (auto simp: job_at_def engine_simps job_with_def)
  show "job_at j rs m C R (set_job i (\<lambda>x. x\<lparr>j_queue := remove1 t (j_queue x)\<rparr>) w)"
    if "job_at j rs m C R w" for w :: "'o engine" and i t
    using that by (auto simp: job_at_def engine_simps job_with_def dest: notin_set_remove1 in_set_remove1 set_remove1_subset [THEN subsetD])
qed (auto simp: job_at_def engine_simps job_with_def intro: keeps_restart)

section \<open>The task that starts\<close>

lemma find_task_queued: "get_task_from_queue j now w = Some t \<Longrightarrow> t \<in> set (j_queue (jobs w j))"
  by (auto simp: get_task_from_queue_def Let_def find_Some_iff split: if_splits)

lemma cause_is_kept: "pending_cause j now c w = (Inr c', w') \<Longrightarrow> c \<noteq> Cause_none \<Longrightarrow> c' \<noteq> Cause_none"
  by (auto simp: pending_cause_def run_simps cause_of_period_def Let_def split: if_splits)

lemma cause_in_period_is_kept: "cause_in_period j now c w = (Inr c', w') \<Longrightarrow> c \<noteq> Cause_none \<Longrightarrow> c' \<noteq> Cause_none"
  by (auto simp: cause_in_period_def run_simps wake_cause_def Let_def dest: cause_is_kept split: if_splits)

lemma plan_start_task:
  assumes "plan_start j now w = (Inr p, w')" "plan_task p = Some t"
  shows "t \<in> set (j_queue (jobs w j)) \<and> plan_cause p \<noteq> Cause_none"
proof -
  let ?q = "cause_of_queue j now w"
  have q: "plan_task ?q = Some t \<Longrightarrow> t \<in> set (j_queue (jobs w j)) \<and> plan_cause ?q \<noteq> Cause_none"
    by (auto simp: cause_of_queue_def no_start_def dest: find_task_queued split: option.splits)
  show ?thesis
    using assms q by (auto simp: plan_start_def run_simps dest: cause_in_period_is_kept)
qed

lemma hoare_plan_start:
  "hoare (job_at j rs m {} {}) (plan_start j now)
     (\<lambda>p w. job_at j rs m (set_option (plan_task p)) {} w \<and> (plan_task p \<noteq> None \<longrightarrow> wants_start p)) (job_at j rs m {} {})"
proof (rule hoareI)
  fix w :: "'a engine" assume "job_at j rs m {} {} w"
  then have "job_at j rs m (set (j_queue (jobs w j))) {} w" by (auto simp: job_at_def job_with_def)
  then have w': "job_at j rs m (set (j_queue (jobs w j))) {} (snd (plan_start j now w))"
    by (rule keepsD [OF life.keeps_plan_start])
  show "job_at j rs m (set_option (plan_task p)) {} w' \<and> (plan_task p \<noteq> None \<longrightarrow> wants_start p)"
    if p: "plan_start j now w = (Inr p, w')" for p w'
    using w' plan_start_task [OF p] p by (auto simp: wants_start_def elim!: job_at_weaken)
  show "job_at j rs m {} {} w'" if "plan_start j now w = (Inl e, w')" for e w'
    using w' that by (auto elim!: job_at_weaken)
qed

lemma hoare_lift_plan:
  assumes "\<And>w. fst (f w) = p \<or> fst (f w) = no_start" "keeps (job_at j rs m (set_option (plan_task p)) {}) (lift_plan f)"
  shows "hoare (\<lambda>w. job_at j rs m (set_option (plan_task p)) {} w \<and> (plan_task p \<noteq> None \<longrightarrow> wants_start p)) (lift_plan f)
     (\<lambda>p w. job_at j rs m (set_option (plan_task p)) {} w \<and> (plan_task p \<noteq> None \<longrightarrow> wants_start p)) (job_at j rs m {} {})"
proof (rule hoareI)
  fix w :: "'a engine" and p' w'
  assume w: "job_at j rs m (set_option (plan_task p)) {} w \<and> (plan_task p \<noteq> None \<longrightarrow> wants_start p)"
    and r: "lift_plan f w = (Inr p', w')"
  then have "job_at j rs m (set_option (plan_task p)) {} w'" using keepsD [OF assms(2)] by fastforce
  then show "job_at j rs m (set_option (plan_task p')) {} w' \<and> (plan_task p' \<noteq> None \<longrightarrow> wants_start p')"
    using assms(1) [of w] w r by (auto simp: lift_plan_def no_start_def elim: job_at_weaken split: prod.splits)
qed (auto simp: lift_plan_def split: prod.splits)

lemma job_at_unqueue: "job_at j rs m {t} {} w \<Longrightarrow> job_at j rs m {} {t} (snd (queue_remove_task j t w))"
proof (cases "t \<in> set (j_queue (jobs w j))")
  case True
  assume "job_at j rs m {t} {} w"
  then show ?thesis using True
    by (auto simp: queue_remove_task_def job_at_def job_with_def engine_simps dest: in_set_remove1 set_remove1_subset [THEN subsetD])
qed (simp add: queue_remove_task_def job_at_def job_with_def)

text \<open>After an exception the task is no longer reserved.\<close>

lemma hoare_kept:
  "keeps (job_at j rs m {} R) a \<Longrightarrow> hoare (job_at j rs m {} R) a (\<lambda>_. job_at j rs m {} R) (job_at j rs m {} {})"
  by (rule hoare_strengthen [OF keeps_hoare]) (auto elim: job_at_weaken)

lemma hoare_new_task_to_start:
  "hoare (job_at j rs m {} {}) (new_task_to_start j now p)
     (\<lambda>p. job_at j rs m {} (set_option (plan_task p))) (job_at j rs m {} {})"
proof -
  have closed: "hoare (job_at j rs m {} {t}) (bind_s (task_close t) (\<lambda>_. ret (p\<lparr>plan_task := None\<rparr>)))
      (\<lambda>p. job_at j rs m {} (set_option (plan_task p))) (job_at j rs m {} {})" for t
    by (rule hoare_bind_s [OF hoare_kept [OF life.keeps_task_close] hoare_ret]) (auto elim: job_at_weaken)
  have order: "hoare (job_at j rs m {} {t}) (new_task_for_order j now t p)
      (\<lambda>p. job_at j rs m {} (set_option (plan_task p))) (job_at j rs m {} {})" for t
    unfolding new_task_for_order_def
    by (rule hoare_bind_s [OF hoare_kept [OF life.keeps_fetch]])
       (auto intro!: closed hoare_ret hoare_throw elim: job_at_weaken)
  have let_run: "hoare (job_at j rs m {} {t}) (apply_s (set_task u f)) (\<lambda>_. job_at j rs m {} {t}) (job_at j rs m {} {})" for t u f
    by (rule hoare_apply_s) (rule life.any_task)
  show ?thesis
    unfolding new_task_to_start_def
    by (rule hoare_bind_s [OF hoare_create_task], rule hoare_assm, rule hoare_bind_s [OF let_run]) (auto intro: order hoare_ret)
qed

lemma hoare_take_task:
  "hoare (job_at j rs m (set_option (plan_task p)) {}) (take_task j now p)
     (\<lambda>p. job_at j rs m {} (set_option (plan_task p))) (job_at j rs m {} {})"
proof (cases "plan_task p")
  case None
  then show ?thesis by (simp add: take_task_def hoare_new_task_to_start)
next
  case (Some t)
  have "hoare (job_at j rs m {t} {}) (apply_s (\<lambda>w. snd (queue_remove_task j t w))) (\<lambda>_. job_at j rs m {} {t}) (job_at j rs m {} {})"
    by (rule hoare_apply_s) (rule job_at_unqueue)
  then show ?thesis using Some by (simp add: take_task_def) (rule hoare_bind_s, assumption, rule hoare_ret, simp)
qed

lemma hoare_decide_task:
  "hoare (\<lambda>w. job_at j rs m (set_option (plan_task p)) {} w \<and> (plan_task p \<noteq> None \<longrightarrow> wants_start p)) (decide_task j now p)
     (\<lambda>p. job_at j rs m {} (set_option (plan_task p))) (job_at j rs m {} {})"
proof (cases "wants_start p")
  case True
  have "hoare (job_at j rs m {} (set_option (plan_task p))) (bind_s (apply_s (start_is_decided j now p)) (\<lambda>_. ret p))
     (\<lambda>p. job_at j rs m {} (set_option (plan_task p))) (job_at j rs m {} {})" for p
    by (rule hoare_bind_s, rule hoare_apply_s, erule life.kept_start_is_decided) (rule hoare_ret)
  then show ?thesis
    using True unfolding decide_task_def by (auto intro: hoare_weaken [OF hoare_bind_s [OF hoare_take_task]])
next
  case False
  then show ?thesis by (cases "plan_task p") (auto simp: decide_task_def hoare_def ret_def)
qed

lemma hoare_task_to_start:
  "hoare (job_at j rs m {} {}) (task_to_start j) (\<lambda>task. job_at j rs m {} (set_option task)) (job_at j rs m {} {})"
proof -
  have read: "hoare (job_at j rs m {} {}) (read_s clock) (\<lambda>_. job_at j rs m {} {}) (job_at j rs m {} {})"
    by (rule keeps_hoare) (rule keep_rules)
  have locks: "fst (require_locks j p w) = p \<or> fst (require_locks j p w) = no_start" for p and w :: "'a engine"
    by (simp add: require_locks_def)
  have process: "fst (require_process j p w) = p \<or> fst (require_process j p w) = no_start" for p and w :: "'a engine"
    by (simp add: require_process_def split: option.split)
  have last: "hoare (job_at j rs m {} (set_option (plan_task p)))
      (bind_s (apply_s (\<lambda>w. leave_process_list j (hold_locks_of_start j p w))) (\<lambda>_.
       bind_s (when_s (\<lambda>_. plan_task p \<noteq> None) (apply_s (set_job j (\<lambda>x. x\<lparr>j_start_once := False\<rparr>)))) (\<lambda>_.
         ret (plan_task p))))
      (\<lambda>task. job_at j rs m {} (set_option task)) (job_at j rs m {} {})" for p
    by (rule hoare_bind_s [OF hoare_kept], rule keeps_apply_s, erule life.kept_hold_locks_of_start,
        rule hoare_bind_s [OF hoare_kept hoare_ret], (rule keep_rules keeps_apply_s quiet.kept_set_job | assumption | simp add: same_job_def)+)
  show ?thesis
    unfolding task_to_start_def
    by (rule hoare_bind_s [OF read], rule hoare_bind_s [OF hoare_plan_start],
        rule hoare_bind_s [OF hoare_lift_plan], rule locks, rule life.keeps_lift_plan, erule life.kept_require_locks,
        rule hoare_bind_s [OF hoare_lift_plan], rule process, rule life.keeps_lift_plan, erule life.kept_require_process,
        rule hoare_bind_s [OF hoare_decide_task], rule last)
qed

section \<open>Starting a task\<close>

definition job_any :: "nat \<Rightarrow> nat list \<Rightarrow> int \<Rightarrow> 'o engine \<Rightarrow> bool" where
  "job_any j rs m w = job_with rs m {} {} (next_task w) ((jobs w j)\<lparr>j_state := Js_running\<rparr>)"

interpretation any: quiet_frame "job_any j rs m" for j rs m
  by standard (auto simp: job_any_def engine_simps same_job_def elim!: job_with_same)

interpretation state: quiet_frame "\<lambda>w. j_state (jobs w j) = s" for j s
  by standard (auto simp: engine_simps same_job_def)

lemma job_state_after: "j_state (jobs (job_set_state j s w) j) = s"
proof (cases "s = j_state (jobs w j)")
  case False
  let ?v = "set_job j (\<lambda>x. x\<lparr>j_state := s,
                  j_next_start_time := (if s = Js_stopped \<or> s = Js_error then never else j_next_start_time x)\<rparr>)
      (if s = Js_pending \<and> is_zero (j_delay_until (jobs w j)) then set_job j (\<lambda>x. x\<lparr>j_error := None\<rparr>) w else w)"
  have "j_state (jobs ?v j) = s" by (simp add: engine_simps)
  from state.kept_after_state [OF this, of "s \<noteq> Js_pending \<or> s \<noteq> Js_running" j s] show ?thesis
    using False by (simp only: job_set_state_def if_False Let_def)
qed (simp add: job_set_state_def)

lemma job_any_set_state: "job_any j rs m w \<Longrightarrow> job_any j rs m (job_set_state j s w)"
  by (erule any.kept_job_set_state) (auto simp: job_any_def engine_simps job_with_def)

lemma job_any_running: "job_any j rs m w \<Longrightarrow> j_state (jobs w j) = Js_running \<Longrightarrow> job_at j rs m {} {} w"
  by (simp add: job_any_def job_at_def job_with_def)

lemma hoare_start_this_task:
  "hoare (job_at j rs m {} {t}) (start_this_task j t) (\<lambda>_. job_at j (t # rs) m {} {}) (job_at j (t # rs) m {} {})"
proof -
  let ?into = "set_job j (\<lambda>x. x\<lparr>j_error := None, j_repeat := Duration 0, j_delay_until := Time 0,
                                 j_running := (if t \<in> set (j_running x) then j_running x else t # j_running x)\<rparr>)"
  have into: "job_any j (t # rs) m (?into w)" if "job_at j rs m {} {t} w" for w :: "'a engine"
    using that by (auto simp: job_at_def job_any_def job_with_def engine_simps)
  have running: "job_at j (t # rs) m {} {} (job_set_state j Js_running w)" if "job_any j (t # rs) m w" for w :: "'a engine"
    by (rule job_any_running [OF job_any_set_state [OF that] job_state_after])
  have rest: "keeps (job_at j (t # rs) m {} {}) (steps
       [apply_s (set_job j (\<lambda>x. x\<lparr>j_next_start_time := never\<rparr>)),
        task_init t,
        apply_s (\<lambda>w. if j_min_tasks (jobs w j) \<le> not_ending_tasks_count j w
                     then set_job j (\<lambda>x. x\<lparr>j_start_min_tasks := False\<rparr>) w else w),
        bind_s (task_do_something t) (\<lambda>_. ret ()),
        apply_s (set_job j (\<lambda>x. x\<lparr>j_wake_when_in_period := False\<rparr>))])"
    by (rule keep_rules frame_intros | assumption | simp add: same_job_def)+
  show ?thesis
    unfolding start_this_task_def
    by (rule hoare_steps_Cons [OF hoare_apply_s], erule into, rule hoare_steps_Cons [OF hoare_apply_s], erule running,
        rule keeps_hoare [OF rest])
qed

definition started_or_not :: "nat \<Rightarrow> nat list \<Rightarrow> int \<Rightarrow> 'o engine \<Rightarrow> bool" where
  "started_or_not j rs m w = (job_at j rs m {} {} w \<or> (\<exists>t. job_at j (t # rs) m {} {} w))"

lemma job_at_error: "job_at j rs m C R w \<Longrightarrow> job_at j rs m C R (set_job_error j (job_set_error_only j c w))"
  unfolding set_job_error_def job_set_error_only_def
  by (intro quiet.kept_tell job_at_set_state quiet.kept_set_job) (simp_all add: same_job_def)

lemma hoare_start_or_error:
  "hoare (job_at j rs m {} {}) (start_or_error j)
     (\<lambda>started w. if started then \<exists>t. job_at j (t # rs) m {} {} w else started_or_not j rs m w) (started_or_not j rs m)"
proof -
  have start: "hoare (job_at j rs m {} (set_option task))
      (case task of None \<Rightarrow> ret False | Some t \<Rightarrow> bind_s (start_this_task j t) (\<lambda>_. ret True))
      (\<lambda>started w. if started then \<exists>t. job_at j (t # rs) m {} {} w else started_or_not j rs m w) (started_or_not j rs m)" for task
  proof (cases task)
    case (Some t)
    have "hoare (job_at j rs m {} {t}) (bind_s (start_this_task j t) (\<lambda>_. ret True))
       (\<lambda>started w. if started then \<exists>t. job_at j (t # rs) m {} {} w else started_or_not j rs m w) (started_or_not j rs m)"
      by (rule hoare_bind_s [OF hoare_strengthen [OF hoare_start_this_task]], assumption)
         (auto simp: started_or_not_def intro: hoare_ret)
    then show ?thesis using Some by simp
  qed (auto simp: started_or_not_def intro: hoare_ret)
  have body: "hoare (job_at j rs m {} {})
      (bind_s (task_to_start j) (\<lambda>task. case task of None \<Rightarrow> ret False | Some t \<Rightarrow> bind_s (start_this_task j t) (\<lambda>_. ret True)))
      (\<lambda>started w. if started then \<exists>t. job_at j (t # rs) m {} {} w else started_or_not j rs m w) (started_or_not j rs m)"
    by (rule hoare_bind_s [OF hoare_strengthen [OF hoare_task_to_start]], assumption, simp add: started_or_not_def, rule start)
  have "hoare (started_or_not j rs m) (apply_s (\<lambda>w. set_job_error j (job_set_error_only j c w)))
     (\<lambda>_. started_or_not j rs m) (started_or_not j rs m)" for c
    by (rule hoare_apply_s) (auto simp: started_or_not_def dest: job_at_error)
  then show ?thesis
    unfolding start_or_error_def by (intro hoare_catch_s [OF body] hoare_bind_s hoare_ret) auto
qed

end
