(* ===== verification/Job_Runs.thy ===== *)
theory Job_Runs
  imports Job_Limit
begin

text \<open>
  The limit of a job (\<^verbatim>\<open>max_tasks\<close>) through whole runs: starting tasks ends and keeps it, and so does every call and
  every command, except \<^verbatim>\<open>unstop\<close> when tasks are still running.
\<close>

section \<open>Within the limit\<close>

definition job_ok :: "nat \<Rightarrow> 'o engine \<Rightarrow> bool" where
  "job_ok j w =
     (job_at j (j_running (jobs w j)) (j_max_tasks (jobs w j)) {} {} w
      \<and> (j_running (jobs w j) \<noteq> [] \<longrightarrow> int (length (j_running (jobs w j))) \<le> j_max_tasks (jobs w j)))"

definition in_limit :: "nat list \<Rightarrow> int \<Rightarrow> bool" where
  "in_limit rs m = (rs \<noteq> [] \<longrightarrow> int (length rs) \<le> m)"

lemma job_at_fields: "job_at j rs m C R w \<Longrightarrow> j_running (jobs w j) = rs \<and> j_max_tasks (jobs w j) = m"
  by (simp add: job_at_def job_with_def)

lemma job_ok_at: "job_ok j w \<longleftrightarrow> (\<exists>rs m. job_at j rs m {} {} w \<and> in_limit rs m)"
  unfolding job_ok_def in_limit_def by (metis job_at_fields)

lemma job_okI: "job_at j rs m {} {} w \<Longrightarrow> in_limit rs m \<Longrightarrow> job_ok j w"
  unfolding job_ok_at by blast

text \<open>Operations on the parts, from triples for all running tasks and limits.\<close>

lemma keeps_job_ok:
  assumes "\<And>rs m. in_limit rs m \<Longrightarrow> hoare (job_at j rs m {} {}) a (\<lambda>_. job_ok j) (job_ok j)"
  shows "keeps (job_ok j) a"
  unfolding keeps_def hoare_def job_ok_at using assms by (simp add: hoare_def job_ok_at) blast

lemma keeps_job_ok_same: "(\<And>rs m. keeps (job_at j rs m {} {}) a) \<Longrightarrow> keeps (job_ok j) a"
  by (rule keeps_job_ok, rule hoare_strengthen [OF keeps_hoare]) (auto intro: job_okI)

text \<open>
  What a change does to the job counts only through its running tasks, and \<open>job_ok\<close> is one more property that whole
  runs of tasks keep.
\<close>

interpretation ok: job_frame "job_ok j" for j
proof -
  have kept: "job_ok j (f w)" if "job_ok j w" "\<And>rs m. job_at j rs m {} {} w \<Longrightarrow> job_at j rs m {} {} (f w)" for w :: "'o engine" and f
    using that unfolding job_ok_at by blast
  show "job_frame (job_ok j)"
    by standard
      (auto elim!: kept intro: quiet.kept_set_task quiet.kept_set_job quiet.kept_outer quiet.kept_set_class life.kept_stop
        life.kept_unqueue life.any_task life.any_class life.any_process life.any_count life.any_job_count life.any_task_set
        keeps_job_ok_same [OF life.restart])
qed

section \<open>Starting tasks\<close>

lemma may_start_room:
  assumes "may_start j w" "job_at j rs m {} {} w"
  shows "int (length rs) < m"
  using assms by (auto simp: may_start_def Let_def job_at_def job_with_def)

lemma one_task_cases:
  assumes "job_at j rs m {} {} w" "in_limit rs m" "try_start_one_task j w = (r, w')"
  shows "(r = Inr True \<longrightarrow> (\<exists>t. job_at j (t # rs) m {} {} w' \<and> int (length rs) < m)) \<and> job_ok j w'"
proof -
  have useless: "job_at j rs' m {} {} (dequeue_useless_lock_requests j v)" if "job_at j rs' m {} {} v" for rs' and v :: "'a engine"
    using that by (rule life.kept_dequeue_useless)
  show ?thesis
  proof (cases "may_start j w")
    case True
    have room: "int (length rs) < m" by (rule may_start_room [OF True assms(1)])
    then have grown: "in_limit (t # rs) m" for t by (simp add: in_limit_def)
    obtain r1 w1 where r1: "start_or_error j w = (r1, w1)" by (cases "start_or_error j w")
    show ?thesis
    proof (cases r1)
      case (Inl e)
      then have "started_or_not j rs m w1" using hoareD(2) [OF hoare_start_or_error assms(1)] r1 by simp
      then have "job_ok j w1" using assms(2) grown by (auto simp: started_or_not_def intro: job_okI)
      then show ?thesis using assms(3) True r1 Inl by (auto simp: try_start_one_task_def bind_s_def if_s_def)
    next
      case (Inr started)
      then have *: "if started then \<exists>t. job_at j (t # rs) m {} {} w1 else started_or_not j rs m w1"
        using hoareD(1) [OF hoare_start_or_error assms(1)] r1 by simp
      then show ?thesis
        using assms(2,3) True r1 Inr room grown useless
        by (auto simp: try_start_one_task_def bind_s_def if_s_def when_s_def apply_s_def ret_def started_or_not_def
            intro: job_okI split: if_splits)
    qed
  next
    case False
    then show ?thesis
      using assms useless by (auto simp: try_start_one_task_def bind_s_def if_s_def when_s_def apply_s_def ret_def intro: job_okI)
  qed
qed

lemma keeps_try_start_one_task: "keeps (job_ok j) (try_start_one_task j)"
  by (rule keeps_job_ok, rule hoareI) (auto dest: one_task_cases)

lemma tasks_loop_ends:
  "job_at j rs m {} {} w \<Longrightarrow> in_limit rs m \<Longrightarrow> nat (m - int (length rs)) < fuel \<Longrightarrow>
   \<exists>r w'. try_start_tasks_loop fuel j w = Some (r, w') \<and> job_ok j w'"
proof (induction fuel arbitrary: rs w)
  case (Suc fuel)
  obtain r1 w1 where r1: "try_start_one_task j w = (r1, w1)" by (cases "try_start_one_task j w")
  note * = one_task_cases [OF Suc.prems(1,2) r1]
  show ?case
  proof (cases "r1 = Inr True")
    case True
    then obtain t where t: "job_at j (t # rs) m {} {} w1" "int (length rs) < m" using * by auto
    have "\<exists>r w'. try_start_tasks_loop fuel j w1 = Some (r, w') \<and> job_ok j w'"
      by (rule Suc.IH [OF t(1)]) (use t(2) Suc.prems(3) in \<open>simp_all add: in_limit_def\<close>)
    then show ?thesis using r1 True by simp
  next
    case False
    then show ?thesis using r1 * by (cases r1) auto
  qed
qed simp

lemma start_loop_ok:
  assumes "job_ok j w"
  shows "\<exists>r w'. try_start_tasks_loop (tasks_fuel j w) j w = Some (r, w') \<and> job_ok j w'"
proof -
  obtain rs m where at: "job_at j rs m {} {} w" "in_limit rs m" using assms unfolding job_ok_at by blast
  show ?thesis
    by (rule tasks_loop_ends [OF at]) (use job_at_fields [OF at(1)] in \<open>simp add: tasks_fuel_def; arith\<close>)
qed

lemma keeps_try_start_tasks [keep_rules]: "keeps (job_ok j) (try_start_tasks j)"
proof (rule keepsI)
  fix w :: "'a engine" assume "job_ok j w"
  from start_loop_ok [OF this] obtain r w' where "try_start_tasks_loop (tasks_fuel j w) j w = Some (r, w')" "job_ok j w'"
    by (elim exE conjE)
  then show "job_ok j (snd (try_start_tasks j w))" by (simp add: try_start_tasks_def)
qed

section \<open>The end of a task\<close>

lemma job_with_remove:
  assumes "job_with rs m {} {} n x"
  shows "job_with (remove1 t rs) m {} {} n (x\<lparr>j_running := remove1 t (j_running x)\<rparr>)"
proof -
  have "set (remove1 t rs) \<subseteq> set rs" by (rule set_remove1_subset)
  then show ?thesis using assms unfolding job_with_def by auto
qed

lemma job_at_remove:
  "job_at j rs m {} {} w \<Longrightarrow> job_at j (remove1 t rs) m {} {} (set_job j (\<lambda>x. x\<lparr>j_running := remove1 t (j_running x)\<rparr>) w)"
  by (simp add: job_at_def engine_simps job_with_remove)

lemma in_limit_remove: "in_limit rs m \<Longrightarrow> in_limit (remove1 t rs) m"
  by (cases rs) (auto simp: in_limit_def length_remove1 split: if_splits)

text \<open>A job without running tasks may have any state.\<close>

lemma ok_any_state: "job_ok j w \<Longrightarrow> j_running (jobs w j) = [] \<Longrightarrow> job_ok j (job_set_state j s w)"
  unfolding job_ok_at by (metis job_at_fields job_at_set_state)

lemma hoare_read_at: "(\<And>v. hoare (\<lambda>w. P w \<and> f w = v) (g v) Q R) \<Longrightarrow> hoare P (bind_s (read_s f) g) Q R"
  by (simp add: hoare_def bind_s_def read_s_def)

lemma keeps_remove_running_task: "keeps (job_ok j) (remove_running_task j t)"
proof -
  have remove: "hoare (job_ok j) (apply_s (set_job j (\<lambda>x. x\<lparr>j_running := remove1 t (j_running x)\<rparr>))) (\<lambda>_. job_ok j) (job_ok j)"
    by (rule hoare_apply_s) (auto simp: job_ok_at dest: job_at_remove in_limit_remove)
  have state: "hoare (\<lambda>w. job_ok j w \<and> j_running (jobs w j) = []) (bind_s (read_s (\<lambda>w. j_state (jobs w j))) (\<lambda>s.
             if s = Js_stopping then apply_s (job_set_state j Js_stopped)
             else if s = Js_running then
               steps [apply_s (job_set_state j Js_pending),
                      bind_s (read_s clock) (\<lambda>now. job_set_next_start_time j now True)]
             else ret ())) (\<lambda>_. job_ok j) (job_ok j)" (is "hoare ?P _ _ _")
  proof -
    have set: "hoare ?P (apply_s (job_set_state j s)) (\<lambda>_. job_ok j) (job_ok j)" for s
      by (rule hoare_apply_s) (simp add: ok_any_state)
    have later: "keeps (job_ok j) (steps [bind_s (read_s clock) (\<lambda>now. job_set_next_start_time j now True)])"
      by (rule keep_rules)+
    have "hoare ?P (steps [apply_s (job_set_state j Js_pending), bind_s (read_s clock) (\<lambda>now. job_set_next_start_time j now True)])
        (\<lambda>_. job_ok j) (job_ok j)"
      by (rule hoare_steps_Cons [OF set keeps_hoare [OF later]])
    moreover have "hoare ?P (ret ()) (\<lambda>_. job_ok j) (job_ok j)" by (rule hoare_ret) simp
    ultimately show ?thesis
      by (intro hoare_read_at) (auto intro: hoare_weaken set simp del: steps.simps)
  qed
  have below: "keeps (job_ok j) (steps [when_s (\<lambda>w. j_state (jobs w j) = Js_pending \<and> int (length (j_running (jobs w j))) = j_max_tasks (jobs w j) - 1)
          (apply_s (call_job j Below_max_tasks_call (Time 0)))])"
    by (rule keep_rules frame_intros | assumption)+
  show ?thesis
    unfolding keeps_def remove_running_task_def
    by (rule hoare_steps_Cons [OF remove], rule hoare_steps_Cons [OF hoare_when_s [OF state]], assumption, rule keeps_hoare [OF below])
qed

lemma hoare_on_task_closed:
  "hoare (\<lambda>w. job_ok j w \<and> t_job (tasks w t) = j) (on_task_closed j t) (\<lambda>_. job_ok j) (job_ok j)" (is "hoare ?P _ _ _")
proof -
  have mine: "hoare ?P (apply_s f) (\<lambda>_. ?P) (job_ok j)" if "\<And>w. ?P w \<Longrightarrow> ?P (f w)" for f
    by (rule hoare_apply_s) (rule that)
  have remove: "hoare ?P (bind_s (read_s (\<lambda>w. t_job (tasks w t))) (\<lambda>j. remove_running_task j t)) (\<lambda>_. job_ok j) (job_ok j)"
  proof (rule hoare_read_at)
    show "hoare (\<lambda>w. ?P w \<and> t_job (tasks w t) = i) (remove_running_task i t) (\<lambda>_. job_ok j) (job_ok j)" for i
    proof (cases "i = j")
      case True
      show ?thesis
        unfolding True by (rule hoare_weaken [OF keeps_hoare [OF keeps_remove_running_task]]) simp
    qed (auto simp: hoare_def)
  qed
  have detach: "keeps (job_ok j) (steps [log_errors (detach_process t)])" by (rule keep_rules)+
  have removed: "hoare ?P (remove_task t) (\<lambda>_. job_ok j) (job_ok j)"
    unfolding remove_task_def
    by (rule hoare_steps_Cons [OF mine hoare_steps_Cons [OF remove keeps_hoare [OF detach]]]) (simp add: ok.any_task_set)
  have later: "keeps (job_ok j) (steps [if_s (\<lambda>w. j_temporary (jobs w j)) (apply_s (call_job j Remove_temporary_job_call (Time 0))) (try_start_tasks j)])"
    by (rule keep_rules frame_intros | assumption)+
  have closed: "hoare ?P (assert_s h c) (\<lambda>_. ?P) (job_ok j)" for h c
    by (rule hoare_assert_s) simp_all
  show ?thesis
    unfolding on_task_closed_def
    by (rule hoare_steps_Cons [OF mine hoare_steps_Cons [OF closed hoare_steps_Cons [OF removed keeps_hoare [OF later]]]])
       (simp add: ok.any_task, simp add: engine_simps)
qed

section \<open>Calls and commands\<close>

lemma keeps_process_orders [keep_rules]: "keeps (job_ok j) (process_orders j)"
  unfolding process_orders_def by (rule keep_rules)+

lemma keeps_call_at_due_time [keep_rules]: "keeps (job_ok j) act \<Longrightarrow> keeps (job_ok j) (call_at_due_time c j due act)"
  unfolding call_at_due_time_def by (rule keep_rules frame_intros | assumption)+

lemma keeps_job_on_call [keep_rules]: "keeps (job_ok j) (job_on_call j c)"
  unfolding job_on_call_def
  by (cases c; simp; (rule keep_rules keeps_try_start_one_task frame_intros | assumption)+)

lemma ok_running: "job_ok j w \<Longrightarrow> job_ok j (job_set_state j Js_running w)"
  unfolding job_ok_at by (auto intro: job_at_set_state)

lemma hoare_unstop:
  "hoare (\<lambda>w. job_ok j w \<and> (cmd = Sc_unstop \<longrightarrow> j_running (jobs w j) = [])) (unstop j cmd) (\<lambda>_. job_ok j) (job_ok j)"
proof -
  have "keeps (job_ok j) (steps [when_s (\<lambda>_. cmd = Sc_enable) (apply_s (set_job j (\<lambda>x. x\<lparr>j_enabled := True\<rparr>))),
        apply_s (check_min_tasks j),
        bind_s (read_s clock) (\<lambda>now. job_set_next_start_time j now False),
        apply_s (init_start_when_directory_changed j None),
        try_start_tasks j])"
    by (rule keep_rules frame_intros | assumption | simp add: same_job_def)+
  moreover have "hoare (\<lambda>w. job_ok j w \<and> (cmd = Sc_unstop \<longrightarrow> j_running (jobs w j) = []))
      (when_s (\<lambda>_. cmd = Sc_unstop) (apply_s (job_set_state j Js_pending))) (\<lambda>_. job_ok j) (job_ok j)"
    by (rule hoare_when_s [OF hoare_apply_s]) (simp_all add: ok_any_state)
  ultimately show ?thesis
    unfolding unstop_def by (rule hoare_steps_Cons [OF _ keeps_hoare, rotated])
qed

lemma job_at_created: "hoare (job_at j rs m {} {}) (create_task j force start) (\<lambda>_. job_at j rs m {} {}) (job_at j rs m {} {})"
  by (rule hoare_strengthen [OF hoare_create_task]) (auto elim: job_at_weaken)

lemma job_ok_empty: "job_at j [] m {} {} w \<Longrightarrow> job_ok j w"
  by (erule job_okI) (simp add: in_limit_def)

lemma hoare_wake_idle: "hoare (job_at j [] m {} {}) (wake j) (\<lambda>_. job_ok j) (job_ok j)"
proof -
  have rest: "keeps (job_ok j) (steps
         [apply_s (check_min_tasks j),
          apply_s (set_task t (\<lambda>x. x\<lparr>t_cause := Cause_wake, t_let_run := True\<rparr>)),
          task_init t, try_start_tasks j])" for t
    by (rule keep_rules ok.any_task frame_intros | assumption)+
  have pending: "hoare (job_at j [] m {} {}) (apply_s (job_set_state j Js_pending)) (\<lambda>_. job_ok j) (job_ok j)"
    by (rule hoare_apply_s) (auto intro: job_okI job_at_set_state simp: in_limit_def)
  show ?thesis
    unfolding wake_def
    by (rule hoare_bind_s [OF hoare_strengthen [OF job_at_created] hoare_steps_Cons [OF pending keeps_hoare [OF rest]]])
       (simp_all add: job_ok_empty)
qed

lemma idle_when_pending:
  "job_ok j w \<Longrightarrow> j_state (jobs w j) = Js_pending \<or> j_state (jobs w j) = Js_stopped \<Longrightarrow> job_at j [] (j_max_tasks (jobs w j)) {} {} w"
  by (simp add: job_ok_def job_at_def job_with_def)

lemma hoare_wake:
  "hoare (\<lambda>w. job_ok j w \<and> (j_state (jobs w j) = Js_pending \<or> j_state (jobs w j) = Js_stopped)) (wake j) (\<lambda>_. job_ok j) (job_ok j)"
  by (rule hoareI) (elim conjE, drule (1) idle_when_pending, erule (1) hoareD [OF hoare_wake_idle])+

text \<open>\<^verbatim>\<open>on_activate\<close>\<close>

definition job_idle :: "nat \<Rightarrow> 'o engine \<Rightarrow> bool" where
  "job_idle j w = (job_ok j w \<and> j_running (jobs w j) = [])"

lemma hoare_idle_ask: "hoare (job_idle j) (ask q) (\<lambda>_. job_idle j) (job_ok j)"
proof -
  have "keeps (job_idle j) (ask q)"
    by (rule keepsI) (auto simp: job_idle_def ok.kept_ask ask_def split: prod.splits dest: ok.kept_ask [where q = q])
  then show ?thesis
    by (rule hoare_strengthen [OF keeps_hoare]) (simp_all add: job_idle_def)
qed

lemma hoare_idle: "keeps (job_ok j) m \<Longrightarrow> hoare (job_idle j) m (\<lambda>_. job_ok j) (job_ok j)"
  by (rule hoare_weaken [OF keeps_hoare]) (simp_all add: job_idle_def)

lemma hoare_idle_state: "hoare (job_idle j) (apply_s (\<lambda>w. job_set_state j (s w) w)) (\<lambda>_. job_ok j) (job_ok j)"
  by (rule hoare_apply_s) (simp add: job_idle_def ok_any_state)

lemma hoare_activate: "hoare (job_idle j) (job_on_activate j) (\<lambda>_. job_ok j) (job_ok j)"
proof -
  have rest: "keeps (job_ok j) (steps
              [apply_s (set_job j (\<lambda>x. x\<lparr>j_delay_until := Time 0\<rparr>)),
               reset_scheduling j,
               apply_s (init_start_when_directory_changed j None),
               apply_s (check_min_tasks j),
               apply_s (set_job j (\<lambda>x. x\<lparr>j_start_once_for_directory :=
                  (j_start_once_for_directory x \<or> j_tasks_count x = 0 \<and> list_ex (\<lambda>d. snd d \<noteq> []) (j_watchers x))\<rparr>)),
               bind_s (read_s clock) (\<lambda>now. job_set_next_start_time j now False)])"
    by (rule keep_rules frame_intros | assumption | simp add: same_job_def)+
  have incomplete: "keeps (job_ok j)
      (bind_s (apply_s (set_job j (\<lambda>x. x\<lparr>j_file_based_state := S_incomplete\<rparr>))) (\<lambda>_. ret False))"
    by (rule keep_rules frame_intros | assumption | simp add: same_job_def)+
  have no: "hoare (job_idle j) (ret False) (\<lambda>_. job_idle j) (job_ok j)" by (rule hoare_ret)
  have active: "hoare (job_idle j) (bind_s (steps
      (apply_s (\<lambda>w. job_set_state j (if j_permanently_stopped (jobs w j) then Js_stopped else Js_pending) w) # ms))
        (\<lambda>_. ret True)) (\<lambda>_. job_ok j) (job_ok j)" if "keeps (job_ok j) (steps ms)" for ms :: "('a engine, unit) operation list"
    by (rule hoare_bind_s [OF hoare_steps_Cons [OF hoare_idle_state keeps_hoare [OF that]] hoare_ret])
  have second: "hoare (job_idle j) (if ok then ask q else ret False) (\<lambda>_. job_idle j) (job_ok j)" for ok q
    by (simp add: hoare_idle_ask no)
  show ?thesis
    unfolding job_on_activate_def
    by (rule hoare_if_s [OF hoare_weaken [OF hoare_bind_s [OF hoare_idle_ask hoare_bind_s [OF second]]] hoare_ret])
       (simp_all add: hoare_idle [OF incomplete] active [OF rest] hoare_ret job_idle_def)
qed

text \<open>\<^verbatim>\<open>set_state_cmd\<close>, command by command.\<close>

lemma hoare_set_state_cmd:
  "hoare (\<lambda>w. job_ok j w \<and> (cmd = Sc_unstop \<longrightarrow> j_running (jobs w j) = [])) (set_state_cmd j cmd) (\<lambda>_. job_ok j) (job_ok j)"
    (is "hoare ?P _ _ _")
proof -
  have plain: "hoare ?P m (\<lambda>_. job_ok j) (job_ok j)" if "keeps (job_ok j) m" for m :: "('a engine, unit) operation"
    by (rule hoare_weaken [OF keeps_hoare [OF that]]) simp
  have stop: "keeps (job_ok j) (when_s (\<lambda>w. j_state (jobs w j) \<noteq> Js_stopping \<and> j_state (jobs w j) \<noteq> Js_stopped)
          (steps [apply_s (job_stop j True),
                  when_s (\<lambda>_. cmd = Sc_disable) (apply_s (set_job j (\<lambda>x. x\<lparr>j_enabled := False\<rparr>)))]))"
    by (rule keep_rules frame_intros | assumption | simp add: same_job_def)+
  have ending: "keeps (job_ok j) (apply_s (\<lambda>w. fold (\<lambda>t. cmd_end t End_normal (Duration 0)) (j_running (jobs w j)) w))"
    by (rule keep_rules frame_intros | assumption | simp)+
  have suspend: "keeps (job_ok j) (when_s (\<lambda>w. j_state (jobs w j) = Js_running) (set_tasks_state j suspendable Ts_suspended))"
    by (rule keep_rules)+
  have state: "keeps (job_ok j) (apply_s (\<lambda>w. job_set_state j (if j_running (jobs w j) = [] then Js_pending else Js_running) w))"
    by (rule keeps_apply_s) (simp add: ok_running ok_any_state)
  have continue: "keeps (job_ok j) (steps
          [set_tasks_state j continuable Ts_running,
           apply_s (\<lambda>w. job_set_state j (if j_running (jobs w j) = [] then Js_pending else Js_running) w),
           apply_s (check_min_tasks j), try_start_tasks j])"
    by (rule keep_rules state frame_intros | assumption)+
  have in_period: "keeps (job_ok j) (when_s (\<lambda>w. is_in_period j (clock w) w)
          (steps [apply_s (set_job j (\<lambda>x. x\<lparr>j_wake_when_in_period := True\<rparr>)),
                  when_s (\<lambda>w. j_state (jobs w j) = Js_pending \<or> j_state (jobs w j) = Js_running) (try_start_tasks j)]))"
    by (rule keep_rules frame_intros | assumption | simp add: same_job_def)+
  have start: "keeps (job_ok j) (bind_s (bind_s (read_s clock) (start_task j)) (\<lambda>_. bind_s (try_start_one_task j) (\<lambda>_. ret ())))"
    by (rule keep_rules keeps_try_start_one_task)+
  have remove: "keeps (job_ok j) (apply_s (tell (Remove_job j)))"
    by (rule keep_rules frame_intros | assumption)+
  have unstop: "hoare ?P (when_s (\<lambda>w. (j_state (jobs w j) = Js_stopping \<or> j_state (jobs w j) = Js_stopped \<or> j_state (jobs w j) = Js_error)
                    \<and> \<not> j_to_be_removed (jobs w j)) (unstop j cmd)) (\<lambda>_. job_ok j) (job_ok j)"
    by (rule hoare_when_s [OF hoare_weaken [OF hoare_unstop]]) simp_all
  have wake: "hoare ?P (when_s (\<lambda>w. (j_state (jobs w j) = Js_pending \<or> j_state (jobs w j) = Js_stopped) \<and> \<not> j_to_be_removed (jobs w j))
          (wake j)) (\<lambda>_. job_ok j) (job_ok j)"
    by (rule hoare_when_s [OF hoare_weaken [OF hoare_wake]]) simp_all
  show ?thesis
    unfolding set_state_cmd_def
    by (simp only: unstop wake plain [OF stop] plain [OF ending] plain [OF suspend] plain [OF continue] plain [OF in_period]
        plain [OF start] plain [OF remove] plain [OF keeps_ret(1)] split: if_split) (simp add: keeps_hoare [OF keeps_ret(1)])
qed

section \<open>Runs\<close>

text \<open>
  What can happen to a job: its calls, the end and the calls of its tasks, commands, and the signals of the locks, the
  process class and the orders.
\<close>

datatype job_event =
    Job_called job_call
  | Task_called nat task_call
  | Task_closed nat
  | Commanded job_cmd
  | Task_started_at time
  | Task_killed nat bool duration
  | Stopped bool
  | Prepared_to_remove
  | Earlier_order time
  | Order_available
  | Locks_free
  | Requisite_there
  | Requisite_removed
  | Schedule_modified
  | Schedule_removed
  | Monitor_removed
  | Activated

definition job_step :: "nat \<Rightarrow> job_event \<Rightarrow> ('o engine, unit) operation" where
  "job_step j e =
     (case e of
        Job_called c \<Rightarrow> job_on_call j c
      | Task_called t c \<Rightarrow> task_on_call t c
      | Task_closed t \<Rightarrow> when_s (\<lambda>w. t_job (tasks w t) = j) (on_task_closed j t)
      | Commanded cmd \<Rightarrow> set_state_cmd j cmd
      | Task_started_at start \<Rightarrow> bind_s (start_task j start) (\<lambda>_. ret ())
      | Task_killed t immediately d \<Rightarrow> apply_s (kill_task j t immediately d)
      | Stopped end_all \<Rightarrow> apply_s (job_stop j end_all)
      | Prepared_to_remove \<Rightarrow> apply_s (job_on_prepare_to_remove j)
      | Earlier_order t \<Rightarrow> apply_s (signal_earlier_order j t)
      | Order_available \<Rightarrow> apply_s (on_order_possibly_available j)
      | Locks_free \<Rightarrow> apply_s (job_on_locks_available j)
      | Requisite_there \<Rightarrow> apply_s (job_on_requisite_loaded j)
      | Requisite_removed \<Rightarrow> apply_s (job_on_requisite_to_be_removed j)
      | Schedule_modified \<Rightarrow> job_on_schedule_modified j
      | Schedule_removed \<Rightarrow> job_on_schedule_to_be_removed j
      | Monitor_removed \<Rightarrow> apply_s (job_on_monitor_to_be_removed j)
      | Activated \<Rightarrow> bind_s (job_on_activate j) (\<lambda>_. ret ()))"

text \<open>A run: every event finds the engine that the one before has left, whether that ended with an exception or not.\<close>

fun job_run :: "nat \<Rightarrow> job_event list \<Rightarrow> 'o engine \<Rightarrow> 'o engine" where
  "job_run j [] w = w"
| "job_run j (e # es) w = job_run j es (snd (job_step j e w))"

text \<open>
  No \<^verbatim>\<open>unstop\<close> comes, and the job does not become active again, while tasks are running.
\<close>

definition unstops :: "job_event \<Rightarrow> bool" where
  "unstops e = (e = Commanded Sc_unstop \<or> e = Activated)"

fun unstopped_when_idle :: "nat \<Rightarrow> job_event list \<Rightarrow> 'o engine \<Rightarrow> bool" where
  "unstopped_when_idle j [] w = True"
| "unstopped_when_idle j (e # es) w =
     ((unstops e \<longrightarrow> j_running (jobs w j) = []) \<and> unstopped_when_idle j es (snd (job_step j e w)))"

lemma kept_kill_task: "job_ok j w \<Longrightarrow> job_ok j (kill_task j t b d w)"
  unfolding kill_task_def by (auto intro!: frame_intros ok.any_task)

lemma keeps_signals:
  "keeps (job_ok j) (apply_s (kill_task j t b d))" "keeps (job_ok j) (apply_s (job_stop j end_all))"
  "keeps (job_ok j) (apply_s (job_on_prepare_to_remove j))" "keeps (job_ok j) (apply_s (signal_earlier_order j due))"
  "keeps (job_ok j) (apply_s (on_order_possibly_available j))" "keeps (job_ok j) (apply_s (job_on_locks_available j))"
  "keeps (job_ok j) (apply_s (job_on_requisite_loaded j))" "keeps (job_ok j) (apply_s (job_on_requisite_to_be_removed j))"
  "keeps (job_ok j) (job_on_schedule_modified j)" "keeps (job_ok j) (job_on_schedule_to_be_removed j)"
  "keeps (job_ok j) (apply_s (job_on_monitor_to_be_removed j))"
  unfolding job_on_requisite_to_be_removed_def job_on_schedule_modified_def job_on_schedule_to_be_removed_def
    job_on_monitor_to_be_removed_def becomes_incomplete_def job_on_prepare_to_remove_def signal_earlier_order_def on_order_possibly_available_def
    job_on_locks_available_def job_on_requisite_loaded_def
  by (rule keep_rules kept_kill_task frame_intros | assumption | simp add: same_job_def)+

lemma job_step_ok:
  assumes "job_ok j w" "unstops e \<longrightarrow> j_running (jobs w j) = []"
  shows "job_ok j (snd (job_step j e w))"
proof (cases "e = Activated \<or> (\<exists>cmd. e = Commanded cmd)")
  case True
  then consider cmd where "e = Commanded cmd" | "e = Activated" by blast
  then show ?thesis
    using assms hoare_snd [OF hoare_bind_s [OF hoare_activate [of j] hoare_ret], of w "\<lambda>_. ()"]
    by cases (simp_all add: job_step_def unstops_def job_idle_def hoare_snd [OF hoare_set_state_cmd [of j]])
next
  case False
  have closed: "keeps (job_ok j) (when_s (\<lambda>w. t_job (tasks w t) = j) (on_task_closed j t))" for t
    unfolding keeps_def by (rule hoare_when_s [OF hoare_on_task_closed])
  have "keeps (job_ok j) (job_step j e)"
  proof (cases e)
    case (Commanded cmd)
    then show ?thesis using False by blast
  next
    case Activated
    then show ?thesis using False by blast
  qed (simp_all add: job_step_def closed ok.keeps_task_on_call keeps_job_on_call keeps_signals keeps_bind_s keeps_ret ok.keeps_start_task)
  then show ?thesis using assms(1) by (rule keepsD)
qed

text \<open> C3: A job never has more running tasks than \<open>max_tasks\<close> allows, whatever calls, commands and signals come, if \<^verbatim>\<open>unstop\<close>
  and the activation of the job come only when no task runs. A task is never running and in the queue.
\<close>

theorem tasks_within_limit:
  assumes "job_ok j w" "unstopped_when_idle j es w"
  shows "let x = jobs (job_run j es w) j in
     (j_running x \<noteq> [] \<longrightarrow> int (length (j_running x)) \<le> j_max_tasks x)
     \<and> distinct (j_running x @ j_queue x)
     \<and> (j_state x = Js_pending \<or> j_state x = Js_stopped \<longrightarrow> j_running x = [])"
proof -
  have "job_ok j (job_run j es w)"
    using assms by (induction es arbitrary: w) (auto intro: job_step_ok)
  then show ?thesis by (auto simp: job_ok_def job_at_def job_with_def Let_def)
qed

text \<open> C7: Starting tasks ends: as long as the job may start tasks there is room for one more, and each task that starts takes
  room. Afterwards the running tasks are within the limit.
\<close>

theorem starting_tasks_ends:
  assumes "job_ok j w"
  shows "\<exists>r w'. try_start_tasks_loop (tasks_fuel j w) j w = Some (r, w') \<and> job_ok j w'"
  using assms by (rule start_loop_ok)

end
