(* ===== verification/Job_Examples.thy ===== *)
theory Job_Examples
  imports Job_Runs Task_Ending
begin

text \<open>
  A small scheduler in which nothing from outside happens, for the witnesses; and what \<^verbatim>\<open>unstop\<close> does to the limit of a
  job whose tasks are still running.
\<close>

section \<open>A small scheduler\<close>

definition plain_rules :: "unit rules" where
  "plain_rules =
     \<lparr>answer = (\<lambda>q x. (Inr False, x)), answer_code = (\<lambda>q x. 0), fetch_rule = (\<lambda>t j now c x. (Inr None, x)),
      order_time_rule = (\<lambda>j x. never), period_rule = (\<lambda>j t x. Inr empty_period), single_start_rule = (\<lambda>j t x. Inr never),
      transition_rule = (\<lambda>t x. keep), chain_class_rule = (\<lambda>i x. 0)\<rparr>"

definition plain_job :: "job_state \<Rightarrow> nat list \<Rightarrow> nat list \<Rightarrow> job" where
  "plain_job s running queue =
     \<lparr>j_state = s, j_file_based_state = S_active, j_to_be_removed = False, j_has_folder = True, j_temporary = False,
      j_enabled = True, j_permanently_stopped = False, j_kind = Kind_process, j_stop_on_error = True,
      j_order_controlled = False, j_in_job_chain = False, j_process_class = 0, j_own_process_class = False,
      j_max_tasks = 1, j_min_tasks = 0, j_running = running, j_running_count = int (length running), j_queue = queue,
      j_start_min_tasks = False, j_start_once = False, j_start_once_for_directory = False, j_directory_changed = False,
      j_wake_when_in_period = False, j_waiting_for_process = False, j_try_again = False, j_has_locks = False,
      j_locks_enqueued = False, j_period = empty_period, j_next_start_time = never, j_next_single_start = never,
      j_repeat = Duration 0, j_delay_until = Time 0, j_delay_after_error = [], j_error_steps = 0, j_error = None,
      j_task_timeout = eternal, j_idle_timeout = Duration 5, j_force_idle_timeout = False, j_tasks_count = 0,
      j_step_count = 0, j_watched = [], j_watchers = [], j_db_next_start_time = never, j_db_stopped = False,
      j_calls = (\<lambda>c. never)\<rparr>"

definition plain_engine :: "job_state \<Rightarrow> nat list \<Rightarrow> nat list \<Rightarrow> unit engine" where
  "plain_engine s running queue =
     \<lparr>jobs = (\<lambda>j. plain_job s running queue), tasks = (\<lambda>t. new_task_of 0 True True (Time 1)),
      classes = (\<lambda>c. new_process_class []), class_known = (\<lambda>c. False), task_set = running, running_tasks_count = 0,
      job_priorities = [0], ignore_process_classes = True, scheduler_state = Sp_running, clock = Time 10,
      process_count = 0, next_process = 0, next_task = 9, rules = plain_rules, outer = ()\<rparr>"

lemma plain_simps [simp]:
  "j_running (plain_job s rs q) = rs" "j_queue (plain_job s rs q) = q" "j_max_tasks (plain_job s rs q) = 1"
  "j_state (plain_job s rs q) = s" "j_waiting_for_process (plain_job s rs q) = False"
  "jobs (plain_engine s rs q) j = plain_job s rs q" "next_task (plain_engine s rs q) = 9"
  "tasks (plain_engine s rs q) t = new_task_of 0 True True (Time 1)" "scheduler_state (plain_engine s rs q) = Sp_running"
  by (simp_all add: plain_job_def plain_engine_def)

lemma task_loop_ends_witness:
  "\<exists>r w'. task_loop loop_fuel 0 False 4 (Time 10) (plain_engine Js_pending [] [4]) = Some (r, w')"
  by (rule task_loop_ends) (simp add: operation_ok_def new_task_of_def)

lemma plain_ok: "job_ok 0 (plain_engine Js_pending [] [4])"
  by (simp add: job_ok_def job_at_def job_with_def)

lemma starting_tasks_ends_witness:
  "\<exists>r w'. try_start_tasks_loop (tasks_fuel 0 (plain_engine Js_pending [] [4])) 0 (plain_engine Js_pending [] [4]) = Some (r, w')
     \<and> job_ok 0 w'"
  by (rule starting_tasks_ends) (rule plain_ok)

text \<open>A job with its one task running: another start is enqueued, an order comes, and the job is stopped.\<close>

definition busy_job :: job where
  "busy_job =
     jobs (job_run 0 [Task_started_at (Time 20), Order_available, Commanded Sc_stop] (plain_engine Js_running [3] [4])) 0"

lemma busy_ok: "job_ok 0 (plain_engine Js_running [3] [4])"
  by (simp add: job_ok_def job_at_def job_with_def)

lemma tasks_within_limit_witness:
  "j_running busy_job = [3] \<and> j_queue busy_job = [4, 9] \<and> int (length (j_running busy_job)) \<le> j_max_tasks busy_job
     \<and> distinct (j_running busy_job @ j_queue busy_job)"
proof -
  have run: "j_running busy_job = [3]" "j_queue busy_job = [4, 9]" by code_simp+
  have "let x = busy_job in (j_running x \<noteq> [] \<longrightarrow> int (length (j_running x)) \<le> j_max_tasks x)
     \<and> distinct (j_running x @ j_queue x) \<and> (j_state x = Js_pending \<or> j_state x = Js_stopped \<longrightarrow> j_running x = [])"
    unfolding busy_job_def by (rule tasks_within_limit [OF busy_ok]) (simp add: unstops_def)
  with run show ?thesis by (simp add: Let_def)
qed

section \<open>unstop\<close>























section \<open>The queue\<close>

lemma queue_insert_in_order_witness:
  "\<exists>earlier later. [1, 2] = earlier @ later \<and> queue_insert_task (\<lambda>t. Time (of_nat t)) 1 [1, 2] = earlier @ 1 # later
     \<and> (\<forall>x \<in> set earlier. Time (of_nat x) \<le> Time (of_nat 1)) \<and> (\<forall>x \<in> set later. Time (of_nat 1) < Time (of_nat x))
     \<and> tasks_sorted (\<lambda>t. Time (of_nat t)) (queue_insert_task (\<lambda>t. Time (of_nat t)) 1 [1, 2])"
  by (rule queue_insert_in_order) (simp add: tasks_sorted_def time_order)

text \<open>Two tasks wait and are due, one earlier than the other.\<close>

definition two_waiting :: "unit engine" where
  "two_waiting = set_task 5 (\<lambda>x. x\<lparr>t_start_at := Time 3\<rparr>) (plain_engine Js_pending [] [4, 5])"

lemma queue_serves_earliest_witness:
  "get_task_from_queue 0 (Time 3) two_waiting = Some 4
     \<and> due_in_queue 0 (Time 3) two_waiting 4 \<and> due_in_queue 0 (Time 3) two_waiting 5
     \<and> t_start_at (tasks two_waiting 4) \<le> t_start_at (tasks two_waiting 5)
     \<and> queue_next_start_time 0 two_waiting \<le> t_start_at (tasks two_waiting 5)"
proof -
  have "tasks_sorted (start_at_of two_waiting) (j_queue (jobs two_waiting 0))" "j_state (jobs two_waiting 0) \<noteq> Js_error"
    by code_simp+
  note served = queue_serves_earliest [OF this, of "Time 3"]
  have "get_task_from_queue 0 (Time 3) two_waiting = Some 4" "j_queue (jobs two_waiting 0) = [4, 5]" by code_simp+
  moreover have "due_in_queue 0 (Time 3) two_waiting 5" by code_simp
  ultimately show ?thesis using served by simp
qed

lemma delay_of_greatest_reached_witness:
  "(\<exists>e \<in> set [(2, Duration 10), (5, Duration 60)]. fst e \<le> (3::int)
      \<and> (\<forall>e' \<in> set [(2, Duration 10), (5, Duration 60)]. fst e' \<le> 3 \<longrightarrow> fst e' \<le> fst e)
      \<and> delay_after_error [(2, Duration 10), (5, Duration 60)] 3 = snd e)
     \<or> (\<forall>e \<in> set [(2, Duration 10), (5, Duration 60)]. (3::int) < fst e)
        \<and> delay_after_error [(2, Duration 10), (5, Duration 60)] 3 = Duration 0"
  by (rule delay_of_greatest_reached) simp_all

section \<open>A task that is told to end\<close>

text \<open>A task that waits for the delay after a step, is told to end, and has a module instance that it has to kill.\<close>

definition leaving_engine :: "unit engine" where
  "leaving_engine =
     set_task 3 (\<lambda>x. x\<lparr>t_state := Ts_running_delayed, t_end := End_normal, t_instance := True\<rparr>)
       ((plain_engine Js_running [3] [])\<lparr>rules := plain_rules\<lparr>answer := (\<lambda>q x. (Inr True, x))\<rparr>\<rparr>)"

lemma ending_task_is_not_forgotten_witness:
  "\<exists>w'. task_do_something 3 leaving_engine = (Inr True, w') \<and> waits 3 (clock leaving_engine) w'"
proof -
  have "fst (task_do_something 3 leaving_engine) = Inr True" by code_simp
  then obtain w' where "task_do_something 3 leaving_engine = (Inr True, w')" by (metis prod.collapse)
  moreover have "3 < next_task leaving_engine" "leaves 3 leaving_engine" by code_simp+
  ultimately show ?thesis using ending_task_is_not_forgotten [of 3 leaving_engine True w'] by blast
qed

end
