(* ===== verification/Spec2Isabelle.thy ===== *)
theory Spec2Isabelle
  imports Scheduler_Prelude Scheduler_Path Lock_Correctness Typed_Calls Requisites File_Based_Life
    Directory_Merge Schedule_Covering Order_System Chain_Linked Order_Progress Order_Replacing Order_Starts
    Process_Pool Task_Ending Job_Examples
begin

text \<open>
  A model of the kernel of the scheduler, and what makes it correct. The kernel is the C++ code in
  \<^verbatim>\<open>src/engine-kernelcpp/scheduler\<close>; file names below are relative to this directory.

  \<^bold>\<open>The program.\<close> The scheduler starts \<open>tasks\<close> of \<open>jobs\<close>. A job is a program with rules that say when it runs: by its
  schedule, by a command, when a directory changes, or when an order waits for it. \<open>Orders\<close> go through \<open>job chains\<close>;
  each node of a job chain has a queue for the job that works there. A task needs a process of its \<open>process class\<close>,
  and the \<open>locks\<close> its job uses. Jobs, job chains, locks, schedules and process classes are \<open>file based objects\<close>: they
  are read from files in folders, depend on each other, and are replaced or removed while the scheduler runs. All this
  is done by one thread. Everything that has to happen later is a \<open>timed call\<close> in one queue.

  \<^bold>\<open>The theories and the code.\<close>

  \<^item> \<open>Scheduler_Prelude\<close>: exceptions as values (\<open>Xc\<close> with the code of the message, \<open>Assertion\<close>), operations that may throw
    and change the state also when they throw (\<open>operation\<close>, with \<open>steps\<close>, \<open>when_s\<close>, \<open>if_s\<close>, \<open>bind_s\<close>, \<open>catch_s\<close>), triples for
    them (\<open>hoare\<close>, \<open>keeps\<close>), strings, and lemmas about lists.
  \<^item> \<open>Scheduler_Path\<close>: \<^verbatim>\<open>path.cxx\<close>.
  \<^item> \<open>Exclusion_Interface\<close>, \<open>Lock_Object\<close>, \<open>Lock_System\<close>, \<open>Lock_Correctness\<close>: \<^verbatim>\<open>lock.h\<close>, \<^verbatim>\<open>lock.cxx\<close>. One lock, then
    requestors, uses and holders over all locks.
  \<^item> \<open>Scheduler_Time\<close>, \<open>Call_Queue\<close>, \<open>Typed_Calls\<close>: \<^verbatim>\<open>spooler_time.h\<close>, \<^verbatim>\<open>spooler_time.cxx\<close>, \<^verbatim>\<open>Timed_call.h\<close>,
    \<^verbatim>\<open>Timed_call.cxx\<close>, and the queue of calls, which is written in Scala (\<^verbatim>\<open>StandardCallQueue\<close>).
  \<^item> \<open>File_Based_State\<close>, \<open>Requisites\<close>, \<open>File_Based_Life\<close>, \<open>Directory_Merge\<close>: \<^verbatim>\<open>folder.h\<close>, \<^verbatim>\<open>subsystem.h\<close>,
    \<^verbatim>\<open>folder_File_based.cxx\<close>, \<^verbatim>\<open>folder_Typed_folder.cxx\<close>, \<^verbatim>\<open>folder_Dependant.cxx\<close>, \<^verbatim>\<open>folder_Dependencies.cxx\<close>.
  \<^item> \<open>Calendar_Dates\<close>, \<open>Schedule_Period\<close>, \<open>Schedule_Days\<close>, \<open>Schedule_Search\<close>, \<open>Schedule_Covering\<close>: \<^verbatim>\<open>schedule.h\<close>,
    \<^verbatim>\<open>schedule.cxx\<close>, and the dates of \<^verbatim>\<open>../kram/sosdate.cxx\<close>.
  \<^item> \<open>Order_Data\<close>, \<open>Order_Queue\<close>, \<open>Order_Moves\<close>, \<open>Order_Life\<close>, \<open>Order_Nested\<close>, \<open>Order_Starts\<close>, \<open>Order_Placing\<close>,
    \<open>Order_Transition\<close>, \<open>Chain_Setup\<close>: \<^verbatim>\<open>spooler_order.h\<close>, \<^verbatim>\<open>spooler_order.cxx\<close>, \<^verbatim>\<open>Order.cxx\<close>. The theories
    \<open>Order_Invariant\<close>, \<open>Order_Steps\<close>, \<open>Order_System\<close>, \<open>Order_Progress\<close>, \<open>Order_Replacing\<close> and \<open>Chain_Linked\<close> are about them.
  \<^item> \<open>Process_Classes\<close>, \<open>Process_Pool\<close>: \<^verbatim>\<open>spooler_process.h\<close>, \<^verbatim>\<open>spooler_process.cxx\<close>.
  \<^item> \<open>Job_States\<close>, \<open>Job_Data\<close>, \<open>Job_Schedule\<close>, \<open>Job_Start\<close>: \<^verbatim>\<open>spooler_job.h\<close>, \<^verbatim>\<open>spooler_job.cxx\<close>.
  \<^item> \<open>Task_Basics\<close>, \<open>Task_Orders\<close>, \<open>Task_Steps\<close>, \<open>Task_Life\<close>: \<^verbatim>\<open>spooler_task.h\<close>, \<^verbatim>\<open>spooler_task.cxx\<close>. The theories
    \<open>Task_Frames\<close>, \<open>Task_Triples\<close>, \<open>Task_Branches\<close>, \<open>Task_Termination\<close>, \<open>Task_Ending\<close>, \<open>Task_Queue\<close>, \<open>Task_Keeps\<close>,
    \<open>Job_Limit\<close>, \<open>Job_Runs\<close> and \<open>Job_Examples\<close> are about jobs and tasks.

  \<^bold>\<open>State.\<close> An object is a record with the fields of its class. Objects that refer to each other are in a store and are
  referred to by number: \<open>order_world\<close> holds orders, nodes and job chains, \<open>engine\<close> holds jobs, tasks and process
  classes, the worlds of locks, requisites and schedules hold theirs. A function of the code is a function of the
  whole store. Enumerations that the code compares with \<^verbatim>\<open><\<close> are instances of \<open>linorder\<close>.

  \<^bold>\<open>What the lemmas show.\<close>

  \<^item> Locks: uses that conflict are never held at the same time, a lock behaves as a readers-writer lock, holding all
    locks of a requestor succeeds when they are available, releasing never fails and leaves nothing held.
  \<^item> Calls: an object has at most one pending call of each type, and it is the one in the queue.
  \<^item> File based objects: who is registered for an object is told about it; the outcome of activating; the comparison
    with a directory finds each change once.
  \<^item> Schedules: the search finds the first day with a period; covering schedules never overlap, the one found is the
    active one; the next start on the grid of a period is the least.
  \<^item> Orders: over all sequences of calls (\<open>order_steps\<close>), an order is in at most one queue, that of its node, queues are in processing
    order, and a task gets an order that may be processed, if there is one. \<open>call_allowed\<close> is the list of what is left out:
    the failed step of a queued order with an operation of the web service, which loses its node (\<^verbatim>\<open>Order.cxx\<close>, line 3048), and for
    the processing order the forced error state and resuming orders of the blacklist or distributed orders in a
    queue. The limit of a job chain is kept; an order without special features whose steps succeed comes to the end of its job chain. Initializing a job chain accepts exactly those whose skipped nodes lead somewhere.
  \<^item> Process classes: the limit of processes is kept by \<open>select_process_if_available\<close> itself, whatever the number of processes of
    the other classes, which changes at any time; a process that becomes free is announced to one who waits for it,
    unless a task waits behind a job or the limit of the whole scheduler is reached.
  \<^item> Tasks: \<^verbatim>\<open>do_something\<close> ends, whatever the module instance answers or throws; a task that is told to end is not
    forgotten.
  \<^item> Jobs: starting tasks ends; \<^verbatim>\<open>max_tasks\<close> is kept by every call and command, except by \<^verbatim>\<open>unstop\<close> while tasks run, after
    which a job that is full may start another task; the queue of tasks serves the earliest first.

  \<^bold>\<open>Interfaces.\<close> A locale states what one part relies on in another one. \<open>exclusion\<close> (holding and releasing) is
  interpreted for one lock, for a lock with a limit, and for all locks. \<open>call_queue\<close> is interpreted for the queue
  of the code. \<open>file_based_class\<close>, the virtual functions of a class of objects, is interpreted for locks.
  \<open>queue_discipline\<close>, a comparison by which a queue inserts, is interpreted for the two comparisons of orders. \<open>coming_quality\<close>, a
  property of days that the search skips, is interpreted for the three treatments of holidays. \<open>quiet_frame\<close>, \<open>task_frame\<close> and
  \<open>job_frame\<close> are properties of the engine that ever more operations keep; they are interpreted for the
  frame condition \<open>minor\<close>, for the limits and the states of a job, and for a task in its end.

  \<^bold>\<open>Loops and bounds.\<close> A loop that is not structurally recursive has fuel.

  \<^item> \<open>loop_fuel\<close> is 600 for the loop of \<^verbatim>\<open>Task::do_something\<close>; the theory \<open>Task_Termination\<close> shows that at most 368 turns are
    needed, by a measure of how far the task is.
  \<^item> \<open>tasks_fuel\<close> is \<^verbatim>\<open>max_tasks\<close> + 2 for the loop that starts tasks; \<open>Job_Runs\<close> shows that it is enough.
  \<^item> \<open>referenced_node_from_state\<close> has the 1000 turns of the code itself, with its exception \<^verbatim>\<open>SCHEDULER-403\<close>.
  \<^item> \<open>end_state_calls\<close> is 3: \<^verbatim>\<open>handle_end_state\<close> calls itself when the initial state of a repeated order is an end
    state too; the order is in its initial state after one more call at the latest.
  \<^item> \<open>nested_rounds\<close> is 99999 for the search of a nested job chain with a job. The loop of the code has no bound; no
    property depends on it.
  \<^item> \<open>nested_life\<close>, which closes the circle of nested job chains, has a number of turns as its argument.
  \<^item> The check of skipped nodes (\<open>follow_checked\<close>) is a partial function; \<open>Chain_Linked\<close> shows that it always returns.

  \<^bold>\<open>Parameters.\<close> What is not decided by the modelled code is an argument. \<open>rules\<close> of the engine answers what the module
  instance, the locks, the order queues, the schedule, the database and the watched directories answer, with a
  state \<open>outer\<close> of its own: it may say yes or no, throw, and change \<open>outer\<close> in any way, and no theorem about
  jobs and tasks restricts it. \<open>order_hooks\<close>, \<open>life_hooks\<close>, \<open>place_hooks\<close> and \<open>chain_hooks\<close> stand for what orders and job chains ask of
  jobs, nested job chains, schedules and files; \<open>fb_hooks\<close> for the virtual functions of a file based object; functions for time zones (Java) and for the script
  that computes start times.

  \<^bold>\<open>Simplifications.\<close>

  \<^item> Of an exception only the code of its message is kept. Where the code changes the text or the code of an
    exception on its way, this is left out.
  \<^item> A time is an exact rational number of seconds, rounded to milliseconds where the code rounds. Rounding errors of
    \<^verbatim>\<open>double\<close> are not covered.
  \<^item> The clock stands still during one operation.
  \<^item> The code is that of a release build: blocks under \<^verbatim>\<open>Z_DEBUG\<close> are left out. The one in \<^verbatim>\<open>Order_queue::add_order\<close> is
    stated beside it (\<open>debug_check\<close>), since it contradicts the order of the queue.
  \<^item> Integers that count objects are unbounded. The number of an interval on the grid of a period is converted to 32 bits as
    the code does (\<open>to_int32\<close>, \<open>int32_Suc\<close>). \<open>Process_Classes\<close> keeps the conversion of a negative limit to an unsigned
    number. \<^verbatim>\<open>max_tasks\<close> is not negative, since it is read by \<^verbatim>\<open>uint_getAttribute\<close>.
  \<^item> A path is its own normalized path in the theories other than \<open>Scheduler_Path\<close>; folders that hide each other are not
    distinguished.
  \<^item> Log, mail, history, events for Java and answers in XML are left out; that a record is written to the database is a
    signal where the code depends on it.
  \<^item> In the end of a task the exception that \<^verbatim>\<open>_history.end()\<close> may throw is left out.
  \<^item> Watching directories is that of Unix.

  \<^bold>\<open>Not modelled.\<close> The tree of folders and the observer of directories, the main loop, modules and monitors and the
  processes they run in, file order sources, the cluster, the database, commands, XML, HTTP and TCP, the
  supervisor, mail and log, and the interfaces for COM, Java and scripts: input and output, and glue between
  languages. The libraries \<^verbatim>\<open>zschimmer\<close>, \<^verbatim>\<open>kram\<close>, \<^verbatim>\<open>file\<close> and \<^verbatim>\<open>scripting_engine\<close> are modelled only as far as the
  modelled code uses them; \<^verbatim>\<open>js\<close> and \<^verbatim>\<open>3rd_party\<close> are vendored.
\<close>

end
